(* ===== verification/Prelude.thy ===== *)
theory Prelude
  imports Main "HOL-Library.Word" "HOL-Library.List_Lexorder" "HOL-Library.Product_Lexorder"
begin

text \<open>
  Shared vocabulary of the development: the machine integers of the broker, the outcome of
  a fallible Rust function, little-endian byte runs, and the generic list lemmas the
  component theories use.

  \<^item> A Rust \<^verbatim>\<open>Result<T, E>\<close> is \<^verbatim>\<open>('e, 'a) rres\<close>: \<^verbatim>\<open>Ok\<close>, \<^verbatim>\<open>Err\<close>, and \<^verbatim>\<open>Panicked\<close> for
    an \<^verbatim>\<open>expect\<close> that fails. A stateful function returns the pair of its result and the state it
    leaves behind, so the state after an error or a panic is visible too.
  \<^item> Machine integers are words; \<^verbatim>\<open>+\<close> wraps as it does in a release build, \<^verbatim>\<open>checked_add\<close>
    is an option.
\<close>

unbundle bit_operations_syntax

type_synonym u8 = "8 word"
type_synonym u16 = "16 word"
type_synonym u32 = "32 word"
type_synonym u64 = "64 word"
type_synonym bytes = "8 word list"

section \<open>Outcomes\<close>

datatype ('e, 'a) rres = Ok 'a | Err 'e | Panicked

fun rbind :: "('e, 'a) rres \<Rightarrow> ('a \<Rightarrow> ('e, 'b) rres) \<Rightarrow> ('e, 'b) rres" where
  "rbind (Ok a) f = f a"
| "rbind (Err e) f = Err e"
| "rbind Panicked f = Panicked"

fun map_ok :: "('a \<Rightarrow> 'b) \<Rightarrow> ('e, 'a) rres \<Rightarrow> ('e, 'b) rres" where
  "map_ok f (Ok a) = Ok (f a)"
| "map_ok f (Err e) = Err e"
| "map_ok f Panicked = Panicked"

fun map_err :: "('e \<Rightarrow> 'f) \<Rightarrow> ('e, 'a) rres \<Rightarrow> ('f, 'a) rres" where
  "map_err f (Ok a) = Ok a"
| "map_err f (Err e) = Err (f e)"
| "map_err f Panicked = Panicked"

fun is_ok :: "('e, 'a) rres \<Rightarrow> bool" where
  "is_ok (Ok a) = True"
| "is_ok (Err e) = False"
| "is_ok Panicked = False"

fun ok_or :: "'a option \<Rightarrow> 'e \<Rightarrow> ('e, 'a) rres" where
  "ok_or None e = Err e"
| "ok_or (Some a) e = Ok a"

text \<open>The iterator idiom of collecting a sequence of results: the first failure wins.\<close>

fun rmap :: "('a \<Rightarrow> ('e, 'b) rres) \<Rightarrow> 'a list \<Rightarrow> ('e, 'b list) rres" where
  "rmap f [] = Ok []"
| "rmap f (x # xs) = rbind (f x) (\<lambda>y. rbind (rmap f xs) (\<lambda>ys. Ok (y # ys)))"

lemma rbind_eq_Ok [simp]: "rbind r f = Ok b \<longleftrightarrow> (\<exists>a. r = Ok a \<and> f a = Ok b)"
  by (cases r) auto

lemma rbind_eq_Panicked: "rbind r f = Panicked \<longleftrightarrow> r = Panicked \<or> (\<exists>a. r = Ok a \<and> f a = Panicked)"
  by (cases r) auto

lemma map_ok_eq_Ok [simp]: "map_ok f r = Ok b \<longleftrightarrow> (\<exists>a. r = Ok a \<and> b = f a)"
  by (cases r) auto

lemma map_ok_eq_Err [simp]: "map_ok f r = Err e \<longleftrightarrow> r = Err e"
  by (cases r) auto

lemma map_ok_eq_Panicked [simp]: "map_ok f r = Panicked \<longleftrightarrow> r = Panicked"
  by (cases r) auto

lemma map_err_eq_Ok [simp]: "map_err f r = Ok b \<longleftrightarrow> r = Ok b"
  by (cases r) auto

lemma map_err_eq_Err [simp]: "map_err f r = Err e \<longleftrightarrow> (\<exists>d. r = Err d \<and> e = f d)"
  by (cases r) auto

lemma map_err_eq_Panicked [simp]: "map_err f r = Panicked \<longleftrightarrow> r = Panicked"
  by (cases r) auto

lemma ok_or_eq_Ok [simp]: "ok_or x e = Ok a \<longleftrightarrow> x = Some a"
  by (cases x) auto

lemma ok_or_eq_Err [simp]: "ok_or x e = Err d \<longleftrightarrow> x = None \<and> d = e"
  by (cases x) auto

lemma ok_or_not_Panicked [simp]: "ok_or x e \<noteq> Panicked"
  by (cases x) auto

lemma is_ok_iff: "is_ok r \<longleftrightarrow> (\<exists>a. r = Ok a)"
  by (cases r) auto

lemma rmap_length: "rmap f xs = Ok ys \<Longrightarrow> length ys = length xs"
  by (induction xs arbitrary: ys) auto

lemma rmap_nth: "rmap f xs = Ok ys \<Longrightarrow> i < length xs \<Longrightarrow> f (xs ! i) = Ok (ys ! i)"
  by (induction xs arbitrary: ys i) (auto simp: nth_Cons')

lemma rmap_total: "(\<And>x. x \<in> set xs \<Longrightarrow> f x = Ok (g x)) \<Longrightarrow> rmap f xs = Ok (map g xs)"
  by (induction xs) auto

lemma rmap_Ok_set: "rmap f xs = Ok ys \<Longrightarrow> y \<in> set ys \<Longrightarrow> \<exists>x\<in>set xs. f x = Ok y"
  by (induction xs arbitrary: ys) auto

section \<open>Machine integers\<close>

definition checked_add :: "'a::len word \<Rightarrow> 'a word \<Rightarrow> 'a word option" where
  "checked_add a b = (if unat a + unat b < 2 ^ LENGTH('a) then Some (a + b) else None)"

lemma checked_add_Some_unat: "checked_add a b = Some c \<Longrightarrow> unat c = unat a + unat b"
  by (auto simp: checked_add_def unat_word_ariths split: if_splits)

lemma checked_add_None_iff:
  "checked_add (a :: 'a::len word) b = None \<longleftrightarrow> 2 ^ LENGTH('a) \<le> unat a + unat b"
  by (auto simp: checked_add_def)

lemma checked_add_ge: "checked_add a b = Some c \<Longrightarrow> a \<le> c"
  by (drule checked_add_Some_unat) (simp add: word_le_nat_alt)

text \<open>\<^verbatim>\<open>saturating_add\<close> on words.\<close>

definition saturating_add :: "'a::len word \<Rightarrow> 'a word \<Rightarrow> 'a word" where
  "saturating_add a b = (case checked_add a b of None \<Rightarrow> - 1 | Some c \<Rightarrow> c)"

lemma saturating_add_ge: "a \<le> saturating_add a b"
  by (auto simp: saturating_add_def checked_add_ge split: option.splits)

lemma unat_less_pow: "unat (w :: 'a::len word) < 2 ^ LENGTH('a)"
  by (rule unsigned_less)

lemma unat_u32_less: "unat (w :: u32) < 4294967296"
  using unat_less_pow[of w] by simp

lemma unat_u64_less: "unat (w :: u64) < 18446744073709551616"
  using unat_less_pow[of w] by simp

lemma of_nat_unat_eq [simp]: "(of_nat (unat (w :: 'a::len word)) :: 'a word) = w"
  by simp

lemma unat_eqD: "unat (v :: 'a::len word) = unat w \<Longrightarrow> v = w"
  by (metis of_nat_unat_eq)

lemma unat_of_nat_small: "n < 2 ^ LENGTH('a) \<Longrightarrow> unat (of_nat n :: 'a::len word) = n"
  by (simp add: unat_of_nat)

lemma of_nat_u64_inject:
  assumes "n < 2 ^ 64" "m < 2 ^ 64"
  shows "(of_nat n :: u64) = of_nat m \<longleftrightarrow> n = m"
proof -
  have "unat (of_nat n :: u64) = n" "unat (of_nat m :: u64) = m"
    using assms by (simp_all add: unat_of_nat_small)
  then show ?thesis by metis
qed

section \<open>Little-endian byte runs\<close>

fun le_bytes :: "nat \<Rightarrow> nat \<Rightarrow> bytes" where
  "le_bytes 0 n = []"
| "le_bytes (Suc k) n = of_nat (n mod 256) # le_bytes k (n div 256)"

fun from_le :: "bytes \<Rightarrow> nat" where
  "from_le [] = 0"
| "from_le (b # bs) = unat b + 256 * from_le bs"

lemma length_le_bytes [simp]: "length (le_bytes k n) = k"
  by (induction k arbitrary: n) auto

lemma unat_of_nat_byte: "unat (of_nat (n mod 256) :: u8) = n mod 256"
  by (rule unat_of_nat_small) simp

lemma from_le_le_bytes: "n < 256 ^ k \<Longrightarrow> from_le (le_bytes k n) = n"
proof (induction k arbitrary: n)
  case 0
  then show ?case by simp
next
  case (Suc k)
  from Suc.prems have "n div 256 < 256 ^ k"
    by (simp add: less_mult_imp_div_less mult.commute)
  then have "from_le (le_bytes k (n div 256)) = n div 256" by (rule Suc.IH)
  then show ?case using unat_of_nat_byte[of n] by simp
qed

lemma from_le_bound: "from_le bs < 256 ^ length bs"
proof (induction bs)
  case Nil
  then show ?case by simp
next
  case (Cons b bs)
  have "unat b < 256" using unsigned_less[of b] by simp
  with Cons show ?case by simp
qed

lemma le_bytes_inject:
  "n < 256 ^ k \<Longrightarrow> m < 256 ^ k \<Longrightarrow> le_bytes k n = le_bytes k m \<longleftrightarrow> n = m"
  by (metis from_le_le_bytes)

definition u32_to_le_bytes :: "u32 \<Rightarrow> bytes" where
  "u32_to_le_bytes w = le_bytes 4 (unat w)"

definition u32_from_le_bytes :: "bytes \<Rightarrow> u32" where
  "u32_from_le_bytes bs = of_nat (from_le bs)"

definition u64_to_le_bytes :: "u64 \<Rightarrow> bytes" where
  "u64_to_le_bytes w = le_bytes 8 (unat w)"

lemma length_u32_to_le_bytes [simp]: "length (u32_to_le_bytes w) = 4"
  by (simp add: u32_to_le_bytes_def)

lemma length_u64_to_le_bytes [simp]: "length (u64_to_le_bytes w) = 8"
  by (simp add: u64_to_le_bytes_def)

lemma u32_le_roundtrip [simp]: "u32_from_le_bytes (u32_to_le_bytes w) = w"
proof -
  have "unat w < 256 ^ 4" using unsigned_less[of w] by simp
  then show ?thesis
    by (simp only: u32_to_le_bytes_def u32_from_le_bytes_def from_le_le_bytes of_nat_unat_eq)
qed

lemma u64_to_le_bytes_inject [simp]: "u64_to_le_bytes v = u64_to_le_bytes w \<longleftrightarrow> v = w"
proof -
  have "unat v < 256 ^ 8" "unat w < 256 ^ 8"
    using unsigned_less[of v] unsigned_less[of w] by simp_all
  then have "u64_to_le_bytes v = u64_to_le_bytes w \<longleftrightarrow> unat v = unat w"
    by (simp only: u64_to_le_bytes_def le_bytes_inject)
  then show ?thesis by (metis of_nat_unat_eq)
qed

section \<open>Lists\<close>

lemma map_of_filter_neq:
  "map_of (filter (\<lambda>(a, b). a \<noteq> k) ps) x = (if x = k then None else map_of ps x)"
  by (induction ps) auto

lemma sorted_wrt_map_filter:
  "sorted_wrt R (map f xs) \<Longrightarrow> sorted_wrt R (map f (filter P xs))"
  by (induction xs) auto

lemma append_eq_same_length:
  "length xs = length ys \<Longrightarrow> xs @ us = ys @ vs \<longleftrightarrow> xs = ys \<and> us = vs"
  by simp

lemma take_max_filter_Suc:
  "n < length xs \<Longrightarrow> filter P (take (Suc n) xs) = filter P (take n xs) @ (if P (xs ! n) then [xs ! n] else [])"
  by (simp add: take_Suc_conv_app_nth)

end
