(* ===== verification/Text.thy ===== *)
theory Text
  imports Prelude
begin

text \<open>
  Rust strings and the parts of the standard library's text handling that the broker uses.

  A \<^verbatim>\<open>str\<close> is the list of its Unicode scalar values (\<^verbatim>\<open>chars()\<close>), as natural numbers; the
  lexicographic order on these lists is Rust's order on \<^verbatim>\<open>String\<close>, because UTF-8 keeps the
  order of code points. \<^verbatim>\<open>as_bytes()\<close> is the UTF-8 encoding \<^verbatim>\<open>str_bytes\<close>, proved injective.
  \<^verbatim>\<open>trim\<close>, the ASCII classes, substring search and the decimal and hexadecimal formats of
  \<^verbatim>\<open>format!\<close> are written out as the standard library documents them.
\<close>

type_synonym rstring = "nat list"

definition str :: "string \<Rightarrow> rstring" where
  "str s = map of_char s"

section \<open>White space and trimming\<close>

text \<open>The Unicode \<^verbatim>\<open>White_Space\<close> property, which \<^verbatim>\<open>char::is_whitespace\<close> tests.\<close>

definition is_white_space :: "nat \<Rightarrow> bool" where
  "is_white_space c \<longleftrightarrow>
     (9 \<le> c \<and> c \<le> 13) \<or> c = 32 \<or> c = 133 \<or> c = 160 \<or> c = 5760 \<or>
     (8192 \<le> c \<and> c \<le> 8202) \<or> c = 8232 \<or> c = 8233 \<or> c = 8239 \<or> c = 8287 \<or> c = 12288"

definition trim :: "rstring \<Rightarrow> rstring" where
  "trim s = rev (dropWhile is_white_space (rev (dropWhile is_white_space s)))"

definition trimmed :: "rstring \<Rightarrow> bool" where
  "trimmed s \<longleftrightarrow> s = [] \<or> (\<not> is_white_space (hd s) \<and> \<not> is_white_space (last s))"

lemma trim_of_trimmed: "trimmed s \<Longrightarrow> trim s = s"
proof (cases s)
  case Nil
  then show ?thesis by (simp add: trim_def)
next
  case (Cons c cs)
  assume "trimmed s"
  with Cons have h: "\<not> is_white_space c" and l: "\<not> is_white_space (last s)"
    by (auto simp: trimmed_def)
  from h Cons have "dropWhile is_white_space s = s" by simp
  moreover have "dropWhile is_white_space (rev s) = rev s"
  proof (cases "rev s")
    case Nil
    then show ?thesis by simp
  next
    case (Cons d ds)
    then have "d = last s" by (metis hd_rev list.sel(1))
    with l have "\<not> is_white_space d" by simp
    with Cons show ?thesis by (simp del: rev_eq_Cons_iff)
  qed
  ultimately show ?thesis by (simp add: trim_def)
qed

lemma last_dropWhile: "dropWhile P xs \<noteq> [] \<Longrightarrow> last (dropWhile P xs) = last xs"
  by (metis append_Nil append_self_conv2 last_appendR takeWhile_dropWhile_id)

lemma trimmed_trim: "trimmed (trim s)"
proof (cases "trim s = []")
  case True
  then show ?thesis by (simp only: trimmed_def simp_thms)
next
  case False
  define a where "a = dropWhile is_white_space s"
  define b where "b = dropWhile is_white_space (rev a)"
  have t: "trim s = rev b" by (simp add: trim_def a_def b_def)
  with False have b: "b \<noteq> []" by simp
  then have a: "a \<noteq> []" by (auto simp: b_def)
  have "last (trim s) = hd b" by (simp add: t last_rev)
  moreover have "\<not> is_white_space (hd b)" 
    using hd_dropWhile[of is_white_space "rev a"] b by (simp add: b_def)
  moreover have "hd (trim s) = hd a"
    using last_dropWhile[of is_white_space "rev a"] b by (simp add: t hd_rev last_rev b_def)
  moreover have "\<not> is_white_space (hd a)" 
    using hd_dropWhile[of is_white_space s] a by (simp add: a_def)
  ultimately show ?thesis by (simp add: trimmed_def)
qed

lemma trim_trim [simp]: "trim (trim s) = trim s"
  by (rule trim_of_trimmed) (rule trimmed_trim)

lemma set_trim: "set (trim s) \<subseteq> set s"
  by (auto simp: trim_def dest!: set_dropWhileD)

lemma length_trim: "length (trim s) \<le> length s"
  using le_trans [OF length_dropWhile_le [of is_white_space "rev (dropWhile is_white_space s)"]]
    length_dropWhile_le [of is_white_space s]
  by (simp add: trim_def)

section \<open>Character classes and substrings\<close>

definition is_ascii_digit :: "nat \<Rightarrow> bool" where
  "is_ascii_digit c \<longleftrightarrow> 48 \<le> c \<and> c \<le> 57"

definition is_ascii_alphanumeric :: "nat \<Rightarrow> bool" where
  "is_ascii_alphanumeric c \<longleftrightarrow>
     is_ascii_digit c \<or> (65 \<le> c \<and> c \<le> 90) \<or> (97 \<le> c \<and> c \<le> 122)"

definition starts_with :: "rstring \<Rightarrow> rstring \<Rightarrow> bool" where
  "starts_with p s \<longleftrightarrow> take (length p) s = p"

definition ends_with :: "rstring \<Rightarrow> rstring \<Rightarrow> bool" where
  "ends_with p s \<longleftrightarrow> starts_with (rev p) (rev s)"

fun contains_str :: "rstring \<Rightarrow> rstring \<Rightarrow> bool" where
  "contains_str p [] \<longleftrightarrow> p = []"
| "contains_str p (c # cs) \<longleftrightarrow> starts_with p (c # cs) \<or> contains_str p cs"

lemma contains_str_iff: "contains_str p s \<longleftrightarrow> (\<exists>u v. s = u @ p @ v)"
proof (induction s)
  case Nil
  then show ?case by simp
next
  case (Cons c cs)
  have "starts_with p (c # cs) \<longleftrightarrow> (\<exists>v. c # cs = p @ v)"
    by (metis append_take_drop_id starts_with_def append_eq_conv_conj)
  with Cons have "contains_str p (c # cs) \<longleftrightarrow>
      (\<exists>v. c # cs = [] @ p @ v) \<or> (\<exists>u v. c # cs = (c # u) @ p @ v)"
    by simp
  also have "\<dots> \<longleftrightarrow> (\<exists>u v. c # cs = u @ p @ v)"
    by (metis (no_types) append_Cons list.inject list.exhaust append_Nil)
  finally show ?case .
qed

section \<open>UTF-8\<close>

definition is_code_point :: "nat \<Rightarrow> bool" where
  "is_code_point c \<longleftrightarrow> c < 1114112"

definition valid_str :: "rstring \<Rightarrow> bool" where
  "valid_str s \<longleftrightarrow> list_all is_code_point s"

definition utf8_char :: "nat \<Rightarrow> nat list" where
  "utf8_char c =
     (if c < 128 then [c]
      else if c < 2048 then [192 + c div 64, 128 + c mod 64]
      else if c < 65536 then [224 + c div 4096, 128 + c div 64 mod 64, 128 + c mod 64]
      else [240 + c div 262144, 128 + c div 4096 mod 64, 128 + c div 64 mod 64, 128 + c mod 64])"

definition utf8 :: "rstring \<Rightarrow> nat list" where
  "utf8 s = concat (map utf8_char s)"

definition str_bytes :: "rstring \<Rightarrow> bytes" where
  "str_bytes s = map of_nat (utf8 s)"

text \<open>The reader of one character, which the injectivity proof uses.\<close>

fun utf8_head :: "nat list \<Rightarrow> nat \<times> nat list" where
  "utf8_head [] = (0, [])"
| "utf8_head (b # bs) =
     (if b < 128 then (b, bs)
      else if b < 224 then ((b - 192) * 64 + (bs ! 0 - 128), drop 1 bs)
      else if b < 240 then ((b - 224) * 4096 + (bs ! 0 - 128) * 64 + (bs ! 1 - 128), drop 2 bs)
      else ((b - 240) * 262144 + (bs ! 0 - 128) * 4096 + (bs ! 1 - 128) * 64 + (bs ! 2 - 128),
            drop 3 bs))"

lemma div_mod_64: "(c :: nat) div 64 * 64 + c mod 64 = c"
  by simp

lemma split3_aux: "(a :: nat) * 64 + b = q \<Longrightarrow> q * 64 + m = c \<Longrightarrow> a * 4096 + b * 64 + m = c"
  by simp

lemma utf8_split3: "(c :: nat) div 4096 * 4096 + c div 64 mod 64 * 64 + c mod 64 = c"
proof (rule split3_aux)
  show "c div 4096 * 64 + c div 64 mod 64 = c div 64"
    using div_mult2_eq[of c 64 64] div_mult_mod_eq[of "c div 64" 64] by simp
  show "c div 64 * 64 + c mod 64 = c" by (rule div_mult_mod_eq)
qed

lemma utf8_split4:
  "(c :: nat) div 262144 * 262144 + c div 4096 mod 64 * 4096 + c div 64 mod 64 * 64 + c mod 64 = c"
proof -
  have "c div 262144 = c div 4096 div 64" using div_mult2_eq[of c 4096 64] by simp
  then have "c div 262144 * 64 + c div 4096 mod 64 = c div 4096"
    using div_mult_mod_eq[of "c div 4096" 64] by simp
  with utf8_split3[of c] show ?thesis by simp
qed

lemma utf8_head_char:
  assumes "is_code_point c"
  shows "utf8_head (utf8_char c @ bs) = (c, bs)"
proof -
  consider "c < 128" | "128 \<le> c" "c < 2048" | "2048 \<le> c" "c < 65536" | "65536 \<le> c"
    by linarith
  then show ?thesis
  proof cases
    case 1
    then show ?thesis by (simp add: utf8_char_def)
  next
    case 2
    then have "c div 64 < 32" by (simp add: less_mult_imp_div_less)
    with 2 show ?thesis by (simp add: utf8_char_def)
  next
    case 3
    then have "c div 4096 < 16" by (simp add: less_mult_imp_div_less)
    with 3 show ?thesis using utf8_split3[of c] by (simp add: utf8_char_def)
  next
    case 4
    then show ?thesis using utf8_split4[of c] by (simp add: utf8_char_def)
  qed
qed

lemma utf8_char_not_Nil [simp]: "utf8_char c \<noteq> []"
  by (simp add: utf8_char_def)

lemma utf8_char_byte:
  assumes "is_code_point c" "b \<in> set (utf8_char c)"
  shows "b < 256"
proof -
  have "c div 64 < 32" if "c < 2048" using that by (simp add: less_mult_imp_div_less)
  moreover have "c div 4096 < 16" if "c < 65536" using that by (simp add: less_mult_imp_div_less)
  moreover have "c div 262144 < 5"
    using assms(1) by (simp add: is_code_point_def less_mult_imp_div_less)
  moreover have "c mod 64 < 64" "c div 64 mod 64 < 64" "c div 4096 mod 64 < 64" by simp_all
  ultimately show ?thesis using assms(2)
    by (auto simp: utf8_char_def simp del: mod_less_divisor split: if_splits)
qed

lemma utf8_inject:
  "valid_str s \<Longrightarrow> valid_str t \<Longrightarrow> utf8 s = utf8 t \<longleftrightarrow> s = t"
proof (induction s arbitrary: t)
  case Nil
  then show ?case by (cases t) (auto simp: utf8_def)
next
  case (Cons c cs)
  show ?case
  proof (cases t)
    case Nil
    then show ?thesis by (simp add: utf8_def)
  next
    case t: (Cons d ds)
    from Cons.prems t have ok: "is_code_point c" "is_code_point d" "valid_str cs" "valid_str ds"
      by (auto simp: valid_str_def)
    have "c = d \<and> utf8 cs = utf8 ds" if "utf8 (c # cs) = utf8 (d # ds)"
    proof -
      from that have "utf8_char c @ utf8 cs = utf8_char d @ utf8 ds" by (simp add: utf8_def)
      then have "utf8_head (utf8_char c @ utf8 cs) = utf8_head (utf8_char d @ utf8 ds)" by simp
      then show ?thesis by (simp add: utf8_head_char ok)
    qed
    with Cons.IH[OF ok(3,4)] t show ?thesis by auto
  qed
qed

lemma map_of_nat_inject:
  assumes "\<forall>b\<in>set xs. b < 256" "\<forall>b\<in>set ys. b < 256"
  shows "map (of_nat :: nat \<Rightarrow> u8) xs = map of_nat ys \<longleftrightarrow> xs = ys"
proof
  assume eq: "map (of_nat :: nat \<Rightarrow> u8) xs = map of_nat ys"
  have *: "map unat (map (of_nat :: nat \<Rightarrow> u8) zs) = zs" if "\<forall>b\<in>set zs. b < 256" for zs
    using that by (induction zs) (auto simp: unat_of_nat_small)
  from eq have "map unat (map (of_nat :: nat \<Rightarrow> u8) xs) = map unat (map (of_nat :: nat \<Rightarrow> u8) ys)"
    by simp
  then show "xs = ys" using assms by (simp only: *)
qed simp

lemma utf8_bytes: "valid_str s \<Longrightarrow> \<forall>b\<in>set (utf8 s). b < 256"
  by (auto simp: utf8_def valid_str_def list_all_iff dest: utf8_char_byte)

lemma str_bytes_inject:
  "valid_str s \<Longrightarrow> valid_str t \<Longrightarrow> str_bytes s = str_bytes t \<longleftrightarrow> s = t"
  by (simp add: str_bytes_def map_of_nat_inject utf8_bytes utf8_inject)

lemma utf8_ascii: "list_all (\<lambda>c. c < 128) s \<Longrightarrow> utf8 s = s"
  by (induction s) (auto simp: utf8_def utf8_char_def)

section \<open>Decimal and hexadecimal formats\<close>

fun dec :: "nat \<Rightarrow> rstring" where
  "dec n = (if n < 10 then [48 + n] else dec (n div 10) @ [48 + n mod 10])"

declare dec.simps [simp del]

definition undec :: "rstring \<Rightarrow> nat" where
  "undec s = foldl (\<lambda>a d. a * 10 + (d - 48)) 0 s"

fun hex_digit :: "nat \<Rightarrow> nat" where
  "hex_digit d = (if d < 10 then 48 + d else 87 + d)"

fun hex_fixed :: "nat \<Rightarrow> nat \<Rightarrow> rstring" where
  "hex_fixed 0 n = []"
| "hex_fixed (Suc k) n = hex_fixed k (n div 16) @ [hex_digit (n mod 16)]"

definition dec_padded :: "nat \<Rightarrow> nat \<Rightarrow> rstring" where
  "dec_padded w n = replicate (w - length (dec n)) 48 @ dec n"

lemma undec_dec [simp]: "undec (dec n) = n"
proof (induction n rule: dec.induct)
  case (1 n)
  then show ?case
    by (cases "n < 10") (subst dec.simps, simp add: undec_def)+
qed

lemma dec_inject [simp]: "dec n = dec m \<longleftrightarrow> n = m"
  by (metis undec_dec)

lemma dec_small: "n < 10 \<Longrightarrow> dec n = [48 + n]"
  by (subst dec.simps) simp

lemma dec_step: "\<not> n < 10 \<Longrightarrow> dec n = dec (n div 10) @ [48 + n mod 10]"
  by (subst dec.simps) simp

lemma dec_digits: "list_all is_ascii_digit (dec n)"
proof (induction n rule: dec.induct)
  case (1 n)
  have "n mod 10 < 10" by simp
  then have "is_ascii_digit (48 + n mod 10)" by (simp add: is_ascii_digit_def)
  with 1 show ?case
    by (cases "n < 10") (simp_all add: dec_small dec_step is_ascii_digit_def)
qed

lemma dec_not_Nil [simp]: "dec n \<noteq> []"
  by (subst dec.simps) simp

lemma length_dec: "n < 10 ^ k \<Longrightarrow> 0 < k \<Longrightarrow> length (dec n) \<le> k"
proof (induction k arbitrary: n)
  case 0
  then show ?case by simp
next
  case (Suc k)
  show ?case
  proof (cases "n < 10")
    case True
    then show ?thesis by (subst dec.simps) simp
  next
    case False
    from Suc.prems have "n div 10 < 10 ^ k" by (simp add: less_mult_imp_div_less mult.commute)
    moreover from False Suc.prems have "0 < k" by (cases k) auto
    ultimately have "length (dec (n div 10)) \<le> k" by (rule Suc.IH)
    with False show ?thesis by (subst dec.simps) simp
  qed
qed

lemma length_hex_fixed [simp]: "length (hex_fixed k n) = k"
  by (induction k arbitrary: n) auto

lemma undec_zeros: "undec (replicate k 48 @ s) = undec s"
  by (induction k) (auto simp: undec_def)

lemma undec_dec_padded [simp]: "undec (dec_padded w n) = n"
  by (simp add: dec_padded_def undec_zeros)

lemma length_dec_padded: "n < 10 ^ w \<Longrightarrow> 0 < w \<Longrightarrow> length (dec_padded w n) = w"
  using length_dec[of n w] by (simp add: dec_padded_def)

lemma dec_padded_digits: "list_all is_ascii_digit (dec_padded w n)"
  using dec_digits[of n] by (auto simp: dec_padded_def list_all_iff is_ascii_digit_def)

text \<open>\<^verbatim>\<open>u64::from_str\<close> on a string of ASCII digits: the value, or an overflow error.\<close>

definition parse_u64_digits :: "rstring \<Rightarrow> u64 option" where
  "parse_u64_digits s = (if undec s < 2 ^ 64 then Some (of_nat (undec s)) else None)"

lemma parse_u64_dec_padded [simp]: "parse_u64_digits (dec_padded w (unat (n :: u64))) = Some n"
  using unsigned_less[of n] by (simp add: parse_u64_digits_def)

text \<open>Fields joined by a separator that no field contains can be split again.\<close>

lemma append_sep_inject:
  assumes "c \<notin> set s" "c \<notin> set t"
  shows "s @ c # u = t @ c # v \<longleftrightarrow> s = t \<and> u = v"
  using assms
proof (induction s arbitrary: t)
  case Nil
  then show ?case by (cases t) auto
next
  case (Cons a s)
  then show ?case by (cases t) auto
qed

lemma dec_no_colon: "58 \<notin> set (dec n)"
  using dec_digits[of n] by (auto simp: list_all_iff is_ascii_digit_def)

section \<open>Fields of a format\<close>

text \<open>A format of fields that can be read back from the front of a text: no encoding of a field is a proper
  prefix of another one, whatever follows.\<close>

locale prefix_code =
  fixes enc :: "'a \<Rightarrow> 'c list"
    and ok :: "'a \<Rightarrow> bool"
  assumes enc_split: "ok a \<Longrightarrow> ok b \<Longrightarrow> enc a @ u = enc b @ v \<longleftrightarrow> a = b \<and> u = v"
begin

lemma enc_inject: "ok a \<Longrightarrow> ok b \<Longrightarrow> enc a = enc b \<longleftrightarrow> a = b"
  using enc_split[of a b "[]" "[]"] by simp

lemma concat_split:
  assumes "list_all ok xs" "list_all ok ys" "length xs = length ys"
  shows "concat (map enc xs) @ u = concat (map enc ys) @ v \<longleftrightarrow> xs = ys \<and> u = v"
  using assms(3,1,2) by (induction xs ys rule: list_induct2) (simp_all add: enc_split)

lemma concat_inject:
  assumes "list_all ok xs" "list_all ok ys" "\<And>x. ok x \<Longrightarrow> enc x \<noteq> []"
  shows "concat (map enc xs) = concat (map enc ys) \<longleftrightarrow> xs = ys"
  using assms(1,2)
proof (induction xs arbitrary: ys)
  case Nil
  then show ?case using assms(3) by (cases ys) auto
next
  case (Cons x xs)
  then show ?case using assms(3) by (cases ys) (auto simp: enc_split)
qed

text \<open>A run of fields, each behind the separator \<^verbatim>\<open>c\<close>, that ends with another character \<^verbatim>\<open>d\<close>.\<close>

lemma terminated_split:
  assumes "list_all ok xs" "list_all ok ys" "c \<noteq> d"
  shows "concat (map (\<lambda>x. c # enc x) xs) @ d # u = concat (map (\<lambda>x. c # enc x) ys) @ d # v \<longleftrightarrow> xs = ys \<and> u = v"
  using assms(1,2)
proof (induction xs arbitrary: ys)
  case Nil
  then show ?case using assms(3) by (cases ys) auto
next
  case (Cons x xs)
  then show ?case using assms(3) by (cases ys) (auto simp: enc_split)
qed

end

end
