(* ===== verification/Domain.thy ===== *)
theory Domain
  imports Text
begin

text \<open>
  \<^verbatim>\<open>msg-core\<close>: the domain errors (\<^verbatim>\<open>error.rs\<close>), the text validators and the validated string
  newtypes (\<^verbatim>\<open>validation.rs\<close>), and the identifiers (\<^verbatim>\<open>identifiers.rs\<close>). Each newtype is a
  datatype of its own, ordered as the derived \<^verbatim>\<open>Ord\<close> orders it, so that it can be the key of a
  \<^verbatim>\<open>BTreeMap\<close>. The lemmas characterise acceptance by each validator and show that an accepted
  value is accepted again unchanged, which is what \<^verbatim>\<open>Display\<close>/\<^verbatim>\<open>FromStr\<close> and serde rely on.
\<close>

section \<open>Domain errors\<close>

datatype domain_error =
    Empty string
  | TooLong string nat nat
  | InvalidCharacters string string
  | InvalidDotBoundary string
  | ConsecutiveDots string
  | TooSmall string u64 u64
  | EmptyCollection string
  | InvalidReference string rstring rstring

type_synonym 'a domain_result = "(domain_error, 'a) rres"

text \<open>The \<^verbatim>\<open>Display\<close> of an error, as the \<^verbatim>\<open>#[error]\<close> attributes format it.\<close>

fun domain_error_to_string :: "domain_error \<Rightarrow> rstring" where
  "domain_error_to_string (Empty field) = str field @ str '' must not be empty''"
| "domain_error_to_string (TooLong field max_len actual) =
     str field @ str '' length '' @ dec actual @ str '' exceeds maximum '' @ dec max_len"
| "domain_error_to_string (InvalidCharacters field allowed) =
     str field @ str '' contains invalid characters; allowed: '' @ str allowed"
| "domain_error_to_string (InvalidDotBoundary field) =
     str field @ str '' must not start or end with '' @ [39] @ str ''.'' @ [39]"
| "domain_error_to_string (ConsecutiveDots field) =
     str field @ str '' must not contain '' @ [39] @ str ''..'' @ [39]"
| "domain_error_to_string (TooSmall field min_value actual) =
     str field @ str '' must be at least '' @ dec (unat min_value) @ str ''; got '' @ dec (unat actual)"
| "domain_error_to_string (EmptyCollection field) = str field @ str '' must not be empty''"
| "domain_error_to_string (InvalidReference field expected actual) =
     str field @ str '' reference mismatch; expected '' @ expected @ str '', got '' @ actual"

section \<open>Validators\<close>

definition MAX_TEXT_LEN :: nat where
  "MAX_TEXT_LEN = 255"

definition bounded_text :: "rstring \<Rightarrow> string \<Rightarrow> rstring domain_result" where
  "bounded_text value field =
     (let trimmed_value = trim value; actual = length trimmed_value in
      if actual = 0 then Err (Empty field)
      else if actual > MAX_TEXT_LEN then Err (TooLong field MAX_TEXT_LEN actual)
      else Ok trimmed_value)"

definition allowed_name_char :: "nat \<Rightarrow> bool" where
  "allowed_name_char c \<longleftrightarrow> is_ascii_alphanumeric c \<or> c = 46 \<or> c = 95 \<or> c = 45"

definition ALLOWED_NAME_CHARS :: string where
  "ALLOWED_NAME_CHARS = ''ASCII letters, digits, '' @ [CHR 39] @ ''.'' @ [CHR 39] @ '', '' @
     [CHR 39] @ ''_'' @ [CHR 39] @ '', '' @ [CHR 39] @ ''-'' @ [CHR 39]"

definition topic_name_text :: "rstring \<Rightarrow> string \<Rightarrow> rstring domain_result" where
  "topic_name_text value field =
     rbind (bounded_text value field) (\<lambda>v.
       if \<not> list_all allowed_name_char v then Err (InvalidCharacters field ALLOWED_NAME_CHARS)
       else if starts_with (str ''.'') v \<or> ends_with (str ''.'') v then Err (InvalidDotBoundary field)
       else if contains_str (str ''..'') v then Err (ConsecutiveDots field)
       else Ok v)"

definition consumer_group_id_text :: "rstring \<Rightarrow> string \<Rightarrow> rstring domain_result" where
  "consumer_group_id_text value field =
     rbind (bounded_text value field) (\<lambda>v.
       if \<not> list_all allowed_name_char v then Err (InvalidCharacters field ALLOWED_NAME_CHARS)
       else Ok v)"

section \<open>Validated string newtypes\<close>

text \<open>
  The macro \<^verbatim>\<open>validated_string_type!\<close>: \<^verbatim>\<open>new\<close> runs the validator and wraps its result, and
  \<^verbatim>\<open>FromStr\<close>, both \<^verbatim>\<open>TryFrom\<close> and \<^verbatim>\<open>Deserialize\<close> are \<^verbatim>\<open>new\<close>; the selector of each datatype
  is \<^verbatim>\<open>as_str\<close>, \<^verbatim>\<open>into_string\<close>, \<^verbatim>\<open>Display\<close> and \<^verbatim>\<open>Serialize\<close>.
\<close>

definition validated_new ::
  "(rstring \<Rightarrow> string \<Rightarrow> rstring domain_result) \<Rightarrow> string \<Rightarrow> (rstring \<Rightarrow> 'n) \<Rightarrow> rstring \<Rightarrow> 'n domain_result"
where
  "validated_new validator field ctor value = rbind (validator value field) (\<lambda>v. Ok (ctor v))"

datatype message_id = MessageId (mid_str: rstring)
datatype topic_name = TopicName (tn_str: rstring)
datatype consumer_group_id = ConsumerGroupId (cg_str: rstring)
datatype consumer_id = ConsumerId (ci_str: rstring)
datatype subscription_id = SubscriptionId (si_str: rstring)
datatype delivery_id = DeliveryId (did_str: rstring)
datatype idempotency_key = IdempotencyKey (ik_str: rstring)
datatype partition_key = PartitionKey (pk_str: rstring)

definition MessageId_new :: "rstring \<Rightarrow> message_id domain_result" where
  "MessageId_new = validated_new bounded_text ''message_id'' MessageId"

definition TopicName_new :: "rstring \<Rightarrow> topic_name domain_result" where
  "TopicName_new = validated_new topic_name_text ''topic_name'' TopicName"

definition ConsumerGroupId_new :: "rstring \<Rightarrow> consumer_group_id domain_result" where
  "ConsumerGroupId_new = validated_new consumer_group_id_text ''consumer_group_id'' ConsumerGroupId"

definition ConsumerId_new :: "rstring \<Rightarrow> consumer_id domain_result" where
  "ConsumerId_new = validated_new bounded_text ''consumer_id'' ConsumerId"

definition SubscriptionId_new :: "rstring \<Rightarrow> subscription_id domain_result" where
  "SubscriptionId_new = validated_new bounded_text ''subscription_id'' SubscriptionId"

definition DeliveryId_new :: "rstring \<Rightarrow> delivery_id domain_result" where
  "DeliveryId_new = validated_new bounded_text ''delivery_id'' DeliveryId"

definition IdempotencyKey_new :: "rstring \<Rightarrow> idempotency_key domain_result" where
  "IdempotencyKey_new = validated_new bounded_text ''idempotency_key'' IdempotencyKey"

definition PartitionKey_new :: "rstring \<Rightarrow> partition_key domain_result" where
  "PartitionKey_new = validated_new bounded_text ''partition_key'' PartitionKey"

text \<open>\<^verbatim>\<open>PartitionId(u32)\<close> and \<^verbatim>\<open>Offset(u64)\<close>.\<close>

datatype partition_id = PartitionId (pid_value: u32)
datatype offset = Offset (offset_value: u64)

section \<open>The derived orders\<close>

instantiation topic_name :: linorder
begin
definition less_eq_topic_name :: "topic_name \<Rightarrow> topic_name \<Rightarrow> bool" where
  "less_eq_topic_name a b \<longleftrightarrow> tn_str a \<le> tn_str b"
definition less_topic_name :: "topic_name \<Rightarrow> topic_name \<Rightarrow> bool" where
  "less_topic_name a b \<longleftrightarrow> tn_str a < tn_str b"
instance
  by standard (auto simp: less_eq_topic_name_def less_topic_name_def intro: topic_name.expand)
end

instantiation consumer_group_id :: linorder
begin
definition less_eq_consumer_group_id :: "consumer_group_id \<Rightarrow> consumer_group_id \<Rightarrow> bool" where
  "less_eq_consumer_group_id a b \<longleftrightarrow> cg_str a \<le> cg_str b"
definition less_consumer_group_id :: "consumer_group_id \<Rightarrow> consumer_group_id \<Rightarrow> bool" where
  "less_consumer_group_id a b \<longleftrightarrow> cg_str a < cg_str b"
instance
  by standard
    (auto simp: less_eq_consumer_group_id_def less_consumer_group_id_def intro: consumer_group_id.expand)
end

instantiation delivery_id :: linorder
begin
definition less_eq_delivery_id :: "delivery_id \<Rightarrow> delivery_id \<Rightarrow> bool" where
  "less_eq_delivery_id a b \<longleftrightarrow> did_str a \<le> did_str b"
definition less_delivery_id :: "delivery_id \<Rightarrow> delivery_id \<Rightarrow> bool" where
  "less_delivery_id a b \<longleftrightarrow> did_str a < did_str b"
instance
  by standard (auto simp: less_eq_delivery_id_def less_delivery_id_def intro: delivery_id.expand)
end

instantiation idempotency_key :: linorder
begin
definition less_eq_idempotency_key :: "idempotency_key \<Rightarrow> idempotency_key \<Rightarrow> bool" where
  "less_eq_idempotency_key a b \<longleftrightarrow> ik_str a \<le> ik_str b"
definition less_idempotency_key :: "idempotency_key \<Rightarrow> idempotency_key \<Rightarrow> bool" where
  "less_idempotency_key a b \<longleftrightarrow> ik_str a < ik_str b"
instance
  by standard
    (auto simp: less_eq_idempotency_key_def less_idempotency_key_def intro: idempotency_key.expand)
end

instantiation partition_id :: linorder
begin
definition less_eq_partition_id :: "partition_id \<Rightarrow> partition_id \<Rightarrow> bool" where
  "less_eq_partition_id a b \<longleftrightarrow> pid_value a \<le> pid_value b"
definition less_partition_id :: "partition_id \<Rightarrow> partition_id \<Rightarrow> bool" where
  "less_partition_id a b \<longleftrightarrow> pid_value a < pid_value b"
instance
  by standard (auto simp: less_eq_partition_id_def less_partition_id_def intro: partition_id.expand)
end

instantiation offset :: linorder
begin
definition less_eq_offset :: "offset \<Rightarrow> offset \<Rightarrow> bool" where
  "less_eq_offset a b \<longleftrightarrow> offset_value a \<le> offset_value b"
definition less_offset :: "offset \<Rightarrow> offset \<Rightarrow> bool" where
  "less_offset a b \<longleftrightarrow> offset_value a < offset_value b"
instance
  by standard (auto simp: less_eq_offset_def less_offset_def intro: offset.expand)
end

section \<open>Acceptance and stability\<close>

lemma bounded_text_Ok_iff:
  "bounded_text s f = Ok v \<longleftrightarrow> v = trim s \<and> v \<noteq> [] \<and> length v \<le> MAX_TEXT_LEN"
  by (auto simp: bounded_text_def Let_def)

lemma bounded_text_not_Panicked [simp]: "bounded_text s f \<noteq> Panicked"
  by (simp add: bounded_text_def Let_def)

lemma topic_name_text_not_Panicked [simp]: "topic_name_text s f \<noteq> Panicked"
  by (simp add: topic_name_text_def rbind_eq_Panicked)

lemma consumer_group_id_text_not_Panicked [simp]: "consumer_group_id_text s f \<noteq> Panicked"
  by (simp add: consumer_group_id_text_def rbind_eq_Panicked)

lemma starts_with_dot: "starts_with (str ''.'') v \<longleftrightarrow> v \<noteq> [] \<and> hd v = 46"
  by (cases v) (auto simp: starts_with_def str_def)

lemma ends_with_dot: "ends_with (str ''.'') v \<longleftrightarrow> v \<noteq> [] \<and> last v = 46"
  by (cases "rev v") (auto simp: ends_with_def starts_with_def str_def last_rev hd_rev dest: arg_cong[of _ _ last])

definition topic_name_rules :: "rstring \<Rightarrow> bool" where
  "topic_name_rules v \<longleftrightarrow>
     v \<noteq> [] \<and> length v \<le> MAX_TEXT_LEN \<and> list_all allowed_name_char v \<and>
     hd v \<noteq> 46 \<and> last v \<noteq> 46 \<and> \<not> (\<exists>u w. v = u @ [46, 46] @ w)"

lemma topic_name_text_Ok_iff:
  "topic_name_text s f = Ok v \<longleftrightarrow> v = trim s \<and> topic_name_rules v"
proof -
  have "str ''..'' = [46, 46]" by (simp add: str_def)
  then show ?thesis
    by (auto simp: topic_name_text_def bounded_text_Ok_iff topic_name_rules_def starts_with_dot
        ends_with_dot contains_str_iff)
qed

lemma consumer_group_id_text_Ok_iff:
  "consumer_group_id_text s f = Ok v \<longleftrightarrow>
     v = trim s \<and> v \<noteq> [] \<and> length v \<le> MAX_TEXT_LEN \<and> list_all allowed_name_char v"
  by (auto simp: consumer_group_id_text_def bounded_text_Ok_iff)

text \<open>A validator is stable when it accepts its own results unchanged.\<close>

locale text_validator =
  fixes validate :: "rstring \<Rightarrow> string \<Rightarrow> rstring domain_result"
    and rules :: "rstring \<Rightarrow> bool"
  assumes validate_Ok: "validate s f = Ok v \<longleftrightarrow> v = trim s \<and> rules v"
    and validate_no_panic: "validate s f \<noteq> Panicked"
begin

lemma validate_stable: "validate s f = Ok v \<Longrightarrow> validate v f = Ok v"
  by (metis trim_trim validate_Ok)

lemma validate_trim: "validate (trim s) f = Ok v \<longleftrightarrow> validate s f = Ok v"
  by (simp add: validate_Ok)

lemma validate_field: "validate s f = Ok v \<Longrightarrow> validate s g = Ok v"
  by (auto simp: validate_Ok)

lemma new_Ok_iff: "validated_new validate f c s = Ok x \<longleftrightarrow> x = c (trim s) \<and> rules (trim s)"
  by (auto simp: validated_new_def validate_Ok)

lemma new_of_rules: "rules s \<Longrightarrow> trimmed s \<Longrightarrow> validated_new validate f c s = Ok (c s)"
  by (simp add: new_Ok_iff trim_of_trimmed)

lemma new_no_panic: "validated_new validate f c s \<noteq> Panicked"
  by (simp add: validated_new_def rbind_eq_Panicked validate_no_panic)

lemma new_stable: "validated_new validate f c s = Ok x \<Longrightarrow> validated_new validate f c (trim s) = Ok x"
  by (simp add: new_Ok_iff)

end

interpretation bt_text: text_validator bounded_text "\<lambda>v. v \<noteq> [] \<and> length v \<le> MAX_TEXT_LEN"
  by unfold_locales (simp_all add: bounded_text_Ok_iff)

interpretation tn_text: text_validator topic_name_text topic_name_rules
  by unfold_locales (simp_all add: topic_name_text_Ok_iff)

interpretation cg_text: text_validator consumer_group_id_text
    "\<lambda>v. v \<noteq> [] \<and> length v \<le> MAX_TEXT_LEN \<and> list_all allowed_name_char v"
  by unfold_locales (simp_all add: consumer_group_id_text_Ok_iff)

lemma allowed_name_char_ascii: "allowed_name_char c \<Longrightarrow> c < 128 \<and> c \<noteq> 58"
  by (auto simp: allowed_name_char_def is_ascii_alphanumeric_def is_ascii_digit_def)

end
