(* ===== verification/BTree.thy ===== *)
theory BTree
  imports Prelude
begin

text \<open>
  Rust's \<^verbatim>\<open>BTreeMap\<close> and \<^verbatim>\<open>BTreeSet\<close> as key-sorted association lists and sorted lists.

  The executable operations are \<^verbatim>\<open>bt_get\<close>, \<^verbatim>\<open>bt_insert\<close>, \<^verbatim>\<open>bt_remove\<close>, \<^verbatim>\<open>bt_contains\<close> and, for
  iteration in key order, the list itself. The locale \<^verbatim>\<open>key_value_map\<close> is the interface the
  broker's proofs use: lookup laws for every operation, and the agreement of iteration with
  lookup. Its interpretation \<^verbatim>\<open>bt\<close> discharges the laws for the list representation. The lookup
  laws hold for any list; the iteration laws need the keys sorted, which every operation keeps.
\<close>

section \<open>The interface\<close>

locale key_value_map =
  fixes empty :: "'m"
    and get :: "'m \<Rightarrow> 'k \<Rightarrow> 'v option"
    and put :: "'k \<Rightarrow> 'v \<Rightarrow> 'm \<Rightarrow> 'm"
    and del :: "'k \<Rightarrow> 'm \<Rightarrow> 'm"
    and entries :: "'m \<Rightarrow> ('k \<times> 'v) list"
    and wf :: "'m \<Rightarrow> bool"
  assumes get_empty: "get empty k = None"
    and get_put: "get (put k v m) k' = (if k' = k then Some v else get m k')"
    and get_del: "get (del k m) k' = (if k' = k then None else get m k')"
    and wf_empty: "wf empty"
    and wf_put: "wf m \<Longrightarrow> wf (put k v m)"
    and wf_del: "wf m \<Longrightarrow> wf (del k m)"
    and entries_get: "wf m \<Longrightarrow> (k, v) \<in> set (entries m) \<longleftrightarrow> get m k = Some v"
    and entries_distinct: "wf m \<Longrightarrow> distinct (map fst (entries m))"
begin

lemma get_put_same: "get (put k v m) k = Some v"
  by (simp add: get_put)

lemma get_put_other: "k' \<noteq> k \<Longrightarrow> get (put k v m) k' = get m k'"
  by (simp add: get_put)

lemma put_put_get: "get (put k v (put k u m)) = get (put k v m)"
  by (rule ext) (simp add: get_put)

lemma del_put_get: "get (del k (put k v m)) = get (del k m)"
  by (rule ext) (simp add: get_put get_del)

lemma dom_put: "dom (get (put k v m)) = insert k (dom (get m))"
  by (auto simp: get_put split: if_splits)

lemma dom_del: "dom (get (del k m)) = dom (get m) - {k}"
  by (auto simp: get_del split: if_splits)

lemma dom_get: "wf m \<Longrightarrow> dom (get m) = set (map fst (entries m))"
proof -
  assume wf: "wf m"
  have "k \<in> fst ` set (entries m)" if "get m k = Some v" for k v
    using entries_get[OF wf, of k v] that by (metis fst_conv imageI)
  moreover have "\<exists>v. get m k = Some v" if "k \<in> fst ` set (entries m)" for k
    using entries_get[OF wf, of k] that by force
  ultimately show ?thesis by fastforce
qed

lemma finite_dom: "wf m \<Longrightarrow> finite (dom (get m))"
  by (simp add: dom_get)

lemma card_dom: "wf m \<Longrightarrow> card (dom (get m)) = length (entries m)"
  using distinct_card[OF entries_distinct[of m]] by (simp add: dom_get)

end

section \<open>Sorted association lists\<close>

type_synonym ('k, 'v) btree_map = "('k \<times> 'v) list"
type_synonym 'k btree_set = "'k list"

definition bt_get :: "('k, 'v) btree_map \<Rightarrow> 'k \<Rightarrow> 'v option" where
  "bt_get m k = map_of m k"

fun bt_insert :: "'k::linorder \<Rightarrow> 'v \<Rightarrow> ('k, 'v) btree_map \<Rightarrow> ('k, 'v) btree_map" where
  "bt_insert k v [] = [(k, v)]"
| "bt_insert k v ((a, b) # m) =
     (if k < a then (k, v) # (a, b) # m
      else if k = a then (k, v) # m
      else (a, b) # bt_insert k v m)"

definition bt_remove :: "'k \<Rightarrow> ('k, 'v) btree_map \<Rightarrow> ('k, 'v) btree_map" where
  "bt_remove k m = filter (\<lambda>(a, b). a \<noteq> k) m"

definition bt_contains :: "('k, 'v) btree_map \<Rightarrow> 'k \<Rightarrow> bool" where
  "bt_contains m k \<longleftrightarrow> bt_get m k \<noteq> None"

definition bt_sorted :: "('k::linorder, 'v) btree_map \<Rightarrow> bool" where
  "bt_sorted m \<longleftrightarrow> sorted_wrt (<) (map fst m)"

text \<open>\<^verbatim>\<open>entry(k).or_default()\<close>: the value to update, the default when the key is new.\<close>

definition bt_entry_or :: "'v \<Rightarrow> ('k, 'v) btree_map \<Rightarrow> 'k \<Rightarrow> 'v" where
  "bt_entry_or d m k = (case bt_get m k of None \<Rightarrow> d | Some v \<Rightarrow> v)"

lemma bt_get_Nil [simp]: "bt_get [] k = None"
  by (simp add: bt_get_def)

lemma bt_get_insert [simp]: "bt_get (bt_insert k v m) k' = (if k' = k then Some v else bt_get m k')"
  by (induction k v m rule: bt_insert.induct) (auto simp: bt_get_def)

lemma bt_get_remove [simp]: "bt_get (bt_remove k m) k' = (if k' = k then None else bt_get m k')"
  by (simp add: bt_get_def bt_remove_def map_of_filter_neq)

lemma bt_sorted_Nil [simp]: "bt_sorted []"
  by (simp add: bt_sorted_def)

lemma fst_set_bt_insert: "fst ` set (bt_insert k v m) = insert k (fst ` set m)"
  by (induction k v m rule: bt_insert.induct) auto

lemma bt_sorted_insert: "bt_sorted m \<Longrightarrow> bt_sorted (bt_insert k v m)"
proof (induction k v m rule: bt_insert.induct)
  case (1 k v)
  then show ?case by (simp add: bt_sorted_def)
next
  case (2 k v a b m)
  then have IH: "bt_sorted (bt_insert k v m)" if "\<not> k < a" "k \<noteq> a"
    using that by (simp add: bt_sorted_def)
  show ?case
  proof (cases "k < a \<or> k = a")
    case True
    with 2 show ?thesis by (auto simp: bt_sorted_def dest: less_trans)
  next
    case False
    then have "\<forall>x\<in>fst ` set (bt_insert k v m). a < x"
      using 2 by (auto simp: fst_set_bt_insert bt_sorted_def)
    with False IH show ?thesis by (auto simp: bt_sorted_def)
  qed
qed

lemma bt_sorted_remove: "bt_sorted m \<Longrightarrow> bt_sorted (bt_remove k m)"
  by (simp add: bt_sorted_def bt_remove_def sorted_wrt_map_filter)

lemma bt_sorted_distinct: "bt_sorted m \<Longrightarrow> distinct (map fst m)"
  by (simp add: bt_sorted_def strict_sorted_iff)

lemma bt_mem_iff: "bt_sorted m \<Longrightarrow> (k, v) \<in> set m \<longleftrightarrow> bt_get m k = Some v"
  by (simp add: bt_get_def bt_sorted_distinct)

interpretation bt: key_value_map "[]" bt_get bt_insert bt_remove "\<lambda>m. m" bt_sorted
  by unfold_locales (auto simp: bt_sorted_insert bt_sorted_remove bt_mem_iff bt_sorted_distinct)

lemma bt_contains_insert [simp]: "bt_contains (bt_insert k v m) k' \<longleftrightarrow> k' = k \<or> bt_contains m k'"
  by (simp add: bt_contains_def)

lemma bt_contains_remove [simp]: "bt_contains (bt_remove k m) k' \<longleftrightarrow> k' \<noteq> k \<and> bt_contains m k'"
  by (simp add: bt_contains_def)

lemma bt_contains_Nil [simp]: "\<not> bt_contains [] k"
  by (simp add: bt_contains_def)

lemma bt_contains_iff: "bt_contains m k \<longleftrightarrow> (\<exists>v. bt_get m k = Some v)"
  by (auto simp: bt_contains_def)

lemma bt_entry_or_insert [simp]:
  "bt_entry_or d (bt_insert k v m) k' = (if k' = k then v else bt_entry_or d m k')"
  by (simp add: bt_entry_or_def)

lemma bt_entry_or_Nil [simp]: "bt_entry_or d [] k = d"
  by (simp add: bt_entry_or_def)

lemma bt_entry_or_Some: "bt_get m k = Some v \<Longrightarrow> bt_entry_or d m k = v"
  by (simp add: bt_entry_or_def)

lemma bt_entry_or_None: "bt_get m k = None \<Longrightarrow> bt_entry_or d m k = d"
  by (simp add: bt_entry_or_def)

lemma bt_get_in_set: "bt_get m k = Some v \<Longrightarrow> (k, v) \<in> set m"
  by (simp add: bt_get_def map_of_SomeD)

lemma bt_get_None_iff: "bt_get m k = None \<longleftrightarrow> k \<notin> fst ` set m"
  by (simp add: bt_get_def map_of_eq_None_iff)

text \<open>A map is its lookups.\<close>

lemma bt_ext:
  assumes "bt_sorted m" "bt_sorted m'" "\<And>k. bt_get m k = bt_get m' k"
  shows "m = m'"
proof -
  have "set m = set m'" using bt_mem_iff[OF assms(1)] bt_mem_iff[OF assms(2)] assms(3) by auto
  moreover from this have "map fst m = map fst m'"
    using assms(1,2) strict_sorted_equal[of "map fst m'" "map fst m"] by (simp add: bt_sorted_def)
  ultimately show ?thesis
    by (metis assms(1) bt_sorted_distinct distinct_map map_inj_on set_map Un_absorb)
qed

section \<open>Sorted lists as sets\<close>

definition bs_contains :: "'k btree_set \<Rightarrow> 'k \<Rightarrow> bool" where
  "bs_contains s k \<longleftrightarrow> k \<in> set s"

fun bs_insert :: "'k::linorder \<Rightarrow> 'k btree_set \<Rightarrow> 'k btree_set" where
  "bs_insert k [] = [k]"
| "bs_insert k (a # s) = (if k < a then k # a # s else if k = a then a # s else a # bs_insert k s)"

lemma set_bs_insert [simp]: "set (bs_insert k s) = insert k (set s)"
  by (induction k s rule: bs_insert.induct) auto

lemma bs_contains_insert [simp]: "bs_contains (bs_insert k s) k' \<longleftrightarrow> k' = k \<or> bs_contains s k'"
  by (auto simp: bs_contains_def)

lemma bs_contains_Nil [simp]: "\<not> bs_contains [] k"
  by (simp add: bs_contains_def)

lemma bs_sorted_insert: "sorted_wrt (<) s \<Longrightarrow> sorted_wrt (<) (bs_insert k s)"
  by (induction k s rule: bs_insert.induct) auto

lemma bs_insert_idem: "sorted_wrt (<) s \<Longrightarrow> bs_contains s k \<Longrightarrow> bs_insert k s = s"
  by (induction k s rule: bs_insert.induct) (auto simp: bs_contains_def)

end
