(* ===== verification/Message.thy ===== *)
theory Message
  imports Domain BTree
begin

text \<open>
  \<^verbatim>\<open>msg-core\<close>: the message envelope and its builder (\<^verbatim>\<open>message.rs\<close>), topics and partitions
  (\<^verbatim>\<open>topics.rs\<close>), consumers and subscriptions (\<^verbatim>\<open>consumers.rs\<close>). The selectors of the records
  are the getters of the structs. The lemmas give the partition layout of a topic, which the
  brokers rely on, and the exact acceptance condition of the topic's custom \<^verbatim>\<open>Deserialize\<close>.
\<close>

section \<open>Envelope\<close>

datatype event_source = EventSource (es_str: rstring)
datatype event_type = EventType (et_str: rstring)
datatype event_subject = EventSubject (esub_str: rstring)
datatype content_type = ContentType (ct_str: rstring)
datatype header_name = HeaderName (hn_str: rstring)

definition EventSource_new :: "rstring \<Rightarrow> event_source domain_result" where
  "EventSource_new = validated_new bounded_text ''event_source'' EventSource"

definition EventType_new :: "rstring \<Rightarrow> event_type domain_result" where
  "EventType_new = validated_new bounded_text ''event_type'' EventType"

definition EventSubject_new :: "rstring \<Rightarrow> event_subject domain_result" where
  "EventSubject_new = validated_new bounded_text ''event_subject'' EventSubject"

definition ContentType_new :: "rstring \<Rightarrow> content_type domain_result" where
  "ContentType_new = validated_new bounded_text ''content_type'' ContentType"

definition HeaderName_new :: "rstring \<Rightarrow> header_name domain_result" where
  "HeaderName_new = validated_new bounded_text ''header_name'' HeaderName"

instantiation header_name :: linorder
begin
definition less_eq_header_name :: "header_name \<Rightarrow> header_name \<Rightarrow> bool" where
  "less_eq_header_name a b \<longleftrightarrow> hn_str a \<le> hn_str b"
definition less_header_name :: "header_name \<Rightarrow> header_name \<Rightarrow> bool" where
  "less_header_name a b \<longleftrightarrow> hn_str a < hn_str b"
instance
  by standard (auto simp: less_eq_header_name_def less_header_name_def intro: header_name.expand)
end

datatype message_timestamp = MessageTimestamp (as_unix_millis: u64)

instantiation message_timestamp :: linorder
begin
definition less_eq_message_timestamp :: "message_timestamp \<Rightarrow> message_timestamp \<Rightarrow> bool" where
  "less_eq_message_timestamp a b \<longleftrightarrow> as_unix_millis a \<le> as_unix_millis b"
definition less_message_timestamp :: "message_timestamp \<Rightarrow> message_timestamp \<Rightarrow> bool" where
  "less_message_timestamp a b \<longleftrightarrow> as_unix_millis a < as_unix_millis b"
instance
  by standard
    (auto simp: less_eq_message_timestamp_def less_message_timestamp_def intro: message_timestamp.expand)
end

datatype header_value = HeaderValue (hv_str: rstring)
datatype message_payload = MessagePayload (payload_bytes: bytes)

type_synonym message_headers = "(header_name, header_value) btree_map"

definition MessageHeaders_insert ::
  "header_name \<Rightarrow> header_value \<Rightarrow> message_headers \<Rightarrow> header_value option \<times> message_headers"
where
  "MessageHeaders_insert name value h = (bt_get h name, bt_insert name value h)"

record message_envelope =
  env_id :: message_id
  env_source :: event_source
  env_event_type :: event_type
  env_subject :: "event_subject option"
  env_content_type :: content_type
  env_timestamp :: message_timestamp
  env_headers :: message_headers
  env_payload :: message_payload
  env_partition_key :: "partition_key option"
  env_idempotency_key :: "idempotency_key option"

text \<open>The builder holds the same ten fields; \<^verbatim>\<open>build\<close> moves them into the envelope.\<close>

record message_envelope_builder =
  bld_id :: message_id
  bld_source :: event_source
  bld_event_type :: event_type
  bld_subject :: "event_subject option"
  bld_content_type :: content_type
  bld_timestamp :: message_timestamp
  bld_headers :: message_headers
  bld_payload :: message_payload
  bld_partition_key :: "partition_key option"
  bld_idempotency_key :: "idempotency_key option"

definition MessageEnvelope_builder ::
  "message_id \<Rightarrow> event_source \<Rightarrow> event_type \<Rightarrow> content_type \<Rightarrow> message_timestamp \<Rightarrow> message_payload
    \<Rightarrow> message_envelope_builder"
where
  "MessageEnvelope_builder i src ety cty ts pl =
     \<lparr>bld_id = i, bld_source = src, bld_event_type = ety, bld_subject = None,
      bld_content_type = cty, bld_timestamp = ts, bld_headers = [], bld_payload = pl,
      bld_partition_key = None, bld_idempotency_key = None\<rparr>"

definition builder_subject :: "event_subject \<Rightarrow> message_envelope_builder \<Rightarrow> message_envelope_builder" where
  "builder_subject s b = b\<lparr>bld_subject := Some s\<rparr>"

definition builder_partition_key ::
  "partition_key \<Rightarrow> message_envelope_builder \<Rightarrow> message_envelope_builder" where
  "builder_partition_key k b = b\<lparr>bld_partition_key := Some k\<rparr>"

definition builder_idempotency_key ::
  "idempotency_key \<Rightarrow> message_envelope_builder \<Rightarrow> message_envelope_builder" where
  "builder_idempotency_key k b = b\<lparr>bld_idempotency_key := Some k\<rparr>"

definition builder_header ::
  "header_name \<Rightarrow> header_value \<Rightarrow> message_envelope_builder \<Rightarrow> message_envelope_builder" where
  "builder_header n v b = b\<lparr>bld_headers := snd (MessageHeaders_insert n v (bld_headers b))\<rparr>"

definition builder_headers ::
  "message_headers \<Rightarrow> message_envelope_builder \<Rightarrow> message_envelope_builder" where
  "builder_headers h b = b\<lparr>bld_headers := h\<rparr>"

definition builder_build :: "message_envelope_builder \<Rightarrow> message_envelope" where
  "builder_build b =
     \<lparr>env_id = bld_id b, env_source = bld_source b, env_event_type = bld_event_type b,
      env_subject = bld_subject b, env_content_type = bld_content_type b,
      env_timestamp = bld_timestamp b, env_headers = bld_headers b, env_payload = bld_payload b,
      env_partition_key = bld_partition_key b, env_idempotency_key = bld_idempotency_key b\<rparr>"

section \<open>Topics and partitions\<close>

record topic_config =
  tc_partition_count :: u32

definition TopicConfig_new :: "u32 \<Rightarrow> topic_config domain_result" where
  "TopicConfig_new partition_count =
     (if partition_count = 0 then Err (TooSmall ''partition_count'' 1 (ucast partition_count))
      else Ok \<lparr>tc_partition_count = partition_count\<rparr>)"

datatype partition_config = PartitionConfig

record partition =
  part_id :: partition_id
  part_config :: partition_config

record topic =
  topic_name :: topic_name
  topic_config :: topic_config
  topic_partitions :: "partition list"

definition Topic_new :: "topic_name \<Rightarrow> topic_config \<Rightarrow> topic" where
  "Topic_new name config =
     \<lparr>topic_name = name, topic_config = config,
      topic_partitions =
        map (\<lambda>i. \<lparr>part_id = PartitionId (of_nat i), part_config = PartitionConfig\<rparr>)
          [0..<unat (tc_partition_count config)]\<rparr>"

definition topic_partition_count :: "topic \<Rightarrow> u32" where
  "topic_partition_count t = tc_partition_count (topic_config t)"

definition topic_partition_ids :: "topic \<Rightarrow> partition_id list" where
  "topic_partition_ids t = map part_id (topic_partitions t)"

text \<open>
  The custom \<^verbatim>\<open>Deserialize\<close> of \<^verbatim>\<open>Topic\<close>, from the already decoded raw fields. The error is the
  message passed to \<^verbatim>\<open>serde::de::Error::custom\<close>.
\<close>

fun check_partition_ids :: "nat \<Rightarrow> partition list \<Rightarrow> (rstring, unit) rres" where
  "check_partition_ids expected [] = Ok ()"
| "check_partition_ids expected (p # ps) =
     (if pid_value (part_id p) \<noteq> of_nat expected
      then Err (str ''partition id mismatch: expected '' @ dec expected @ str '', got '' @
                dec (unat (pid_value (part_id p))))
      else check_partition_ids (Suc expected) ps)"

definition Topic_deserialize :: "topic \<Rightarrow> (rstring, topic) rres" where
  "Topic_deserialize raw =
     (let expected_count = unat (tc_partition_count (topic_config raw)) in
      if length (topic_partitions raw) \<noteq> expected_count
      then Err (str ''partition count mismatch: expected '' @ dec expected_count @ str '', got '' @
                dec (length (topic_partitions raw)))
      else rbind (check_partition_ids 0 (topic_partitions raw)) (\<lambda>_. Ok raw))"

section \<open>Consumers and subscriptions\<close>

record consumer_group =
  group_id :: consumer_group_id

record consumer =
  consumer_id :: consumer_id
  consumer_group_id :: consumer_group_id

record subscription_config =
  sub_topics :: "topic_name list"

definition SubscriptionConfig_new :: "topic_name list \<Rightarrow> subscription_config domain_result" where
  "SubscriptionConfig_new topics =
     (if topics = [] then Err (EmptyCollection ''topics'') else Ok \<lparr>sub_topics = topics\<rparr>)"

definition SubscriptionConfig_deserialize ::
  "subscription_config \<Rightarrow> (rstring, subscription_config) rres" where
  "SubscriptionConfig_deserialize raw =
     map_err domain_error_to_string (SubscriptionConfig_new (sub_topics raw))"

record subscription =
  sub_id :: subscription_id
  sub_group_id :: consumer_group_id
  sub_config :: subscription_config

section \<open>Partition layout\<close>

lemma topic_name_new [simp]: "topic_name (Topic_new n c) = n"
  by (simp add: Topic_new_def)

lemma topic_config_new [simp]: "topic_config (Topic_new n c) = c"
  by (simp add: Topic_new_def)

lemma topic_partition_count_new [simp]: "topic_partition_count (Topic_new n c) = tc_partition_count c"
  by (simp add: topic_partition_count_def)

lemma topic_partition_ids_new:
  "topic_partition_ids (Topic_new n c) = map (\<lambda>i. PartitionId (of_nat i)) [0..<unat (tc_partition_count c)]"
  by (simp add: topic_partition_ids_def Topic_new_def)

lemma unat_partition_index: "i < unat (n :: u32) \<Longrightarrow> unat (of_nat i :: u32) = i"
  using unat_u32_less[of n] by (intro unat_of_nat_small) simp

lemma set_partition_ids_new:
  "PartitionId p \<in> set (topic_partition_ids (Topic_new n c)) \<longleftrightarrow> p < tc_partition_count c"
proof
  assume "PartitionId p \<in> set (topic_partition_ids (Topic_new n c))"
  then obtain i where "i < unat (tc_partition_count c)" "p = of_nat i"
    by (auto simp: topic_partition_ids_new)
  then show "p < tc_partition_count c"
    by (simp add: word_less_nat_alt unat_partition_index)
next
  assume "p < tc_partition_count c"
  then have "unat p < unat (tc_partition_count c)" by (simp add: word_less_nat_alt)
  moreover have "p = of_nat (unat p)" by simp
  ultimately show "PartitionId p \<in> set (topic_partition_ids (Topic_new n c))"
    by (force simp: topic_partition_ids_new)
qed

lemma sorted_partition_ids_new:
  "sorted_wrt (<) (topic_partition_ids (Topic_new n c))"
  by (auto simp: topic_partition_ids_new sorted_wrt_map sorted_wrt_iff_nth_less less_partition_id_def
      word_less_nat_alt unat_partition_index[of _ "tc_partition_count c"])

lemma check_partition_ids_Ok_iff:
  "check_partition_ids k ps = Ok u \<longleftrightarrow>
     map part_id ps = map (\<lambda>i. PartitionId (of_nat i)) [k..<k + length ps]"
proof (induction ps arbitrary: k)
  case Nil
  then show ?case by simp
next
  case (Cons p ps)
  have "[k..<k + length (p # ps)] = k # [Suc k..<Suc k + length ps]"
    by (simp add: upt_conv_Cons del: upt_Suc)
  with Cons[of "Suc k"] show ?case
    by (cases "part_id p") auto
qed

lemma partition_list_eq:
  "map part_id ps = map part_id qs \<longleftrightarrow> ps = (qs :: partition list)"
proof
  assume eq: "map part_id ps = map part_id qs"
  show "ps = qs"
  proof (rule nth_equalityI)
    show len: "length ps = length qs" using eq by (metis length_map)
    fix i assume i: "i < length ps"
    have "part_id (ps ! i) = part_id (qs ! i)"
      using eq i len by (metis nth_map)
    moreover have "part_config (ps ! i) = part_config (qs ! i)"
      by (metis partition_config.exhaust)
    ultimately show "ps ! i = qs ! i" by simp
  qed
qed simp

lemma Topic_deserialize_Ok_iff:
  "Topic_deserialize raw = Ok t \<longleftrightarrow> t = raw \<and> raw = Topic_new (topic_name raw) (topic_config raw)"
proof -
  let ?n = "unat (tc_partition_count (topic_config raw))"
  have "Topic_deserialize raw = Ok t \<longleftrightarrow>
      t = raw \<and> map part_id (topic_partitions raw) = map (\<lambda>i. PartitionId (of_nat i)) [0..<?n]"
    using check_partition_ids_Ok_iff[of 0 "topic_partitions raw"]
    by (auto simp: Topic_deserialize_def Let_def dest: arg_cong[of _ _ length])
  also have "map (\<lambda>i. PartitionId (of_nat i)) [0..<?n] =
      map part_id (topic_partitions (Topic_new (topic_name raw) (topic_config raw)))"
    by (simp add: Topic_new_def)
  also have "(map part_id (topic_partitions raw) = \<dots>) \<longleftrightarrow>
      raw = Topic_new (topic_name raw) (topic_config raw)"
    unfolding partition_list_eq by (cases raw) (auto simp: Topic_new_def)
  finally show ?thesis .
qed

end
