(* ===== verification/Delivery.thy ===== *)
theory Delivery
  imports Message
begin

text \<open>
  \<^verbatim>\<open>msg-core\<close>: delivery attempts, the retry policy, ACK and NACK, and the delivery record with its
  state (\<^verbatim>\<open>delivery.rs\<close>). The lemmas say which transitions each operation of the record makes,
  that a mismatched command leaves it unchanged, and that every attempt a record holds carries the
  record's own id, which is what its custom \<^verbatim>\<open>Deserialize\<close> checks.
\<close>

datatype dead_letter_reason =
    MaxAttemptsExceeded
  | Expired
  | Rejected
  | Poisoned
  | Manual rstring

datatype delivery_state =
    Pending
  | Delivered
  | Acked
  | Nacked
  | RetryScheduled
  | DeadLettered dead_letter_reason

record delivery_attempt =
  att_delivery_id :: delivery_id
  att_attempt_number :: u32
  att_timestamp :: message_timestamp

definition DeliveryAttempt_new ::
  "delivery_id \<Rightarrow> u32 \<Rightarrow> message_timestamp \<Rightarrow> delivery_attempt domain_result" where
  "DeliveryAttempt_new did attempt_number ts =
     (if attempt_number = 0 then Err (TooSmall ''attempt_number'' 1 (ucast attempt_number))
      else Ok \<lparr>att_delivery_id = did, att_attempt_number = attempt_number, att_timestamp = ts\<rparr>)"

section \<open>Retry policy\<close>

record retry_policy =
  rp_max_attempts :: u32
  rp_backoff_millis :: "u64 option"

definition RetryPolicy_new :: "u32 \<Rightarrow> u64 option \<Rightarrow> retry_policy domain_result" where
  "RetryPolicy_new max_attempts backoff_millis =
     (if max_attempts = 0 then Err (TooSmall ''max_attempts'' 1 (ucast max_attempts))
      else case backoff_millis of
          Some v \<Rightarrow>
            if v = 0 then Err (TooSmall ''backoff_millis'' 1 0)
            else Ok \<lparr>rp_max_attempts = max_attempts, rp_backoff_millis = Some v\<rparr>
        | None \<Rightarrow> Ok \<lparr>rp_max_attempts = max_attempts, rp_backoff_millis = None\<rparr>)"

definition retry_policy_ok :: "retry_policy \<Rightarrow> bool" where
  "retry_policy_ok p \<longleftrightarrow> rp_max_attempts p \<noteq> 0 \<and> rp_backoff_millis p \<noteq> Some 0"

lemma RetryPolicy_new_Ok_iff:
  "RetryPolicy_new m b = Ok p \<longleftrightarrow>
     p = \<lparr>rp_max_attempts = m, rp_backoff_millis = b\<rparr> \<and> retry_policy_ok p"
  by (auto simp: RetryPolicy_new_def retry_policy_ok_def split: option.splits)

section \<open>ACK and NACK\<close>

record ack =
  ack_delivery_id :: delivery_id
  ack_consumer_id :: consumer_id
  ack_timestamp :: message_timestamp

record nack =
  nack_delivery_id :: delivery_id
  nack_consumer_id :: consumer_id
  nack_reason :: "rstring option"
  nack_timestamp :: message_timestamp

definition Nack_new :: "delivery_id \<Rightarrow> consumer_id \<Rightarrow> message_timestamp \<Rightarrow> nack" where
  "Nack_new did cid ts =
     \<lparr>nack_delivery_id = did, nack_consumer_id = cid, nack_reason = None, nack_timestamp = ts\<rparr>"

definition Nack_with_reason ::
  "delivery_id \<Rightarrow> consumer_id \<Rightarrow> rstring \<Rightarrow> message_timestamp \<Rightarrow> nack" where
  "Nack_with_reason did cid reason ts =
     (let r = trim reason in
      \<lparr>nack_delivery_id = did, nack_consumer_id = cid,
       nack_reason = (if r \<noteq> [] then Some r else None), nack_timestamp = ts\<rparr>)"

section \<open>The delivery record\<close>

record delivery =
  del_id :: delivery_id
  del_message_id :: message_id
  del_consumer_id :: consumer_id
  del_topic_name :: topic_name
  del_partition_id :: partition_id
  del_offset :: offset
  del_state :: delivery_state
  del_attempts :: "delivery_attempt list"

definition Delivery_new ::
  "delivery_id \<Rightarrow> message_id \<Rightarrow> consumer_id \<Rightarrow> topic_name \<Rightarrow> partition_id \<Rightarrow> offset \<Rightarrow> delivery" where
  "Delivery_new did mid cid tn pid off =
     \<lparr>del_id = did, del_message_id = mid, del_consumer_id = cid, del_topic_name = tn,
      del_partition_id = pid, del_offset = off, del_state = Pending, del_attempts = []\<rparr>"

definition add_attempt :: "delivery_attempt \<Rightarrow> delivery \<Rightarrow> unit domain_result \<times> delivery" where
  "add_attempt a d =
     (if att_delivery_id a \<noteq> del_id d
      then (Err (InvalidReference ''delivery_attempt.delivery_id'' (did_str (del_id d))
                  (did_str (att_delivery_id a))), d)
      else (Ok (), d\<lparr>del_attempts := del_attempts d @ [a], del_state := Delivered\<rparr>))"

definition ensure_command_matches :: "delivery \<Rightarrow> delivery_id \<Rightarrow> consumer_id \<Rightarrow> unit domain_result" where
  "ensure_command_matches d did cid =
     (if did \<noteq> del_id d
      then Err (InvalidReference ''delivery_id'' (did_str (del_id d)) (did_str did))
      else if cid \<noteq> del_consumer_id d
      then Err (InvalidReference ''consumer_id'' (ci_str (del_consumer_id d)) (ci_str cid))
      else Ok ())"

definition apply_ack :: "ack \<Rightarrow> delivery \<Rightarrow> unit domain_result \<times> delivery" where
  "apply_ack a d =
     (case ensure_command_matches d (ack_delivery_id a) (ack_consumer_id a) of
        Ok u \<Rightarrow> (Ok (), d\<lparr>del_state := Acked\<rparr>)
      | r \<Rightarrow> (r, d))"

definition apply_nack :: "nack \<Rightarrow> delivery \<Rightarrow> unit domain_result \<times> delivery" where
  "apply_nack n d =
     (case ensure_command_matches d (nack_delivery_id n) (nack_consumer_id n) of
        Ok u \<Rightarrow> (Ok (), d\<lparr>del_state := Nacked\<rparr>)
      | r \<Rightarrow> (r, d))"

definition schedule_retry :: "delivery \<Rightarrow> delivery" where
  "schedule_retry d = d\<lparr>del_state := RetryScheduled\<rparr>"

definition move_to_dead_letter :: "dead_letter_reason \<Rightarrow> delivery \<Rightarrow> delivery" where
  "move_to_dead_letter r d = d\<lparr>del_state := DeadLettered r\<rparr>"

fun check_attempt_ids :: "delivery_id \<Rightarrow> delivery_attempt list \<Rightarrow> (rstring, unit) rres" where
  "check_attempt_ids did [] = Ok ()"
| "check_attempt_ids did (a # as) =
     (if att_delivery_id a \<noteq> did
      then Err (str ''delivery attempt id mismatch: expected '' @ did_str did @ str '', got '' @
                did_str (att_delivery_id a))
      else check_attempt_ids did as)"

definition Delivery_deserialize :: "delivery \<Rightarrow> (rstring, delivery) rres" where
  "Delivery_deserialize raw = rbind (check_attempt_ids (del_id raw) (del_attempts raw)) (\<lambda>_. Ok raw)"

section \<open>Properties\<close>

definition delivery_ok :: "delivery \<Rightarrow> bool" where
  "delivery_ok d \<longleftrightarrow> (\<forall>a\<in>set (del_attempts d). att_delivery_id a = del_id d)"

lemma ensure_command_matches_Ok_iff:
  "ensure_command_matches d did cid = Ok u \<longleftrightarrow> did = del_id d \<and> cid = del_consumer_id d"
  by (simp add: ensure_command_matches_def)

lemma ensure_command_matches_not_Panicked [simp]: "ensure_command_matches d did cid \<noteq> Panicked"
  by (simp add: ensure_command_matches_def)

lemma check_attempt_ids_Ok_iff:
  "check_attempt_ids did as = Ok u \<longleftrightarrow> (\<forall>a\<in>set as. att_delivery_id a = did)"
  by (induction as) auto

lemma Delivery_deserialize_Ok_iff: "Delivery_deserialize raw = Ok d \<longleftrightarrow> d = raw \<and> delivery_ok raw"
  by (auto simp: Delivery_deserialize_def check_attempt_ids_Ok_iff delivery_ok_def)

text \<open>The operations of the record, as one type of step, and the invariant along any run.\<close>

datatype delivery_op =
    OpAttempt delivery_attempt
  | OpAck ack
  | OpNack nack
  | OpScheduleRetry
  | OpDeadLetter dead_letter_reason

fun delivery_step :: "delivery_op \<Rightarrow> delivery \<Rightarrow> delivery" where
  "delivery_step (OpAttempt a) d = snd (add_attempt a d)"
| "delivery_step (OpAck a) d = snd (apply_ack a d)"
| "delivery_step (OpNack n) d = snd (apply_nack n d)"
| "delivery_step OpScheduleRetry d = schedule_retry d"
| "delivery_step (OpDeadLetter r) d = move_to_dead_letter r d"

lemma delivery_step_ok: "delivery_ok d \<Longrightarrow> delivery_ok (delivery_step x d)"
  by (cases x)
    (auto simp: delivery_ok_def add_attempt_def apply_ack_def apply_nack_def schedule_retry_def
      move_to_dead_letter_def split: rres.splits)

lemma delivery_step_frame:
  "del_id (delivery_step x d) = del_id d \<and> del_consumer_id (delivery_step x d) = del_consumer_id d \<and>
   del_offset (delivery_step x d) = del_offset d \<and>
   (\<exists>as. del_attempts (delivery_step x d) = del_attempts d @ as)"
  by (cases x)
    (auto simp: add_attempt_def apply_ack_def apply_nack_def schedule_retry_def
      move_to_dead_letter_def split: rres.splits)

lemma delivery_run_ok: "delivery_ok d \<Longrightarrow> delivery_ok (fold delivery_step xs d)"
  by (induction xs arbitrary: d) (auto simp: delivery_step_ok)

end
