(* ===== verification/Commands.thy ===== *)
theory Commands
  imports Delivery
begin

text \<open>
  \<^verbatim>\<open>msg-broker\<close>: the commands (\<^verbatim>\<open>commands.rs\<close>), the results (\<^verbatim>\<open>delivery.rs\<close>), the errors
  (\<^verbatim>\<open>errors.rs\<close>) and the configuration (\<^verbatim>\<open>broker.rs\<close>) shared by the in-memory and the durable
  broker. Record selectors are the getters of the structs.
\<close>

section \<open>Errors\<close>

datatype broker_error =
    Domain domain_error
  | TopicAlreadyExists topic_name
  | TopicNotFound topic_name
  | DeliveryNotFound delivery_id
  | InvalidConsumer delivery_id consumer_id consumer_id
  | InvalidConfig string string
  | IdempotencyKeyConflict topic_name

type_synonym 'a broker_result = "(broker_error, 'a) rres"

section \<open>Commands\<close>

record create_topic_command =
  ctc_name :: topic_name
  ctc_config :: topic_config

record publish_command =
  pc_topic :: topic_name
  pc_envelope :: message_envelope

record consume_command =
  cc_topic :: topic_name
  cc_consumer_group_id :: consumer_group_id
  cc_consumer_id :: consumer_id
  cc_max_messages :: nat
  cc_timestamp :: message_timestamp
  cc_delivery_lease_millis :: "u64 option"

definition ConsumeCommand_new ::
  "topic_name \<Rightarrow> consumer_group_id \<Rightarrow> consumer_id \<Rightarrow> nat \<Rightarrow> message_timestamp \<Rightarrow> consume_command" where
  "ConsumeCommand_new t g c m ts =
     \<lparr>cc_topic = t, cc_consumer_group_id = g, cc_consumer_id = c, cc_max_messages = m,
      cc_timestamp = ts, cc_delivery_lease_millis = None\<rparr>"

definition ConsumeCommand_with_lease_millis ::
  "topic_name \<Rightarrow> consumer_group_id \<Rightarrow> consumer_id \<Rightarrow> nat \<Rightarrow> message_timestamp \<Rightarrow> u64
     \<Rightarrow> consume_command broker_result" where
  "ConsumeCommand_with_lease_millis t g c m ts lease =
     (if lease = 0 then Err (InvalidConfig ''lease_ms'' ''must be greater than zero'')
      else Ok \<lparr>cc_topic = t, cc_consumer_group_id = g, cc_consumer_id = c, cc_max_messages = m,
               cc_timestamp = ts, cc_delivery_lease_millis = Some lease\<rparr>)"

record ack_command =
  ac_delivery_id :: delivery_id
  ac_consumer_id :: consumer_id
  ac_timestamp :: message_timestamp

record nack_command =
  nc_delivery_id :: delivery_id
  nc_consumer_id :: consumer_id
  nc_reason :: "rstring option"
  nc_timestamp :: message_timestamp

definition NackCommand_new :: "delivery_id \<Rightarrow> consumer_id \<Rightarrow> message_timestamp \<Rightarrow> nack_command" where
  "NackCommand_new did cid ts =
     \<lparr>nc_delivery_id = did, nc_consumer_id = cid, nc_reason = None, nc_timestamp = ts\<rparr>"

definition NackCommand_with_reason ::
  "delivery_id \<Rightarrow> consumer_id \<Rightarrow> rstring \<Rightarrow> message_timestamp \<Rightarrow> nack_command" where
  "NackCommand_with_reason did cid reason ts =
     (let r = trim reason in
      \<lparr>nc_delivery_id = did, nc_consumer_id = cid,
       nc_reason = (if r \<noteq> [] then Some r else None), nc_timestamp = ts\<rparr>)"

record dlq_query =
  dq_topic :: "topic_name option"
  dq_consumer_group_id :: "consumer_group_id option"

definition DlqQuery_all :: dlq_query where
  "DlqQuery_all = \<lparr>dq_topic = None, dq_consumer_group_id = None\<rparr>"

definition DlqQuery_for_topic :: "topic_name \<Rightarrow> dlq_query" where
  "DlqQuery_for_topic t = \<lparr>dq_topic = Some t, dq_consumer_group_id = None\<rparr>"

definition DlqQuery_for_consumer_group :: "consumer_group_id \<Rightarrow> dlq_query" where
  "DlqQuery_for_consumer_group g = \<lparr>dq_topic = None, dq_consumer_group_id = Some g\<rparr>"

definition DlqQuery_for_topic_and_consumer_group :: "topic_name \<Rightarrow> consumer_group_id \<Rightarrow> dlq_query" where
  "DlqQuery_for_topic_and_consumer_group t g = \<lparr>dq_topic = Some t, dq_consumer_group_id = Some g\<rparr>"

section \<open>Results\<close>

record published_message =
  pm_topic :: topic_name
  pm_partition_id :: partition_id
  pm_offset :: offset
  pm_message_id :: message_id
  pm_deduplicated :: bool

definition PublishedMessage_new ::
  "topic_name \<Rightarrow> partition_id \<Rightarrow> offset \<Rightarrow> message_id \<Rightarrow> published_message" where
  "PublishedMessage_new t p off m =
     \<lparr>pm_topic = t, pm_partition_id = p, pm_offset = off, pm_message_id = m, pm_deduplicated = False\<rparr>"

definition PublishedMessage_replay ::
  "topic_name \<Rightarrow> partition_id \<Rightarrow> offset \<Rightarrow> message_id \<Rightarrow> published_message" where
  "PublishedMessage_replay t p off m =
     \<lparr>pm_topic = t, pm_partition_id = p, pm_offset = off, pm_message_id = m, pm_deduplicated = True\<rparr>"

record consumed_message =
  cm_delivery_id :: delivery_id
  cm_topic :: topic_name
  cm_partition_id :: partition_id
  cm_offset :: offset
  cm_envelope :: message_envelope
  cm_consumer_group_id :: consumer_group_id
  cm_consumer_id :: consumer_id
  cm_attempt_number :: u32
  cm_delivered_at :: message_timestamp
  cm_lease_expires_at :: message_timestamp

record dead_letter_entry =
  dl_topic :: topic_name
  dl_partition_id :: partition_id
  dl_offset :: offset
  dl_message_id :: message_id
  dl_envelope :: message_envelope
  dl_consumer_group_id :: consumer_group_id
  dl_reason :: dead_letter_reason
  dl_attempt_count :: u32
  dl_timestamp :: message_timestamp

record retry_summary =
  rs_retry_scheduled :: nat
  rs_lease_expired :: nat
  rs_made_available :: nat
  rs_dead_lettered :: nat

section \<open>Configuration\<close>

record broker_config =
  bc_retry_policy :: retry_policy
  bc_delivery_lease_millis :: u64

definition BrokerConfig_new :: "retry_policy \<Rightarrow> u64 \<Rightarrow> broker_config broker_result" where
  "BrokerConfig_new rp lease =
     (if lease = 0 then Err (InvalidConfig ''delivery_lease_millis'' ''must be greater than zero'')
      else Ok \<lparr>bc_retry_policy = rp, bc_delivery_lease_millis = lease\<rparr>)"

definition BrokerConfig_default :: "broker_config broker_result" where
  "BrokerConfig_default =
     (case RetryPolicy_new 3 (Some 1000) of
        Ok rp \<Rightarrow> Ok \<lparr>bc_retry_policy = rp, bc_delivery_lease_millis = 30000\<rparr>
      | _ \<Rightarrow> Panicked)"

lemma BrokerConfig_default_Ok:
  "BrokerConfig_default =
     Ok \<lparr>bc_retry_policy = \<lparr>rp_max_attempts = 3, rp_backoff_millis = Some 1000\<rparr>,
         bc_delivery_lease_millis = 30000\<rparr>"
  by (simp add: BrokerConfig_default_def RetryPolicy_new_def)

text \<open>Entries a dead-letter query keeps, in both brokers.\<close>

definition dlq_matches :: "dlq_query \<Rightarrow> dead_letter_entry \<Rightarrow> bool" where
  "dlq_matches q e \<longleftrightarrow>
     (case dq_topic q of None \<Rightarrow> True | Some t \<Rightarrow> dl_topic e = t) \<and>
     (case dq_consumer_group_id q of None \<Rightarrow> True | Some g \<Rightarrow> dl_consumer_group_id e = g)"

end
