(* ===== verification/Helpers.thy ===== *)
theory Helpers
  imports Commands
begin

text \<open>
  \<^verbatim>\<open>msg-broker/src/helpers.rs\<close>: the FNV-1a hash, partition selection, delivery ids and
  checked time arithmetic. The lemmas show that a selected partition exists, that the
  round-robin counter stays in range, that a delivery id is always a valid \<^verbatim>\<open>DeliveryId\<close> (the
  error branch of its constructor is dead) and which parts of a delivery id can be read back.
\<close>

definition FNV_OFFSET_BASIS :: u64 where
  "FNV_OFFSET_BASIS = 0xcbf29ce484222325"

definition FNV_PRIME :: u64 where
  "FNV_PRIME = 0x00000100000001b3"

definition fnv1a_64 :: "bytes \<Rightarrow> u64" where
  "fnv1a_64 bs = foldl (\<lambda>hash b. (hash XOR ucast b) * FNV_PRIME) FNV_OFFSET_BASIS bs"

text \<open>The casts are those of the source: modulo in \<^verbatim>\<open>u64\<close>, then \<^verbatim>\<open>as u32\<close>.\<close>

definition keyed_partition :: "partition_key \<Rightarrow> u32 \<Rightarrow> partition_id" where
  "keyed_partition k partition_count =
     PartitionId (ucast (fnv1a_64 (str_bytes (pk_str k)) mod ucast partition_count))"

definition round_robin_partition :: "u32 \<Rightarrow> partition_id" where
  "round_robin_partition next_round_robin = PartitionId next_round_robin"

definition advance_round_robin_partition :: "u32 \<Rightarrow> u32 \<Rightarrow> u32" where
  "advance_round_robin_partition next_round_robin partition_count =
     (next_round_robin + 1) mod partition_count"

definition delivery_id_text ::
  "consumer_group_id \<Rightarrow> topic_name \<Rightarrow> partition_id \<Rightarrow> offset \<Rightarrow> u32 \<Rightarrow> rstring" where
  "delivery_id_text g t p off attempt =
     (let input = cg_str g @ [58] @ tn_str t @ [58] @ dec (unat (pid_value p)) @ [58] @
                  dec (unat (offset_value off)) @ [58] @ dec (unat attempt)
      in str ''delivery:'' @ hex_fixed 16 (unat (fnv1a_64 (str_bytes input))) @ [58] @
         dec (unat (pid_value p)) @ [58] @ dec (unat (offset_value off)) @ [58] @ dec (unat attempt))"

definition deterministic_delivery_id ::
  "consumer_group_id \<Rightarrow> topic_name \<Rightarrow> partition_id \<Rightarrow> offset \<Rightarrow> u32 \<Rightarrow> delivery_id broker_result" where
  "deterministic_delivery_id g t p off attempt =
     map_err Domain (DeliveryId_new (delivery_id_text g t p off attempt))"

definition add_millis :: "message_timestamp \<Rightarrow> u64 \<Rightarrow> string \<Rightarrow> message_timestamp broker_result" where
  "add_millis ts millis field =
     (case checked_add (as_unix_millis ts) millis of
        Some v \<Rightarrow> Ok (MessageTimestamp v)
      | None \<Rightarrow> Err (InvalidConfig field ''timestamp overflow''))"

section \<open>Partition selection\<close>

lemma keyed_partition_bound:
  assumes "n \<noteq> 0"
  shows "pid_value (keyed_partition k n) < n"
proof -
  let ?h = "fnv1a_64 (str_bytes (pk_str k))"
  have un: "unat (ucast n :: u64) = unat n"
    by (simp add: unsigned_ucast_eq take_bit_nat_eq_self)
      (use unat_u32_less[of n] in \<open>simp add: take_bit_nat_eq_self\<close>)
  from assms have pos: "0 < unat n" by (simp add: unat_gt_0)
  have m: "unat (?h mod ucast n) = unat ?h mod unat n" by (simp add: unat_mod_distrib un)
  then have lt: "unat (?h mod ucast n) < unat n" using pos by simp
  then have "unat (?h mod ucast n) < 4294967296" using unat_u32_less[of n] by linarith
  then have "unat (ucast (?h mod ucast n) :: u32) = unat (?h mod ucast n)"
    by (simp add: unsigned_ucast_eq take_bit_nat_eq_self)
  with lt show ?thesis by (simp add: keyed_partition_def word_less_nat_alt)
qed

lemma advance_round_robin_bound:
  assumes "n \<noteq> 0"
  shows "advance_round_robin_partition r n < n"
proof -
  from assms have "0 < unat n" by (simp add: unat_gt_0)
  then show ?thesis by (simp add: advance_round_robin_partition_def word_less_nat_alt unat_mod_distrib)
qed

lemma advance_round_robin_unat:
  assumes "r < n"
  shows "unat (advance_round_robin_partition r n) = (unat r + 1) mod unat n"
proof -
  have "unat r + 1 < 2 ^ 32" using assms unat_u32_less[of n] by (simp add: word_less_nat_alt)
  then have "unat (r + 1) = unat r + 1" by (simp add: unat_word_ariths)
  then show ?thesis by (simp add: advance_round_robin_partition_def unat_mod_distrib)
qed

section \<open>Delivery ids\<close>

lemma length_dec_u32: "length (dec (unat (w :: u32))) \<le> 10"
  using unat_u32_less[of w] by (intro length_dec) auto

lemma length_dec_u64: "length (dec (unat (w :: u64))) \<le> 20"
  using unat_u64_less[of w] by (intro length_dec) auto

lemma last_dec: "is_ascii_digit (last (dec n))"
  using dec_digits[of n] by (auto simp: list_all_iff)

lemma delivery_id_text_rules:
  "delivery_id_text g t p off a \<noteq> [] \<and> length (delivery_id_text g t p off a) \<le> MAX_TEXT_LEN"
  using length_dec_u32[of "pid_value p"] length_dec_u64[of "offset_value off"] length_dec_u32[of a]
  by (simp add: delivery_id_text_def str_def MAX_TEXT_LEN_def)

lemma delivery_id_text_trimmed: "trimmed (delivery_id_text g t p off a)"
proof -
  have "\<not> is_white_space (last (dec (unat a)))"
    using last_dec[of "unat a"] by (auto simp: is_ascii_digit_def is_white_space_def)
  then show ?thesis
    by (simp add: trimmed_def delivery_id_text_def str_def is_white_space_def)
qed

lemma deterministic_delivery_id_Ok [simp]:
  "deterministic_delivery_id g t p off a = Ok (DeliveryId (delivery_id_text g t p off a))"
  using delivery_id_text_rules delivery_id_text_trimmed
  by (simp add: deterministic_delivery_id_def DeliveryId_new_def bt_text.new_of_rules)

lemma delivery_id_text_inject:
  assumes "delivery_id_text g t p off a = delivery_id_text g' t' p' off' a'"
  shows "p = p' \<and> off = off' \<and> a = a'"
proof -
  have "dec (unat (pid_value p)) @ [58] @ dec (unat (offset_value off)) @ [58] @ dec (unat a) =
        dec (unat (pid_value p')) @ [58] @ dec (unat (offset_value off')) @ [58] @ dec (unat a')"
    using assms by (simp add: delivery_id_text_def)
  then have "unat (pid_value p) = unat (pid_value p') \<and> unat (offset_value off) = unat (offset_value off') \<and>
      unat a = unat a'"
    by (simp add: append_sep_inject dec_no_colon)
  then show ?thesis
    by (auto dest!: unat_eqD intro: partition_id.expand offset.expand)
qed

section \<open>Time\<close>

lemma add_millis_Ok_iff:
  "add_millis ts m f = Ok ts' \<longleftrightarrow>
     unat (as_unix_millis ts) + unat m < 2 ^ 64 \<and> ts' = MessageTimestamp (as_unix_millis ts + m)"
  by (auto simp: add_millis_def checked_add_def split: option.splits if_splits)

lemma add_millis_not_Panicked [simp]: "add_millis ts m f \<noteq> Panicked"
  by (simp add: add_millis_def split: option.splits)

lemma add_millis_ge: "add_millis ts m f = Ok ts' \<Longrightarrow> ts \<le> ts'"
  by (auto simp: add_millis_def less_eq_message_timestamp_def checked_add_ge split: option.splits)

end
