(* ===== verification/Idempotency.thy ===== *)
theory Idempotency
  imports Helpers
begin

text \<open>
  \<^verbatim>\<open>msg-broker/src/idempotency.rs\<close>: the publish fingerprint, the idempotency record and the
  lookup that decides between a new publish, a replay and a conflict.

  SHA-256 is the \<^verbatim>\<open>sha2\<close> crate, so it is a parameter \<^verbatim>\<open>sha\<close> from the hashed bytes to the digest.
  What this file adds is the byte string that is hashed; the locale \<^verbatim>\<open>prefix_code\<close> is the
  contract of its length-prefixed fields, interpreted for each field writer, and the result is
  that the byte string determines the semantic publish intent and is determined by it.
\<close>

section \<open>The hashed byte string\<close>

definition encoded_u64 :: "u64 \<Rightarrow> bytes" where
  "encoded_u64 value = u64_to_le_bytes value"

definition write_bytes :: "bytes \<Rightarrow> bytes" where
  "write_bytes value = encoded_u64 (of_nat (length value)) @ value"

definition write_str :: "rstring \<Rightarrow> bytes" where
  "write_str value = write_bytes (str_bytes value)"

definition write_optional :: "rstring option \<Rightarrow> bytes" where
  "write_optional v = (case v of Some s \<Rightarrow> 1 # write_str s | None \<Rightarrow> [0])"

definition write_header :: "header_name \<times> header_value \<Rightarrow> bytes" where
  "write_header nv = write_str (hn_str (fst nv)) @ write_str (hv_str (snd nv))"

definition write_headers :: "message_headers \<Rightarrow> bytes" where
  "write_headers h = encoded_u64 (of_nat (length h)) @ concat (map write_header h)"

definition fingerprint_input :: "topic_name \<Rightarrow> message_envelope \<Rightarrow> bytes" where
  "fingerprint_input t e =
     write_str (tn_str t) @
     write_optional (map_option pk_str (env_partition_key e)) @
     write_bytes (payload_bytes (env_payload e)) @
     write_str (ct_str (env_content_type e)) @
     write_str (et_str (env_event_type e)) @
     write_str (es_str (env_source e)) @
     write_optional (map_option esub_str (env_subject e)) @
     write_headers (env_headers e)"

datatype publish_fingerprint = PublishFingerprint (fp_bytes: bytes)

definition PublishFingerprint_compute ::
  "(bytes \<Rightarrow> bytes) \<Rightarrow> topic_name \<Rightarrow> message_envelope \<Rightarrow> publish_fingerprint" where
  "PublishFingerprint_compute sha t e = PublishFingerprint (sha (fingerprint_input t e))"

section \<open>Records and the check\<close>

record idempotency_record =
  ir_fingerprint :: publish_fingerprint
  ir_partition_id :: partition_id
  ir_offset :: offset
  ir_message_id :: message_id

type_synonym idempotency_index = "(topic_name \<times> idempotency_key, idempotency_record) btree_map"

datatype idempotency_check =
    Untracked
  | New idempotency_key publish_fingerprint
  | Replay idempotency_record

definition check_idempotency ::
  "(bytes \<Rightarrow> bytes) \<Rightarrow> topic_name \<Rightarrow> message_envelope \<Rightarrow> idempotency_index
     \<Rightarrow> idempotency_check broker_result" where
  "check_idempotency sha t e index =
     (case env_idempotency_key e of
        None \<Rightarrow> Ok Untracked
      | Some key \<Rightarrow>
          (let fingerprint = PublishFingerprint_compute sha t e in
           case bt_get index (t, key) of
             None \<Rightarrow> Ok (New key fingerprint)
           | Some existing \<Rightarrow>
               if ir_fingerprint existing = fingerprint then Ok (Replay existing)
               else Err (IdempotencyKeyConflict t)))"

section \<open>The fields form a prefix code\<close>

definition short_bytes :: "bytes \<Rightarrow> bool" where
  "short_bytes b \<longleftrightarrow> length b < 2 ^ 64"

definition str_ok :: "rstring \<Rightarrow> bool" where
  "str_ok s \<longleftrightarrow> valid_str s \<and> short_bytes (str_bytes s)"

definition opt_ok :: "rstring option \<Rightarrow> bool" where
  "opt_ok v \<longleftrightarrow> (\<forall>s. v = Some s \<longrightarrow> str_ok s)"

definition header_ok :: "header_name \<times> header_value \<Rightarrow> bool" where
  "header_ok nv \<longleftrightarrow> str_ok (hn_str (fst nv)) \<and> str_ok (hv_str (snd nv))"

definition headers_ok :: "message_headers \<Rightarrow> bool" where
  "headers_ok h \<longleftrightarrow> length h < 2 ^ 64 \<and> list_all header_ok h"

lemma write_bytes_split:
  assumes "short_bytes a" "short_bytes b"
  shows "write_bytes a @ u = write_bytes b @ v \<longleftrightarrow> a = b \<and> u = v"
proof -
  have "write_bytes a @ u = write_bytes b @ v \<longleftrightarrow> length a = length b \<and> a @ u = b @ v"
    using assms by (simp add: write_bytes_def encoded_u64_def short_bytes_def of_nat_u64_inject)
  then show ?thesis by auto
qed

interpretation pc_bytes: prefix_code write_bytes short_bytes
  by unfold_locales (rule write_bytes_split)

interpretation pc_str: prefix_code write_str str_ok
  by unfold_locales (simp add: write_str_def str_ok_def pc_bytes.enc_split str_bytes_inject)

interpretation pc_opt: prefix_code write_optional opt_ok
  by unfold_locales (auto simp: write_optional_def opt_ok_def pc_str.enc_split split: option.splits)

interpretation pc_header: prefix_code write_header header_ok
  by unfold_locales
    (auto simp: write_header_def header_ok_def pc_str.enc_split prod_eq_iff
      intro: header_name.expand header_value.expand)

interpretation pc_headers: prefix_code write_headers headers_ok
proof unfold_locales
  fix a b u v
  assume ok: "headers_ok a" "headers_ok b"
  then have "write_headers a @ u = write_headers b @ v \<longleftrightarrow>
      length a = length b \<and> concat (map write_header a) @ u = concat (map write_header b) @ v"
    by (simp add: write_headers_def encoded_u64_def headers_ok_def of_nat_u64_inject)
  also have "\<dots> \<longleftrightarrow> a = b \<and> u = v"
    using ok pc_header.concat_split[of a b u v] by (auto simp: headers_ok_def)
  finally show "write_headers a @ u = write_headers b @ v \<longleftrightarrow> a = b \<and> u = v" .
qed

section \<open>The semantic intent\<close>

record publish_intent =
  pi_topic :: topic_name
  pi_partition_key :: "partition_key option"
  pi_payload :: message_payload
  pi_content_type :: content_type
  pi_event_type :: event_type
  pi_source :: event_source
  pi_subject :: "event_subject option"
  pi_headers :: message_headers

definition intent_of :: "topic_name \<Rightarrow> message_envelope \<Rightarrow> publish_intent" where
  "intent_of t e =
     \<lparr>pi_topic = t, pi_partition_key = env_partition_key e, pi_payload = env_payload e,
      pi_content_type = env_content_type e, pi_event_type = env_event_type e,
      pi_source = env_source e, pi_subject = env_subject e, pi_headers = env_headers e\<rparr>"

definition intent_ok :: "topic_name \<Rightarrow> message_envelope \<Rightarrow> bool" where
  "intent_ok t e \<longleftrightarrow>
     str_ok (tn_str t) \<and> opt_ok (map_option pk_str (env_partition_key e)) \<and>
     short_bytes (payload_bytes (env_payload e)) \<and> str_ok (ct_str (env_content_type e)) \<and>
     str_ok (et_str (env_event_type e)) \<and> str_ok (es_str (env_source e)) \<and>
     opt_ok (map_option esub_str (env_subject e)) \<and> headers_ok (env_headers e)"

lemma map_option_inj_iff:
  "(\<And>a b. f a = f b \<Longrightarrow> a = b) \<Longrightarrow> map_option f x = map_option f y \<longleftrightarrow> x = y"
  by (cases x; cases y) auto

lemma fingerprint_input_iff:
  assumes "intent_ok t e" "intent_ok t' e'"
  shows "fingerprint_input t e = fingerprint_input t' e' \<longleftrightarrow> intent_of t e = intent_of t' e'"
proof -
  have opt_pk: "map_option pk_str x = map_option pk_str y \<longleftrightarrow> x = y" for x y
    by (rule map_option_inj_iff) (simp add: partition_key.expand)
  have opt_sub: "map_option esub_str x = map_option esub_str y \<longleftrightarrow> x = y" for x y
    by (rule map_option_inj_iff) (simp add: event_subject.expand)
  have sels: "tn_str t = tn_str t' \<longleftrightarrow> t = t'"
    "payload_bytes (env_payload e) = payload_bytes (env_payload e') \<longleftrightarrow> env_payload e = env_payload e'"
    "ct_str (env_content_type e) = ct_str (env_content_type e') \<longleftrightarrow> env_content_type e = env_content_type e'"
    "et_str (env_event_type e) = et_str (env_event_type e') \<longleftrightarrow> env_event_type e = env_event_type e'"
    "es_str (env_source e) = es_str (env_source e') \<longleftrightarrow> env_source e = env_source e'"
    by (auto intro: topic_name.expand message_payload.expand content_type.expand event_type.expand
        event_source.expand)
  show ?thesis
    using assms
    by (simp add: fingerprint_input_def intent_ok_def pc_str.enc_split pc_opt.enc_split
        pc_bytes.enc_split pc_headers.enc_inject opt_pk opt_sub sels intent_of_def)
qed

section \<open>The outcome of the check\<close>

lemma check_idempotency_not_Panicked [simp]: "check_idempotency sha t e index \<noteq> Panicked"
  by (simp add: check_idempotency_def Let_def split: option.splits)

lemma check_idempotency_Untracked_iff:
  "check_idempotency sha t e index = Ok Untracked \<longleftrightarrow> env_idempotency_key e = None"
  by (auto simp: check_idempotency_def Let_def split: option.splits if_splits)

lemma check_idempotency_New_iff:
  "check_idempotency sha t e index = Ok (New k fp) \<longleftrightarrow>
     env_idempotency_key e = Some k \<and> bt_get index (t, k) = None \<and>
     fp = PublishFingerprint_compute sha t e"
  by (auto simp: check_idempotency_def Let_def split: option.splits if_splits)

lemma check_idempotency_Replay_iff:
  "check_idempotency sha t e index = Ok (Replay r) \<longleftrightarrow>
     (\<exists>k. env_idempotency_key e = Some k \<and> bt_get index (t, k) = Some r \<and>
          ir_fingerprint r = PublishFingerprint_compute sha t e)"
  by (auto simp: check_idempotency_def Let_def split: option.splits if_splits)

lemma check_idempotency_Err_iff:
  "check_idempotency sha t e index = Err er \<longleftrightarrow>
     (\<exists>k r. env_idempotency_key e = Some k \<and> bt_get index (t, k) = Some r \<and>
          ir_fingerprint r \<noteq> PublishFingerprint_compute sha t e \<and> er = IdempotencyKeyConflict t)"
  by (auto simp: check_idempotency_def Let_def split: option.splits if_splits)

end
