(* ===== verification/GroupState.thy ===== *)
theory GroupState
  imports Idempotency
begin

text \<open>
  \<^verbatim>\<open>msg-broker/src/state.rs\<close>: the broker state shared by both brokers. A topic with its partition
  logs and round-robin counter, the references and entries kept for deliveries, the per-group
  partition state and the whole \<^verbatim>\<open>BrokerState\<close>. \<^verbatim>\<open>&mut\<close> accessors are update functions.

  An offset of a partition has one status for a group, \<^verbatim>\<open>offset_status\<close>; the lemmas give the
  status after every operation, and show that \<^verbatim>\<open>advance_cursor\<close> terminates with the fuel used.
\<close>

section \<open>Logs and topics\<close>

record partition_log =
  pl_entries :: "message_envelope list"

definition PartitionLog_default :: partition_log where
  "PartitionLog_default = \<lparr>pl_entries = []\<rparr>"

definition PartitionLog_append :: "message_envelope \<Rightarrow> partition_log \<Rightarrow> offset \<times> partition_log" where
  "PartitionLog_append envelope l =
     (Offset (of_nat (length (pl_entries l))), l\<lparr>pl_entries := pl_entries l @ [envelope]\<rparr>)"

definition PartitionLog_get :: "partition_log \<Rightarrow> offset \<Rightarrow> message_envelope option" where
  "PartitionLog_get l off =
     (if unat (offset_value off) < length (pl_entries l)
      then Some (pl_entries l ! unat (offset_value off)) else None)"

definition PartitionLog_len :: "partition_log \<Rightarrow> nat" where
  "PartitionLog_len l = length (pl_entries l)"

record stored_topic =
  st_topic :: topic
  st_partitions :: "(partition_id, partition_log) btree_map"
  st_next_round_robin_partition :: u32

definition StoredTopic_new :: "topic \<Rightarrow> stored_topic" where
  "StoredTopic_new t =
     \<lparr>st_topic = t,
      st_partitions = fold (\<lambda>p m. bt_insert p PartitionLog_default m) (topic_partition_ids t) [],
      st_next_round_robin_partition = 0\<rparr>"

definition st_partition_log :: "stored_topic \<Rightarrow> partition_id \<Rightarrow> partition_log option" where
  "st_partition_log st p = bt_get (st_partitions st) p"

definition st_set_partition_log :: "partition_id \<Rightarrow> partition_log \<Rightarrow> stored_topic \<Rightarrow> stored_topic" where
  "st_set_partition_log p l st = st\<lparr>st_partitions := bt_insert p l (st_partitions st)\<rparr>"

definition st_partition_ids :: "stored_topic \<Rightarrow> partition_id list" where
  "st_partition_ids st = map fst (st_partitions st)"

definition st_partition_count :: "stored_topic \<Rightarrow> u32" where
  "st_partition_count st = topic_partition_count (st_topic st)"

definition st_advance_round_robin_partition :: "stored_topic \<Rightarrow> stored_topic" where
  "st_advance_round_robin_partition st =
     st\<lparr>st_next_round_robin_partition :=
          advance_round_robin_partition (st_next_round_robin_partition st) (st_partition_count st)\<rparr>"

text \<open>\<^verbatim>\<open>select_partition\<close> of \<^verbatim>\<open>helpers.rs\<close>, which reads a stored topic.\<close>

definition select_partition :: "stored_topic \<Rightarrow> message_envelope \<Rightarrow> partition_id" where
  "select_partition st e =
     (case env_partition_key e of
        Some key \<Rightarrow> keyed_partition key (st_partition_count st)
      | None \<Rightarrow> round_robin_partition (st_next_round_robin_partition st))"

section \<open>Deliveries and retries\<close>

record message_ref =
  mr_topic :: topic_name
  mr_partition_id :: partition_id
  mr_offset :: offset

record pending_delivery =
  pd_message_ref :: message_ref
  pd_consumer_group_id :: consumer_group_id
  pd_consumer_id :: consumer_id
  pd_attempt_number :: u32
  pd_lease_expires_at :: message_timestamp

record retry_entry =
  re_message_ref :: message_ref
  re_ready_at :: message_timestamp

section \<open>State of a group on one partition\<close>

record group_partition_state =
  gp_cursor :: u64
  gp_acked_offsets :: "offset btree_set"
  gp_pending_by_offset :: "(offset, delivery_id) btree_map"
  gp_retry_by_offset :: "(offset, retry_entry) btree_map"
  gp_dead_lettered_offsets :: "offset btree_set"
  gp_attempt_counts :: "(offset, u32) btree_map"

definition GroupPartitionState_default :: group_partition_state where
  "GroupPartitionState_default =
     \<lparr>gp_cursor = 0, gp_acked_offsets = [], gp_pending_by_offset = [], gp_retry_by_offset = [],
      gp_dead_lettered_offsets = [], gp_attempt_counts = []\<rparr>"

definition gp_is_available :: "group_partition_state \<Rightarrow> offset \<Rightarrow> bool" where
  "gp_is_available s off \<longleftrightarrow>
     \<not> bs_contains (gp_acked_offsets s) off \<and>
     \<not> bt_contains (gp_pending_by_offset s) off \<and>
     \<not> bt_contains (gp_retry_by_offset s) off \<and>
     \<not> bs_contains (gp_dead_lettered_offsets s) off"

definition gp_next_attempt_number :: "group_partition_state \<Rightarrow> offset \<Rightarrow> u32" where
  "gp_next_attempt_number s off = bt_entry_or 0 (gp_attempt_counts s) off + 1"

definition gp_mark_pending :: "offset \<Rightarrow> delivery_id \<Rightarrow> group_partition_state \<Rightarrow> group_partition_state" where
  "gp_mark_pending off d s = s\<lparr>gp_pending_by_offset := bt_insert off d (gp_pending_by_offset s)\<rparr>"

text \<open>
  The cursor loop, with fuel: \<^verbatim>\<open>None\<close> would mean that the fuel ran out. It never does with one
  more step than there are acked offsets (\<^verbatim>\<open>advance_cursor_loop_enough\<close> below).
\<close>

fun advance_cursor_loop :: "nat \<Rightarrow> offset btree_set \<Rightarrow> u64 \<Rightarrow> u64 option" where
  "advance_cursor_loop 0 acked cursor = None"
| "advance_cursor_loop (Suc fuel) acked cursor =
     (if bs_contains acked (Offset cursor) then advance_cursor_loop fuel acked (cursor + 1)
      else Some cursor)"

definition gp_advance_cursor :: "group_partition_state \<Rightarrow> group_partition_state" where
  "gp_advance_cursor s =
     (case advance_cursor_loop (Suc (length (gp_acked_offsets s))) (gp_acked_offsets s) (gp_cursor s) of
        Some c \<Rightarrow> s\<lparr>gp_cursor := c\<rparr>
      | None \<Rightarrow> s)"

definition gp_mark_acked :: "offset \<Rightarrow> group_partition_state \<Rightarrow> group_partition_state" where
  "gp_mark_acked off s =
     gp_advance_cursor
       (s\<lparr>gp_acked_offsets := bs_insert off (gp_acked_offsets s),
          gp_attempt_counts := bt_remove off (gp_attempt_counts s)\<rparr>)"

definition gp_mark_retry_scheduled ::
  "offset \<Rightarrow> retry_entry \<Rightarrow> group_partition_state \<Rightarrow> group_partition_state" where
  "gp_mark_retry_scheduled off e s = s\<lparr>gp_retry_by_offset := bt_insert off e (gp_retry_by_offset s)\<rparr>"

definition gp_mark_retry_available :: "offset \<Rightarrow> group_partition_state \<Rightarrow> group_partition_state" where
  "gp_mark_retry_available off s = s\<lparr>gp_retry_by_offset := bt_remove off (gp_retry_by_offset s)\<rparr>"

definition gp_mark_dead_lettered :: "offset \<Rightarrow> group_partition_state \<Rightarrow> group_partition_state" where
  "gp_mark_dead_lettered off s =
     s\<lparr>gp_retry_by_offset := bt_remove off (gp_retry_by_offset s),
       gp_attempt_counts := bt_remove off (gp_attempt_counts s),
       gp_dead_lettered_offsets := bs_insert off (gp_dead_lettered_offsets s)\<rparr>"

definition gp_remove_pending :: "offset \<Rightarrow> group_partition_state \<Rightarrow> group_partition_state" where
  "gp_remove_pending off s = s\<lparr>gp_pending_by_offset := bt_remove off (gp_pending_by_offset s)\<rparr>"

section \<open>Groups and the broker state\<close>

record group_state =
  gs_partitions :: "(topic_name \<times> partition_id, group_partition_state) btree_map"

definition GroupState_default :: group_state where
  "GroupState_default = \<lparr>gs_partitions = []\<rparr>"

definition gs_partition_state :: "group_state \<Rightarrow> topic_name \<Rightarrow> partition_id \<Rightarrow> group_partition_state option" where
  "gs_partition_state g t p = bt_get (gs_partitions g) (t, p)"

text \<open>\<^verbatim>\<open>partition_state_mut\<close>: the entry, created when absent, changed by \<^verbatim>\<open>f\<close>.\<close>

definition gs_partition_state_mut ::
  "topic_name \<Rightarrow> partition_id \<Rightarrow> (group_partition_state \<Rightarrow> group_partition_state)
     \<Rightarrow> group_state \<Rightarrow> group_state" where
  "gs_partition_state_mut t p f g =
     g\<lparr>gs_partitions :=
         bt_insert (t, p) (f (bt_entry_or GroupPartitionState_default (gs_partitions g) (t, p)))
           (gs_partitions g)\<rparr>"

record broker_state =
  bs_topics :: "(topic_name, stored_topic) btree_map"
  bs_groups :: "(consumer_group_id, group_state) btree_map"
  bs_pending :: "(delivery_id, pending_delivery) btree_map"
  bs_dead_letters :: "dead_letter_entry list"
  bs_idempotency_index :: idempotency_index

definition BrokerState_default :: broker_state where
  "BrokerState_default =
     \<lparr>bs_topics = [], bs_groups = [], bs_pending = [], bs_dead_letters = [], bs_idempotency_index = []\<rparr>"

text \<open>
  \<^verbatim>\<open>group_partition_state_mut\<close> of \<^verbatim>\<open>memory.rs\<close> (and the same code in \<^verbatim>\<open>durable.rs\<close>), and the value
  that it finds or creates.
\<close>

definition group_partition_state_mut ::
  "consumer_group_id \<Rightarrow> topic_name \<Rightarrow> partition_id \<Rightarrow> (group_partition_state \<Rightarrow> group_partition_state)
     \<Rightarrow> broker_state \<Rightarrow> broker_state" where
  "group_partition_state_mut g t p f s =
     s\<lparr>bs_groups :=
         bt_insert g (gs_partition_state_mut t p f (bt_entry_or GroupState_default (bs_groups s) g))
           (bs_groups s)\<rparr>"

definition gps_of :: "broker_state \<Rightarrow> consumer_group_id \<Rightarrow> topic_name \<Rightarrow> partition_id \<Rightarrow> group_partition_state" where
  "gps_of s g t p =
     bt_entry_or GroupPartitionState_default
       (gs_partitions (bt_entry_or GroupState_default (bs_groups s) g)) (t, p)"

definition log_of :: "broker_state \<Rightarrow> topic_name \<Rightarrow> partition_id \<Rightarrow> partition_log option" where
  "log_of s t p = (case bt_get (bs_topics s) t of None \<Rightarrow> None | Some st \<Rightarrow> st_partition_log st p)"

lemma gps_of_mut [simp]:
  "gps_of (group_partition_state_mut g t p f s) g' t' p' =
     (if g' = g \<and> t' = t \<and> p' = p then f (gps_of s g t p) else gps_of s g' t' p')"
  by (simp add: gps_of_def group_partition_state_mut_def gs_partition_state_mut_def)

lemma group_partition_state_mut_frame [simp]:
  "bs_topics (group_partition_state_mut g t p f s) = bs_topics s"
  "bs_pending (group_partition_state_mut g t p f s) = bs_pending s"
  "bs_dead_letters (group_partition_state_mut g t p f s) = bs_dead_letters s"
  "bs_idempotency_index (group_partition_state_mut g t p f s) = bs_idempotency_index s"
  by (simp_all add: group_partition_state_mut_def)

lemma gps_of_frame [simp]:
  "gps_of (s\<lparr>bs_topics := a\<rparr>) = gps_of s"
  "gps_of (s\<lparr>bs_pending := b\<rparr>) = gps_of s"
  "gps_of (s\<lparr>bs_dead_letters := c\<rparr>) = gps_of s"
  "gps_of (s\<lparr>bs_idempotency_index := d\<rparr>) = gps_of s"
  by (simp_all add: gps_of_def fun_eq_iff)

lemma gps_of_default [simp]: "gps_of BrokerState_default g t p = GroupPartitionState_default"
  by (simp add: gps_of_def BrokerState_default_def GroupState_default_def)

lemma log_of_frame [simp]:
  "log_of (group_partition_state_mut g t p f s) = log_of s"
  "log_of (s\<lparr>bs_pending := b\<rparr>) = log_of s"
  "log_of (s\<lparr>bs_dead_letters := c\<rparr>) = log_of s"
  "log_of (s\<lparr>bs_idempotency_index := d\<rparr>) = log_of s"
  by (simp_all add: log_of_def fun_eq_iff)

section \<open>The status of an offset\<close>

datatype offset_status =
    Available
  | InFlight delivery_id
  | AwaitingRetry retry_entry
  | Done
  | Dead

definition status_in :: "group_partition_state \<Rightarrow> offset \<Rightarrow> offset_status" where
  "status_in s off =
     (if bs_contains (gp_acked_offsets s) off then Done
      else if bs_contains (gp_dead_lettered_offsets s) off then Dead
      else case bt_get (gp_pending_by_offset s) off of
          Some d \<Rightarrow> InFlight d
        | None \<Rightarrow>
            (case bt_get (gp_retry_by_offset s) off of Some e \<Rightarrow> AwaitingRetry e | None \<Rightarrow> Available))"

text \<open>Each offset is in at most one of the four collections.\<close>

definition gp_disjoint :: "group_partition_state \<Rightarrow> bool" where
  "gp_disjoint s \<longleftrightarrow>
     (\<forall>off.
       (bs_contains (gp_acked_offsets s) off \<longrightarrow>
          \<not> bt_contains (gp_pending_by_offset s) off \<and> \<not> bt_contains (gp_retry_by_offset s) off \<and>
          \<not> bs_contains (gp_dead_lettered_offsets s) off) \<and>
       (bt_contains (gp_pending_by_offset s) off \<longrightarrow>
          \<not> bt_contains (gp_retry_by_offset s) off \<and> \<not> bs_contains (gp_dead_lettered_offsets s) off) \<and>
       (bt_contains (gp_retry_by_offset s) off \<longrightarrow> \<not> bs_contains (gp_dead_lettered_offsets s) off))"

lemma status_in_Available_iff: "status_in s off = Available \<longleftrightarrow> gp_is_available s off"
  by (auto simp: status_in_def gp_is_available_def bt_contains_def split: option.splits)

lemma status_in_default [simp]: "status_in GroupPartitionState_default off = Available"
  by (simp add: status_in_def GroupPartitionState_default_def)

lemma gp_disjoint_default [simp]: "gp_disjoint GroupPartitionState_default"
  by (simp add: gp_disjoint_def GroupPartitionState_default_def)

lemma status_InFlight_iff:
  "gp_disjoint s \<Longrightarrow> status_in s off = InFlight d \<longleftrightarrow> bt_get (gp_pending_by_offset s) off = Some d"
  by (auto simp: status_in_def gp_disjoint_def bt_contains_def split: option.splits)

lemma status_AwaitingRetry_iff:
  "gp_disjoint s \<Longrightarrow> status_in s off = AwaitingRetry e \<longleftrightarrow> bt_get (gp_retry_by_offset s) off = Some e"
  by (auto simp: status_in_def gp_disjoint_def bt_contains_def split: option.splits)

lemma status_Done_iff: "status_in s off = Done \<longleftrightarrow> bs_contains (gp_acked_offsets s) off"
  by (auto simp: status_in_def split: option.splits)

lemma status_Dead_iff:
  "gp_disjoint s \<Longrightarrow> status_in s off = Dead \<longleftrightarrow> bs_contains (gp_dead_lettered_offsets s) off"
  by (auto simp: status_in_def gp_disjoint_def split: option.splits)

lemma gp_advance_cursor_frame [simp]:
  "gp_acked_offsets (gp_advance_cursor s) = gp_acked_offsets s"
  "gp_pending_by_offset (gp_advance_cursor s) = gp_pending_by_offset s"
  "gp_retry_by_offset (gp_advance_cursor s) = gp_retry_by_offset s"
  "gp_dead_lettered_offsets (gp_advance_cursor s) = gp_dead_lettered_offsets s"
  "gp_attempt_counts (gp_advance_cursor s) = gp_attempt_counts s"
  by (simp_all add: gp_advance_cursor_def split: option.splits)

lemma gp_mark_acked_fields [simp]:
  "gp_acked_offsets (gp_mark_acked off s) = bs_insert off (gp_acked_offsets s)"
  "gp_pending_by_offset (gp_mark_acked off s) = gp_pending_by_offset s"
  "gp_retry_by_offset (gp_mark_acked off s) = gp_retry_by_offset s"
  "gp_dead_lettered_offsets (gp_mark_acked off s) = gp_dead_lettered_offsets s"
  "gp_attempt_counts (gp_mark_acked off s) = bt_remove off (gp_attempt_counts s)"
  by (simp_all add: gp_mark_acked_def)

lemmas gp_ops = gp_mark_pending_def gp_mark_retry_scheduled_def gp_mark_retry_available_def
  gp_mark_dead_lettered_def gp_remove_pending_def

lemma attempt_counts_frame [simp]:
  "status_in (s\<lparr>gp_attempt_counts := c\<rparr>) off = status_in s off"
  "gp_disjoint (s\<lparr>gp_attempt_counts := c\<rparr>) = gp_disjoint s"
  by (simp_all add: status_in_def gp_disjoint_def split: option.split)

text \<open>The five transitions of an offset, as the brokers compose them.\<close>

lemma status_deliver:
  "status_in s off = Available \<Longrightarrow>
   status_in (gp_mark_pending off d s) x = (if x = off then InFlight d else status_in s x)"
  by (auto simp: status_in_def gp_ops split: option.splits if_splits)

lemma status_ack:
  "status_in (gp_mark_acked off (gp_remove_pending off s)) x = (if x = off then Done else status_in s x)"
  by (simp add: status_in_def gp_remove_pending_def split: option.split)

lemma status_retry:
  "status_in s off = InFlight d \<Longrightarrow>
   status_in (gp_mark_retry_scheduled off e (gp_remove_pending off s)) x =
     (if x = off then AwaitingRetry e else status_in s x)"
  by (auto simp: status_in_def gp_ops split: option.splits if_splits)

lemma status_dead:
  "status_in s off = InFlight d \<Longrightarrow>
   status_in (gp_mark_dead_lettered off (gp_remove_pending off s)) x =
     (if x = off then Dead else status_in s x)"
  by (auto simp: status_in_def gp_ops split: option.splits if_splits)

lemma status_release:
  "gp_disjoint s \<Longrightarrow> status_in s off = AwaitingRetry e \<Longrightarrow>
   status_in (gp_mark_retry_available off s) x = (if x = off then Available else status_in s x)"
  by (auto simp: status_in_def gp_ops gp_disjoint_def bt_contains_def split: option.splits if_splits)

lemma gp_disjoint_deliver:
  "gp_disjoint s \<Longrightarrow> status_in s off = Available \<Longrightarrow> gp_disjoint (gp_mark_pending off d s)"
  by (auto simp: gp_disjoint_def status_in_Available_iff gp_is_available_def gp_ops)

lemma gp_disjoint_remove_pending: "gp_disjoint s \<Longrightarrow> gp_disjoint (gp_remove_pending off s)"
  by (auto simp: gp_disjoint_def gp_ops)

lemma gp_disjoint_ack:
  "gp_disjoint s \<Longrightarrow> status_in s off = InFlight d \<Longrightarrow>
   gp_disjoint (gp_mark_acked off (gp_remove_pending off s))"
  unfolding status_InFlight_iff by (auto simp: gp_disjoint_def bt_contains_def gp_ops)

lemma gp_disjoint_retry:
  "gp_disjoint s \<Longrightarrow> status_in s off = InFlight d \<Longrightarrow>
   gp_disjoint (gp_mark_retry_scheduled off e (gp_remove_pending off s))"
  unfolding status_InFlight_iff by (auto simp: gp_disjoint_def bt_contains_def gp_ops)

lemma gp_disjoint_dead:
  "gp_disjoint s \<Longrightarrow> status_in s off = InFlight d \<Longrightarrow>
   gp_disjoint (gp_mark_dead_lettered off (gp_remove_pending off s))"
  unfolding status_InFlight_iff by (auto simp: gp_disjoint_def bt_contains_def gp_ops)

lemma gp_disjoint_release: "gp_disjoint s \<Longrightarrow> gp_disjoint (gp_mark_retry_available off s)"
  by (auto simp: gp_disjoint_def gp_ops)

section \<open>The cursor\<close>

lemma advance_cursor_loop_None:
  "advance_cursor_loop n acked c = None \<Longrightarrow> k < n \<Longrightarrow> bs_contains acked (Offset (c + of_nat k))"
proof (induction n acked c arbitrary: k rule: advance_cursor_loop.induct)
  case (1 acked c)
  then show ?case by simp
next
  case (2 n acked c)
  then have c: "bs_contains acked (Offset c)" and IH: "advance_cursor_loop n acked (c + 1) = None"
    by (simp_all split: if_splits)
  show ?case
  proof (cases k)
    case 0
    with c show ?thesis by simp
  next
    case (Suc j)
    with 2 c IH have "bs_contains acked (Offset (c + 1 + of_nat j))" by auto
    with Suc show ?thesis by (simp add: ac_simps)
  qed
qed

lemma advance_cursor_loop_Some:
  "advance_cursor_loop n acked c = Some c' \<Longrightarrow>
     \<not> bs_contains acked (Offset c') \<and>
     (\<exists>k. k < n \<and> c' = c + of_nat k \<and> (\<forall>j<k. bs_contains acked (Offset (c + of_nat j))))"
proof (induction n acked c rule: advance_cursor_loop.induct)
  case (1 acked c)
  then show ?case by simp
next
  case (2 n acked c)
  show ?case
  proof (cases "bs_contains acked (Offset c)")
    case True
    with 2 obtain k where k: "k < n" "c' = c + 1 + of_nat k"
      "\<forall>j<k. bs_contains acked (Offset (c + 1 + of_nat j))" and nc: "\<not> bs_contains acked (Offset c')"
      by auto
    have "bs_contains acked (Offset (c + of_nat j))" if "j < Suc k" for j
      using that k(3) True by (cases j) (auto simp: ac_simps)
    with k(1,2) nc show ?thesis by (intro conjI exI[of _ "Suc k"]) (auto simp: ac_simps)
  next
    case False
    with 2 show ?thesis by auto
  qed
qed

lemma advance_cursor_loop_enough:
  assumes "length acked < 2 ^ 64"
  shows "advance_cursor_loop (Suc (length acked)) acked c \<noteq> None"
proof
  let ?n = "length acked"
  assume None: "advance_cursor_loop (Suc ?n) acked c = None"
  have "(\<lambda>k. Offset (c + of_nat k)) ` {..?n} \<subseteq> set acked"
    using advance_cursor_loop_None[OF None] by (auto simp: bs_contains_def)
  moreover have "inj_on (\<lambda>k. Offset (c + of_nat k)) {..?n}"
  proof (rule inj_onI)
    fix j k assume "j \<in> {..?n}" "k \<in> {..?n}" "Offset (c + of_nat j) = Offset (c + of_nat k)"
    then have "(of_nat j :: u64) = of_nat k" "j < 2 ^ 64" "k < 2 ^ 64" using assms by auto
    then show "j = k" by (simp only: of_nat_u64_inject)
  qed
  ultimately have "card {..?n} \<le> card (set acked)"
    by (metis card_image card_mono finite_set)
  with card_length[of acked] show False by simp
qed

text \<open>After an acknowledgement the cursor stands on the first offset, from where it was, not acked.\<close>

lemma gp_advance_cursor_spec:
  assumes "length (gp_acked_offsets s) < 2 ^ 64"
  shows "\<not> bs_contains (gp_acked_offsets s) (Offset (gp_cursor (gp_advance_cursor s))) \<and>
    (\<exists>k. gp_cursor (gp_advance_cursor s) = gp_cursor s + of_nat k \<and>
         (\<forall>j<k. bs_contains (gp_acked_offsets s) (Offset (gp_cursor s + of_nat j))))"
proof -
  obtain c where c: "advance_cursor_loop (Suc (length (gp_acked_offsets s))) (gp_acked_offsets s)
      (gp_cursor s) = Some c"
    using advance_cursor_loop_enough[OF assms] by blast
  then have "gp_cursor (gp_advance_cursor s) = c" by (simp add: gp_advance_cursor_def)
  with advance_cursor_loop_Some[OF c] show ?thesis by metis
qed

section \<open>Stored topics\<close>

definition stored_topic_ok :: "topic_name \<Rightarrow> stored_topic \<Rightarrow> bool" where
  "stored_topic_ok n st \<longleftrightarrow>
     st_partition_count st \<noteq> 0 \<and>
     st_topic st = Topic_new n (topic_config (st_topic st)) \<and>
     (\<forall>p. bt_contains (st_partitions st) p \<longleftrightarrow> pid_value p < st_partition_count st) \<and>
     bt_sorted (st_partitions st) \<and>
     st_next_round_robin_partition st < st_partition_count st"

lemma bt_get_fold_insert:
  "bt_get (fold (\<lambda>p m. bt_insert p v m) ps m) k = (if k \<in> set ps then Some v else bt_get m k)"
  by (induction ps arbitrary: m) auto

lemma bt_sorted_fold_insert: "bt_sorted m \<Longrightarrow> bt_sorted (fold (\<lambda>p m. bt_insert p v m) ps m)"
  by (induction ps arbitrary: m) (simp_all add: bt_sorted_insert)

lemma StoredTopic_new_ok:
  assumes "tc_partition_count c \<noteq> 0"
  shows "stored_topic_ok n (StoredTopic_new (Topic_new n c))"
proof -
  have "0 < tc_partition_count c" using assms by (simp add: word_neq_0_conv)
  moreover have "p \<in> set (topic_partition_ids (Topic_new n c)) \<longleftrightarrow> pid_value p < tc_partition_count c"
    for p using set_partition_ids_new[of "pid_value p"] by simp
  ultimately show ?thesis using assms
    by (simp add: stored_topic_ok_def StoredTopic_new_def st_partition_count_def bt_contains_def
        bt_get_fold_insert bt_sorted_fold_insert)
qed

lemma stored_topic_ok_distinct: "stored_topic_ok n st \<Longrightarrow> distinct (st_partition_ids st)"
  by (simp add: stored_topic_ok_def st_partition_ids_def bt_sorted_distinct)

text \<open>Iteration visits the partitions of the topic in increasing order of their ids.\<close>

lemma stored_topic_ok_ids:
  assumes "stored_topic_ok n st"
  shows "st_partition_ids st = topic_partition_ids (st_topic st)"
proof (rule strict_sorted_equal)
  show "sorted_wrt (<) (st_partition_ids st)"
    using assms by (simp add: stored_topic_ok_def st_partition_ids_def bt_sorted_def)
  have t: "st_topic st = Topic_new n (topic_config (st_topic st))"
    using assms by (simp add: stored_topic_ok_def)
  show "sorted_wrt (<) (topic_partition_ids (st_topic st))"
    by (subst t) (rule sorted_partition_ids_new)
  have "p \<in> set (st_partition_ids st) \<longleftrightarrow> pid_value p < st_partition_count st" for p
    using assms bt_get_None_iff[of "st_partitions st" p]
    unfolding stored_topic_ok_def st_partition_ids_def bt_contains_def by (metis set_map)
  moreover have "p \<in> set (topic_partition_ids (st_topic st)) \<longleftrightarrow> pid_value p < st_partition_count st" for p
    using set_partition_ids_new[of "pid_value p" n "topic_config (st_topic st)"] t
    by (simp add: st_partition_count_def topic_partition_count_def)
  ultimately show "set (st_partition_ids st) = set (topic_partition_ids (st_topic st))" by auto
qed

lemma StoredTopic_new_log:
  "st_partition_log (StoredTopic_new (Topic_new n c)) p =
     (if pid_value p < tc_partition_count c then Some PartitionLog_default else None)"
  using set_partition_ids_new[of "pid_value p" n c]
  by (simp add: st_partition_log_def StoredTopic_new_def bt_get_fold_insert)

lemma st_partition_log_set [simp]:
  "st_partition_log (st_set_partition_log p l st) p' = (if p' = p then Some l else st_partition_log st p')"
  by (simp add: st_partition_log_def st_set_partition_log_def)

lemma st_set_partition_log_frame [simp]:
  "st_topic (st_set_partition_log p l st) = st_topic st"
  "st_next_round_robin_partition (st_set_partition_log p l st) = st_next_round_robin_partition st"
  "st_partition_count (st_set_partition_log p l st) = st_partition_count st"
  by (simp_all add: st_set_partition_log_def st_partition_count_def)

lemma st_advance_frame [simp]:
  "st_topic (st_advance_round_robin_partition st) = st_topic st"
  "st_partitions (st_advance_round_robin_partition st) = st_partitions st"
  "st_partition_log (st_advance_round_robin_partition st) = st_partition_log st"
  "st_partition_count (st_advance_round_robin_partition st) = st_partition_count st"
  by (simp_all add: st_advance_round_robin_partition_def st_partition_log_def st_partition_count_def
      fun_eq_iff)

lemma select_partition_bound:
  "stored_topic_ok n st \<Longrightarrow> pid_value (select_partition st e) < st_partition_count st"
  by (auto simp: select_partition_def stored_topic_ok_def round_robin_partition_def
      keyed_partition_bound split: option.splits)

lemma stored_topic_ok_log:
  "stored_topic_ok n st \<Longrightarrow> (\<exists>l. st_partition_log st p = Some l) \<longleftrightarrow> pid_value p < st_partition_count st"
  by (auto simp: stored_topic_ok_def bt_contains_iff st_partition_log_def)

lemma stored_topic_ok_advance:
  "stored_topic_ok n st \<Longrightarrow> stored_topic_ok n (st_advance_round_robin_partition st)"
  by (auto simp: stored_topic_ok_def advance_round_robin_bound st_advance_round_robin_partition_def
      st_partition_count_def)

lemma stored_topic_ok_set:
  "stored_topic_ok n st \<Longrightarrow> pid_value p < st_partition_count st \<Longrightarrow>
   stored_topic_ok n (st_set_partition_log p l st)"
  by (auto simp: stored_topic_ok_def st_set_partition_log_def st_partition_count_def bt_sorted_insert)

end
