(* ===== verification/Domain_Properties.thy ===== *)
theory Domain_Properties
  imports GroupState
begin

text \<open>
  Properties of the types of \<^verbatim>\<open>msg-core\<close> and of the cursor of a consumer group: which values the
  constructors and deserialisers let through, and that acknowledging ends.
\<close>

text \<open>C36: a topic name is accepted, by \<^verbatim>\<open>new\<close> and so by \<^verbatim>\<open>FromStr\<close>, \<^verbatim>\<open>TryFrom\<close> and serde, exactly when the
  text without its surrounding blanks has 1 to 255 characters, all of them ASCII letters, digits,
  dots, underscores or hyphens, with no dot at either end and no two in a row. The value kept is the
  trimmed text, it is accepted again unchanged, and no input panics.\<close>

theorem topic_name_type:
  "(TopicName_new s = Ok t \<longleftrightarrow>
      tn_str t = trim s \<and> trim s \<noteq> [] \<and> length (trim s) \<le> 255 \<and>
      list_all (\<lambda>c. is_ascii_alphanumeric c \<or> c \<in> {46, 95, 45}) (trim s) \<and>
      hd (trim s) \<noteq> 46 \<and> last (trim s) \<noteq> 46 \<and> \<not> (\<exists>u v. trim s = u @ [46, 46] @ v)) \<and>
   TopicName_new (trim s) = TopicName_new s \<and> TopicName_new s \<noteq> Panicked"
proof -
  have "topic_name_text (trim s) f = topic_name_text s f" for f
    by (simp add: topic_name_text_def bounded_text_def)
  then have "TopicName_new (trim s) = TopicName_new s" by (simp add: TopicName_new_def validated_new_def)
  moreover have "TopicName_new s \<noteq> Panicked" unfolding TopicName_new_def by (rule tn_text.new_no_panic)
  moreover have "TopicName_new s = Ok t \<longleftrightarrow> t = TopicName (trim s) \<and> topic_name_rules (trim s)"
    unfolding TopicName_new_def by (rule tn_text.new_Ok_iff)
  moreover have "t = TopicName (trim s) \<longleftrightarrow> tn_str t = trim s" by (cases t) auto
  moreover have "allowed_name_char = (\<lambda>c. is_ascii_alphanumeric c \<or> c \<in> {46, 95, 45})"
    by (auto simp: allowed_name_char_def fun_eq_iff)
  ultimately show ?thesis by (simp add: topic_name_rules_def MAX_TEXT_LEN_def)
qed

text \<open>Reading a stored topic accepts exactly what \<^verbatim>\<open>Topic::new\<close> builds: the partitions 0 to
  \<^verbatim>\<open>partition_count - 1\<close> in order, each once. Every other list of partitions is rejected, with the
  message for a wrong number or for the first wrong identifier.\<close>

lemma topic_deserialize_type:
  "(Topic_deserialize raw = Ok t \<longleftrightarrow> t = raw \<and> raw = Topic_new (topic_name raw) (topic_config raw)) \<and>
   Topic_deserialize (Topic_new n c) = Ok (Topic_new n c) \<and> Topic_deserialize raw \<noteq> Panicked"
proof -
  have "check_partition_ids k ps \<noteq> Panicked" for k ps by (induction ps arbitrary: k) simp_all
  then have "Topic_deserialize raw \<noteq> Panicked" by (simp add: Topic_deserialize_def Let_def rbind_eq_Panicked)
  then show ?thesis using Topic_deserialize_Ok_iff[of raw t] Topic_deserialize_Ok_iff[of "Topic_new n c"] by simp
qed

text \<open>C35: acknowledging an offset ends: the loop that moves the cursor makes at most one step more than there
  are acknowledged offsets, also when the cursor wraps around. The cursor then stands on the first
  offset, from where it was, that is not acknowledged, and nothing but the acknowledged offset, its
  attempt count and the cursor has changed.\<close>

theorem mark_acked_terminates:
  assumes "length (gp_acked_offsets s) + 1 < 2 ^ 64"
  shows "advance_cursor_loop (Suc (length (bs_insert off (gp_acked_offsets s)))) (bs_insert off (gp_acked_offsets s)) (gp_cursor s) \<noteq> None \<and>
    gp_acked_offsets (gp_mark_acked off s) = bs_insert off (gp_acked_offsets s) \<and>
    gp_attempt_counts (gp_mark_acked off s) = bt_remove off (gp_attempt_counts s) \<and>
    gp_pending_by_offset (gp_mark_acked off s) = gp_pending_by_offset s \<and>
    gp_retry_by_offset (gp_mark_acked off s) = gp_retry_by_offset s \<and>
    gp_dead_lettered_offsets (gp_mark_acked off s) = gp_dead_lettered_offsets s \<and>
    \<not> bs_contains (gp_acked_offsets (gp_mark_acked off s)) (Offset (gp_cursor (gp_mark_acked off s))) \<and>
    (\<exists>k. gp_cursor (gp_mark_acked off s) = gp_cursor s + of_nat k \<and>
       (\<forall>j<k. bs_contains (gp_acked_offsets (gp_mark_acked off s)) (Offset (gp_cursor s + of_nat j))))"
proof -
  let ?s = "s\<lparr>gp_acked_offsets := bs_insert off (gp_acked_offsets s), gp_attempt_counts := bt_remove off (gp_attempt_counts s)\<rparr>"
  have "length (bs_insert off xs) \<le> Suc (length xs)" for xs :: "offset list"
    by (induction off xs rule: bs_insert.induct) auto
  then have len: "length (bs_insert off (gp_acked_offsets s)) < 2 ^ 64" using assms
    by (metis Suc_eq_plus1 le_less_trans)
  then have "length (gp_acked_offsets ?s) < 2 ^ 64" by simp
  from gp_advance_cursor_spec[OF this] advance_cursor_loop_enough[OF len] show ?thesis by (simp add: gp_mark_acked_def)
qed

theorem mark_acked_terminates_witness:
  "gp_cursor (gp_mark_acked (Offset 0) (GroupPartitionState_default\<lparr>gp_acked_offsets := [Offset 1]\<rparr>)) = 2"
proof -
  let ?s = "GroupPartitionState_default\<lparr>gp_acked_offsets := [Offset 1]\<rparr>"
  have s: "length (gp_acked_offsets ?s) + 1 < 2 ^ 64" by simp
  have "\<exists>k. gp_cursor (gp_mark_acked (Offset 0) ?s) = gp_cursor ?s + of_nat k \<and>
      (\<forall>j<k. bs_contains (gp_acked_offsets (gp_mark_acked (Offset 0) ?s)) (Offset (gp_cursor ?s + of_nat j)))"
    "\<not> bs_contains (gp_acked_offsets (gp_mark_acked (Offset 0) ?s)) (Offset (gp_cursor (gp_mark_acked (Offset 0) ?s)))"
    using mark_acked_terminates[OF s, of "Offset 0"] by blast+
  then obtain k where k: "gp_cursor (gp_mark_acked (Offset 0) ?s) = of_nat k"
    "\<forall>j<k. bs_contains [Offset 0, Offset 1] (Offset (of_nat j))" "\<not> bs_contains [Offset 0, Offset 1] (Offset (of_nat k))"
    by (auto simp: GroupPartitionState_default_def less_offset_def)
  have "k \<noteq> 0" using k(3) by (intro notI) (simp add: bs_contains_def)
  moreover have "k \<noteq> 1" using k(3) by (intro notI) (simp add: bs_contains_def)
  moreover have "\<not> 2 < k"
  proof
    assume "2 < k"
    with k(2) have "bs_contains [Offset 0, Offset 1] (Offset (of_nat 2))" by blast
    then show False by (simp add: bs_contains_def)
  qed
  ultimately have "k = 2" by simp
  with k(1) show ?thesis by simp
qed

end
