(* ===== verification/Memory_Broker.thy ===== *)
theory Memory_Broker
  imports GroupState
begin

text \<open>
  The in-memory broker: \<^verbatim>\<open>msg-broker/src/memory.rs\<close> and \<^verbatim>\<open>BrokerService\<close> of \<^verbatim>\<open>broker.rs\<close>.
  \<^verbatim>\<open>InMemoryBrokerState\<close> has the one field \<^verbatim>\<open>state\<close>, so its operations are functions on
  \<^verbatim>\<open>broker_state\<close>; each returns its result and the state it leaves, after an error too.
\<close>

section \<open>Topics and publishing\<close>

definition create_topic :: "create_topic_command \<Rightarrow> broker_state \<Rightarrow> topic broker_result \<times> broker_state" where
  "create_topic command s =
     (let topic = Topic_new (ctc_name command) (ctc_config command) in
      if bt_contains (bs_topics s) (topic_name topic)
      then (Err (TopicAlreadyExists (topic_name topic)), s)
      else (Ok topic, s\<lparr>bs_topics := bt_insert (topic_name topic) (StoredTopic_new topic) (bs_topics s)\<rparr>))"

text \<open>The append of \<^verbatim>\<open>publish\<close>: choose the partition, append, advance the round-robin counter.\<close>

definition append_to_topic ::
  "topic_name \<Rightarrow> message_envelope \<Rightarrow> broker_state \<Rightarrow> published_message broker_result \<times> broker_state" where
  "append_to_topic t envelope s =
     (case bt_get (bs_topics s) t of
        None \<Rightarrow> (Panicked, s)
      | Some st \<Rightarrow>
          (let should_advance_round_robin = (env_partition_key envelope = None);
               p = select_partition st envelope in
           case st_partition_log st p of
             None \<Rightarrow> (Panicked, s)
           | Some log \<Rightarrow>
               (let (off, log') = PartitionLog_append envelope log;
                    st1 = st_set_partition_log p log' st;
                    st2 = (if should_advance_round_robin then st_advance_round_robin_partition st1
                           else st1)
                in (Ok (PublishedMessage_new t p off (env_id envelope)),
                    s\<lparr>bs_topics := bt_insert t st2 (bs_topics s)\<rparr>))))"

definition publish ::
  "(bytes \<Rightarrow> bytes) \<Rightarrow> topic_name \<Rightarrow> message_envelope \<Rightarrow> broker_state
     \<Rightarrow> published_message broker_result \<times> broker_state" where
  "publish sha t envelope s =
     (if \<not> bt_contains (bs_topics s) t then (Err (TopicNotFound t), s)
      else case check_idempotency sha t envelope (bs_idempotency_index s) of
          Err e \<Rightarrow> (Err e, s)
        | Panicked \<Rightarrow> (Panicked, s)
        | Ok (Replay existing) \<Rightarrow>
            (Ok (PublishedMessage_replay t (ir_partition_id existing) (ir_offset existing)
                  (ir_message_id existing)), s)
        | Ok Untracked \<Rightarrow> append_to_topic t envelope s
        | Ok (New key fingerprint) \<Rightarrow>
            (case append_to_topic t envelope s of
               (Ok result, s1) \<Rightarrow>
                 (Ok result,
                  s1\<lparr>bs_idempotency_index :=
                       bt_insert (t, key)
                         \<lparr>ir_fingerprint = fingerprint, ir_partition_id = pm_partition_id result,
                          ir_offset = pm_offset result, ir_message_id = pm_message_id result\<rparr>
                         (bs_idempotency_index s1)\<rparr>)
             | r \<Rightarrow> r))"

section \<open>Consuming\<close>

fun select_offsets ::
  "(offset \<Rightarrow> bool) \<Rightarrow> partition_id \<Rightarrow> nat \<Rightarrow> nat list \<Rightarrow> (partition_id \<times> offset) list
     \<Rightarrow> (partition_id \<times> offset) list" where
  "select_offsets available p max_messages [] selected = selected"
| "select_offsets available p max_messages (i # is) selected =
     (let off = Offset (of_nat i) in
      if available off
      then (let selected' = selected @ [(p, off)] in
            if length selected' = max_messages then selected'
            else select_offsets available p max_messages is selected')
      else select_offsets available p max_messages is selected)"

text \<open>Availability as the loop tests it: everything, when the group or its partition is new.\<close>

definition offset_available :: "broker_state \<Rightarrow> consumer_group_id \<Rightarrow> topic_name \<Rightarrow> partition_id \<Rightarrow> offset \<Rightarrow> bool" where
  "offset_available s g t p off \<longleftrightarrow>
     (case bt_get (bs_groups s) g of
        None \<Rightarrow> True
      | Some group_state \<Rightarrow>
          (case gs_partition_state group_state t p of
             None \<Rightarrow> True
           | Some ps \<Rightarrow> gp_is_available ps off))"

fun select_partitions ::
  "broker_state \<Rightarrow> consume_command \<Rightarrow> stored_topic \<Rightarrow> partition_id list \<Rightarrow> (partition_id \<times> offset) list
     \<Rightarrow> (partition_id \<times> offset) list" where
  "select_partitions s command st [] selected = selected"
| "select_partitions s command st (p # ps) selected =
     (case st_partition_log st p of
        None \<Rightarrow> select_partitions s command st ps selected
      | Some log \<Rightarrow>
          (let selected' =
             select_offsets (offset_available s (cc_consumer_group_id command) (cc_topic command) p) p
               (cc_max_messages command) [0..<PartitionLog_len log] selected in
           if length selected' = cc_max_messages command then selected'
           else select_partitions s command st ps selected'))"

definition message_at :: "broker_state \<Rightarrow> message_ref \<Rightarrow> message_envelope option" where
  "message_at s r =
     (case log_of s (mr_topic r) (mr_partition_id r) of
        None \<Rightarrow> None | Some log \<Rightarrow> PartitionLog_get log (mr_offset r))"

definition deliver_offset ::
  "consume_command \<Rightarrow> partition_id \<Rightarrow> offset \<Rightarrow> message_envelope \<Rightarrow> u32 \<Rightarrow> delivery_id \<Rightarrow> message_timestamp
     \<Rightarrow> broker_state \<Rightarrow> consumed_message \<times> broker_state" where
  "deliver_offset command p off envelope attempt_number did lease_expires_at s =
     (let s1 = group_partition_state_mut (cc_consumer_group_id command) (cc_topic command) p
                 (\<lambda>ps. gp_mark_pending off did
                   (ps\<lparr>gp_attempt_counts := bt_insert off attempt_number (gp_attempt_counts ps)\<rparr>)) s;
          pd = \<lparr>pd_message_ref =
                   \<lparr>mr_topic = cc_topic command, mr_partition_id = p, mr_offset = off\<rparr>,
                 pd_consumer_group_id = cc_consumer_group_id command,
                 pd_consumer_id = cc_consumer_id command,
                 pd_attempt_number = attempt_number,
                 pd_lease_expires_at = lease_expires_at\<rparr>
      in (\<lparr>cm_delivery_id = did, cm_topic = cc_topic command, cm_partition_id = p, cm_offset = off,
           cm_envelope = envelope, cm_consumer_group_id = cc_consumer_group_id command,
           cm_consumer_id = cc_consumer_id command, cm_attempt_number = attempt_number,
           cm_delivered_at = cc_timestamp command, cm_lease_expires_at = lease_expires_at\<rparr>,
          s1\<lparr>bs_pending := bt_insert did pd (bs_pending s1)\<rparr>))"

fun consume_selected ::
  "consume_command \<Rightarrow> u64 \<Rightarrow> string \<Rightarrow> (partition_id \<times> offset) list \<Rightarrow> consumed_message list \<Rightarrow> broker_state
     \<Rightarrow> consumed_message list broker_result \<times> broker_state" where
  "consume_selected command lease lease_field [] consumed s = (Ok consumed, s)"
| "consume_selected command lease lease_field ((p, off) # selected) consumed s =
     (case message_at s \<lparr>mr_topic = cc_topic command, mr_partition_id = p, mr_offset = off\<rparr> of
        None \<Rightarrow> (Panicked, s)
      | Some envelope \<Rightarrow>
          (let s1 = group_partition_state_mut (cc_consumer_group_id command) (cc_topic command) p id s;
               attempt_number =
                 gp_next_attempt_number (gps_of s1 (cc_consumer_group_id command) (cc_topic command) p) off in
           case deterministic_delivery_id (cc_consumer_group_id command) (cc_topic command) p off
                  attempt_number of
             Err e \<Rightarrow> (Err e, s1)
           | Panicked \<Rightarrow> (Panicked, s1)
           | Ok did \<Rightarrow>
               (case add_millis (cc_timestamp command) lease lease_field of
                  Err e \<Rightarrow> (Err e, s1)
                | Panicked \<Rightarrow> (Panicked, s1)
                | Ok lease_expires_at \<Rightarrow>
                    (let (m, s2) = deliver_offset command p off envelope attempt_number did
                                     lease_expires_at s1
                     in consume_selected command lease lease_field selected (consumed @ [m]) s2))))"

definition consume ::
  "consume_command \<Rightarrow> u64 \<Rightarrow> string \<Rightarrow> broker_state \<Rightarrow> consumed_message list broker_result \<times> broker_state" where
  "consume command lease lease_field s =
     (case bt_get (bs_topics s) (cc_topic command) of
        None \<Rightarrow> (Err (TopicNotFound (cc_topic command)), s)
      | Some st \<Rightarrow>
          (if cc_max_messages command = 0 then (Ok [], s)
           else consume_selected command lease lease_field
                  (select_partitions s command st (st_partition_ids st) []) [] s))"

section \<open>Settling deliveries\<close>

definition pending_for_command ::
  "delivery_id \<Rightarrow> consumer_id \<Rightarrow> broker_state \<Rightarrow> pending_delivery broker_result" where
  "pending_for_command did cid s =
     (case bt_get (bs_pending s) did of
        None \<Rightarrow> Err (DeliveryNotFound did)
      | Some pending \<Rightarrow>
          (if pd_consumer_id pending \<noteq> cid then Err (InvalidConsumer did (pd_consumer_id pending) cid)
           else Ok pending))"

definition envelope_for :: "message_ref \<Rightarrow> broker_state \<Rightarrow> message_envelope broker_result" where
  "envelope_for r s = ok_or (message_at s r) (TopicNotFound (mr_topic r))"

definition push_dead_letter ::
  "pending_delivery \<Rightarrow> dead_letter_reason \<Rightarrow> message_timestamp \<Rightarrow> broker_state
     \<Rightarrow> unit broker_result \<times> broker_state" where
  "push_dead_letter pending reason timestamp s =
     (case envelope_for (pd_message_ref pending) s of
        Ok envelope \<Rightarrow>
          (Ok (),
           s\<lparr>bs_dead_letters := bs_dead_letters s @
               [\<lparr>dl_topic = mr_topic (pd_message_ref pending),
                 dl_partition_id = mr_partition_id (pd_message_ref pending),
                 dl_offset = mr_offset (pd_message_ref pending),
                 dl_message_id = env_id envelope, dl_envelope = envelope,
                 dl_consumer_group_id = pd_consumer_group_id pending, dl_reason = reason,
                 dl_attempt_count = pd_attempt_number pending, dl_timestamp = timestamp\<rparr>]\<rparr>)
      | Err e \<Rightarrow> (Err e, s)
      | Panicked \<Rightarrow> (Panicked, s))"

definition schedule_pending_retry_or_dlq ::
  "pending_delivery \<Rightarrow> retry_policy \<Rightarrow> message_timestamp \<Rightarrow> dead_letter_reason \<Rightarrow> broker_state
     \<Rightarrow> unit broker_result \<times> broker_state" where
  "schedule_pending_retry_or_dlq pending policy timestamp reason s =
     (let r = pd_message_ref pending;
          upd = (\<lambda>f. group_partition_state_mut (pd_consumer_group_id pending) (mr_topic r)
                       (mr_partition_id r) f);
          s1 = upd (gp_remove_pending (mr_offset r)) s;
          next_attempt = pd_attempt_number pending + 1 in
      if rp_max_attempts policy < next_attempt
      then push_dead_letter pending reason timestamp (upd (gp_mark_dead_lettered (mr_offset r)) s1)
      else
        (case (case rp_backoff_millis policy of
                 Some backoff \<Rightarrow> add_millis timestamp backoff ''retry_policy.backoff_millis''
               | None \<Rightarrow> Ok timestamp) of
           Ok ready_at \<Rightarrow>
             (Ok (), upd (gp_mark_retry_scheduled (mr_offset r)
                           \<lparr>re_message_ref = r, re_ready_at = ready_at\<rparr>) s1)
         | Err e \<Rightarrow> (Err e, s1)
         | Panicked \<Rightarrow> (Panicked, s1)))"

definition ack :: "ack_command \<Rightarrow> broker_state \<Rightarrow> unit broker_result \<times> broker_state" where
  "ack command s =
     (case pending_for_command (ac_delivery_id command) (ac_consumer_id command) s of
        Err e \<Rightarrow> (Err e, s)
      | Panicked \<Rightarrow> (Panicked, s)
      | Ok pending \<Rightarrow>
          (let r = pd_message_ref pending;
               s1 = s\<lparr>bs_pending := bt_remove (ac_delivery_id command) (bs_pending s)\<rparr>
           in (Ok (),
               group_partition_state_mut (pd_consumer_group_id pending) (mr_topic r) (mr_partition_id r)
                 (\<lambda>ps. gp_mark_acked (mr_offset r) (gp_remove_pending (mr_offset r) ps)) s1)))"

definition nack :: "nack_command \<Rightarrow> retry_policy \<Rightarrow> broker_state \<Rightarrow> unit broker_result \<times> broker_state" where
  "nack command policy s =
     (case pending_for_command (nc_delivery_id command) (nc_consumer_id command) s of
        Err e \<Rightarrow> (Err e, s)
      | Panicked \<Rightarrow> (Panicked, s)
      | Ok pending \<Rightarrow>
          schedule_pending_retry_or_dlq pending policy (nc_timestamp command)
            (Manual (case nc_reason command of None \<Rightarrow> str ''nack'' | Some reason \<Rightarrow> reason))
            (s\<lparr>bs_pending := bt_remove (nc_delivery_id command) (bs_pending s)\<rparr>))"

section \<open>Lease expiry and retries\<close>

definition expired_delivery_ids :: "message_timestamp \<Rightarrow> broker_state \<Rightarrow> delivery_id list" where
  "expired_delivery_ids now s =
     map fst (filter (\<lambda>(did, pending). pd_lease_expires_at pending \<le> now) (bs_pending s))"

fun expire_deliveries ::
  "message_timestamp \<Rightarrow> retry_policy \<Rightarrow> delivery_id list \<Rightarrow> nat \<Rightarrow> broker_state
     \<Rightarrow> nat broker_result \<times> broker_state" where
  "expire_deliveries now policy [] dead_lettered s = (Ok dead_lettered, s)"
| "expire_deliveries now policy (did # dids) dead_lettered s =
     (case bt_get (bs_pending s) did of
        None \<Rightarrow> (Panicked, s)
      | Some pending \<Rightarrow>
          (let s1 = s\<lparr>bs_pending := bt_remove did (bs_pending s)\<rparr>;
               dlq_before = length (bs_dead_letters s1) in
           case schedule_pending_retry_or_dlq pending policy now Expired s1 of
             (Ok u, s2) \<Rightarrow>
               expire_deliveries now policy dids
                 (dead_lettered + (length (bs_dead_letters s2) - dlq_before)) s2
           | (Err e, s2) \<Rightarrow> (Err e, s2)
           | (Panicked, s2) \<Rightarrow> (Panicked, s2)))"

definition ready_retry_entries ::
  "message_timestamp \<Rightarrow> broker_state \<Rightarrow> (consumer_group_id \<times> message_ref) list" where
  "ready_retry_entries now s =
     concat (map (\<lambda>(g, group_state).
       concat (map (\<lambda>(key, ps).
         map (\<lambda>(off, entry). (g, re_message_ref entry))
           (filter (\<lambda>(off, entry). re_ready_at entry \<le> now) (gp_retry_by_offset ps)))
         (gs_partitions group_state)))
       (bs_groups s))"

fun release_retries ::
  "message_timestamp \<Rightarrow> (consumer_group_id \<times> message_ref) list \<Rightarrow> nat \<Rightarrow> broker_state
     \<Rightarrow> nat \<times> broker_state" where
  "release_retries now [] made_available s = (made_available, s)"
| "release_retries now ((g, r) # entries) made_available s =
     (let s1 = group_partition_state_mut g (mr_topic r) (mr_partition_id r) id s in
      case bt_get (gp_retry_by_offset (gps_of s1 g (mr_topic r) (mr_partition_id r))) (mr_offset r) of
        Some entry \<Rightarrow>
          (if re_ready_at entry \<le> now
           then release_retries now entries (made_available + 1)
                  (group_partition_state_mut g (mr_topic r) (mr_partition_id r)
                    (gp_mark_retry_available (mr_offset r)) s1)
           else release_retries now entries made_available s1)
      | None \<Rightarrow> release_retries now entries made_available s1)"

definition retry_ready ::
  "message_timestamp \<Rightarrow> retry_policy \<Rightarrow> broker_state \<Rightarrow> retry_summary broker_result \<times> broker_state" where
  "retry_ready now policy s =
     (let expired = expired_delivery_ids now s in
      case expire_deliveries now policy expired 0 s of
        (Err e, s1) \<Rightarrow> (Err e, s1)
      | (Panicked, s1) \<Rightarrow> (Panicked, s1)
      | (Ok dead_lettered, s1) \<Rightarrow>
          (let ready_entries = ready_retry_entries now s1;
               (made_available, s2) = release_retries now ready_entries 0 s1
           in (Ok \<lparr>rs_retry_scheduled = length ready_entries, rs_lease_expired = length expired,
                   rs_made_available = made_available, rs_dead_lettered = dead_lettered\<rparr>, s2)))"

definition list_dlq :: "dlq_query \<Rightarrow> broker_state \<Rightarrow> dead_letter_entry list broker_result" where
  "list_dlq query s =
     (case dq_topic query of
        Some t \<Rightarrow>
          (if \<not> bt_contains (bs_topics s) t then Err (TopicNotFound t)
           else Ok (filter (dlq_matches query) (bs_dead_letters s)))
      | None \<Rightarrow> Ok (filter (dlq_matches query) (bs_dead_letters s)))"

section \<open>The service\<close>

record broker_service =
  svc_config :: broker_config
  svc_state :: broker_state

definition BrokerService_new :: "broker_config \<Rightarrow> broker_service" where
  "BrokerService_new config = \<lparr>svc_config = config, svc_state = BrokerState_default\<rparr>"

definition svc_lift ::
  "(broker_state \<Rightarrow> 'a broker_result \<times> broker_state) \<Rightarrow> broker_service \<Rightarrow> 'a broker_result \<times> broker_service" where
  "svc_lift f b = (let (r, s) = f (svc_state b) in (r, b\<lparr>svc_state := s\<rparr>))"

definition svc_create_topic :: "create_topic_command \<Rightarrow> broker_service \<Rightarrow> topic broker_result \<times> broker_service" where
  "svc_create_topic command = svc_lift (create_topic command)"

definition svc_publish ::
  "(bytes \<Rightarrow> bytes) \<Rightarrow> publish_command \<Rightarrow> broker_service \<Rightarrow> published_message broker_result \<times> broker_service" where
  "svc_publish sha command = svc_lift (publish sha (pc_topic command) (pc_envelope command))"

definition svc_consume ::
  "consume_command \<Rightarrow> broker_service \<Rightarrow> consumed_message list broker_result \<times> broker_service" where
  "svc_consume command b =
     (let (lease, lease_field) =
        (case cc_delivery_lease_millis command of
           None \<Rightarrow> (bc_delivery_lease_millis (svc_config b), ''delivery_lease_millis'')
         | Some lease_millis \<Rightarrow> (lease_millis, ''lease_ms''))
      in svc_lift (consume command lease lease_field) b)"

definition svc_ack :: "ack_command \<Rightarrow> broker_service \<Rightarrow> unit broker_result \<times> broker_service" where
  "svc_ack command = svc_lift (ack command)"

definition svc_nack :: "nack_command \<Rightarrow> broker_service \<Rightarrow> unit broker_result \<times> broker_service" where
  "svc_nack command b = svc_lift (nack command (bc_retry_policy (svc_config b))) b"

definition svc_retry_ready ::
  "message_timestamp \<Rightarrow> broker_service \<Rightarrow> retry_summary broker_result \<times> broker_service" where
  "svc_retry_ready now b = svc_lift (retry_ready now (bc_retry_policy (svc_config b))) b"

definition svc_list_dlq :: "dlq_query \<Rightarrow> broker_service \<Rightarrow> dead_letter_entry list broker_result" where
  "svc_list_dlq query b = list_dlq query (svc_state b)"

end
