(* ===== verification/Memory_Invariants.thy ===== *)
theory Memory_Invariants
  imports Memory_Broker
begin

text \<open>
  The invariant of the broker state and its preservation by every operation of the in-memory
  broker. \<^verbatim>\<open>broker_inv\<close> ties the four collections of a group's partition state to the pending
  map and to the logs. Every change to a delivery is one \<^verbatim>\<open>settle\<close>-shaped update of one
  partition state together with the pending map, so one lemma, \<^verbatim>\<open>broker_inv_update\<close>, carries
  all the operations.
\<close>

definition status :: "broker_state \<Rightarrow> consumer_group_id \<Rightarrow> topic_name \<Rightarrow> partition_id \<Rightarrow> offset \<Rightarrow> offset_status" where
  "status s g t p off = status_in (gps_of s g t p) off"

definition status_of_ref :: "broker_state \<Rightarrow> consumer_group_id \<Rightarrow> message_ref \<Rightarrow> offset_status" where
  "status_of_ref s g r = status s g (mr_topic r) (mr_partition_id r) (mr_offset r)"

definition gps_ok :: "topic_name \<Rightarrow> partition_id \<Rightarrow> group_partition_state \<Rightarrow> bool" where
  "gps_ok t p ps \<longleftrightarrow>
     gp_disjoint ps \<and> bt_sorted (gp_retry_by_offset ps) \<and>
     (\<forall>off e. bt_get (gp_retry_by_offset ps) off = Some e \<longrightarrow>
        re_message_ref e = \<lparr>mr_topic = t, mr_partition_id = p, mr_offset = off\<rparr>)"

definition gps_at :: "broker_state \<Rightarrow> consumer_group_id \<Rightarrow> message_ref \<Rightarrow> group_partition_state" where
  "gps_at s g r = gps_of s g (mr_topic r) (mr_partition_id r)"

definition topics_ok :: "broker_state \<Rightarrow> bool" where
  "topics_ok s \<longleftrightarrow> (\<forall>t st. bt_get (bs_topics s) t = Some st \<longrightarrow> stored_topic_ok t st)"

definition groups_ok :: "broker_state \<Rightarrow> bool" where
  "groups_ok s \<longleftrightarrow>
     (\<forall>g t p. gps_ok t p (gps_of s g t p)) \<and> bt_sorted (bs_groups s) \<and>
     (\<forall>g gs. bt_get (bs_groups s) g = Some gs \<longrightarrow> bt_sorted (gs_partitions gs))"

definition pending_ok :: "broker_state \<Rightarrow> bool" where
  "pending_ok s \<longleftrightarrow>
     bt_sorted (bs_pending s) \<and>
     (\<forall>d pd. bt_get (bs_pending s) d = Some pd \<longrightarrow>
        status_of_ref s (pd_consumer_group_id pd) (pd_message_ref pd) = InFlight d \<and>
        bt_get (gp_attempt_counts (gps_at s (pd_consumer_group_id pd) (pd_message_ref pd)))
          (mr_offset (pd_message_ref pd)) = Some (pd_attempt_number pd))"

definition range_ok :: "broker_state \<Rightarrow> bool" where
  "range_ok s \<longleftrightarrow> (\<forall>g r. status_of_ref s g r \<noteq> Available \<longrightarrow> message_at s r \<noteq> None)"

definition broker_inv :: "broker_state \<Rightarrow> bool" where
  "broker_inv s \<longleftrightarrow> topics_ok s \<and> groups_ok s \<and> pending_ok s \<and> range_ok s"

lemma broker_inv_default: "broker_inv BrokerState_default"
  by (simp add: broker_inv_def topics_ok_def groups_ok_def pending_ok_def range_ok_def status_of_ref_def
      status_def gps_ok_def) (simp add: BrokerState_default_def GroupPartitionState_default_def)

lemma status_of_ref_gps: "status_of_ref s g r = status_in (gps_at s g r) (mr_offset r)"
  by (simp add: status_of_ref_def status_def gps_at_def)

lemma inv_gps_ok: "broker_inv s \<Longrightarrow> gps_ok (mr_topic r) (mr_partition_id r) (gps_at s g r)"
  by (simp add: broker_inv_def groups_ok_def gps_at_def)

lemma inv_message_at: "broker_inv s \<Longrightarrow> status_of_ref s g r \<noteq> Available \<Longrightarrow> \<exists>env. message_at s r = Some env"
  by (auto simp: broker_inv_def range_ok_def)

section \<open>Updating one partition state\<close>

lemma bt_insert_insert [simp]: "bt_insert k v (bt_insert k u m) = bt_insert k v m"
  by (induction k u m rule: bt_insert.induct) auto

lemma gps_mut_mut [simp]:
  "group_partition_state_mut g t p f (group_partition_state_mut g t p h s) =
   group_partition_state_mut g t p (\<lambda>x. f (h x)) s"
  by (simp add: group_partition_state_mut_def gs_partition_state_mut_def)

lemma gps_mut_pending:
  "group_partition_state_mut g t p f (s\<lparr>bs_pending := m\<rparr>) =
   (group_partition_state_mut g t p f s)\<lparr>bs_pending := m\<rparr>"
  by (simp add: group_partition_state_mut_def)

lemma message_at_frame [simp]:
  "message_at (group_partition_state_mut g t p f s) = message_at s"
  "message_at (s\<lparr>bs_pending := b\<rparr>) = message_at s"
  "message_at (s\<lparr>bs_dead_letters := c\<rparr>) = message_at s"
  "message_at (s\<lparr>bs_idempotency_index := d\<rparr>) = message_at s"
  by (simp_all add: message_at_def fun_eq_iff)

lemma status_frame [simp]:
  "status (s\<lparr>bs_pending := b\<rparr>) = status s"
  "status (s\<lparr>bs_topics := a\<rparr>) = status s"
  "status (s\<lparr>bs_dead_letters := c\<rparr>) = status s"
  "status (s\<lparr>bs_idempotency_index := d\<rparr>) = status s"
  "status_of_ref (s\<lparr>bs_pending := b\<rparr>) = status_of_ref s"
  "status_of_ref (s\<lparr>bs_topics := a\<rparr>) = status_of_ref s"
  "status_of_ref (s\<lparr>bs_dead_letters := c\<rparr>) = status_of_ref s"
  "status_of_ref (s\<lparr>bs_idempotency_index := d\<rparr>) = status_of_ref s"
  "gps_at (s\<lparr>bs_pending := b\<rparr>) = gps_at s"
  "gps_at (s\<lparr>bs_topics := a\<rparr>) = gps_at s"
  "gps_at (s\<lparr>bs_dead_letters := c\<rparr>) = gps_at s"
  "gps_at (s\<lparr>bs_idempotency_index := d\<rparr>) = gps_at s"
  by (simp_all add: status_def status_of_ref_def gps_at_def fun_eq_iff)

lemma gps_at_mut [simp]:
  "gps_at (group_partition_state_mut g t p f s) g' r =
     (if g' = g \<and> mr_topic r = t \<and> mr_partition_id r = p then f (gps_of s g t p) else gps_at s g' r)"
  by (simp add: gps_at_def)

lemma status_mut:
  "status (group_partition_state_mut g t p f s) g' t' p' off =
     (if g' = g \<and> t' = t \<and> p' = p then status_in (f (gps_of s g t p)) off else status s g' t' p' off)"
  by (simp add: status_def)

lemma topics_ok_frame [simp]:
  "topics_ok (group_partition_state_mut g t p f s) = topics_ok s"
  "topics_ok (s\<lparr>bs_pending := b\<rparr>) = topics_ok s"
  "topics_ok (s\<lparr>bs_dead_letters := c\<rparr>) = topics_ok s"
  "topics_ok (s\<lparr>bs_idempotency_index := d\<rparr>) = topics_ok s"
  by (simp_all add: topics_ok_def)

lemma groups_ok_frame [simp]:
  "groups_ok (s\<lparr>bs_topics := a\<rparr>) = groups_ok s"
  "groups_ok (s\<lparr>bs_pending := b\<rparr>) = groups_ok s"
  "groups_ok (s\<lparr>bs_dead_letters := c\<rparr>) = groups_ok s"
  "groups_ok (s\<lparr>bs_idempotency_index := d\<rparr>) = groups_ok s"
  by (simp_all add: groups_ok_def)

lemma broker_inv_frame [simp]:
  "broker_inv (s\<lparr>bs_dead_letters := c\<rparr>) = broker_inv s"
  "broker_inv (s\<lparr>bs_idempotency_index := d\<rparr>) = broker_inv s"
  by (simp_all add: broker_inv_def pending_ok_def range_ok_def)

lemma groups_ok_mut:
  assumes "groups_ok s" "gps_ok t p (f (gps_of s g t p))"
  shows "groups_ok (group_partition_state_mut g t p f s)"
proof -
  have "bt_sorted (gs_partitions (bt_entry_or GroupState_default (bs_groups s) g))"
    using assms(1) by (cases "bt_get (bs_groups s) g")
      (auto simp: groups_ok_def bt_entry_or_def GroupState_default_def)
  moreover have "bt_sorted (bs_groups s)" using assms(1) by (simp add: groups_ok_def)
  ultimately have "bt_sorted (bs_groups (group_partition_state_mut g t p f s)) \<and>
      (\<forall>g' gs. bt_get (bs_groups (group_partition_state_mut g t p f s)) g' = Some gs \<longrightarrow>
         bt_sorted (gs_partitions gs))"
    using assms(1)
    by (auto simp: group_partition_state_mut_def gs_partition_state_mut_def bt_sorted_insert groups_ok_def)
  with assms show ?thesis by (auto simp: groups_ok_def)
qed

text \<open>A location: the group, and the message it refers to.\<close>

definition pd_loc :: "pending_delivery \<Rightarrow> consumer_group_id \<times> message_ref" where
  "pd_loc pd = (pd_consumer_group_id pd, pd_message_ref pd)"

lemma broker_inv_update:
  assumes inv: "broker_inv s"
    and gps: "gps_ok (mr_topic r) (mr_partition_id r) (f (gps_at s g r))"
    and same: "\<And>x. x \<noteq> mr_offset r \<Longrightarrow> status_in (f (gps_at s g r)) x = status_in (gps_at s g r) x"
      "\<And>x. x \<noteq> mr_offset r \<Longrightarrow>
         bt_get (gp_attempt_counts (f (gps_at s g r))) x = bt_get (gp_attempt_counts (gps_at s g r)) x"
    and msg: "message_at s r \<noteq> None"
    and sorted: "bt_sorted m"
    and pend: "\<And>d pd. bt_get m d = Some pd \<Longrightarrow>
       (if pd_loc pd = (g, r)
        then status_in (f (gps_at s g r)) (mr_offset r) = InFlight d \<and>
             bt_get (gp_attempt_counts (f (gps_at s g r))) (mr_offset r) = Some (pd_attempt_number pd)
        else bt_get (bs_pending s) d = Some pd)"
  shows "broker_inv ((group_partition_state_mut g (mr_topic r) (mr_partition_id r) f s)\<lparr>bs_pending := m\<rparr>)"
proof -
  let ?s = "group_partition_state_mut g (mr_topic r) (mr_partition_id r) f s"
  from inv have parts: "topics_ok s" "groups_ok s" "pending_ok s" "range_ok s"
    by (simp_all add: broker_inv_def)
  have loc: "r' = r \<longleftrightarrow> mr_topic r' = mr_topic r \<and> mr_partition_id r' = mr_partition_id r \<and>
      mr_offset r' = mr_offset r" for r' by auto
  have st: "status_of_ref ?s g' r' =
      (if (g', r') = (g, r) then status_in (f (gps_at s g r)) (mr_offset r) else status_of_ref s g' r')"
    for g' r'
    using same(1)[of "mr_offset r'"]
    by (auto simp: status_of_ref_def status_mut status_def gps_at_def loc)
  have at: "bt_get (gp_attempt_counts (gps_at ?s g' r')) (mr_offset r') =
      (if (g', r') = (g, r) then bt_get (gp_attempt_counts (f (gps_at s g r))) (mr_offset r)
       else bt_get (gp_attempt_counts (gps_at s g' r')) (mr_offset r'))" for g' r'
    using same(2)[of "mr_offset r'"] by (auto simp: gps_at_def loc)
  have "groups_ok ?s"
    using parts(2) gps by (intro groups_ok_mut) (simp_all add: gps_at_def)
  moreover have "pending_ok (?s\<lparr>bs_pending := m\<rparr>)"
    unfolding pending_ok_def
  proof (intro conjI allI impI)
    show "bt_sorted (bs_pending (?s\<lparr>bs_pending := m\<rparr>))" using sorted by simp
  next
    fix d pd assume "bt_get (bs_pending (?s\<lparr>bs_pending := m\<rparr>)) d = Some pd"
    then have m: "bt_get m d = Some pd" by simp
    have A: "status_of_ref s (pd_consumer_group_id pd) (pd_message_ref pd) = InFlight d \<and>
        bt_get (gp_attempt_counts (gps_at s (pd_consumer_group_id pd) (pd_message_ref pd)))
          (mr_offset (pd_message_ref pd)) = Some (pd_attempt_number pd)"
      if "bt_get (bs_pending s) d = Some pd" using parts(3) that by (auto simp: pending_ok_def)
    show "status_of_ref (?s\<lparr>bs_pending := m\<rparr>) (pd_consumer_group_id pd) (pd_message_ref pd) = InFlight d"
      using pend[OF m] A by (simp add: st pd_loc_def split: if_splits)
    show "bt_get (gp_attempt_counts (gps_at (?s\<lparr>bs_pending := m\<rparr>) (pd_consumer_group_id pd)
        (pd_message_ref pd))) (mr_offset (pd_message_ref pd)) = Some (pd_attempt_number pd)"
      using pend[OF m] A by (simp add: at pd_loc_def del: gps_at_mut split: if_splits)
  qed
  moreover have "range_ok (?s\<lparr>bs_pending := m\<rparr>)"
    using parts(4) msg by (auto simp: range_ok_def st)
  ultimately show ?thesis using parts(1) by (simp add: broker_inv_def)
qed

section \<open>Attempt counts\<close>

text \<open>
  Under a retry policy with \<^verbatim>\<open>max_attempts = m\<close>, a counted attempt is between 1 and \<^verbatim>\<open>m\<close>, and
  less than \<^verbatim>\<open>m\<close> whenever the message is not in flight, so a further attempt is allowed.
\<close>

definition attempts_ok :: "u32 \<Rightarrow> broker_state \<Rightarrow> bool" where
  "attempts_ok m s \<longleftrightarrow>
     (\<forall>g r n. bt_get (gp_attempt_counts (gps_at s g r)) (mr_offset r) = Some n \<longrightarrow>
        n \<noteq> 0 \<and> n \<le> m \<and> (n < m \<or> (\<exists>d. status_of_ref s g r = InFlight d)))"

lemma attempts_ok_default: "attempts_ok m BrokerState_default"
  by (simp add: attempts_ok_def gps_at_def GroupPartitionState_default_def)

lemma attempts_ok_frame [simp]:
  "attempts_ok m (s\<lparr>bs_topics := a\<rparr>) = attempts_ok m s"
  "attempts_ok m (s\<lparr>bs_pending := b\<rparr>) = attempts_ok m s"
  "attempts_ok m (s\<lparr>bs_dead_letters := c\<rparr>) = attempts_ok m s"
  "attempts_ok m (s\<lparr>bs_idempotency_index := d\<rparr>) = attempts_ok m s"
  by (simp_all add: attempts_ok_def)

lemma attempts_ok_update:
  assumes "attempts_ok m s"
    and same: "\<And>x. x \<noteq> mr_offset r \<Longrightarrow> status_in (f (gps_at s g r)) x = status_in (gps_at s g r) x"
      "\<And>x. x \<noteq> mr_offset r \<Longrightarrow>
         bt_get (gp_attempt_counts (f (gps_at s g r))) x = bt_get (gp_attempt_counts (gps_at s g r)) x"
    and new: "\<And>n. bt_get (gp_attempt_counts (f (gps_at s g r))) (mr_offset r) = Some n \<Longrightarrow>
       n \<noteq> 0 \<and> n \<le> m \<and> (n < m \<or> (\<exists>d. status_in (f (gps_at s g r)) (mr_offset r) = InFlight d))"
  shows "attempts_ok m (group_partition_state_mut g (mr_topic r) (mr_partition_id r) f s)"
  unfolding attempts_ok_def
proof (intro allI impI)
  let ?s = "group_partition_state_mut g (mr_topic r) (mr_partition_id r) f s"
  fix g' r' n
  assume n: "bt_get (gp_attempt_counts (gps_at ?s g' r')) (mr_offset r') = Some n"
  have old: "bt_get (gp_attempt_counts (gps_at s g' r')) (mr_offset r') = Some n \<Longrightarrow>
      n \<noteq> 0 \<and> n \<le> m \<and> (n < m \<or> (\<exists>d. status_of_ref s g' r' = InFlight d))"
    using assms(1) by (auto simp: attempts_ok_def)
  show "n \<noteq> 0 \<and> n \<le> m \<and> (n < m \<or> (\<exists>d. status_of_ref ?s g' r' = InFlight d))"
  proof (cases "g' = g \<and> mr_topic r' = mr_topic r \<and> mr_partition_id r' = mr_partition_id r")
    case True
    then have loc: "gps_at s g' r' = gps_at s g r" "gps_at ?s g' r' = f (gps_at s g r)"
      by (simp_all add: gps_at_def)
    have st: "status_of_ref ?s g' r' = status_in (f (gps_at s g r)) (mr_offset r')"
      "status_of_ref s g' r' = status_in (gps_at s g r) (mr_offset r')"
      using True by (simp_all add: status_of_ref_def status_mut status_def gps_at_def)
    show ?thesis
    proof (cases "mr_offset r' = mr_offset r")
      case True
      with new[of n] n loc st show ?thesis by auto
    next
      case False
      with same[of "mr_offset r'"] n loc st old show ?thesis by auto
    qed
  next
    case False
    then have "gps_at ?s g' r' = gps_at s g' r'" "status_of_ref ?s g' r' = status_of_ref s g' r'"
      by (auto simp: gps_at_def status_of_ref_def status_mut)
    with n old show ?thesis by simp
  qed
qed

section \<open>Settling a pending delivery\<close>

text \<open>
  \<^verbatim>\<open>settle f did pd s\<close> removes the delivery \<^verbatim>\<open>did\<close> from the pending map and applies \<^verbatim>\<open>f\<close> to the
  partition state it belongs to: the common shape of ACK, NACK and lease expiry.
\<close>

definition settle ::
  "(group_partition_state \<Rightarrow> group_partition_state) \<Rightarrow> delivery_id \<Rightarrow> pending_delivery \<Rightarrow> broker_state
     \<Rightarrow> broker_state" where
  "settle f did pd s =
     (group_partition_state_mut (pd_consumer_group_id pd) (mr_topic (pd_message_ref pd))
        (mr_partition_id (pd_message_ref pd)) f s)\<lparr>bs_pending := bt_remove did (bs_pending s)\<rparr>"

definition settled_status ::
  "broker_state \<Rightarrow> broker_state \<Rightarrow> pending_delivery \<Rightarrow> offset_status \<Rightarrow> bool" where
  "settled_status s s' pd x \<longleftrightarrow>
     (\<forall>g r. status_of_ref s' g r = (if (g, r) = pd_loc pd then x else status_of_ref s g r))"

lemma settle_frame [simp]:
  "bs_topics (settle f did pd s) = bs_topics s"
  "bs_dead_letters (settle f did pd s) = bs_dead_letters s"
  "bs_idempotency_index (settle f did pd s) = bs_idempotency_index s"
  "bs_pending (settle f did pd s) = bt_remove did (bs_pending s)"
  "message_at (settle f did pd s) = message_at s"
  "log_of (settle f did pd s) = log_of s"
  by (simp_all add: settle_def)

lemma pending_in_flight:
  assumes "broker_inv s" "bt_get (bs_pending s) did = Some pd"
  shows "status_in (gps_at s (pd_consumer_group_id pd) (pd_message_ref pd)) (mr_offset (pd_message_ref pd))
           = InFlight did"
    "bt_get (gp_attempt_counts (gps_at s (pd_consumer_group_id pd) (pd_message_ref pd)))
       (mr_offset (pd_message_ref pd)) = Some (pd_attempt_number pd)"
    "gps_ok (mr_topic (pd_message_ref pd)) (mr_partition_id (pd_message_ref pd))
       (gps_at s (pd_consumer_group_id pd) (pd_message_ref pd))"
    "\<exists>env. message_at s (pd_message_ref pd) = Some env"
proof -
  from assms have st: "status_of_ref s (pd_consumer_group_id pd) (pd_message_ref pd) = InFlight did"
    by (auto simp: broker_inv_def pending_ok_def)
  then show "status_in (gps_at s (pd_consumer_group_id pd) (pd_message_ref pd))
      (mr_offset (pd_message_ref pd)) = InFlight did"
    by (simp add: status_of_ref_def status_def gps_at_def)
  from assms show "bt_get (gp_attempt_counts (gps_at s (pd_consumer_group_id pd) (pd_message_ref pd)))
       (mr_offset (pd_message_ref pd)) = Some (pd_attempt_number pd)"
    by (auto simp: broker_inv_def pending_ok_def)
  from assms show "gps_ok (mr_topic (pd_message_ref pd)) (mr_partition_id (pd_message_ref pd))
       (gps_at s (pd_consumer_group_id pd) (pd_message_ref pd))"
    by (simp add: broker_inv_def groups_ok_def gps_at_def)
  from assms(1) st show "\<exists>env. message_at s (pd_message_ref pd) = Some env"
    unfolding broker_inv_def range_ok_def by (metis not_None_eq offset_status.distinct(1))
qed

lemma settle_inv:
  assumes inv: "broker_inv s" and pd: "bt_get (bs_pending s) did = Some pd"
    and f: "gps_ok (mr_topic (pd_message_ref pd)) (mr_partition_id (pd_message_ref pd))
      (f (gps_at s (pd_consumer_group_id pd) (pd_message_ref pd)))"
      "\<And>x. status_in (f (gps_at s (pd_consumer_group_id pd) (pd_message_ref pd))) x =
        (if x = mr_offset (pd_message_ref pd) then st
         else status_in (gps_at s (pd_consumer_group_id pd) (pd_message_ref pd)) x)"
      "\<And>x. x \<noteq> mr_offset (pd_message_ref pd) \<Longrightarrow>
        bt_get (gp_attempt_counts (f (gps_at s (pd_consumer_group_id pd) (pd_message_ref pd)))) x =
        bt_get (gp_attempt_counts (gps_at s (pd_consumer_group_id pd) (pd_message_ref pd))) x"
  shows "broker_inv (settle f did pd s)" "settled_status s (settle f did pd s) pd st"
proof -
  let ?g = "pd_consumer_group_id pd" and ?r = "pd_message_ref pd"
  have other: "pd_loc pd' \<noteq> (?g, ?r)"
    if "bt_get (bs_pending s) d' = Some pd'" "d' \<noteq> did" for d' pd'
  proof
    assume "pd_loc pd' = (?g, ?r)"
    then have "InFlight d' = InFlight did"
      using pending_in_flight(1)[OF inv that(1)] pending_in_flight(1)[OF inv pd]
      by (simp add: pd_loc_def)
    with that(2) show False by simp
  qed
  show "broker_inv (settle f did pd s)"
    unfolding settle_def
  proof (rule broker_inv_update[where f = f and g = ?g and r = ?r, OF inv f(1)])
    show "message_at s ?r \<noteq> None" using pending_in_flight(4)[OF inv pd] by auto
    show "bt_sorted (bt_remove did (bs_pending s))"
      using inv by (simp add: broker_inv_def pending_ok_def bt_sorted_remove)
  next
    fix d' pd' assume "bt_get (bt_remove did (bs_pending s)) d' = Some pd'"
    then have "bt_get (bs_pending s) d' = Some pd'" "d' \<noteq> did" by (auto split: if_splits)
    with other show "if pd_loc pd' = (?g, ?r)
       then status_in (f (gps_at s ?g ?r)) (mr_offset ?r) = InFlight d' \<and>
         bt_get (gp_attempt_counts (f (gps_at s ?g ?r))) (mr_offset ?r) = Some (pd_attempt_number pd')
       else bt_get (bs_pending s) d' = Some pd'"
      by simp
  qed (simp_all add: f)
  have loc: "r' = ?r \<longleftrightarrow> mr_topic r' = mr_topic ?r \<and> mr_partition_id r' = mr_partition_id ?r \<and>
      mr_offset r' = mr_offset ?r" for r' by auto
  show "settled_status s (settle f did pd s) pd st"
    using f(2) by (auto simp: settled_status_def settle_def status_of_ref_def status_mut status_def
        pd_loc_def loc gps_at_def)
qed

lemma gps_okD: "gps_ok t p ps \<Longrightarrow> gp_disjoint ps"
  by (simp add: gps_ok_def)

lemma gps_ok_ack:
  "gps_ok t p ps \<Longrightarrow> status_in ps off = InFlight d \<Longrightarrow>
   gps_ok t p (gp_mark_acked off (gp_remove_pending off ps))"
  by (simp add: gps_ok_def gp_disjoint_ack) (simp add: gp_ops)

lemma gps_ok_dead:
  "gps_ok t p ps \<Longrightarrow> status_in ps off = InFlight d \<Longrightarrow>
   gps_ok t p (gp_mark_dead_lettered off (gp_remove_pending off ps))"
  by (simp add: gps_ok_def gp_disjoint_dead) (simp add: gp_ops bt_sorted_remove)

lemma gps_ok_retry:
  "gps_ok t p ps \<Longrightarrow> status_in ps off = InFlight d \<Longrightarrow>
   re_message_ref e = \<lparr>mr_topic = t, mr_partition_id = p, mr_offset = off\<rparr> \<Longrightarrow>
   gps_ok t p (gp_mark_retry_scheduled off e (gp_remove_pending off ps))"
  by (simp add: gps_ok_def gp_disjoint_retry) (simp add: gp_ops bt_sorted_insert)

lemma gps_ok_drop: "gps_ok t p ps \<Longrightarrow> gps_ok t p (gp_remove_pending off ps)"
  by (simp add: gps_ok_def gp_disjoint_remove_pending) (simp add: gp_ops)

lemma gps_ok_release: "gps_ok t p ps \<Longrightarrow> gps_ok t p (gp_mark_retry_available off ps)"
  by (simp add: gps_ok_def gp_disjoint_release) (simp add: gp_ops bt_sorted_remove)

lemma gps_ok_deliver:
  "gps_ok t p ps \<Longrightarrow> status_in ps off = Available \<Longrightarrow> gps_ok t p (gp_mark_pending off d ps)"
  by (simp add: gps_ok_def gp_disjoint_deliver) (simp add: gp_ops)

lemma status_drop:
  "gp_disjoint s \<Longrightarrow> status_in s off = InFlight d \<Longrightarrow>
   status_in (gp_remove_pending off s) x = (if x = off then Available else status_in s x)"
  unfolding status_InFlight_iff
  by (auto simp: status_in_def gp_ops gp_disjoint_def bt_contains_def split: option.splits)

end
