(* ===== verification/Memory_Ops.thy ===== *)
theory Memory_Ops
  imports Memory_Invariants
begin

text \<open>
  What the operations of the in-memory broker do, one operation at a time: the exact result and
  state on every branch, the invariant, and the transitions of the offset statuses. The
  properties of \<^verbatim>\<open>Memory_Properties\<close> are read off these lemmas.
\<close>

section \<open>The transitions of an offset\<close>

text \<open>
  \<^verbatim>\<open>drop\<close> is the transition of a NACK or an expiry whose retry time does not fit in a \<^verbatim>\<open>u64\<close>:
  the in-memory broker has removed the delivery before it computes that time.
\<close>

inductive status_step :: "offset_status \<Rightarrow> offset_status \<Rightarrow> bool" where
  deliver: "status_step Available (InFlight d)"
| acked: "status_step (InFlight d) Done"
| retry: "status_step (InFlight d) (AwaitingRetry e)"
| dead: "status_step (InFlight d) Dead"
| drop: "status_step (InFlight d) Available"
| release: "status_step (AwaitingRetry e) Available"

inductive_cases status_step_DoneE: "status_step Done x"
inductive_cases status_step_DeadE: "status_step Dead x"

lemma status_steps_final:
  assumes "status_step\<^sup>*\<^sup>* x y"
  shows "x = Done \<Longrightarrow> y = Done" "x = Dead \<Longrightarrow> y = Dead"
  using assms by (induction rule: rtranclp_induct) (auto elim: status_step_DoneE status_step_DeadE)

definition evolves :: "broker_state \<Rightarrow> broker_state \<Rightarrow> bool" where
  "evolves s s' \<longleftrightarrow> (\<forall>g r. status_step\<^sup>*\<^sup>* (status_of_ref s g r) (status_of_ref s' g r))"

definition extends :: "broker_state \<Rightarrow> broker_state \<Rightarrow> bool" where
  "extends s s' \<longleftrightarrow>
     (\<forall>t p l. log_of s t p = Some l \<longrightarrow>
        (\<exists>l' es. log_of s' t p = Some l' \<and> pl_entries l' = pl_entries l @ es)) \<and>
     (\<exists>ds. bs_dead_letters s' = bs_dead_letters s @ ds) \<and>
     (\<forall>k r. bt_get (bs_idempotency_index s) k = Some r \<longrightarrow> bt_get (bs_idempotency_index s') k = Some r)"

lemma evolves_refl [simp]: "evolves s s"
  by (simp add: evolves_def)

lemma evolves_trans: "evolves s s' \<Longrightarrow> evolves s' s'' \<Longrightarrow> evolves s s''"
  unfolding evolves_def by (meson rtranclp_trans)

lemma extends_refl [simp]: "extends s s"
  by (auto simp: extends_def)

lemma extends_trans: "extends s s' \<Longrightarrow> extends s' s'' \<Longrightarrow> extends s s''"
  unfolding extends_def by (elim conjE, intro conjI allI impI) (fastforce, force, blast)

lemma evolves_same: "status_of_ref s' = status_of_ref s \<Longrightarrow> evolves s s'"
  by (simp add: evolves_def)

lemma evolves_frame [simp]:
  "evolves s (s'\<lparr>bs_topics := a\<rparr>) = evolves s s'"
  "evolves s (s'\<lparr>bs_pending := b\<rparr>) = evolves s s'"
  "evolves s (s'\<lparr>bs_dead_letters := c\<rparr>) = evolves s s'"
  "evolves s (s'\<lparr>bs_idempotency_index := d\<rparr>) = evolves s s'"
  by (simp_all add: evolves_def)

lemma settled_evolves:
  "settled_status s s' pd x \<Longrightarrow> status_step (status_of_ref s (pd_consumer_group_id pd) (pd_message_ref pd)) x
   \<Longrightarrow> evolves s s'"
  by (auto simp: settled_status_def evolves_def pd_loc_def)

lemma settle_extends: "extends s (settle f did pd s)"
  by (auto simp: extends_def)

section \<open>The settled states\<close>

definition ack_update :: "offset \<Rightarrow> group_partition_state \<Rightarrow> group_partition_state" where
  "ack_update off ps = gp_mark_acked off (gp_remove_pending off ps)"

definition dead_update :: "offset \<Rightarrow> group_partition_state \<Rightarrow> group_partition_state" where
  "dead_update off ps = gp_mark_dead_lettered off (gp_remove_pending off ps)"

definition retry_update :: "offset \<Rightarrow> retry_entry \<Rightarrow> group_partition_state \<Rightarrow> group_partition_state" where
  "retry_update off e ps = gp_mark_retry_scheduled off e (gp_remove_pending off ps)"

lemmas updates = ack_update_def dead_update_def retry_update_def

abbreviation pd_offset :: "pending_delivery \<Rightarrow> offset" where
  "pd_offset pd \<equiv> mr_offset (pd_message_ref pd)"

lemma settle_done:
  assumes "broker_inv s" "bt_get (bs_pending s) did = Some pd"
  shows "broker_inv (settle (ack_update (pd_offset pd)) did pd s)"
    "settled_status s (settle (ack_update (pd_offset pd)) did pd s) pd Done"
proof -
  note p = pending_in_flight[OF assms]
  have u: "gps_ok (mr_topic (pd_message_ref pd)) (mr_partition_id (pd_message_ref pd))
      (ack_update (pd_offset pd) (gps_at s (pd_consumer_group_id pd) (pd_message_ref pd)))"
    unfolding updates by (rule gps_ok_ack[OF p(3,1)])
  have st: "status_in (ack_update (pd_offset pd) (gps_at s (pd_consumer_group_id pd) (pd_message_ref pd))) x =
     (if x = pd_offset pd then Done
      else status_in (gps_at s (pd_consumer_group_id pd) (pd_message_ref pd)) x)" for x
    unfolding updates by (rule status_ack)
  show "broker_inv (settle (ack_update (pd_offset pd)) did pd s)"
    "settled_status s (settle (ack_update (pd_offset pd)) did pd s) pd Done"
    by (rule settle_inv[where f = "ack_update (pd_offset pd)", OF assms u st];
        simp add: updates gp_remove_pending_def)+
qed

lemma settle_dead:
  assumes "broker_inv s" "bt_get (bs_pending s) did = Some pd"
  shows "broker_inv (settle (dead_update (pd_offset pd)) did pd s)"
    "settled_status s (settle (dead_update (pd_offset pd)) did pd s) pd Dead"
proof -
  note p = pending_in_flight[OF assms]
  have u: "gps_ok (mr_topic (pd_message_ref pd)) (mr_partition_id (pd_message_ref pd))
      (dead_update (pd_offset pd) (gps_at s (pd_consumer_group_id pd) (pd_message_ref pd)))"
    unfolding updates by (rule gps_ok_dead[OF p(3,1)])
  have st: "status_in (dead_update (pd_offset pd) (gps_at s (pd_consumer_group_id pd) (pd_message_ref pd))) x =
     (if x = pd_offset pd then Dead
      else status_in (gps_at s (pd_consumer_group_id pd) (pd_message_ref pd)) x)" for x
    unfolding updates by (rule status_dead[OF p(1)])
  show "broker_inv (settle (dead_update (pd_offset pd)) did pd s)"
    "settled_status s (settle (dead_update (pd_offset pd)) did pd s) pd Dead"
    by (rule settle_inv[where f = "dead_update (pd_offset pd)", OF assms u st]; simp add: updates gp_ops)+
qed

lemma settle_retry:
  assumes "broker_inv s" "bt_get (bs_pending s) did = Some pd" "re_message_ref e = pd_message_ref pd"
  shows "broker_inv (settle (retry_update (pd_offset pd) e) did pd s)"
    "settled_status s (settle (retry_update (pd_offset pd) e) did pd s) pd (AwaitingRetry e)"
proof -
  note p = pending_in_flight[OF assms(1,2)]
  have u: "gps_ok (mr_topic (pd_message_ref pd)) (mr_partition_id (pd_message_ref pd))
      (retry_update (pd_offset pd) e (gps_at s (pd_consumer_group_id pd) (pd_message_ref pd)))"
    unfolding updates by (rule gps_ok_retry[OF p(3,1)]) (simp add: assms(3))
  have st: "status_in (retry_update (pd_offset pd) e (gps_at s (pd_consumer_group_id pd) (pd_message_ref pd))) x =
     (if x = pd_offset pd then AwaitingRetry e
      else status_in (gps_at s (pd_consumer_group_id pd) (pd_message_ref pd)) x)" for x
    unfolding updates by (rule status_retry[OF p(1)])
  show "broker_inv (settle (retry_update (pd_offset pd) e) did pd s)"
    "settled_status s (settle (retry_update (pd_offset pd) e) did pd s) pd (AwaitingRetry e)"
    by (rule settle_inv[where f = "retry_update (pd_offset pd) e", OF assms(1,2) u st]; simp add: updates gp_ops)+
qed

lemma settle_drop:
  assumes "broker_inv s" "bt_get (bs_pending s) did = Some pd"
  shows "broker_inv (settle (gp_remove_pending (pd_offset pd)) did pd s)"
    "settled_status s (settle (gp_remove_pending (pd_offset pd)) did pd s) pd Available"
proof -
  note p = pending_in_flight[OF assms]
  note u = gps_ok_drop[OF p(3), of "pd_offset pd"]
  note st = status_drop[OF gps_okD[OF p(3)] p(1)]
  show "broker_inv (settle (gp_remove_pending (pd_offset pd)) did pd s)"
    "settled_status s (settle (gp_remove_pending (pd_offset pd)) did pd s) pd Available"
    by (rule settle_inv[where f = "gp_remove_pending (pd_offset pd)", OF assms u st]; simp add: gp_ops)+
qed

lemma settle_attempts:
  fixes f pd s
  defines "ps \<equiv> gps_at s (pd_consumer_group_id pd) (pd_message_ref pd)"
  assumes inv: "broker_inv s" and pd: "bt_get (bs_pending s) did = Some pd" and at: "attempts_ok m s"
    and f: "\<And>x. x \<noteq> pd_offset pd \<Longrightarrow> status_in (f ps) x = status_in ps x"
      "\<And>x. x \<noteq> pd_offset pd \<Longrightarrow> bt_get (gp_attempt_counts (f ps)) x = bt_get (gp_attempt_counts ps) x"
      "bt_get (gp_attempt_counts (f ps)) (pd_offset pd) = None \<or>
       gp_attempt_counts (f ps) = gp_attempt_counts ps \<and> pd_attempt_number pd < m"
  shows "attempts_ok m (settle f did pd s)"
proof -
  let ?g = "pd_consumer_group_id pd" and ?r = "pd_message_ref pd"
  note p = pending_in_flight[OF inv pd, folded ps_def]
  from at p(2) have n0: "pd_attempt_number pd \<noteq> 0" "pd_attempt_number pd \<le> m"
    unfolding attempts_ok_def ps_def by blast+
  have "attempts_ok m (group_partition_state_mut ?g (mr_topic ?r) (mr_partition_id ?r) f s)"
  proof (rule attempts_ok_update[OF at, of ?r f ?g, folded ps_def])
    fix n assume "bt_get (gp_attempt_counts (f ps)) (mr_offset ?r) = Some n"
    with f(3) p(2) have "n = pd_attempt_number pd \<and> pd_attempt_number pd < m" by auto
    with n0 show "n \<noteq> 0 \<and> n \<le> m \<and> (n < m \<or> (\<exists>d. status_in (f ps) (mr_offset ?r) = InFlight d))"
      by simp
  qed (simp_all add: f)
  then show ?thesis by (simp add: settle_def)
qed

section \<open>ACK\<close>

lemma pending_for_command_cases:
  "pending_for_command did cid s =
     (case bt_get (bs_pending s) did of
        None \<Rightarrow> Err (DeliveryNotFound did)
      | Some pd \<Rightarrow> if pd_consumer_id pd = cid then Ok pd else Err (InvalidConsumer did (pd_consumer_id pd) cid))"
  by (simp add: pending_for_command_def split: option.split)

lemma ack_eq:
  "ack c s =
     (case pending_for_command (ac_delivery_id c) (ac_consumer_id c) s of
        Ok pd \<Rightarrow> (Ok (), settle (ack_update (pd_offset pd)) (ac_delivery_id c) pd s)
      | Err e \<Rightarrow> (Err e, s)
      | Panicked \<Rightarrow> (Panicked, s))"
  by (simp add: ack_def Let_def settle_def gps_mut_pending updates fun_eq_iff split: rres.split)
    (simp add: group_partition_state_mut_def ack_update_def gs_partition_state_mut_def)

lemma ack_inv:
  assumes "broker_inv s"
  shows "broker_inv (snd (ack c s))" "evolves s (snd (ack c s))" "extends s (snd (ack c s))"
    "fst (ack c s) \<noteq> Panicked"
proof -
  show "broker_inv (snd (ack c s))" "fst (ack c s) \<noteq> Panicked"
    using settle_done(1)[OF assms] assms
    by (auto simp: ack_eq pending_for_command_cases split: option.splits)
  show "extends s (snd (ack c s))"
    by (simp add: ack_eq pending_for_command_cases settle_extends split: option.splits)
  show "evolves s (snd (ack c s))"
  proof (cases "\<exists>pd. pending_for_command (ac_delivery_id c) (ac_consumer_id c) s = Ok pd")
    case True
    then obtain pd where pd: "pending_for_command (ac_delivery_id c) (ac_consumer_id c) s = Ok pd"
      and g: "bt_get (bs_pending s) (ac_delivery_id c) = Some pd"
      by (auto simp: pending_for_command_cases split: option.splits if_splits)
    have "evolves s (settle (ack_update (pd_offset pd)) (ac_delivery_id c) pd s)"
      by (rule settled_evolves[OF settle_done(2)[OF assms g]])
        (use pending_in_flight(1)[OF assms g] in
          \<open>simp add: status_of_ref_def status_def gps_at_def status_step.acked\<close>)
    with pd show ?thesis by (simp add: ack_eq)
  next
    case False
    then show ?thesis by (auto simp: ack_eq pending_for_command_cases split: option.splits if_splits)
  qed
qed

section \<open>NACK and the choice between retry and dead letter\<close>

definition retry_ready_at :: "retry_policy \<Rightarrow> message_timestamp \<Rightarrow> message_timestamp broker_result" where
  "retry_ready_at policy ts =
     (case rp_backoff_millis policy of
        Some backoff \<Rightarrow> add_millis ts backoff ''retry_policy.backoff_millis''
      | None \<Rightarrow> Ok ts)"

definition dead_letter_of ::
  "pending_delivery \<Rightarrow> message_envelope \<Rightarrow> dead_letter_reason \<Rightarrow> message_timestamp \<Rightarrow> dead_letter_entry" where
  "dead_letter_of pd env reason ts =
     \<lparr>dl_topic = mr_topic (pd_message_ref pd), dl_partition_id = mr_partition_id (pd_message_ref pd),
      dl_offset = mr_offset (pd_message_ref pd), dl_message_id = env_id env, dl_envelope = env,
      dl_consumer_group_id = pd_consumer_group_id pd, dl_reason = reason,
      dl_attempt_count = pd_attempt_number pd, dl_timestamp = ts\<rparr>"

lemma retry_ready_at_not_Panicked [simp]: "retry_ready_at policy ts \<noteq> Panicked"
  by (simp add: retry_ready_at_def split: option.split)

lemma settle_unfold:
  "group_partition_state_mut (pd_consumer_group_id pd) (mr_topic (pd_message_ref pd))
     (mr_partition_id (pd_message_ref pd)) f (s\<lparr>bs_pending := bt_remove did (bs_pending s)\<rparr>) =
   settle f did pd s"
  by (simp add: settle_def gps_mut_pending)

lemma settle_mut:
  "group_partition_state_mut (pd_consumer_group_id pd) (mr_topic (pd_message_ref pd))
     (mr_partition_id (pd_message_ref pd)) h (settle f did pd s) = settle (\<lambda>ps. h (f ps)) did pd s"
  by (simp add: settle_def gps_mut_pending)

lemma schedule_eq:
  assumes "message_at s (pd_message_ref pd) = Some env"
  shows "schedule_pending_retry_or_dlq pd policy ts reason
           (s\<lparr>bs_pending := bt_remove did (bs_pending s)\<rparr>) =
     (if rp_max_attempts policy < pd_attempt_number pd + 1
      then (Ok (), (settle (dead_update (pd_offset pd)) did pd s)
              \<lparr>bs_dead_letters := bs_dead_letters s @ [dead_letter_of pd env reason ts]\<rparr>)
      else case retry_ready_at policy ts of
          Ok ready \<Rightarrow>
            (Ok (), settle (retry_update (pd_offset pd)
                      \<lparr>re_message_ref = pd_message_ref pd, re_ready_at = ready\<rparr>) did pd s)
        | Err e \<Rightarrow> (Err e, settle (gp_remove_pending (pd_offset pd)) did pd s)
        | Panicked \<Rightarrow> (Panicked, settle (gp_remove_pending (pd_offset pd)) did pd s))"
  using assms
  by (simp add: schedule_pending_retry_or_dlq_def Let_def settle_unfold settle_mut push_dead_letter_def
      envelope_for_def dead_letter_of_def retry_ready_at_def[symmetric]
      dead_update_def[abs_def] retry_update_def[abs_def] split: rres.split)

lemma word_succ_le_iff:
  fixes m n :: u32
  assumes "m \<noteq> - 1" "n \<le> m"
  shows "n + 1 \<le> m \<longleftrightarrow> n < m"
proof -
  have "unat m \<noteq> unat (- 1 :: u32)" using assms(1) by (metis unat_eqD)
  moreover have "unat (- 1 :: u32) = 4294967295"
    by (simp add: unsigned_minus_1_eq_mask mask_eq_exp_minus_1)
  ultimately have "unat m < 4294967295" using unat_u32_less[of m] by linarith
  then have "unat n + 1 < 4294967296" using assms(2) by (simp add: word_le_nat_alt)
  then have "unat (n + 1) = unat n + 1" by (simp add: unat_word_ariths)
  then show ?thesis by (simp add: word_le_nat_alt word_less_nat_alt Suc_le_eq)
qed

text \<open>What every outcome of the choice keeps and does.\<close>

lemma schedule_inv:
  assumes inv: "broker_inv s" and pd: "bt_get (bs_pending s) did = Some pd"
    and eq: "schedule_pending_retry_or_dlq pd policy ts reason
           (s\<lparr>bs_pending := bt_remove did (bs_pending s)\<rparr>) = (res, s')"
  shows "broker_inv s'" "evolves s s'" "extends s s'" "res \<noteq> Panicked"
    "bs_pending s' = bt_remove did (bs_pending s)" "log_of s' = log_of s" "bs_topics s' = bs_topics s"
    "bs_idempotency_index s' = bs_idempotency_index s"
proof -
  obtain env where env: "message_at s (pd_message_ref pd) = Some env"
    using pending_in_flight(4)[OF inv pd] by blast
  have fl: "status_of_ref s (pd_consumer_group_id pd) (pd_message_ref pd) = InFlight did"
    using pending_in_flight(1)[OF inv pd] by (simp add: status_of_ref_def status_def gps_at_def)
  note eq' = eq[unfolded schedule_eq[OF env]]
  note d = settle_dead[OF inv pd] and r = settle_retry[OF inv pd] and n = settle_drop[OF inv pd]
  have ev: "evolves s (settle (dead_update (pd_offset pd)) did pd s)"
    "evolves s (settle (gp_remove_pending (pd_offset pd)) did pd s)"
    "re_message_ref e = pd_message_ref pd \<Longrightarrow> evolves s (settle (retry_update (pd_offset pd) e) did pd s)"
    for e
    using settled_evolves[OF d(2)] settled_evolves[OF n(2)] settled_evolves[OF r(2)] fl
    by (simp_all add: status_step.intros)
  show "broker_inv s'"
    using eq' d(1) r(1) n(1) by (auto split: if_splits rres.splits)
  show "evolves s s'"
    using eq' ev by (auto split: if_splits rres.splits)
  show "extends s s'"
    using eq' by (auto simp: extends_def split: if_splits rres.splits)
  show "res \<noteq> Panicked"
    using eq' by (auto split: if_splits rres.splits)
  show "bs_pending s' = bt_remove did (bs_pending s)" "log_of s' = log_of s" "bs_topics s' = bs_topics s"
    "bs_idempotency_index s' = bs_idempotency_index s"
    using eq' by (auto split: if_splits rres.splits)
qed

lemma schedule_attempts:
  assumes inv: "broker_inv s" and pd: "bt_get (bs_pending s) did = Some pd"
    and at: "attempts_ok (rp_max_attempts policy) s" and max: "rp_max_attempts policy \<noteq> - 1"
    and eq: "schedule_pending_retry_or_dlq pd policy ts reason
           (s\<lparr>bs_pending := bt_remove did (bs_pending s)\<rparr>) = (res, s')"
  shows "attempts_ok (rp_max_attempts policy) s'"
proof -
  obtain env where env: "message_at s (pd_message_ref pd) = Some env"
    using pending_in_flight(4)[OF inv pd] by blast
  note p = pending_in_flight[OF inv pd]
  from at p(2) have n0: "pd_attempt_number pd \<le> rp_max_attempts policy"
    unfolding attempts_ok_def by blast
  have lt: "pd_attempt_number pd < rp_max_attempts policy"
    if "\<not> rp_max_attempts policy < pd_attempt_number pd + 1"
    using that word_succ_le_iff[OF max n0] by (simp add: not_less)
  note c = settle_attempts[OF inv pd at]
  have "attempts_ok (rp_max_attempts policy) (settle (dead_update (pd_offset pd)) did pd s)"
    by (rule c) (use status_dead[OF p(1)] in \<open>simp_all add: updates\<close>, simp_all add: gp_ops)
  moreover have "attempts_ok (rp_max_attempts policy) (settle (retry_update (pd_offset pd) e) did pd s)"
    if "\<not> rp_max_attempts policy < pd_attempt_number pd + 1" for e
    by (rule c) (use status_retry[OF p(1)] lt[OF that] in \<open>simp_all add: updates\<close>, simp_all add: gp_ops)
  moreover have "attempts_ok (rp_max_attempts policy) (settle (gp_remove_pending (pd_offset pd)) did pd s)"
    if "\<not> rp_max_attempts policy < pd_attempt_number pd + 1"
    by (rule c) (use status_drop[OF gps_okD[OF p(3)] p(1)] lt[OF that] in simp_all, simp_all add: gp_ops)
  ultimately show ?thesis
    using eq[unfolded schedule_eq[OF env]] by (auto split: if_splits rres.splits)
qed

lemma nack_eq:
  "nack c policy s =
     (case pending_for_command (nc_delivery_id c) (nc_consumer_id c) s of
        Ok pd \<Rightarrow>
          schedule_pending_retry_or_dlq pd policy (nc_timestamp c)
            (Manual (case nc_reason c of None \<Rightarrow> str ''nack'' | Some reason \<Rightarrow> reason))
            (s\<lparr>bs_pending := bt_remove (nc_delivery_id c) (bs_pending s)\<rparr>)
      | Err e \<Rightarrow> (Err e, s)
      | Panicked \<Rightarrow> (Panicked, s))"
  by (simp add: nack_def split: rres.split)

lemma nack_inv:
  assumes "broker_inv s"
  shows "broker_inv (snd (nack c policy s))" "evolves s (snd (nack c policy s))"
    "extends s (snd (nack c policy s))" "fst (nack c policy s) \<noteq> Panicked"
    "attempts_ok (rp_max_attempts policy) s \<Longrightarrow> rp_max_attempts policy \<noteq> - 1 \<Longrightarrow>
       attempts_ok (rp_max_attempts policy) (snd (nack c policy s))"
proof -
  obtain res s' where eq: "nack c policy s = (res, s')" by (cases "nack c policy s")
  consider (pd) pd where "bt_get (bs_pending s) (nc_delivery_id c) = Some pd"
      "schedule_pending_retry_or_dlq pd policy (nc_timestamp c)
            (Manual (case nc_reason c of None \<Rightarrow> str ''nack'' | Some reason \<Rightarrow> reason))
            (s\<lparr>bs_pending := bt_remove (nc_delivery_id c) (bs_pending s)\<rparr>) = (res, s')"
    | (none) "s' = s" "res \<noteq> Panicked"
    using eq by (auto simp: nack_eq pending_for_command_cases split: option.splits if_splits)
  then have "broker_inv s' \<and> evolves s s' \<and> extends s s' \<and> res \<noteq> Panicked \<and>
    (attempts_ok (rp_max_attempts policy) s \<longrightarrow> rp_max_attempts policy \<noteq> - 1 \<longrightarrow>
       attempts_ok (rp_max_attempts policy) s')"
  proof cases
    case pd
    with schedule_inv[OF assms pd] schedule_attempts[OF assms pd(1) _ _ pd(2)] show ?thesis by blast
  next
    case none
    with assms show ?thesis by simp
  qed
  then show "broker_inv (snd (nack c policy s))" "evolves s (snd (nack c policy s))"
    "extends s (snd (nack c policy s))" "fst (nack c policy s) \<noteq> Panicked"
    "attempts_ok (rp_max_attempts policy) s \<Longrightarrow> rp_max_attempts policy \<noteq> - 1 \<Longrightarrow>
       attempts_ok (rp_max_attempts policy) (snd (nack c policy s))"
    by (simp_all add: eq)
qed

end
