(* ===== verification/Memory_Retry.thy ===== *)
theory Memory_Retry
  imports Memory_Ops
begin

text \<open>
  \<^verbatim>\<open>retry_ready\<close>: the loop over expired leases and the loop that releases retries. The first
  loop removes exactly the expired deliveries, the second exactly the retries that are due, and
  the invariant, the attempt bound and the transitions hold along both.
\<close>

section \<open>Expired leases\<close>

lemma expire_deliveries_step:
  assumes "bt_get (bs_pending s) did = Some pd"
    "schedule_pending_retry_or_dlq pd policy now Expired
       (s\<lparr>bs_pending := bt_remove did (bs_pending s)\<rparr>) = (res, s2)"
  shows "expire_deliveries now policy (did # dids) n s =
     (case res of
        Ok u \<Rightarrow> expire_deliveries now policy dids (n + (length (bs_dead_letters s2) - length (bs_dead_letters s))) s2
      | Err e \<Rightarrow> (Err e, s2)
      | Panicked \<Rightarrow> (Panicked, s2))"
  using assms by (simp split: rres.split)

lemma expire_deliveries_inv:
  assumes "broker_inv s" "distinct dids" "\<forall>d\<in>set dids. bt_contains (bs_pending s) d"
    "expire_deliveries now policy dids n s = (res, s')"
  shows "broker_inv s' \<and> evolves s s' \<and> extends s s' \<and> res \<noteq> Panicked \<and> log_of s' = log_of s \<and>
    bs_topics s' = bs_topics s \<and> bs_idempotency_index s' = bs_idempotency_index s \<and>
    (attempts_ok (rp_max_attempts policy) s \<longrightarrow> rp_max_attempts policy \<noteq> - 1 \<longrightarrow>
       attempts_ok (rp_max_attempts policy) s') \<and>
    (\<forall>k. res = Ok k \<longrightarrow>
       (\<forall>d. bt_get (bs_pending s') d = (if d \<in> set dids then None else bt_get (bs_pending s) d)) \<and>
       k + length (bs_dead_letters s) = n + length (bs_dead_letters s'))"
  using assms
proof (induction dids arbitrary: n s)
  case Nil
  then show ?case by auto
next
  case (Cons d dids)
  from Cons.prems(3) obtain pd where pd: "bt_get (bs_pending s) d = Some pd"
    by (auto simp: bt_contains_iff)
  obtain r s2 where sch: "schedule_pending_retry_or_dlq pd policy now Expired
      (s\<lparr>bs_pending := bt_remove d (bs_pending s)\<rparr>) = (r, s2)"
    by fastforce
  note si = schedule_inv[OF Cons.prems(1) pd sch]
  note sa = schedule_attempts[OF Cons.prems(1) pd _ _ sch]
  show ?case
  proof (cases r)
    case (Ok u)
    let ?n = "n + (length (bs_dead_letters s2) - length (bs_dead_letters s))"
    have run: "expire_deliveries now policy dids ?n s2 = (res, s')"
      using Cons.prems(4) by (simp only: expire_deliveries_step[OF pd sch] Ok rres.case)
    have "\<forall>x\<in>set dids. bt_contains (bs_pending s2) x"
      using Cons.prems(2,3) by (auto simp: si(5))
    note IH = Cons.IH[OF si(1) _ this run]
    have len: "length (bs_dead_letters s) \<le> length (bs_dead_letters s2)"
      using si(3) by (auto simp: extends_def)
    show ?thesis
      using IH Cons.prems(2) si sa len evolves_trans[OF si(2)] extends_trans[OF si(3)]
      by auto
  next
    case (Err e)
    then have "res = Err e" "s' = s2"
      using Cons.prems(4) by (simp_all only: expire_deliveries_step[OF pd sch] rres.case prod.inject)
    with si sa show ?thesis by simp
  next
    case Panicked
    with si(4) show ?thesis by simp
  qed
qed

lemma expired_delivery_ids_mem:
  assumes "broker_inv s"
  shows "d \<in> set (expired_delivery_ids now s) \<longleftrightarrow>
    (\<exists>pd. bt_get (bs_pending s) d = Some pd \<and> pd_lease_expires_at pd \<le> now)"
proof -
  have "bt_sorted (bs_pending s)" using assms by (simp add: broker_inv_def pending_ok_def)
  then show ?thesis
    by (auto simp: expired_delivery_ids_def bt_mem_iff image_iff)
qed

lemma expired_delivery_ids_distinct:
  assumes "broker_inv s"
  shows "distinct (expired_delivery_ids now s)"
proof -
  have "distinct (map fst (bs_pending s))"
    using assms by (simp add: broker_inv_def pending_ok_def bt_sorted_distinct)
  then show ?thesis
    by (auto simp: expired_delivery_ids_def distinct_map intro: inj_on_subset)
qed

section \<open>Retries that are due\<close>

definition retry_at :: "broker_state \<Rightarrow> consumer_group_id \<Rightarrow> message_ref \<Rightarrow> retry_entry option" where
  "retry_at s g r = bt_get (gp_retry_by_offset (gps_at s g r)) (mr_offset r)"

definition due :: "message_timestamp \<Rightarrow> broker_state \<Rightarrow> consumer_group_id \<Rightarrow> message_ref \<Rightarrow> bool" where
  "due now s g r \<longleftrightarrow> (\<exists>e. retry_at s g r = Some e \<and> re_ready_at e \<le> now)"

text \<open>One iteration of the release loop.\<close>

definition release_one ::
  "message_timestamp \<Rightarrow> consumer_group_id \<Rightarrow> message_ref \<Rightarrow> broker_state \<Rightarrow> broker_state" where
  "release_one now g r s =
     group_partition_state_mut g (mr_topic r) (mr_partition_id r)
       (if due now s g r then gp_mark_retry_available (mr_offset r) else id) s"

lemma release_retries_step:
  "release_retries now ((g, r) # entries) n s =
     release_retries now entries (if due now s g r then n + 1 else n) (release_one now g r s)"
  by (auto simp: Let_def due_def retry_at_def release_one_def gps_at_def id_def split: option.split)

lemma retry_at_status:
  "broker_inv s \<Longrightarrow> retry_at s g r = Some e \<longleftrightarrow> status_of_ref s g r = AwaitingRetry e"
  unfolding retry_at_def status_of_ref_gps
  by (rule status_AwaitingRetry_iff[symmetric]) (rule gps_okD[OF inv_gps_ok])

lemma release_one_retry_at:
  "retry_at (release_one now g r s) g' r' =
     (if (g', r') = (g, r) \<and> due now s g r then None else retry_at s g' r')"
proof -
  have "r' = r \<longleftrightarrow> mr_topic r' = mr_topic r \<and> mr_partition_id r' = mr_partition_id r \<and>
      mr_offset r' = mr_offset r" by auto
  then show ?thesis
    by (auto simp: retry_at_def release_one_def gp_ops gps_at_def)
qed

lemma release_one_frame [simp]:
  "bs_topics (release_one now g r s) = bs_topics s"
  "bs_pending (release_one now g r s) = bs_pending s"
  "bs_dead_letters (release_one now g r s) = bs_dead_letters s"
  "bs_idempotency_index (release_one now g r s) = bs_idempotency_index s"
  "log_of (release_one now g r s) = log_of s"
  "message_at (release_one now g r s) = message_at s"
  by (simp_all add: release_one_def)

lemma release_one_status:
  assumes inv: "broker_inv s"
  shows "status_of_ref (release_one now g r s) g' r' =
    (if (g', r') = (g, r) \<and> due now s g r then Available else status_of_ref s g' r')"
proof -
  have loc: "r' = r \<longleftrightarrow> mr_topic r' = mr_topic r \<and> mr_partition_id r' = mr_partition_id r \<and>
      mr_offset r' = mr_offset r" by auto
  have "\<exists>e. status_in (gps_at s g r) (mr_offset r) = AwaitingRetry e" if "due now s g r"
    using that retry_at_status[OF inv] by (auto simp: due_def status_of_ref_gps)
  then have "status_in (gp_mark_retry_available (mr_offset r) (gps_at s g r)) x =
      (if x = mr_offset r then Available else status_in (gps_at s g r) x)" if "due now s g r" for x
    using status_release[OF gps_okD[OF inv_gps_ok[OF inv]]] that by blast
  then show ?thesis
    by (auto simp: release_one_def status_of_ref_def status_mut status_def gps_at_def loc)
qed

lemma release_one_inv:
  assumes inv: "broker_inv s"
  shows "broker_inv (release_one now g r s)" "evolves s (release_one now g r s)"
    "attempts_ok m s \<Longrightarrow> attempts_ok m (release_one now g r s)"
proof -
  let ?f = "if due now s g r then gp_mark_retry_available (mr_offset r) else id"
  let ?ps = "gps_at s g r"
  have ok: "gps_ok (mr_topic r) (mr_partition_id r) ?ps"
    by (rule inv_gps_ok[OF inv])
  have dueD: "\<exists>e. status_in ?ps (mr_offset r) = AwaitingRetry e" if "due now s g r"
    using that retry_at_status[OF inv] by (auto simp: due_def status_of_ref_gps)
  have st: "status_in (?f ?ps) x =
      (if x = mr_offset r \<and> due now s g r then Available else status_in ?ps x)" for x
    using dueD status_release[OF gps_okD[OF ok]] by auto
  have cnt: "gp_attempt_counts (?f ?ps) = gp_attempt_counts ?ps" by (simp add: gp_ops)
  have not_fl: "pd_loc pd \<noteq> (g, r)" if "bt_get (bs_pending s) d = Some pd" "due now s g r" for d pd
    using pending_in_flight(1)[OF inv that(1)] dueD[OF that(2)] by (auto simp: pd_loc_def)
  show "broker_inv (release_one now g r s)"
  proof (cases "due now s g r")
    case True
    have "message_at s r \<noteq> None"
      using dueD[OF True] inv_message_at[OF inv, of g r] by (auto simp: status_of_ref_gps)
    then have "broker_inv ((group_partition_state_mut g (mr_topic r) (mr_partition_id r) ?f s)
        \<lparr>bs_pending := bs_pending s\<rparr>)"
      using st cnt ok inv not_fl True
      by (intro broker_inv_update[where f = ?f])
        (simp_all add: gps_ok_release broker_inv_def pending_ok_def)
    moreover have "t\<lparr>bs_pending := bs_pending s\<rparr> = t" if "bs_pending t = bs_pending s" for t :: broker_state
      using that by simp
    ultimately show ?thesis by (simp add: release_one_def)
  next
    case False
    then have g: "gps_at (release_one now g r s) = gps_at s"
      by (simp add: release_one_def fun_eq_iff gps_at_def)
    then have stt: "status_of_ref (release_one now g r s) = status_of_ref s"
      by (simp add: fun_eq_iff status_of_ref_gps)
    have "groups_ok (release_one now g r s)"
      unfolding release_one_def using False ok inv
      by (intro groups_ok_mut) (simp_all add: broker_inv_def gps_at_def)
    with g stt inv show ?thesis
      by (simp add: broker_inv_def topics_ok_def pending_ok_def range_ok_def)
  qed
  have "status_step\<^sup>*\<^sup>* (status_of_ref s g r) Available" if "due now s g r"
    using dueD[OF that] r_into_rtranclp[of status_step, OF status_step.release]
    by (auto simp: status_of_ref_gps)
  then show "evolves s (release_one now g r s)"
    unfolding evolves_def release_one_status[OF inv] by (auto simp: prod_eq_iff)
  show "attempts_ok m (release_one now g r s)" if "attempts_ok m s"
    unfolding release_one_def
  proof (rule attempts_ok_update[OF that])
    fix n assume "bt_get (gp_attempt_counts (?f ?ps)) (mr_offset r) = Some n"
    with cnt that have "n \<noteq> 0 \<and> n \<le> m \<and> (n < m \<or> (\<exists>d. status_of_ref s g r = InFlight d))"
      by (auto simp: attempts_ok_def)
    with dueD st show "n \<noteq> 0 \<and> n \<le> m \<and> (n < m \<or> (\<exists>d. status_in (?f ?ps) (mr_offset r) = InFlight d))"
      by (cases "due now s g r") (auto simp: status_of_ref_gps)
  qed (use st cnt in simp_all)
qed

lemma release_retries_inv:
  assumes "broker_inv s" "release_retries now entries n s = (k, s')"
  shows "broker_inv s' \<and> evolves s s' \<and> extends s s' \<and> log_of s' = log_of s \<and> bs_topics s' = bs_topics s \<and>
    bs_pending s' = bs_pending s \<and> bs_dead_letters s' = bs_dead_letters s \<and>
    bs_idempotency_index s' = bs_idempotency_index s \<and>
    (attempts_ok m s \<longrightarrow> attempts_ok m s') \<and>
    (\<forall>g r. retry_at s' g r = (if (g, r) \<in> set entries \<and> due now s g r then None else retry_at s g r))"
  using assms
proof (induction entries arbitrary: n s)
  case Nil
  then show ?case by simp
next
  case (Cons e entries)
  obtain g r where e: "e = (g, r)" by (cases e)
  note run = Cons.prems(2)[unfolded e release_retries_step]
  note IH = Cons.IH[OF release_one_inv(1)[OF Cons.prems(1)] run]
  note one = release_one_inv(2,3)[OF Cons.prems(1), where now = now and g = g and r = r]
  have ex: "extends s (release_one now g r s)" by (auto simp: extends_def)
  have due: "due now (release_one now g r s) g' r' \<longleftrightarrow> due now s g' r' \<and> (g', r') \<noteq> (g, r)" for g' r'
    by (auto simp: due_def release_one_retry_at)
  have "retry_at s' g' r' =
      (if (g', r') \<in> set (e # entries) \<and> due now s g' r' then None else retry_at s g' r')" for g' r'
    using IH by (auto simp: due e release_one_retry_at)
  moreover have "evolves s s'" using IH evolves_trans[OF one(1)] by blast
  moreover have "extends s s'" using IH extends_trans[OF ex] by blast
  moreover have "attempts_ok m s \<longrightarrow> attempts_ok m s'" using IH one(2) by blast
  ultimately show ?case using IH by simp
qed

text \<open>The collected entries are exactly those that are due, each once.\<close>

lemma ready_retry_entries_complete:
  assumes "broker_inv s" "due now s g r"
  shows "(g, r) \<in> set (ready_retry_entries now s)"
proof -
  from assms(2) obtain e where e: "retry_at s g r = Some e" "re_ready_at e \<le> now" by (auto simp: due_def)
  then obtain gs where gs: "bt_get (bs_groups s) g = Some gs"
    by (cases "bt_get (bs_groups s) g")
      (auto simp: retry_at_def gps_at_def gps_of_def bt_entry_or_def GroupState_default_def
        GroupPartitionState_default_def)
  with e obtain ps where ps: "bt_get (gs_partitions gs) (mr_topic r, mr_partition_id r) = Some ps"
    by (cases "bt_get (gs_partitions gs) (mr_topic r, mr_partition_id r)")
      (auto simp: retry_at_def gps_at_def gps_of_def bt_entry_or_def GroupPartitionState_default_def)
  from gs ps e have re: "bt_get (gp_retry_by_offset ps) (mr_offset r) = Some e"
    by (simp add: retry_at_def gps_at_def gps_of_def bt_entry_or_def)
  have "gps_ok (mr_topic r) (mr_partition_id r) (gps_at s g r)"
    by (rule inv_gps_ok[OF assms(1)])
  with e have "re_message_ref e = r" by (simp add: gps_ok_def retry_at_def)
  moreover have "(mr_offset r, e) \<in> set (gp_retry_by_offset ps)" by (rule bt_get_in_set[OF re])
  moreover have "((mr_topic r, mr_partition_id r), ps) \<in> set (gs_partitions gs)"
    by (rule bt_get_in_set[OF ps])
  moreover have "(g, gs) \<in> set (bs_groups s)" by (rule bt_get_in_set[OF gs])
  ultimately show ?thesis using e(2) by (force simp: ready_retry_entries_def)
qed

lemma retry_ready_cases:
  assumes inv: "broker_inv s" and eq: "retry_ready now policy s = (res, s')"
  shows "broker_inv s'" "evolves s s'" "extends s s'" "res \<noteq> Panicked"
    "attempts_ok (rp_max_attempts policy) s \<Longrightarrow> rp_max_attempts policy \<noteq> - 1 \<Longrightarrow>
       attempts_ok (rp_max_attempts policy) s'"
    "res = Ok sm \<Longrightarrow>
       (\<forall>d. bt_get (bs_pending s') d =
            (case bt_get (bs_pending s) d of
               None \<Rightarrow> None | Some pd \<Rightarrow> if pd_lease_expires_at pd \<le> now then None else Some pd)) \<and>
       (\<forall>g r. \<not> due now s' g r) \<and>
       rs_lease_expired sm = length (expired_delivery_ids now s) \<and>
       rs_dead_lettered sm + length (bs_dead_letters s) = length (bs_dead_letters s')"
    "bs_topics s' = bs_topics s" "bs_idempotency_index s' = bs_idempotency_index s"
proof -
  let ?ids = "expired_delivery_ids now s"
  obtain r1 s1 where ex: "expire_deliveries now policy ?ids 0 s = (r1, s1)"
    by fastforce
  have cont: "\<forall>d\<in>set ?ids. bt_contains (bs_pending s) d"
    using expired_delivery_ids_mem[OF inv] by (auto simp: bt_contains_iff)
  note E = expire_deliveries_inv[OF inv expired_delivery_ids_distinct[OF inv] cont ex]
  have E1: "broker_inv s1" "evolves s s1" "extends s s1" "r1 \<noteq> Panicked" "bs_topics s1 = bs_topics s"
    "bs_idempotency_index s1 = bs_idempotency_index s" using E by blast+
  have Eat: "attempts_ok (rp_max_attempts policy) s1"
    if "attempts_ok (rp_max_attempts policy) s" "rp_max_attempts policy \<noteq> - 1" using E that by blast
  have Eok: "bt_get (bs_pending s1) d = (if d \<in> set ?ids then None else bt_get (bs_pending s) d)"
    "n + length (bs_dead_letters s) = length (bs_dead_letters s1)" if "r1 = Ok n" for d n
    using E that by auto
  obtain k s2 where rel: "release_retries now (ready_retry_entries now s1) 0 s1 = (k, s2)"
    by fastforce
  note R = release_retries_inv[OF E1(1) rel]
  have R1: "broker_inv s2" "evolves s1 s2" "extends s1 s2" "bs_topics s2 = bs_topics s1"
    "bs_pending s2 = bs_pending s1" "bs_dead_letters s2 = bs_dead_letters s1"
    "bs_idempotency_index s2 = bs_idempotency_index s1" using R by blast+
  have Rat: "attempts_ok m s1 \<Longrightarrow> attempts_ok m s2" for m using R[of m] by blast
  have pend: "bt_get (bs_pending s1) d =
      (case bt_get (bs_pending s) d of
         None \<Rightarrow> None | Some pd \<Rightarrow> if pd_lease_expires_at pd \<le> now then None else Some pd)"
    if "r1 = Ok n" for d n
    using Eok(1)[OF that, of d] expired_delivery_ids_mem[OF inv, of d now] by (auto split: option.split)
  have not_due: "\<not> due now s2 g r" for g r
  proof -
    have at: "retry_at s2 g r =
        (if (g, r) \<in> set (ready_retry_entries now s1) \<and> due now s1 g r then None else retry_at s1 g r)"
      using R by blast
    show ?thesis
    proof (cases "due now s1 g r")
      case True
      with at ready_retry_entries_complete[OF E1(1) True] have "retry_at s2 g r = None" by simp
      then show ?thesis by (simp add: due_def)
    next
      case False
      with at have "retry_at s2 g r = retry_at s1 g r" by simp
      with False show ?thesis by (simp add: due_def)
    qed
  qed
  consider (ok) dl where "r1 = Ok dl" "s' = s2" "res = Ok \<lparr>rs_retry_scheduled = length (ready_retry_entries now s1),
        rs_lease_expired = length ?ids, rs_made_available = k, rs_dead_lettered = dl\<rparr>"
    | (err) e where "r1 = Err e" "s' = s1" "res = Err e"
  proof (cases r1)
    case (Ok dl)
    have "retry_ready now policy s = (Ok \<lparr>rs_retry_scheduled = length (ready_retry_entries now s1),
        rs_lease_expired = length ?ids, rs_made_available = k, rs_dead_lettered = dl\<rparr>, s2)"
      by (simp add: retry_ready_def ex rel Ok)
    with eq Ok that(1) show ?thesis by simp
  next
    case (Err e)
    have "retry_ready now policy s = (Err e, s1)"
      by (simp add: retry_ready_def ex Err)
    with eq Err that(2) show ?thesis by simp
  qed (use E1(4) in simp)
  note C = this
  then have fin: "s' = s1 \<or> s' = s2" and np: "res \<noteq> Panicked" by (metis, metis rres.distinct(3,5))
  show "res \<noteq> Panicked" by (rule np)
  show "broker_inv s'" using fin E1(1) R1(1) by metis
  show "bs_topics s' = bs_topics s" using fin E1(5) R1(4) by metis
  show "bs_idempotency_index s' = bs_idempotency_index s" using fin E1(6) R1(7) by metis
  show "evolves s s'" using fin E1(2) R1(2) evolves_trans[of s s1 s2] by metis
  show "extends s s'" using fin E1(3) R1(3) extends_trans[of s s1 s2] by metis
  show "attempts_ok (rp_max_attempts policy) s'"
    if "attempts_ok (rp_max_attempts policy) s" "rp_max_attempts policy \<noteq> - 1"
    using fin Eat[OF that] Rat by metis
  show "(\<forall>d. bt_get (bs_pending s') d =
            (case bt_get (bs_pending s) d of
               None \<Rightarrow> None | Some pd \<Rightarrow> if pd_lease_expires_at pd \<le> now then None else Some pd)) \<and>
       (\<forall>g r. \<not> due now s' g r) \<and>
       rs_lease_expired sm = length (expired_delivery_ids now s) \<and>
       rs_dead_lettered sm + length (bs_dead_letters s) = length (bs_dead_letters s')"
    if sm: "res = Ok sm"
  proof (rule C)
    fix dl
    assume ok: "r1 = Ok dl" "s' = s2" "res = Ok \<lparr>rs_retry_scheduled = length (ready_retry_entries now s1),
        rs_lease_expired = length ?ids, rs_made_available = k, rs_dead_lettered = dl\<rparr>"
    have p: "bs_pending s' = bs_pending s1" "bs_dead_letters s' = bs_dead_letters s1"
      using ok(2) R1(5,6) by simp_all
    from sm ok(3) have f: "rs_lease_expired sm = length ?ids" "rs_dead_lettered sm = dl" by auto
    show ?thesis unfolding p f using pend[OF ok(1)] not_due Eok(2)[OF ok(1)] ok(2) by simp
  qed (use sm in simp)
qed

section \<open>Retry maintenance leaves what is available alone\<close>

definition available_kept :: "broker_state \<Rightarrow> broker_state \<Rightarrow> bool" where
  "available_kept s s' \<longleftrightarrow> (\<forall>g r. status_of_ref s g r = Available \<longrightarrow> status_of_ref s' g r = Available)"

lemma available_kept_refl [simp]: "available_kept s s"
  by (simp add: available_kept_def)

lemma available_kept_trans: "available_kept s s' \<Longrightarrow> available_kept s' s'' \<Longrightarrow> available_kept s s''"
  by (simp add: available_kept_def)

lemma available_kept_dead [simp]: "available_kept s (s'\<lparr>bs_dead_letters := ds\<rparr>) = available_kept s s'"
  by (simp add: available_kept_def)

lemma settled_available_kept:
  "settled_status s s' pd x \<Longrightarrow> broker_inv s \<Longrightarrow> bt_get (bs_pending s) did = Some pd \<Longrightarrow> available_kept s s'"
  using pending_in_flight(1)[of s did pd]
  by (auto simp: available_kept_def settled_status_def pd_loc_def status_of_ref_gps)

lemma schedule_available_kept:
  assumes inv: "broker_inv s" and pd: "bt_get (bs_pending s) did = Some pd"
    and eq: "schedule_pending_retry_or_dlq pd policy ts reason
           (s\<lparr>bs_pending := bt_remove did (bs_pending s)\<rparr>) = (res, s')"
  shows "available_kept s s'"
proof -
  obtain env where env: "message_at s (pd_message_ref pd) = Some env"
    using pending_in_flight(4)[OF inv pd] by blast
  note kept = settled_available_kept[OF _ inv pd]
  show ?thesis
    using eq[unfolded schedule_eq[OF env]] kept[OF settle_dead(2)[OF inv pd]] kept[OF settle_drop(2)[OF inv pd]]
      kept[OF settle_retry(2)[OF inv pd]]
    by (auto split: if_splits rres.splits)
qed

lemma expire_available_kept:
  assumes "broker_inv s" "distinct dids" "\<forall>d\<in>set dids. bt_contains (bs_pending s) d"
    "expire_deliveries now policy dids n s = (res, s')"
  shows "available_kept s s'"
  using assms
proof (induction dids arbitrary: n s)
  case Nil
  then show ?case by simp
next
  case (Cons d dids)
  from Cons.prems(3) obtain pd where pd: "bt_get (bs_pending s) d = Some pd" by (auto simp: bt_contains_iff)
  obtain r s2 where sch: "schedule_pending_retry_or_dlq pd policy now Expired
      (s\<lparr>bs_pending := bt_remove d (bs_pending s)\<rparr>) = (r, s2)" by fastforce
  note si = schedule_inv[OF Cons.prems(1) pd sch] and kept = schedule_available_kept[OF Cons.prems(1) pd sch]
  note run = Cons.prems(4)[unfolded expire_deliveries_step[OF pd sch]]
  show ?case
  proof (cases r)
    case (Ok u)
    have "\<forall>x\<in>set dids. bt_contains (bs_pending s2) x" using Cons.prems(2,3) by (auto simp: si(5))
    with Cons.IH[OF si(1)] run Ok Cons.prems(2) available_kept_trans[OF kept] show ?thesis by auto
  qed (use run kept in simp_all)
qed

lemma release_available_kept:
  assumes "broker_inv s" "release_retries now entries n s = (k, s')"
  shows "available_kept s s'"
  using assms
proof (induction entries arbitrary: n s)
  case Nil
  then show ?case by simp
next
  case (Cons e entries)
  obtain g r where e: "e = (g, r)" by (cases e)
  have "available_kept s (release_one now g r s)"
    using release_one_status[OF Cons.prems(1)] by (simp add: available_kept_def)
  with Cons.IH[OF release_one_inv(1)[OF Cons.prems(1)] Cons.prems(2)[unfolded e release_retries_step]] show ?case
    by (blast intro: available_kept_trans)
qed

lemma retry_ready_available_kept:
  assumes inv: "broker_inv s" and eq: "retry_ready now policy s = (res, s')"
  shows "available_kept s s'"
proof -
  let ?ids = "expired_delivery_ids now s"
  obtain r1 s1 where ex: "expire_deliveries now policy ?ids 0 s = (r1, s1)" by fastforce
  have cont: "\<forall>d\<in>set ?ids. bt_contains (bs_pending s) d"
    using expired_delivery_ids_mem[OF inv] by (auto simp: bt_contains_iff)
  note d = expired_delivery_ids_distinct[OF inv]
  have kept: "available_kept s s1" by (rule expire_available_kept[OF inv d cont ex])
  have inv1: "broker_inv s1" using expire_deliveries_inv[OF inv d cont ex] by blast
  obtain k s2 where rel: "release_retries now (ready_retry_entries now s1) 0 s1 = (k, s2)" by fastforce
  have "s' = s1 \<or> s' = s2" using eq by (auto simp: retry_ready_def ex rel split: rres.splits)
  with kept available_kept_trans[OF kept release_available_kept[OF inv1 rel]] show ?thesis by blast
qed

end
