(* ===== verification/Memory_Publish.thy ===== *)
theory Memory_Publish
  imports Memory_Ops
begin

text \<open>
  \<^verbatim>\<open>create_topic\<close> and \<^verbatim>\<open>publish\<close>: the one log an append changes, the record an idempotency key
  gets, and the invariant that every idempotency record names a message of the log with the
  record's id, key and fingerprint.
\<close>

text \<open>The logs are \<^verbatim>\<open>Vec\<close>s, whose lengths are far below the range of a \<^verbatim>\<open>u64\<close> offset.\<close>

definition logs_fit :: "broker_state \<Rightarrow> bool" where
  "logs_fit s \<longleftrightarrow> (\<forall>t p l. log_of s t p = Some l \<longrightarrow> length (pl_entries l) < 2 ^ 64)"

definition idempotency_ok :: "(bytes \<Rightarrow> bytes) \<Rightarrow> broker_state \<Rightarrow> bool" where
  "idempotency_ok sha s \<longleftrightarrow>
     (\<forall>t k r. bt_get (bs_idempotency_index s) (t, k) = Some r \<longrightarrow>
        (\<exists>env. message_at s \<lparr>mr_topic = t, mr_partition_id = ir_partition_id r, mr_offset = ir_offset r\<rparr> = Some env \<and>
               env_id env = ir_message_id r \<and> env_idempotency_key env = Some k \<and>
               ir_fingerprint r = PublishFingerprint_compute sha t env))"

lemma idempotency_ok_default: "idempotency_ok sha BrokerState_default"
  by (simp add: idempotency_ok_def BrokerState_default_def)

lemma logs_fit_default: "logs_fit BrokerState_default"
  by (simp add: logs_fit_def log_of_def BrokerState_default_def)

lemma message_at_extends:
  assumes "extends s s'" "message_at s r = Some env"
  shows "message_at s' r = Some env"
proof -
  from assms(2) obtain l where l: "log_of s (mr_topic r) (mr_partition_id r) = Some l"
    "PartitionLog_get l (mr_offset r) = Some env"
    by (auto simp: message_at_def split: option.splits)
  with assms(1) obtain l' es where "log_of s' (mr_topic r) (mr_partition_id r) = Some l'"
    "pl_entries l' = pl_entries l @ es" unfolding extends_def by metis
  with l show ?thesis
    by (auto simp: message_at_def PartitionLog_get_def nth_append split: if_splits)
qed

lemma idempotency_ok_extends:
  assumes "idempotency_ok sha s" "extends s s'" "bs_idempotency_index s' = bs_idempotency_index s"
  shows "idempotency_ok sha s'"
  using assms message_at_extends[OF assms(2)] unfolding idempotency_ok_def by metis

lemma log_of_stored:
  "bt_get (bs_topics s) t = Some st \<Longrightarrow> log_of s t p = st_partition_log st p"
  by (simp add: log_of_def)

lemma logs_fitD:
  assumes "logs_fit s" "bt_get (bs_topics s) t = Some st" "st_partition_log st p = Some log"
  shows "length (pl_entries log) < 2 ^ 64"
  using assms(1) log_of_stored[OF assms(2), of p] assms(3) unfolding logs_fit_def by metis

section \<open>Creating a topic\<close>

lemma create_topic_eq:
  "create_topic c s =
     (if bt_contains (bs_topics s) (ctc_name c) then (Err (TopicAlreadyExists (ctc_name c)), s)
      else (Ok (Topic_new (ctc_name c) (ctc_config c)),
            s\<lparr>bs_topics := bt_insert (ctc_name c) (StoredTopic_new (Topic_new (ctc_name c) (ctc_config c)))
                             (bs_topics s)\<rparr>))"
  by (simp add: create_topic_def Let_def)

lemma create_topic_inv:
  assumes inv: "broker_inv s" and cfg: "tc_partition_count (ctc_config c) \<noteq> 0"
  shows "broker_inv (snd (create_topic c s))" "extends s (snd (create_topic c s))"
    "status_of_ref (snd (create_topic c s)) = status_of_ref s"
    "bs_pending (snd (create_topic c s)) = bs_pending s"
    "bs_idempotency_index (snd (create_topic c s)) = bs_idempotency_index s"
    "fst (create_topic c s) \<noteq> Panicked"
    "attempts_ok m s \<Longrightarrow> attempts_ok m (snd (create_topic c s))"
proof -
  let ?s = "snd (create_topic c s)"
  show ext: "extends s ?s"
    by (auto simp: create_topic_eq extends_def log_of_def bt_contains_def split: option.splits if_splits)
  show st: "status_of_ref ?s = status_of_ref s" and p: "bs_pending ?s = bs_pending s"
    and "bs_idempotency_index ?s = bs_idempotency_index s" and "fst (create_topic c s) \<noteq> Panicked"
    and "attempts_ok m s \<Longrightarrow> attempts_ok m ?s"
    by (simp_all add: create_topic_eq)
  have g: "gps_at ?s = gps_at s" "groups_ok ?s = groups_ok s" by (simp_all add: create_topic_eq)
  have "topics_ok ?s"
    using inv cfg by (auto simp: create_topic_eq topics_ok_def broker_inv_def StoredTopic_new_ok)
  moreover have "range_ok ?s"
    using inv message_at_extends[OF ext] by (force simp: range_ok_def st broker_inv_def)
  ultimately show "broker_inv ?s"
    using inv by (simp add: broker_inv_def g pending_ok_def st p)
qed

section \<open>The append\<close>

definition published_topic :: "message_envelope \<Rightarrow> stored_topic \<Rightarrow> partition_log \<Rightarrow> stored_topic" where
  "published_topic e st log =
     (let st1 = st_set_partition_log (select_partition st e) (snd (PartitionLog_append e log)) st in
      if env_partition_key e = None then st_advance_round_robin_partition st1 else st1)"

lemma published_topic_ok:
  "stored_topic_ok t st \<Longrightarrow> stored_topic_ok t (published_topic e st log)"
  by (simp add: published_topic_def Let_def stored_topic_ok_advance stored_topic_ok_set select_partition_bound)

lemma published_topic_log:
  "st_partition_log (published_topic e st log) p =
     (if p = select_partition st e then Some (snd (PartitionLog_append e log)) else st_partition_log st p)"
  by (simp add: published_topic_def Let_def)

lemma append_to_topic_eq:
  assumes "bt_get (bs_topics s) t = Some st" "st_partition_log st (select_partition st e) = Some log"
  shows "append_to_topic t e s =
    (Ok (PublishedMessage_new t (select_partition st e) (Offset (of_nat (length (pl_entries log)))) (env_id e)),
     s\<lparr>bs_topics := bt_insert t (published_topic e st log) (bs_topics s)\<rparr>)"
  using assms by (simp add: append_to_topic_def Let_def published_topic_def PartitionLog_append_def)

lemma select_partition_log:
  "broker_inv s \<Longrightarrow> bt_get (bs_topics s) t = Some st \<Longrightarrow>
   \<exists>log. st_partition_log st (select_partition st e) = Some log"
  using stored_topic_ok_log select_partition_bound by (fastforce simp: broker_inv_def topics_ok_def)

lemma log_of_append:
  assumes "bt_get (bs_topics s) t = Some st"
  shows "log_of (s\<lparr>bs_topics := bt_insert t (published_topic e st log) (bs_topics s)\<rparr>) t' p =
    (if t' = t \<and> p = select_partition st e then Some (snd (PartitionLog_append e log)) else log_of s t' p)"
  using assms by (simp add: log_of_def published_topic_log)

lemma append_inv:
  assumes inv: "broker_inv s" and st: "bt_get (bs_topics s) t = Some st"
    and log: "st_partition_log st (select_partition st e) = Some log"
    and s': "s' = s\<lparr>bs_topics := bt_insert t (published_topic e st log) (bs_topics s)\<rparr>"
  shows "broker_inv s'" "extends s s'" "status_of_ref s' = status_of_ref s"
    "bs_pending s' = bs_pending s" "attempts_ok m s \<Longrightarrow> attempts_ok m s'"
proof -
  have l: "log_of s t (select_partition st e) = Some log" using st log by (simp add: log_of_def)
  show ext: "extends s s'"
    using l by (auto simp: extends_def s' log_of_append[OF st] PartitionLog_append_def)
  show stt: "status_of_ref s' = status_of_ref s" and p: "bs_pending s' = bs_pending s"
    and "attempts_ok m s \<Longrightarrow> attempts_ok m s'"
    by (simp_all add: s')
  have g: "gps_at s' = gps_at s" "groups_ok s' = groups_ok s" by (simp_all add: s')
  have "topics_ok s'"
    using inv st by (auto simp: s' topics_ok_def broker_inv_def published_topic_ok)
  moreover have "range_ok s'"
    using inv message_at_extends[OF ext] by (force simp: range_ok_def stt broker_inv_def)
  ultimately show "broker_inv s'"
    using inv by (simp add: broker_inv_def g pending_ok_def stt p)
qed

lemma message_at_append:
  assumes st: "bt_get (bs_topics s) t = Some st"
    and log: "st_partition_log st (select_partition st e) = Some log" and fit: "logs_fit s"
  shows "message_at (s\<lparr>bs_topics := bt_insert t (published_topic e st log) (bs_topics s)\<rparr>)
     \<lparr>mr_topic = t, mr_partition_id = select_partition st e,
      mr_offset = Offset (of_nat (length (pl_entries log)))\<rparr> = Some e"
proof -
  have "length (pl_entries log) < 2 ^ 64" by (rule logs_fitD[OF fit st log])
  then have "unat (of_nat (length (pl_entries log)) :: u64) = length (pl_entries log)"
    by (simp add: unat_of_nat_small)
  then show ?thesis
    by (simp add: message_at_def log_of_append[OF st] PartitionLog_get_def PartitionLog_append_def)
qed

section \<open>Publishing\<close>

lemma publish_cases [consumes 1, case_names not_found conflict replay untracked new]:
  assumes inv: "broker_inv s"
  obtains (not_found) "bt_get (bs_topics s) t = None" "publish sha t e s = (Err (TopicNotFound t), s)"
  | (conflict) k r where "bt_contains (bs_topics s) t" "env_idempotency_key e = Some k"
      "bt_get (bs_idempotency_index s) (t, k) = Some r"
      "ir_fingerprint r \<noteq> PublishFingerprint_compute sha t e"
      "publish sha t e s = (Err (IdempotencyKeyConflict t), s)"
  | (replay) k r where "bt_contains (bs_topics s) t" "env_idempotency_key e = Some k"
      "bt_get (bs_idempotency_index s) (t, k) = Some r"
      "ir_fingerprint r = PublishFingerprint_compute sha t e"
      "publish sha t e s =
         (Ok (PublishedMessage_replay t (ir_partition_id r) (ir_offset r) (ir_message_id r)), s)"
  | (untracked) st log where "bt_get (bs_topics s) t = Some st"
      "st_partition_log st (select_partition st e) = Some log" "env_idempotency_key e = None"
      "publish sha t e s =
         (Ok (PublishedMessage_new t (select_partition st e) (Offset (of_nat (length (pl_entries log))))
               (env_id e)),
          s\<lparr>bs_topics := bt_insert t (published_topic e st log) (bs_topics s)\<rparr>)"
  | (new) k st log where "bt_get (bs_topics s) t = Some st"
      "st_partition_log st (select_partition st e) = Some log" "env_idempotency_key e = Some k"
      "bt_get (bs_idempotency_index s) (t, k) = None"
      "publish sha t e s =
         (Ok (PublishedMessage_new t (select_partition st e) (Offset (of_nat (length (pl_entries log))))
               (env_id e)),
          s\<lparr>bs_topics := bt_insert t (published_topic e st log) (bs_topics s),
            bs_idempotency_index := bt_insert (t, k)
              \<lparr>ir_fingerprint = PublishFingerprint_compute sha t e,
               ir_partition_id = select_partition st e,
               ir_offset = Offset (of_nat (length (pl_entries log))), ir_message_id = env_id e\<rparr>
              (bs_idempotency_index s)\<rparr>)"
proof (cases "bt_get (bs_topics s) t")
  case None
  then show ?thesis using not_found by (simp add: publish_def bt_contains_def)
next
  case (Some st)
  then have c: "bt_contains (bs_topics s) t" by (simp add: bt_contains_def)
  obtain log where log: "st_partition_log st (select_partition st e) = Some log"
    using select_partition_log[OF inv Some] by blast
  note app = append_to_topic_eq[OF Some log]
  show ?thesis
  proof (cases "env_idempotency_key e")
    case None
    then show ?thesis
      using untracked[OF Some log] c by (simp add: publish_def check_idempotency_def app)
  next
    case k: (Some k)
    show ?thesis
    proof (cases "bt_get (bs_idempotency_index s) (t, k)")
      case None
      then show ?thesis using new[OF Some log k] c k
        by (simp add: publish_def check_idempotency_def app PublishedMessage_new_def Let_def)
    next
      case r: (Some r)
      show ?thesis
        using conflict[OF c k r] replay[OF c k r] c k r
        by (cases "ir_fingerprint r = PublishFingerprint_compute sha t e")
          (simp_all add: publish_def check_idempotency_def Let_def)
    qed
  qed
qed

lemma publish_inv:
  assumes inv: "broker_inv s" and eq: "publish sha t e s = (res, s')"
  shows "broker_inv s'" "extends s s'" "status_of_ref s' = status_of_ref s" "bs_pending s' = bs_pending s"
    "attempts_ok m s \<Longrightarrow> attempts_ok m s'" "res \<noteq> Panicked"
proof -
  have "broker_inv s' \<and> extends s s' \<and> status_of_ref s' = status_of_ref s \<and> bs_pending s' = bs_pending s \<and>
    (attempts_ok m s \<longrightarrow> attempts_ok m s') \<and> res \<noteq> Panicked"
    using inv
  proof (cases rule: publish_cases[where s = s and t = t and sha = sha and e = e])
    case (untracked st log)
    with append_inv[OF inv untracked(1,2) refl] eq show ?thesis by auto
  next
    case (new k st log)
    let ?a = "s\<lparr>bs_topics := bt_insert t (published_topic e st log) (bs_topics s)\<rparr>"
    note a = append_inv[OF inv new(1,2) refl]
    have "extends ?a s'"
      using eq new by (auto simp: extends_def log_of_def)
    with a(2) have "extends s s'" by (rule extends_trans)
    with a eq new show ?thesis by auto
  qed (use eq inv in auto)
  then show "broker_inv s'" "extends s s'" "status_of_ref s' = status_of_ref s" "bs_pending s' = bs_pending s"
    "attempts_ok m s \<Longrightarrow> attempts_ok m s'" "res \<noteq> Panicked"
    by blast+
qed

lemma publish_idempotency_ok:
  assumes inv: "broker_inv s" and ok: "idempotency_ok sha s" and fit: "logs_fit s"
    and eq: "publish sha t e s = (res, s')"
  shows "idempotency_ok sha s'"
  using inv
proof (cases rule: publish_cases[where s = s and t = t and sha = sha and e = e])
  case (untracked st log)
  have "s' = s\<lparr>bs_topics := bt_insert t (published_topic e st log) (bs_topics s)\<rparr>"
    using eq untracked(4) by simp
  then show ?thesis by (intro idempotency_ok_extends[OF ok publish_inv(2)[OF inv eq]]) simp
next
  case (new k st log)
  let ?a = "s\<lparr>bs_topics := bt_insert t (published_topic e st log) (bs_topics s)\<rparr>"
  have a: "idempotency_ok sha ?a"
    by (rule idempotency_ok_extends[OF ok append_inv(2)[OF inv new(1,2) refl]]) simp
  have s': "s' = ?a\<lparr>bs_idempotency_index := bt_insert (t, k)
              \<lparr>ir_fingerprint = PublishFingerprint_compute sha t e,
               ir_partition_id = select_partition st e,
               ir_offset = Offset (of_nat (length (pl_entries log))), ir_message_id = env_id e\<rparr>
              (bs_idempotency_index s)\<rparr>" using eq new(5) by simp
  have m: "message_at s' = message_at ?a" unfolding s' by (rule message_at_frame(4))
  have idx: "bt_get (bs_idempotency_index s') x = (if x = (t, k) then
       Some \<lparr>ir_fingerprint = PublishFingerprint_compute sha t e, ir_partition_id = select_partition st e,
             ir_offset = Offset (of_nat (length (pl_entries log))), ir_message_id = env_id e\<rparr>
       else bt_get (bs_idempotency_index ?a) x)" for x by (simp add: s')
  show ?thesis
    unfolding idempotency_ok_def m idx
    using a message_at_append[OF new(1,2) fit] new(3) by (auto simp: idempotency_ok_def)
qed (use eq ok in simp_all)

end
