(* ===== verification/Memory_Consume.thy ===== *)
theory Memory_Consume
  imports Memory_Publish
begin

text \<open>
  \<^verbatim>\<open>consume\<close>: the selection loop equals the reference \<^verbatim>\<open>take max_messages\<close> of the available
  offsets in partition and offset order, and the delivery loop puts exactly the selected offsets
  in flight.
\<close>

section \<open>Selection\<close>

definition offsets_upto :: "nat \<Rightarrow> offset list" where
  "offsets_upto n = map (\<lambda>i. Offset (of_nat i)) [0..<n]"

definition available_in ::
  "broker_state \<Rightarrow> consumer_group_id \<Rightarrow> topic_name \<Rightarrow> stored_topic \<Rightarrow> partition_id \<Rightarrow> (partition_id \<times> offset) list" where
  "available_in s g t st p =
     (case st_partition_log st p of
        None \<Rightarrow> []
      | Some log \<Rightarrow>
          map (Pair p) (filter (\<lambda>off. status s g t p off = Available) (offsets_upto (length (pl_entries log)))))"

text \<open>The reference: every available message of the topic, by partition id, then by offset.\<close>

definition available_messages ::
  "broker_state \<Rightarrow> consumer_group_id \<Rightarrow> topic_name \<Rightarrow> stored_topic \<Rightarrow> (partition_id \<times> offset) list" where
  "available_messages s g t st = concat (map (available_in s g t st) (st_partition_ids st))"

lemma offset_available_iff: "offset_available s g t p off \<longleftrightarrow> status s g t p off = Available"
proof (cases "bt_get (bs_groups s) g")
  case None
  then have "gps_of s g t p = GroupPartitionState_default"
    by (simp add: gps_of_def bt_entry_or_def GroupState_default_def)
  with None show ?thesis by (simp add: offset_available_def status_def)
next
  case (Some gs)
  then show ?thesis
    by (cases "bt_get (gs_partitions gs) (t, p)")
      (simp_all add: offset_available_def gs_partition_state_def status_def gps_of_def bt_entry_or_def
        status_in_Available_iff[symmetric])
qed

lemma select_offsets_eq:
  "length sel < m \<Longrightarrow>
   select_offsets av p m is sel = take m (sel @ map (Pair p) (filter av (map (\<lambda>i. Offset (of_nat i)) is)))"
proof (induction av p m "is" sel rule: select_offsets.induct)
  case (1 av p m sel)
  then show ?case by simp
next
  case (2 av p m i "is" sel)
  show ?case
  proof (cases "av (Offset (of_nat i))")
    case False
    with 2 show ?thesis by simp
  next
    case True
    show ?thesis
    proof (cases "length sel + 1 = m")
      case len: True
      with True show ?thesis by auto
    next
      case False
      with 2(3) have "length (sel @ [(p, Offset (of_nat i))]) < m" by simp
      with 2(1)[OF refl True refl] True False show ?thesis by simp
    qed
  qed
qed

lemma select_partitions_eq:
  "length sel < cc_max_messages c \<Longrightarrow>
   select_partitions s c st ps sel =
     take (cc_max_messages c)
       (sel @ concat (map (available_in s (cc_consumer_group_id c) (cc_topic c) st) ps))"
proof (induction ps arbitrary: sel)
  case Nil
  then show ?case by simp
next
  case (Cons p ps)
  show ?case
  proof (cases "st_partition_log st p")
    case None
    with Cons show ?thesis by (simp add: available_in_def)
  next
    case (Some log)
    let ?m = "cc_max_messages c"
    let ?av = "available_in s (cc_consumer_group_id c) (cc_topic c) st p"
    have sel: "select_offsets (offset_available s (cc_consumer_group_id c) (cc_topic c) p) p ?m
        [0..<PartitionLog_len log] sel = take ?m (sel @ ?av)"
      using select_offsets_eq[OF Cons.prems] Some
      by (simp add: available_in_def offset_available_iff[abs_def] offsets_upto_def PartitionLog_len_def)
    have step: "select_partitions s c st (p # ps) sel =
        (if length (take ?m (sel @ ?av)) = ?m then take ?m (sel @ ?av)
         else select_partitions s c st ps (take ?m (sel @ ?av)))"
      unfolding select_partitions.simps Some option.case Let_def sel ..
    show ?thesis
    proof (cases "length (sel @ ?av) < ?m")
      case True
      then show ?thesis using Cons.IH[OF True] unfolding step by simp
    next
      case False
      then have "length (take ?m (sel @ ?av)) = ?m" by (metis length_take min.absorb2 not_less)
      moreover have "take ?m (sel @ ?av @ zs) = take ?m (sel @ ?av)" for zs
        using False by (metis append_assoc take_append diff_is_0_eq' not_less take_0 append_Nil2)
      moreover have "concat (map (available_in s (cc_consumer_group_id c) (cc_topic c) st) (p # ps)) =
          ?av @ concat (map (available_in s (cc_consumer_group_id c) (cc_topic c) st) ps)" by simp
      ultimately show ?thesis by (simp only: step simp_thms if_True)
    qed
  qed
qed

lemma in_available_in:
  "(q, off) \<in> set (available_in s g t st p) \<longleftrightarrow>
     q = p \<and> status s g t p off = Available \<and>
     (\<exists>log. st_partition_log st p = Some log \<and> off \<in> set (offsets_upto (length (pl_entries log))))"
  by (cases "st_partition_log st p") (auto simp: available_in_def)

lemma PartitionLog_get_upto:
  "length (pl_entries log) < 2 ^ 64 \<Longrightarrow> off \<in> set (offsets_upto (length (pl_entries log))) \<Longrightarrow>
   \<exists>env. PartitionLog_get log off = Some env"
  by (auto simp: offsets_upto_def PartitionLog_get_def unat_of_nat_small)

lemma available_messages_ok:
  assumes "logs_fit s" "bt_get (bs_topics s) t = Some st" "(p, off) \<in> set (available_messages s g t st)"
  shows "status s g t p off = Available"
    "\<exists>env. message_at s \<lparr>mr_topic = t, mr_partition_id = p, mr_offset = off\<rparr> = Some env"
proof -
  from assms(3) obtain log where "status s g t p off = Available" and log: "st_partition_log st p = Some log"
    and off: "off \<in> set (offsets_upto (length (pl_entries log)))"
    by (auto simp: available_messages_def in_available_in)
  then show "status s g t p off = Available" by simp
  have "log_of s t p = Some log" using assms(2) log by (simp add: log_of_def)
  then show "\<exists>env. message_at s \<lparr>mr_topic = t, mr_partition_id = p, mr_offset = off\<rparr> = Some env"
    using PartitionLog_get_upto[OF logs_fitD[OF assms(1,2) log] off] by (simp add: message_at_def)
qed

lemma distinct_offsets_upto: "n < 2 ^ 64 \<Longrightarrow> distinct (offsets_upto n)"
  by (auto simp: offsets_upto_def distinct_map inj_on_def of_nat_u64_inject)

lemma distinct_concat_keyed:
  assumes "distinct ps" "\<And>p. distinct (f p)" "\<And>p x. x \<in> set (f p) \<Longrightarrow> fst x = p"
  shows "distinct (concat (map f ps))"
  using assms(1)
proof (induction ps)
  case (Cons p ps)
  have "x \<notin> set (f q)" if "x \<in> set (f p)" "q \<in> set ps" for x q
    using assms(3)[OF that(1)] assms(3)[of x q] Cons.prems that(2) by auto
  with Cons assms(2) show ?case by auto
qed simp

lemma distinct_available_messages:
  assumes "logs_fit s" "bt_get (bs_topics s) t = Some st" "distinct (st_partition_ids st)"
  shows "distinct (available_messages s g t st)"
  unfolding available_messages_def
proof (rule distinct_concat_keyed[OF assms(3)])
  fix p
  show "distinct (available_in s g t st p)"
  proof (cases "st_partition_log st p")
    case (Some log)
    with logs_fitD[OF assms(1,2)] show ?thesis
      by (simp add: available_in_def distinct_map inj_on_def distinct_offsets_upto)
  qed (simp add: available_in_def)
qed (auto simp: in_available_in)

section \<open>One delivery\<close>

definition next_attempt :: "broker_state \<Rightarrow> consumer_group_id \<Rightarrow> message_ref \<Rightarrow> u32" where
  "next_attempt s g r = gp_next_attempt_number (gps_at s g r) (mr_offset r)"

definition ref_of :: "consume_command \<Rightarrow> partition_id \<times> offset \<Rightarrow> message_ref" where
  "ref_of c x = \<lparr>mr_topic = cc_topic c, mr_partition_id = fst x, mr_offset = snd x\<rparr>"

definition delivery_id_at :: "broker_state \<Rightarrow> consume_command \<Rightarrow> partition_id \<times> offset \<Rightarrow> delivery_id" where
  "delivery_id_at s c x =
     DeliveryId (delivery_id_text (cc_consumer_group_id c) (cc_topic c) (fst x) (snd x)
       (next_attempt s (cc_consumer_group_id c) (ref_of c x)))"

definition pending_at ::
  "broker_state \<Rightarrow> consume_command \<Rightarrow> message_timestamp \<Rightarrow> partition_id \<times> offset \<Rightarrow> pending_delivery" where
  "pending_at s c expires x =
     \<lparr>pd_message_ref = ref_of c x, pd_consumer_group_id = cc_consumer_group_id c,
      pd_consumer_id = cc_consumer_id c,
      pd_attempt_number = next_attempt s (cc_consumer_group_id c) (ref_of c x),
      pd_lease_expires_at = expires\<rparr>"

definition consumed_at ::
  "broker_state \<Rightarrow> consume_command \<Rightarrow> message_timestamp \<Rightarrow> partition_id \<times> offset \<Rightarrow> consumed_message" where
  "consumed_at s c expires x =
     \<lparr>cm_delivery_id = delivery_id_at s c x, cm_topic = cc_topic c, cm_partition_id = fst x,
      cm_offset = snd x, cm_envelope = the (message_at s (ref_of c x)),
      cm_consumer_group_id = cc_consumer_group_id c, cm_consumer_id = cc_consumer_id c,
      cm_attempt_number = next_attempt s (cc_consumer_group_id c) (ref_of c x),
      cm_delivered_at = cc_timestamp c, cm_lease_expires_at = expires\<rparr>"

definition deliver_update :: "offset \<Rightarrow> u32 \<Rightarrow> delivery_id \<Rightarrow> group_partition_state \<Rightarrow> group_partition_state" where
  "deliver_update off n d ps =
     gp_mark_pending off d (ps\<lparr>gp_attempt_counts := bt_insert off n (gp_attempt_counts ps)\<rparr>)"

definition delivered_state ::
  "broker_state \<Rightarrow> consume_command \<Rightarrow> message_timestamp \<Rightarrow> partition_id \<times> offset \<Rightarrow> broker_state" where
  "delivered_state s c expires x =
     (group_partition_state_mut (cc_consumer_group_id c) (cc_topic c) (fst x)
        (deliver_update (snd x) (next_attempt s (cc_consumer_group_id c) (ref_of c x)) (delivery_id_at s c x)) s)
     \<lparr>bs_pending := bt_insert (delivery_id_at s c x) (pending_at s c expires x) (bs_pending s)\<rparr>"

lemma consume_selected_step:
  assumes env: "message_at s (ref_of c x) = Some env" and le: "add_millis (cc_timestamp c) lease f = Ok expires"
  shows "consume_selected c lease f (x # xs) acc s =
    consume_selected c lease f xs (acc @ [consumed_at s c expires x]) (delivered_state s c expires x)"
proof -
  obtain p off where x: "x = (p, off)" by (cases x)
  have env': "message_at s \<lparr>mr_topic = cc_topic c, mr_partition_id = p, mr_offset = off\<rparr> = Some env"
    using env by (simp add: ref_of_def x)
  show ?thesis
    using le by (simp add: x env' Let_def deliver_offset_def id_def)
      (simp add: consumed_at_def delivered_state_def delivery_id_at_def pending_at_def next_attempt_def
        ref_of_def gps_at_def env' deliver_update_def[abs_def] gps_mut_pending)
qed

lemma delivered_state_frame [simp]:
  "bs_topics (delivered_state s c le x) = bs_topics s"
  "bs_dead_letters (delivered_state s c le x) = bs_dead_letters s"
  "bs_idempotency_index (delivered_state s c le x) = bs_idempotency_index s"
  "message_at (delivered_state s c le x) = message_at s"
  "log_of (delivered_state s c le x) = log_of s"
  "bs_pending (delivered_state s c le x) =
     bt_insert (delivery_id_at s c x) (pending_at s c le x) (bs_pending s)"
  by (simp_all add: delivered_state_def)

lemma deliver_update_counts:
  "bt_get (gp_attempt_counts (deliver_update off n d ps)) o' =
     (if o' = off then Some n else bt_get (gp_attempt_counts ps) o')"
  by (simp add: deliver_update_def gp_ops)

lemma deliver_update_status:
  "status_in ps off = Available \<Longrightarrow>
   status_in (deliver_update off n d ps) o' = (if o' = off then InFlight d else status_in ps o')"
  unfolding deliver_update_def
  by (subst status_deliver) simp_all

lemma deliver_update_ok:
  "gps_ok t p ps \<Longrightarrow> status_in ps off = Available \<Longrightarrow> gps_ok t p (deliver_update off n d ps)"
  unfolding deliver_update_def
  by (rule gps_ok_deliver) (simp_all add: gps_ok_def)

lemma ref_of_fields [simp]:
  "mr_topic (ref_of c x) = cc_topic c" "mr_partition_id (ref_of c x) = fst x" "mr_offset (ref_of c x) = snd x"
  by (simp_all add: ref_of_def)

lemma ref_of_eq_iff: "r = ref_of c x \<longleftrightarrow> mr_topic r = cc_topic c \<and> (mr_partition_id r, mr_offset r) = x"
  by (cases x) (auto simp: ref_of_def)

lemma delivered_state_inv:
  assumes inv: "broker_inv s" and av: "status_of_ref s (cc_consumer_group_id c) (ref_of c x) = Available"
    and env: "message_at s (ref_of c x) = Some env"
  shows "broker_inv (delivered_state s c le x)"
    "status_of_ref (delivered_state s c le x) g r =
       (if g = cc_consumer_group_id c \<and> r = ref_of c x then InFlight (delivery_id_at s c x)
        else status_of_ref s g r)"
    "next_attempt (delivered_state s c le x) g r =
       (if g = cc_consumer_group_id c \<and> r = ref_of c x then next_attempt s g r + 1 else next_attempt s g r)"
    "attempts_ok m s \<Longrightarrow> m \<noteq> 0 \<Longrightarrow> attempts_ok m (delivered_state s c le x)"
proof -
  let ?g = "cc_consumer_group_id c" and ?r = "ref_of c x"
  let ?n = "next_attempt s ?g ?r" and ?d = "delivery_id_at s c x"
  let ?f = "deliver_update (snd x) ?n ?d"
  let ?ps = "gps_at s ?g ?r"
  have av': "status_in ?ps (snd x) = Available" using av by (simp add: status_of_ref_gps)
  have sorted: "bt_sorted (bs_pending s)" using inv by (simp add: broker_inv_def pending_ok_def)
  have other: "pd_loc pd \<noteq> (?g, ?r)" if "bt_get (bs_pending s) d = Some pd" for d pd
    using pending_in_flight(1)[OF inv that] av' by (auto simp: pd_loc_def)
  have "broker_inv ((group_partition_state_mut ?g (mr_topic ?r) (mr_partition_id ?r) ?f s)
      \<lparr>bs_pending := bt_insert ?d (pending_at s c le x) (bs_pending s)\<rparr>)"
  proof (rule broker_inv_update[where f = ?f and g = ?g and r = ?r, OF inv])
    show "gps_ok (mr_topic ?r) (mr_partition_id ?r) (?f ?ps)"
      by (rule deliver_update_ok[OF inv_gps_ok[OF inv] av'])
    fix d pd
    assume "bt_get (bt_insert ?d (pending_at s c le x) (bs_pending s)) d = Some pd"
    then show "if pd_loc pd = (?g, ?r)
        then status_in (?f ?ps) (mr_offset ?r) = InFlight d \<and>
             bt_get (gp_attempt_counts (?f ?ps)) (mr_offset ?r) = Some (pd_attempt_number pd)
        else bt_get (bs_pending s) d = Some pd"
      using other[of d pd]
      by (auto simp: deliver_update_status[OF av'] deliver_update_counts pending_at_def pd_loc_def split: if_splits)
  qed (simp_all add: deliver_update_status[OF av'] deliver_update_counts env sorted bt_sorted_insert)
  then show "broker_inv (delivered_state s c le x)"
    by (simp add: delivered_state_def)
  have loc: "r = ?r \<longleftrightarrow> mr_topic r = cc_topic c \<and> mr_partition_id r = fst x \<and> mr_offset r = snd x"
    by (cases x) (auto simp: ref_of_def)
  show "status_of_ref (delivered_state s c le x) g r =
       (if g = ?g \<and> r = ?r then InFlight ?d else status_of_ref s g r)"
    using deliver_update_status[OF av'] 
    by (auto simp: status_of_ref_gps delivered_state_def loc) (auto simp: gps_at_def)
  show "next_attempt (delivered_state s c le x) g r =
       (if g = ?g \<and> r = ?r then next_attempt s g r + 1 else next_attempt s g r)"
    by (auto simp: next_attempt_def delivered_state_def loc gp_next_attempt_number_def bt_entry_or_def
        deliver_update_counts gps_at_def)
  show "attempts_ok m (delivered_state s c le x)" if at: "attempts_ok m s" and m: "m \<noteq> 0"
  proof -
    have "attempts_ok m (group_partition_state_mut ?g (mr_topic ?r) (mr_partition_id ?r) ?f s)"
    proof (rule attempts_ok_update[OF at])
      fix k assume k: "bt_get (gp_attempt_counts (?f ?ps)) (mr_offset ?r) = Some k"
      then have k': "k = ?n" by (simp add: deliver_update_counts)
      have "?n \<noteq> 0 \<and> ?n \<le> m"
      proof (cases "bt_get (gp_attempt_counts ?ps) (snd x)")
        case None
        moreover have "(1 :: u32) \<le> m" using m by (simp add: word_le_nat_alt Suc_le_eq unat_gt_0)
        ultimately show ?thesis
          by (simp add: next_attempt_def gp_next_attempt_number_def bt_entry_or_def)
      next
        case (Some j)
        with at have "j < m"
          using av unfolding attempts_ok_def
          by (metis offset_status.distinct(1) ref_of_fields(3))
        then have "unat j + 1 \<le> unat m" by (simp add: word_less_nat_alt)
        moreover from this have "unat (j + 1) = unat j + 1"
          using unat_u32_less[of m] by (simp add: unat_word_ariths)
        ultimately show ?thesis using Some
          by (simp add: next_attempt_def gp_next_attempt_number_def bt_entry_or_def word_le_nat_alt
              unat_eq_zero[symmetric])
      qed
      then show "k \<noteq> 0 \<and> k \<le> m \<and> (k < m \<or> (\<exists>d. status_in (?f ?ps) (mr_offset ?r) = InFlight d))"
        by (simp add: k' deliver_update_status[OF av'])
    qed (simp_all add: deliver_update_status[OF av'] deliver_update_counts)
    then show ?thesis by (simp add: delivered_state_def)
  qed
qed

section \<open>The delivery loop\<close>

lemma next_attempt_extends: "(g, r) \<noteq> (cc_consumer_group_id c, ref_of c x) \<Longrightarrow>
   broker_inv s \<Longrightarrow> status_of_ref s (cc_consumer_group_id c) (ref_of c x) = Available \<Longrightarrow>
   message_at s (ref_of c x) = Some env \<Longrightarrow>
   next_attempt (delivered_state s c le x) g r = next_attempt s g r"
  using delivered_state_inv(3)[of s c x env le g r] by auto

lemma ref_of_inject [simp]: "ref_of c x = ref_of c y \<longleftrightarrow> x = y"
  by (cases x; cases y) (auto simp: ref_of_def)

lemma delivery_id_at_inject:
  "delivery_id_at s c x = delivery_id_at s' c y \<Longrightarrow> x = y"
  by (cases x; cases y) (auto simp: delivery_id_at_def dest: delivery_id_text_inject)

definition selection_ok :: "broker_state \<Rightarrow> consume_command \<Rightarrow> (partition_id \<times> offset) list \<Rightarrow> bool" where
  "selection_ok s c xs \<longleftrightarrow>
     distinct xs \<and>
     (\<forall>x\<in>set xs. status_of_ref s (cc_consumer_group_id c) (ref_of c x) = Available \<and>
        (\<exists>env. message_at s (ref_of c x) = Some env))"

text \<open>The result of the loop over a selection, in terms of the state before it.\<close>

definition consumed_all ::
  "broker_state \<Rightarrow> consume_command \<Rightarrow> message_timestamp \<Rightarrow> (partition_id \<times> offset) list \<Rightarrow> broker_state \<Rightarrow> bool" where
  "consumed_all s c expires xs s' \<longleftrightarrow>
     (\<forall>g r. status_of_ref s' g r =
        (if g = cc_consumer_group_id c \<and> (\<exists>x\<in>set xs. r = ref_of c x)
         then InFlight (delivery_id_at s c (mr_partition_id r, mr_offset r)) else status_of_ref s g r)) \<and>
     (\<forall>x\<in>set xs. bt_get (bs_pending s') (delivery_id_at s c x) = Some (pending_at s c expires x)) \<and>
     (\<forall>d. d \<notin> delivery_id_at s c ` set xs \<longrightarrow> bt_get (bs_pending s') d = bt_get (bs_pending s) d) \<and>
     bs_topics s' = bs_topics s \<and> bs_dead_letters s' = bs_dead_letters s \<and>
     bs_idempotency_index s' = bs_idempotency_index s"

lemma consume_selected_Ok:
  assumes "broker_inv s" "selection_ok s c xs" "add_millis (cc_timestamp c) lease f = Ok expires"
  shows "\<exists>s'. consume_selected c lease f xs acc s = (Ok (acc @ map (consumed_at s c expires) xs), s') \<and>
    broker_inv s' \<and> consumed_all s c expires xs s' \<and>
    (\<forall>m. attempts_ok m s \<longrightarrow> m \<noteq> 0 \<longrightarrow> attempts_ok m s')"
  using assms
proof (induction xs arbitrary: acc s)
  case Nil
  then show ?case by (simp add: consumed_all_def)
next
  case (Cons x xs)
  let ?s1 = "delivered_state s c expires x" and ?g = "cc_consumer_group_id c"
  from Cons.prems(2) obtain env where av: "status_of_ref s ?g (ref_of c x) = Available"
    and env: "message_at s (ref_of c x) = Some env" and ok: "selection_ok s c xs" and nx: "x \<notin> set xs"
    by (auto simp: selection_ok_def)
  note one = delivered_state_inv[OF Cons.prems(1) av env, where le = expires]
  have "selection_ok ?s1 c xs" using ok nx by (auto simp: selection_ok_def one(2))
  from Cons.IH[OF one(1) this Cons.prems(3), of "acc @ [consumed_at s c expires x]"] obtain s' where
    run: "consume_selected c lease f (x # xs) acc s =
      (Ok (acc @ [consumed_at s c expires x] @ map (consumed_at ?s1 c expires) xs), s')"
    and inv: "broker_inv s'" and all: "consumed_all ?s1 c expires xs s'"
    and at: "\<forall>m. attempts_ok m ?s1 \<longrightarrow> m \<noteq> 0 \<longrightarrow> attempts_ok m s'"
    unfolding consume_selected_step[OF env Cons.prems(3)] by auto
  have na: "next_attempt ?s1 ?g (ref_of c y) = next_attempt s ?g (ref_of c y)" if "y \<in> set xs" for y
    using that nx by (auto simp: one(3))
  have same: "delivery_id_at ?s1 c y = delivery_id_at s c y" "pending_at ?s1 c expires y = pending_at s c expires y"
    "consumed_at ?s1 c expires y = consumed_at s c expires y" if "y \<in> set xs" for y
    using na[OF that] by (simp_all add: delivery_id_at_def pending_at_def consumed_at_def)
  have ids: "delivery_id_at ?s1 c ` set xs = delivery_id_at s c ` set xs" by (auto simp: same)
  have new: "delivery_id_at s c x \<notin> delivery_id_at s c ` set xs"
    using nx by (auto dest: delivery_id_at_inject)
  have "map (consumed_at ?s1 c expires) xs = map (consumed_at s c expires) xs" by (simp add: same)
  moreover have "consumed_all s c expires (x # xs) s'"
    unfolding consumed_all_def
  proof (intro conjI allI ballI impI)
    fix g r
    have "(mr_partition_id r, mr_offset r) \<in> set xs" if "y \<in> set xs" "r = ref_of c y" for y
      using that by simp
    then show "status_of_ref s' g r =
        (if g = ?g \<and> (\<exists>y\<in>set (x # xs). r = ref_of c y)
         then InFlight (delivery_id_at s c (mr_partition_id r, mr_offset r)) else status_of_ref s g r)"
      using all nx unfolding consumed_all_def by (auto simp: one(2) same)
  next
    fix y assume "y \<in> set (x # xs)"
    then show "bt_get (bs_pending s') (delivery_id_at s c y) = Some (pending_at s c expires y)"
      using all new same ids unfolding consumed_all_def by auto
  next
    fix d assume "d \<notin> delivery_id_at s c ` set (x # xs)"
    then show "bt_get (bs_pending s') d = bt_get (bs_pending s) d"
      using all ids unfolding consumed_all_def by auto
  qed (use all in \<open>simp_all add: consumed_all_def\<close>)
  moreover have "\<forall>m. attempts_ok m s \<longrightarrow> m \<noteq> 0 \<longrightarrow> attempts_ok m s'" using at one(4) by blast
  ultimately show ?case using run inv by auto
qed

lemma consume_selected_Err:
  assumes "broker_inv s" "selection_ok s c xs" "add_millis (cc_timestamp c) lease f = Err e" "xs \<noteq> []"
  shows "consume_selected c lease f xs acc s =
     (Err e, group_partition_state_mut (cc_consumer_group_id c) (cc_topic c) (fst (hd xs)) id s)"
proof (cases xs)
  case (Cons x ys)
  then obtain env where env: "message_at s (ref_of c x) = Some env" using assms(2) by (auto simp: selection_ok_def)
  obtain p off where x: "x = (p, off)" by (cases x)
  from env x have "message_at s \<lparr>mr_topic = cc_topic c, mr_partition_id = p, mr_offset = off\<rparr> = Some env"
    by (simp add: ref_of_def)
  then show ?thesis using assms(3) by (simp add: Cons x Let_def)
qed (use assms in simp)

section \<open>The whole operation\<close>

definition selection :: "broker_state \<Rightarrow> consume_command \<Rightarrow> stored_topic \<Rightarrow> (partition_id \<times> offset) list" where
  "selection s c st =
     take (cc_max_messages c) (available_messages s (cc_consumer_group_id c) (cc_topic c) st)"

lemma selection_selection_ok:
  assumes inv: "broker_inv s" and fit: "logs_fit s" and st: "bt_get (bs_topics s) (cc_topic c) = Some st"
  shows "selection_ok s c (selection s c st)"
  unfolding selection_ok_def
proof (intro conjI ballI)
  have d: "distinct (st_partition_ids st)"
    using inv st stored_topic_ok_distinct by (auto simp: broker_inv_def topics_ok_def)
  show "distinct (selection s c st)"
    unfolding selection_def by (rule distinct_take[OF distinct_available_messages[OF fit st d]])
next
  fix x assume "x \<in> set (selection s c st)"
  then have "x \<in> set (available_messages s (cc_consumer_group_id c) (cc_topic c) st)"
    unfolding selection_def by (rule in_set_takeD)
  then have "(fst x, snd x) \<in> set (available_messages s (cc_consumer_group_id c) (cc_topic c) st)" by simp
  from available_messages_ok[OF fit st this]
  show "status_of_ref s (cc_consumer_group_id c) (ref_of c x) = Available"
    "\<exists>env. message_at s (ref_of c x) = Some env"
    by (simp_all add: status_of_ref_def ref_of_def)
qed

lemma consume_cases [consumes 2, case_names not_found nothing overflow delivered]:
  assumes inv: "broker_inv s" and fit: "logs_fit s"
  obtains "bt_get (bs_topics s) (cc_topic c) = None"
      "consume c lease f s = (Err (TopicNotFound (cc_topic c)), s)"
  | st where "bt_get (bs_topics s) (cc_topic c) = Some st" "selection s c st = []"
      "consume c lease f s = (Ok [], s)"
  | st e where "bt_get (bs_topics s) (cc_topic c) = Some st" "selection s c st \<noteq> []"
      "add_millis (cc_timestamp c) lease f = Err e"
      "consume c lease f s =
         (Err e, group_partition_state_mut (cc_consumer_group_id c) (cc_topic c)
                   (fst (hd (selection s c st))) id s)"
  | st expires s' where "bt_get (bs_topics s) (cc_topic c) = Some st" "selection s c st \<noteq> []"
      "add_millis (cc_timestamp c) lease f = Ok expires"
      "consume c lease f s = (Ok (map (consumed_at s c expires) (selection s c st)), s')"
      "broker_inv s'" "consumed_all s c expires (selection s c st) s'"
      "\<And>m. attempts_ok m s \<Longrightarrow> m \<noteq> 0 \<Longrightarrow> attempts_ok m s'"
proof (cases "bt_get (bs_topics s) (cc_topic c)")
  case None
  then show ?thesis using that(1) by (simp add: consume_def)
next
  case (Some st)
  note so = selection_selection_ok[OF inv fit Some]
  have "select_partitions s c st (st_partition_ids st) [] = selection s c st" if "cc_max_messages c \<noteq> 0"
    using select_partitions_eq[of "[]" c s st "st_partition_ids st"] that
    by (simp add: selection_def available_messages_def)
  moreover have "selection s c st = []" if "cc_max_messages c = 0" using that by (simp add: selection_def)
  ultimately have run: "consume c lease f s =
      (if selection s c st = [] then (Ok [], s) else consume_selected c lease f (selection s c st) [] s)"
    by (simp add: consume_def Some)
  show ?thesis
  proof (cases "selection s c st = []")
    case True
    then show ?thesis using that(2)[OF Some] run by simp
  next
    case False
    show ?thesis
    proof (cases "add_millis (cc_timestamp c) lease f")
      case (Ok expires)
      obtain s' where "consume_selected c lease f (selection s c st) [] s =
          (Ok ([] @ map (consumed_at s c expires) (selection s c st)), s')" "broker_inv s'"
        "consumed_all s c expires (selection s c st) s'"
        "\<forall>m. attempts_ok m s \<longrightarrow> m \<noteq> 0 \<longrightarrow> attempts_ok m s'"
        using consume_selected_Ok[OF inv so Ok] by blast
      then show ?thesis using that(4)[OF Some False Ok, of s'] run False by simp
    next
      case (Err e)
      then show ?thesis using that(3)[OF Some False Err] run False consume_selected_Err[OF inv so Err False]
        by simp
    qed (use add_millis_not_Panicked in simp)
  qed
qed

lemma filter_eq_distinct: "distinct xs \<Longrightarrow> x \<in> set xs \<Longrightarrow> filter (\<lambda>y. y = x) xs = [x]"
  by (induction xs) (auto simp: filter_empty_conv)

lemma in_available_messages:
  assumes st: "bt_get (bs_topics s) (cc_topic c) = Some st" and fit: "logs_fit s"
    and at: "message_at s (ref_of c x) = Some e" and av: "status_of_ref s (cc_consumer_group_id c) (ref_of c x) = Available"
  shows "x \<in> set (available_messages s (cc_consumer_group_id c) (cc_topic c) st)"
proof -
  obtain p off where x: "x = (p, off)" by (cases x)
  from at obtain log where log: "st_partition_log st p = Some log"
    and get: "unat (offset_value off) < length (pl_entries log)"
    by (auto simp: message_at_def log_of_def st x ref_of_def PartitionLog_get_def split: option.splits if_splits)
  have "off = Offset (of_nat (unat (offset_value off)))" by simp
  then have "off \<in> set (offsets_upto (length (pl_entries log)))"
    unfolding offsets_upto_def set_map by (rule image_eqI) (use get in simp)
  moreover have "p \<in> set (st_partition_ids st)"
    using bt_get_in_set[OF log[unfolded st_partition_log_def]] by (force simp: st_partition_ids_def)
  ultimately show ?thesis
    using av log by (auto simp: available_messages_def in_available_in x status_of_ref_def ref_of_def)
qed

lemma mut_id_inv:
  assumes "broker_inv s"
  shows "broker_inv (group_partition_state_mut g t p id s)"
    "status_of_ref (group_partition_state_mut g t p id s) = status_of_ref s"
    "gps_at (group_partition_state_mut g t p id s) = gps_at s"
proof -
  let ?s = "group_partition_state_mut g t p id s"
  show ga: "gps_at ?s = gps_at s" by (simp add: fun_eq_iff gps_at_def)
  then show st: "status_of_ref ?s = status_of_ref s" by (simp add: fun_eq_iff status_of_ref_gps)
  have "groups_ok ?s" using assms by (intro groups_ok_mut) (simp_all add: broker_inv_def groups_ok_def)
  with assms ga st show "broker_inv ?s"
    by (simp add: broker_inv_def pending_ok_def range_ok_def)
qed

lemma consume_inv:
  assumes inv: "broker_inv s" and fit: "logs_fit s"
    and eq: "consume c lease f s = (res, s')"
  shows "broker_inv s'" "evolves s s'" "extends s s'" "res \<noteq> Panicked" "bs_topics s' = bs_topics s"
    "bs_idempotency_index s' = bs_idempotency_index s" "attempts_ok m s \<Longrightarrow> m \<noteq> 0 \<Longrightarrow> attempts_ok m s'"
proof -
  have "broker_inv s' \<and> evolves s s' \<and> extends s s' \<and> res \<noteq> Panicked \<and> bs_topics s' = bs_topics s \<and>
    bs_idempotency_index s' = bs_idempotency_index s \<and> (attempts_ok m s \<longrightarrow> m \<noteq> 0 \<longrightarrow> attempts_ok m s')"
    using inv fit
  proof (cases rule: consume_cases[where s = s and c = c and lease = lease and f = f])
    case not_found
    with eq inv show ?thesis by auto
  next
    case (nothing st)
    with eq inv show ?thesis by auto
  next
    case (overflow st e)
    let ?p = "fst (hd (selection s c st))"
    have s': "res = Err e" "s' = group_partition_state_mut (cc_consumer_group_id c) (cc_topic c) ?p id s"
      using eq overflow(4) by simp_all
    note m = mut_id_inv[OF inv, of "cc_consumer_group_id c" "cc_topic c" ?p]
    have "attempts_ok m s' = attempts_ok m s" unfolding s' attempts_ok_def m ..
    moreover have "extends s s'" by (auto simp: s' extends_def)
    ultimately show ?thesis using m by (simp add: s' evolves_def)
  next
    case (delivered st expires s'')
    have s': "s'' = s'" "res \<noteq> Panicked" using eq delivered(4) by auto
    note all = delivered(6)[unfolded s' consumed_all_def]
    have so: "selection_ok s c (selection s c st)"
      by (rule selection_selection_ok[OF inv fit delivered(1)])
    have "status_step\<^sup>*\<^sup>* (status_of_ref s g r) (status_of_ref s' g r)" for g r
    proof (cases "g = cc_consumer_group_id c \<and> (\<exists>x\<in>set (selection s c st). r = ref_of c x)")
      case True
      with so have "status_of_ref s g r = Available" by (auto simp: selection_ok_def)
      with all True show ?thesis by (auto intro: r_into_rtranclp[of status_step, OF status_step.deliver])
    next
      case False
      with all show ?thesis by auto
    qed
    then have "evolves s s'" by (simp add: evolves_def)
    moreover have "log_of s' = log_of s" using all by (simp add: log_of_def fun_eq_iff)
    then have "extends s s'" using all by (auto simp: extends_def)
    ultimately show ?thesis using delivered(5,7) all s' by auto
  qed
  then show "broker_inv s'" "evolves s s'" "extends s s'" "res \<noteq> Panicked" "bs_topics s' = bs_topics s"
    "bs_idempotency_index s' = bs_idempotency_index s" "attempts_ok m s \<Longrightarrow> m \<noteq> 0 \<Longrightarrow> attempts_ok m s'"
    by blast+
qed

end
