(* ===== verification/Memory_DeadLetters.thy ===== *)
theory Memory_DeadLetters
  imports Memory_Retry Memory_Consume
begin

text \<open>
  The dead-letter queue of the in-memory broker. \<^verbatim>\<open>dead_ok\<close> says that its entries are exactly
  the messages whose status is \<^verbatim>\<open>Dead\<close>, each once and with the message of the log;
  \<^verbatim>\<open>dead_attempts m\<close> says that each was given up at its last permitted attempt.
\<close>

definition dl_loc :: "dead_letter_entry \<Rightarrow> consumer_group_id \<times> message_ref" where
  "dl_loc e = (dl_consumer_group_id e,
     \<lparr>mr_topic = dl_topic e, mr_partition_id = dl_partition_id e, mr_offset = dl_offset e\<rparr>)"

definition dead_ok :: "broker_state \<Rightarrow> bool" where
  "dead_ok s \<longleftrightarrow>
     distinct (map dl_loc (bs_dead_letters s)) \<and>
     (\<forall>g r. status_of_ref s g r = Dead \<longleftrightarrow> (g, r) \<in> dl_loc ` set (bs_dead_letters s)) \<and>
     (\<forall>e\<in>set (bs_dead_letters s). message_at s (snd (dl_loc e)) = Some (dl_envelope e) \<and>
        dl_message_id e = env_id (dl_envelope e))"

definition dead_attempts :: "u32 \<Rightarrow> broker_state \<Rightarrow> bool" where
  "dead_attempts m s \<longleftrightarrow> (\<forall>e\<in>set (bs_dead_letters s). dl_attempt_count e = m)"

lemma dead_ok_default: "dead_ok BrokerState_default"
  by (simp add: dead_ok_def status_of_ref_def status_def) (simp add: BrokerState_default_def)

lemma dead_attempts_default: "dead_attempts m BrokerState_default"
  by (simp add: dead_attempts_def BrokerState_default_def)

lemma dead_ok_same:
  assumes "dead_ok s" "extends s s'" "bs_dead_letters s' = bs_dead_letters s"
    "\<And>g r. status_of_ref s' g r = Dead \<longleftrightarrow> status_of_ref s g r = Dead"
  shows "dead_ok s'"
  using assms message_at_extends[OF assms(2)] unfolding dead_ok_def by metis

lemma dead_ok_push:
  assumes ok: "dead_ok s" and st: "settled_status s s1 pd Dead" and fl: "status_of_ref s (pd_consumer_group_id pd) (pd_message_ref pd) \<noteq> Dead"
    and s1: "bs_dead_letters s1 = bs_dead_letters s" "message_at s1 = message_at s"
    and env: "message_at s (pd_message_ref pd) = Some env"
  shows "dead_ok (s1\<lparr>bs_dead_letters := bs_dead_letters s @ [dead_letter_of pd env reason ts]\<rparr>)"
proof -
  have loc: "dl_loc (dead_letter_of pd env reason ts) = pd_loc pd"
    by (simp add: dl_loc_def dead_letter_of_def pd_loc_def)
  have "pd_loc pd \<notin> dl_loc ` set (bs_dead_letters s)"
    using ok fl by (simp add: dead_ok_def pd_loc_def)
  moreover have "message_at s (snd (pd_loc pd)) = Some env" using env by (simp add: pd_loc_def)
  ultimately show ?thesis
    using ok st unfolding dead_ok_def settled_status_def
    by (auto simp: loc s1) (simp_all add: dead_letter_of_def)
qed

lemma in_flight_status:
  assumes "broker_inv s" "bt_get (bs_pending s) did = Some pd"
  shows "status_of_ref s (pd_consumer_group_id pd) (pd_message_ref pd) = InFlight did"
  using pending_in_flight(1)[OF assms] by (simp add: status_of_ref_gps)

lemma settled_not_dead:
  assumes "settled_status s s' pd x" "x \<noteq> Dead"
    "status_of_ref s (pd_consumer_group_id pd) (pd_message_ref pd) \<noteq> Dead"
  shows "status_of_ref s' g r = Dead \<longleftrightarrow> status_of_ref s g r = Dead"
  using assms by (auto simp: settled_status_def pd_loc_def)

lemma schedule_dead_ok:
  assumes inv: "broker_inv s" and pd: "bt_get (bs_pending s) did = Some pd" and ok: "dead_ok s"
    and eq: "schedule_pending_retry_or_dlq pd policy ts reason
           (s\<lparr>bs_pending := bt_remove did (bs_pending s)\<rparr>) = (res, s')"
  shows "dead_ok s'"
    "attempts_ok (rp_max_attempts policy) s \<Longrightarrow> rp_max_attempts policy \<noteq> - 1 \<Longrightarrow>
       dead_attempts (rp_max_attempts policy) s \<Longrightarrow> dead_attempts (rp_max_attempts policy) s'"
proof -
  obtain env where env: "message_at s (pd_message_ref pd) = Some env"
    using pending_in_flight(4)[OF inv pd] by blast
  note fl = in_flight_status[OF inv pd]
  note d = settle_dead[OF inv pd] and r = settle_retry[OF inv pd] and n = settle_drop[OF inv pd]
  have push: "dead_ok ((settle (dead_update (pd_offset pd)) did pd s)
      \<lparr>bs_dead_letters := bs_dead_letters s @ [dead_letter_of pd env reason ts]\<rparr>)"
    using fl by (intro dead_ok_push[OF ok d(2) _ _ _ env]) simp_all
  have retry: "dead_ok (settle (retry_update (pd_offset pd) e) did pd s)"
    if "re_message_ref e = pd_message_ref pd" for e
    using settled_not_dead[OF r(2)[OF that]] fl
    by (intro dead_ok_same[OF ok settle_extends]) simp_all
  have drop: "dead_ok (settle (gp_remove_pending (pd_offset pd)) did pd s)"
    using settled_not_dead[OF n(2)] fl by (intro dead_ok_same[OF ok settle_extends]) simp_all
  show "dead_ok s'"
    using eq[unfolded schedule_eq[OF env]] push retry drop by (auto split: if_splits rres.splits)
  assume at: "attempts_ok (rp_max_attempts policy) s" and max: "rp_max_attempts policy \<noteq> - 1"
    and da: "dead_attempts (rp_max_attempts policy) s"
  have le: "pd_attempt_number pd \<le> rp_max_attempts policy"
    using at pending_in_flight(2)[OF inv pd] unfolding attempts_ok_def by blast
  have last: "pd_attempt_number pd = rp_max_attempts policy"
    if "rp_max_attempts policy < pd_attempt_number pd + 1"
    using that word_succ_le_iff[OF max le] le by (metis leD le_less)
  show "dead_attempts (rp_max_attempts policy) s'"
    using eq[unfolded schedule_eq[OF env]] da last
    by (auto simp: dead_attempts_def dead_letter_of_def split: if_splits rres.splits)
qed

lemma ack_dead_ok:
  assumes inv: "broker_inv s" and ok: "dead_ok s"
  shows "dead_ok (snd (ack c s))" "bs_dead_letters (snd (ack c s)) = bs_dead_letters s"
proof -
  show "bs_dead_letters (snd (ack c s)) = bs_dead_letters s"
    by (simp add: ack_eq pending_for_command_cases split: option.split)
  show "dead_ok (snd (ack c s))"
  proof (cases "bt_get (bs_pending s) (ac_delivery_id c)")
    case None
    then show ?thesis using ok by (simp add: ack_eq pending_for_command_cases)
  next
    case (Some pd)
    have "dead_ok (settle (ack_update (pd_offset pd)) (ac_delivery_id c) pd s)"
      using settled_not_dead[OF settle_done(2)[OF inv Some]] in_flight_status[OF inv Some]
      by (intro dead_ok_same[OF ok settle_extends]) simp_all
    with Some ok show ?thesis by (simp add: ack_eq pending_for_command_cases)
  qed
qed

lemma nack_dead_ok:
  assumes inv: "broker_inv s" and ok: "dead_ok s" and eq: "nack c policy s = (res, s')"
  shows "dead_ok s'"
    "attempts_ok (rp_max_attempts policy) s \<Longrightarrow> rp_max_attempts policy \<noteq> - 1 \<Longrightarrow>
       dead_attempts (rp_max_attempts policy) s \<Longrightarrow> dead_attempts (rp_max_attempts policy) s'"
proof -
  consider (pd) pd where "bt_get (bs_pending s) (nc_delivery_id c) = Some pd"
      "schedule_pending_retry_or_dlq pd policy (nc_timestamp c)
            (Manual (case nc_reason c of None \<Rightarrow> str ''nack'' | Some reason \<Rightarrow> reason))
            (s\<lparr>bs_pending := bt_remove (nc_delivery_id c) (bs_pending s)\<rparr>) = (res, s')"
    | (none) "s' = s"
    using eq by (auto simp: nack_eq pending_for_command_cases split: option.splits if_splits)
  note C = this
  show "dead_ok s'"
    using C by (rule) (use schedule_dead_ok(1)[OF inv _ ok] ok in auto)
  show "dead_attempts (rp_max_attempts policy) s'"
    if "attempts_ok (rp_max_attempts policy) s" "rp_max_attempts policy \<noteq> - 1"
      "dead_attempts (rp_max_attempts policy) s"
    using C by (rule) (use schedule_dead_ok(2)[OF inv _ ok _ that] that in auto)
qed

lemma expire_deliveries_dead_ok:
  assumes "broker_inv s" "dead_ok s" "distinct dids" "\<forall>d\<in>set dids. bt_contains (bs_pending s) d"
    "expire_deliveries now policy dids n s = (res, s')"
  shows "dead_ok s' \<and>
    (attempts_ok (rp_max_attempts policy) s \<longrightarrow> rp_max_attempts policy \<noteq> - 1 \<longrightarrow>
       dead_attempts (rp_max_attempts policy) s \<longrightarrow> dead_attempts (rp_max_attempts policy) s')"
  using assms
proof (induction dids arbitrary: n s)
  case Nil
  then show ?case by auto
next
  case (Cons d dids)
  from Cons.prems(4) obtain pd where pd: "bt_get (bs_pending s) d = Some pd"
    by (auto simp: bt_contains_iff)
  obtain r s2 where sch: "schedule_pending_retry_or_dlq pd policy now Expired
      (s\<lparr>bs_pending := bt_remove d (bs_pending s)\<rparr>) = (r, s2)"
    by fastforce
  note si = schedule_inv[OF Cons.prems(1) pd sch]
  note sa = schedule_attempts[OF Cons.prems(1) pd _ _ sch]
  note sd = schedule_dead_ok[OF Cons.prems(1) pd Cons.prems(2) sch]
  show ?case
  proof (cases r)
    case (Ok u)
    let ?n = "n + (length (bs_dead_letters s2) - length (bs_dead_letters s))"
    have run: "expire_deliveries now policy dids ?n s2 = (res, s')"
      using Cons.prems(5) by (simp only: expire_deliveries_step[OF pd sch] Ok rres.case)
    have "\<forall>x\<in>set dids. bt_contains (bs_pending s2) x"
      using Cons.prems(3,4) by (auto simp: si(5))
    from Cons.IH[OF si(1) sd(1) _ this run] Cons.prems(3) sa sd(2) show ?thesis by auto
  next
    case (Err e)
    then have "s' = s2"
      using Cons.prems(5) by (simp only: expire_deliveries_step[OF pd sch] rres.case prod.inject)
    with sd show ?thesis by blast
  next
    case Panicked
    with si(4) show ?thesis by simp
  qed
qed

lemma release_retries_dead:
  assumes "broker_inv s" "release_retries now entries n s = (k, s')"
  shows "status_of_ref s' g r = Dead \<longleftrightarrow> status_of_ref s g r = Dead"
  using assms
proof (induction entries arbitrary: n s)
  case Nil
  then show ?case by simp
next
  case (Cons e entries)
  obtain g' r' where e: "e = (g', r')" by (cases e)
  note run = Cons.prems(2)[unfolded e release_retries_step]
  have "status_of_ref s g' r' \<noteq> Dead" if "due now s g' r'"
    using that retry_at_status[OF Cons.prems(1)] by (auto simp: due_def)
  then show ?case
    using Cons.IH[OF release_one_inv(1)[OF Cons.prems(1)] run]
    by (auto simp: release_one_status[OF Cons.prems(1)])
qed

lemma retry_ready_dead_ok:
  assumes inv: "broker_inv s" and ok: "dead_ok s" and eq: "retry_ready now policy s = (res, s')"
  shows "dead_ok s'"
    "attempts_ok (rp_max_attempts policy) s \<Longrightarrow> rp_max_attempts policy \<noteq> - 1 \<Longrightarrow>
       dead_attempts (rp_max_attempts policy) s \<Longrightarrow> dead_attempts (rp_max_attempts policy) s'"
proof -
  obtain r1 s1 where ex: "expire_deliveries now policy (expired_delivery_ids now s) 0 s = (r1, s1)"
    by fastforce
  have cont: "\<forall>d\<in>set (expired_delivery_ids now s). bt_contains (bs_pending s) d"
    using expired_delivery_ids_mem[OF inv] by (auto simp: bt_contains_iff)
  note E = expire_deliveries_dead_ok[OF inv ok expired_delivery_ids_distinct[OF inv] cont ex]
  have inv1: "broker_inv s1"
    using expire_deliveries_inv[OF inv expired_delivery_ids_distinct[OF inv] cont ex] by blast
  obtain k s2 where rel: "release_retries now (ready_retry_entries now s1) 0 s1 = (k, s2)"
    by fastforce
  note R = release_retries_inv[OF inv1 rel]
  have R1: "extends s1 s2" "bs_dead_letters s2 = bs_dead_letters s1" using R by blast+
  have d2: "dead_ok s2"
    using E by (intro dead_ok_same[OF _ R1 release_retries_dead[OF inv1 rel]]) simp
  have fin: "s' = s1 \<or> s' = s2"
    using eq ex rel by (cases r1) (auto simp: retry_ready_def)
  then show "dead_ok s'" using E d2 by blast
  show "dead_attempts (rp_max_attempts policy) s'"
    if "attempts_ok (rp_max_attempts policy) s" "rp_max_attempts policy \<noteq> - 1"
      "dead_attempts (rp_max_attempts policy) s"
    using fin E that R1(2) unfolding dead_attempts_def by metis
qed

lemma consume_dead_ok:
  assumes inv: "broker_inv s" and fit: "logs_fit s" and ok: "dead_ok s"
    and eq: "consume c lease f s = (res, s')"
  shows "dead_ok s'" "bs_dead_letters s' = bs_dead_letters s"
proof -
  have "(\<forall>g r. status_of_ref s' g r = Dead \<longleftrightarrow> status_of_ref s g r = Dead) \<and>
      bs_dead_letters s' = bs_dead_letters s"
    using inv fit
  proof (cases rule: consume_cases[where s = s and c = c and lease = lease and f = f])
    case (overflow st e)
    then have "s' = group_partition_state_mut (cc_consumer_group_id c) (cc_topic c)
        (fst (hd (selection s c st))) id s" using eq by simp
    then show ?thesis using mut_id_inv(2)[OF inv] by simp
  next
    case (delivered st expires s'')
    have s': "s'' = s'" using eq delivered(4) by auto
    have "selection_ok s c (selection s c st)"
      by (rule selection_selection_ok[OF inv fit delivered(1)])
    then show ?thesis using delivered(6)[unfolded s' consumed_all_def]
      by (auto simp: selection_ok_def)
  qed (use eq in auto)
  then show "dead_ok s'" "bs_dead_letters s' = bs_dead_letters s"
    using dead_ok_same[OF ok consume_inv(3)[OF inv fit eq]] by blast+
qed

lemma publish_dead_ok:
  assumes inv: "broker_inv s" and ok: "dead_ok s" and eq: "publish sha t e s = (res, s')"
  shows "dead_ok s'" "bs_dead_letters s' = bs_dead_letters s"
proof -
  show dl: "bs_dead_letters s' = bs_dead_letters s"
    using inv by (cases rule: publish_cases[where s = s and t = t and sha = sha and e = e]) (use eq in auto)
  show "dead_ok s'"
    by (rule dead_ok_same[OF ok publish_inv(2)[OF inv eq] dl]) (simp add: publish_inv(3)[OF inv eq])
qed

lemma create_topic_dead_ok:
  assumes inv: "broker_inv s" and ok: "dead_ok s" and cfg: "tc_partition_count (ctc_config c) \<noteq> 0"
  shows "dead_ok (snd (create_topic c s))" "bs_dead_letters (snd (create_topic c s)) = bs_dead_letters s"
proof -
  show dl: "bs_dead_letters (snd (create_topic c s)) = bs_dead_letters s"
    by (simp add: create_topic_eq)
  show "dead_ok (snd (create_topic c s))"
    by (rule dead_ok_same[OF ok create_topic_inv(2)[OF inv cfg] dl])
      (simp add: create_topic_inv(3)[OF inv cfg])
qed

end
