(* ===== verification/Memory_Reachable.thy ===== *)
theory Memory_Reachable
  imports Memory_DeadLetters
begin

text \<open>
  Runs of \<^verbatim>\<open>BrokerService\<close>: the state-changing operations as one type, the reachable services as
  an inductive predicate, and the invariant along every run. \<^verbatim>\<open>logs_fit\<close> is the physical bound
  on the length of a \<^verbatim>\<open>Vec\<close>, and \<^verbatim>\<open>svc_op_ok\<close> is what the type \<^verbatim>\<open>TopicConfig\<close> guarantees.
\<close>

datatype svc_op =
    SvcCreateTopic create_topic_command
  | SvcPublish publish_command
  | SvcConsume consume_command
  | SvcAck ack_command
  | SvcNack nack_command
  | SvcRetryReady message_timestamp

definition svc_op_ok :: "svc_op \<Rightarrow> bool" where
  "svc_op_ok x \<longleftrightarrow> (case x of SvcCreateTopic c \<Rightarrow> tc_partition_count (ctc_config c) \<noteq> 0 | _ \<Rightarrow> True)"

definition svc_apply :: "(bytes \<Rightarrow> bytes) \<Rightarrow> svc_op \<Rightarrow> broker_service \<Rightarrow> broker_service" where
  "svc_apply sha x b =
     (case x of
        SvcCreateTopic c \<Rightarrow> snd (svc_create_topic c b)
      | SvcPublish c \<Rightarrow> snd (svc_publish sha c b)
      | SvcConsume c \<Rightarrow> snd (svc_consume c b)
      | SvcAck c \<Rightarrow> snd (svc_ack c b)
      | SvcNack c \<Rightarrow> snd (svc_nack c b)
      | SvcRetryReady now \<Rightarrow> snd (svc_retry_ready now b))"

definition svc_panics :: "(bytes \<Rightarrow> bytes) \<Rightarrow> svc_op \<Rightarrow> broker_service \<Rightarrow> bool" where
  "svc_panics sha x b \<longleftrightarrow>
     (case x of
        SvcCreateTopic c \<Rightarrow> fst (svc_create_topic c b) = Panicked
      | SvcPublish c \<Rightarrow> fst (svc_publish sha c b) = Panicked
      | SvcConsume c \<Rightarrow> fst (svc_consume c b) = Panicked
      | SvcAck c \<Rightarrow> fst (svc_ack c b) = Panicked
      | SvcNack c \<Rightarrow> fst (svc_nack c b) = Panicked
      | SvcRetryReady now \<Rightarrow> fst (svc_retry_ready now b) = Panicked)"

text \<open>A step of a run, and the runs.\<close>

inductive svc_steps :: "(bytes \<Rightarrow> bytes) \<Rightarrow> broker_service \<Rightarrow> broker_service \<Rightarrow> bool" for sha where
  start: "svc_steps sha b b"
| step: "svc_steps sha b b' \<Longrightarrow> svc_op_ok x \<Longrightarrow> logs_fit (svc_state b') \<Longrightarrow>
     svc_steps sha b (svc_apply sha x b')"

definition svc_reachable :: "(bytes \<Rightarrow> bytes) \<Rightarrow> broker_config \<Rightarrow> broker_service \<Rightarrow> bool" where
  "svc_reachable sha config b \<longleftrightarrow> svc_steps sha (BrokerService_new config) b"

definition svc_inv :: "(bytes \<Rightarrow> bytes) \<Rightarrow> broker_config \<Rightarrow> broker_service \<Rightarrow> bool" where
  "svc_inv sha config b \<longleftrightarrow>
     svc_config b = config \<and> broker_inv (svc_state b) \<and> idempotency_ok sha (svc_state b) \<and>
     dead_ok (svc_state b)"

definition svc_counts :: "broker_config \<Rightarrow> broker_service \<Rightarrow> bool" where
  "svc_counts config b \<longleftrightarrow>
     attempts_ok (rp_max_attempts (bc_retry_policy config)) (svc_state b) \<and>
     dead_attempts (rp_max_attempts (bc_retry_policy config)) (svc_state b)"

definition policy_bounded :: "broker_config \<Rightarrow> bool" where
  "policy_bounded config \<longleftrightarrow>
     rp_max_attempts (bc_retry_policy config) \<noteq> 0 \<and> rp_max_attempts (bc_retry_policy config) \<noteq> - 1"

lemma svc_lift_fst [simp]: "fst (svc_lift f b) = fst (f (svc_state b))"
  by (simp add: svc_lift_def split: prod.split)

lemma svc_lift_state [simp]: "svc_state (snd (svc_lift f b)) = snd (f (svc_state b))"
  by (simp add: svc_lift_def split: prod.split)

lemma svc_lift_config [simp]: "svc_config (snd (svc_lift f b)) = svc_config b"
  by (simp add: svc_lift_def split: prod.split)

definition svc_lease :: "broker_service \<Rightarrow> consume_command \<Rightarrow> u64 \<times> string" where
  "svc_lease b c =
     (case cc_delivery_lease_millis c of
        None \<Rightarrow> (bc_delivery_lease_millis (svc_config b), ''delivery_lease_millis'')
      | Some lease_millis \<Rightarrow> (lease_millis, ''lease_ms''))"

lemma svc_consume_eq:
  "svc_consume c b = svc_lift (consume c (fst (svc_lease b c)) (snd (svc_lease b c))) b"
  by (simp add: svc_consume_def svc_lease_def split: option.split)

lemmas svc_ops = svc_create_topic_def svc_publish_def svc_consume_eq svc_ack_def svc_nack_def
  svc_retry_ready_def

text \<open>One step: what every operation keeps, and how the state grows.\<close>

lemma svc_apply_inv:
  assumes inv: "svc_inv sha config b" and ok: "svc_op_ok x" and fit: "logs_fit (svc_state b)"
  shows "svc_inv sha config (svc_apply sha x b)"
    "evolves (svc_state b) (svc_state (svc_apply sha x b))"
    "extends (svc_state b) (svc_state (svc_apply sha x b))"
    "\<not> svc_panics sha x b"
    "svc_counts config b \<Longrightarrow> policy_bounded config \<Longrightarrow> svc_counts config (svc_apply sha x b)"
proof -
  let ?s = "svc_state b" and ?m = "rp_max_attempts (bc_retry_policy config)"
  have i: "broker_inv ?s" "idempotency_ok sha ?s" "dead_ok ?s" and c: "svc_config b = config"
    using inv by (simp_all add: svc_inv_def)
  have "svc_inv sha config (svc_apply sha x b) \<and> evolves ?s (svc_state (svc_apply sha x b)) \<and>
    extends ?s (svc_state (svc_apply sha x b)) \<and> \<not> svc_panics sha x b \<and>
    (svc_counts config b \<longrightarrow> policy_bounded config \<longrightarrow> svc_counts config (svc_apply sha x b))"
  proof (cases x)
    case (SvcCreateTopic cmd)
    then have cfg: "tc_partition_count (ctc_config cmd) \<noteq> 0" using ok by (simp add: svc_op_ok_def)
    note t = create_topic_inv[OF i(1) cfg] and d = create_topic_dead_ok[OF i(1,3) cfg]
    have "idempotency_ok sha (snd (create_topic cmd ?s))"
      by (rule idempotency_ok_extends[OF i(2) t(2) t(5)])
    with t d show ?thesis
      by (simp add: SvcCreateTopic svc_apply_def svc_panics_def svc_ops svc_inv_def c svc_counts_def
          evolves_same dead_attempts_def)
  next
    case (SvcPublish cmd)
    obtain r s' where eq: "publish sha (pc_topic cmd) (pc_envelope cmd) ?s = (r, s')" by fastforce
    note p = publish_inv[OF i(1) eq] and d = publish_dead_ok[OF i(1,3) eq]
    note q = publish_idempotency_ok[OF i(1,2) fit eq]
    from p d q show ?thesis
      by (simp add: SvcPublish svc_apply_def svc_panics_def svc_ops svc_inv_def c svc_counts_def
          evolves_same dead_attempts_def eq)
  next
    case (SvcConsume cmd)
    obtain r s' where eq: "consume cmd (fst (svc_lease b cmd)) (snd (svc_lease b cmd)) ?s = (r, s')"
      by fastforce
    note p = consume_inv[OF i(1) fit eq] and d = consume_dead_ok[OF i(1) fit i(3) eq]
    note q = idempotency_ok_extends[OF i(2) p(3) p(6)]
    from p d q show ?thesis
      by (simp add: SvcConsume svc_apply_def svc_panics_def svc_ops svc_inv_def c svc_counts_def
          dead_attempts_def eq policy_bounded_def)
  next
    case (SvcAck cmd)
    note p = ack_inv[OF i(1), of cmd] and d = ack_dead_ok[OF i(1,3), of cmd]
    have "bs_idempotency_index (snd (ack cmd ?s)) = bs_idempotency_index ?s"
      by (simp add: ack_eq pending_for_command_cases split: option.split)
    note q = idempotency_ok_extends[OF i(2) p(3) this]
    have "attempts_ok m (snd (ack cmd ?s))" if "attempts_ok m ?s" for m
    proof (cases "bt_get (bs_pending ?s) (ac_delivery_id cmd)")
      case None
      then show ?thesis using that by (simp add: ack_eq pending_for_command_cases)
    next
      case (Some pd)
      have "attempts_ok m (settle (ack_update (pd_offset pd)) (ac_delivery_id cmd) pd ?s)"
        by (rule settle_attempts[OF i(1) Some that])
          (simp_all add: ack_update_def status_ack, simp_all add: gp_ops)
      then show ?thesis using Some that by (simp add: ack_eq pending_for_command_cases)
    qed
    with p d q show ?thesis
      by (simp add: SvcAck svc_apply_def svc_panics_def svc_ops svc_inv_def c svc_counts_def
          dead_attempts_def)
  next
    case (SvcNack cmd)
    obtain r s' where eq: "nack cmd (bc_retry_policy config) ?s = (r, s')" by fastforce
    note p = nack_inv[OF i(1), where c = cmd and policy = "bc_retry_policy config", unfolded eq fst_conv snd_conv]
    note d = nack_dead_ok[OF i(1,3) eq]
    have "bs_idempotency_index s' = bs_idempotency_index ?s"
      using eq schedule_inv(8)[OF i(1)]
      by (auto simp: nack_eq pending_for_command_cases split: option.splits if_splits)
    note q = idempotency_ok_extends[OF i(2) p(3) this]
    from p d q show ?thesis
      by (simp add: SvcNack svc_apply_def svc_panics_def svc_ops svc_inv_def c svc_counts_def
          eq policy_bounded_def)
  next
    case (SvcRetryReady now)
    obtain r s' where eq: "retry_ready now (bc_retry_policy config) ?s = (r, s')" by fastforce
    note p = retry_ready_cases(1,2,3,4,5,8)[OF i(1) eq] and d = retry_ready_dead_ok[OF i(1,3) eq]
    note q = idempotency_ok_extends[OF i(2) p(3) p(6)]
    from p d q show ?thesis
      by (simp add: SvcRetryReady svc_apply_def svc_panics_def svc_ops svc_inv_def c svc_counts_def
          eq policy_bounded_def)
  qed
  then show "svc_inv sha config (svc_apply sha x b)"
    "evolves ?s (svc_state (svc_apply sha x b))" "extends ?s (svc_state (svc_apply sha x b))"
    "\<not> svc_panics sha x b"
    "svc_counts config b \<Longrightarrow> policy_bounded config \<Longrightarrow> svc_counts config (svc_apply sha x b)"
    by blast+
qed

lemma svc_inv_new: "svc_inv sha config (BrokerService_new config)"
  by (simp add: svc_inv_def BrokerService_new_def broker_inv_default idempotency_ok_default dead_ok_default)

lemma svc_counts_new: "svc_counts config (BrokerService_new config)"
  by (simp add: svc_counts_def BrokerService_new_def attempts_ok_default dead_attempts_default)

lemma svc_steps_inv:
  assumes "svc_steps sha b b'" "svc_inv sha config b"
  shows "svc_inv sha config b' \<and> evolves (svc_state b) (svc_state b') \<and> extends (svc_state b) (svc_state b') \<and>
    (svc_counts config b \<longrightarrow> policy_bounded config \<longrightarrow> svc_counts config b')"
  using assms
proof (induction rule: svc_steps.induct)
  case (start b)
  then show ?case by simp
next
  case (step b b' x)
  from step have IH: "svc_inv sha config b'" by blast
  note a = svc_apply_inv[OF IH step(2,3)]
  from step a evolves_trans[OF _ a(2)] extends_trans[OF _ a(3)] show ?case by blast
qed

lemma svc_reachable_inv: "svc_reachable sha config b \<Longrightarrow> svc_inv sha config b"
  using svc_steps_inv[OF _ svc_inv_new] by (simp add: svc_reachable_def)

lemma svc_reachable_counts:
  "svc_reachable sha config b \<Longrightarrow> policy_bounded config \<Longrightarrow> svc_counts config b"
  using svc_steps_inv[OF _ svc_inv_new] svc_counts_new by (auto simp: svc_reachable_def)

lemma svc_reachable_steps:
  assumes "svc_steps sha b b'" "svc_reachable sha config b"
  shows "svc_reachable sha config b'"
  using assms by (induction rule: svc_steps.induct) (auto simp: svc_reachable_def intro: svc_steps.step)

lemma svc_reachable_broker_inv: "svc_reachable sha config b \<Longrightarrow> broker_inv (svc_state b)"
  using svc_reachable_inv by (simp add: svc_inv_def)

end
