(* ===== verification/Memory_Properties.thy ===== *)
theory Memory_Properties
  imports Memory_Reachable
begin

text \<open>
  The properties of \<^verbatim>\<open>BrokerService\<close>, over every reachable service, and a small scenario that
  the witnesses run: one topic with one partition, one message, one consumer.
\<close>

section \<open>A scenario\<close>

definition demo_config :: broker_config where
  "demo_config =
     \<lparr>bc_retry_policy = \<lparr>rp_max_attempts = 2, rp_backoff_millis = Some 1000\<rparr>,
      bc_delivery_lease_millis = 30000\<rparr>"

definition demo_topic :: topic_name where
  "demo_topic = TopicName (str ''orders'')"

definition demo_group :: consumer_group_id where
  "demo_group = ConsumerGroupId (str ''billing'')"

definition demo_consumer :: consumer_id where
  "demo_consumer = ConsumerId (str ''worker'')"

definition demo_envelope :: message_envelope where
  "demo_envelope =
     \<lparr>env_id = MessageId (str ''m1''), env_source = EventSource (str ''shop''),
      env_event_type = EventType (str ''created''), env_subject = None,
      env_content_type = ContentType (str ''text/plain''), env_timestamp = MessageTimestamp 5,
      env_headers = [], env_payload = MessagePayload [1, 2, 3], env_partition_key = None,
      env_idempotency_key = Some (IdempotencyKey (str ''k1''))\<rparr>"

definition demo_create :: create_topic_command where
  "demo_create = \<lparr>ctc_name = demo_topic, ctc_config = \<lparr>tc_partition_count = 1\<rparr>\<rparr>"

definition demo_publish :: publish_command where
  "demo_publish = \<lparr>pc_topic = demo_topic, pc_envelope = demo_envelope\<rparr>"

definition demo_consume :: consume_command where
  "demo_consume = ConsumeCommand_new demo_topic demo_group demo_consumer 10 (MessageTimestamp 100)"

definition demo_sha :: "bytes \<Rightarrow> bytes" where
  "demo_sha b = b"

definition demo_ref :: message_ref where
  "demo_ref = \<lparr>mr_topic = demo_topic, mr_partition_id = PartitionId 0, mr_offset = Offset 0\<rparr>"

definition demo_delivery :: delivery_id where
  "demo_delivery = DeliveryId (delivery_id_text demo_group demo_topic (PartitionId 0) (Offset 0) 1)"

definition demo_created :: broker_service where
  "demo_created = svc_apply demo_sha (SvcCreateTopic demo_create) (BrokerService_new demo_config)"

definition demo_published :: broker_service where
  "demo_published = svc_apply demo_sha (SvcPublish demo_publish) demo_created"

definition demo_consumed :: broker_service where
  "demo_consumed = svc_apply demo_sha (SvcConsume demo_consume) demo_published"

definition demo_acked :: broker_service where
  "demo_acked = svc_apply demo_sha
     (SvcAck \<lparr>ac_delivery_id = demo_delivery, ac_consumer_id = demo_consumer, ac_timestamp = MessageTimestamp 101\<rparr>)
     demo_consumed"

lemmas demo_defs = demo_config_def demo_topic_def demo_group_def demo_consumer_def demo_envelope_def
  demo_create_def demo_publish_def demo_consume_def demo_sha_def demo_ref_def

lemma demo_created_state:
  "demo_created = \<lparr>svc_config = demo_config, svc_state =
     \<lparr>bs_topics = [(demo_topic,
        \<lparr>st_topic = Topic_new demo_topic \<lparr>tc_partition_count = 1\<rparr>,
         st_partitions = [(PartitionId 0, \<lparr>pl_entries = []\<rparr>)], st_next_round_robin_partition = 0\<rparr>)],
      bs_groups = [], bs_pending = [], bs_dead_letters = [], bs_idempotency_index = []\<rparr>\<rparr>"
  by (simp add: demo_created_def svc_apply_def svc_create_topic_def svc_lift_def create_topic_eq
      BrokerService_new_def BrokerState_default_def demo_create_def StoredTopic_new_def
      topic_partition_ids_new PartitionLog_default_def)

lemma demo_published_state:
  "demo_published = \<lparr>svc_config = demo_config, svc_state =
     \<lparr>bs_topics = [(demo_topic,
        \<lparr>st_topic = Topic_new demo_topic \<lparr>tc_partition_count = 1\<rparr>,
         st_partitions = [(PartitionId 0, \<lparr>pl_entries = [demo_envelope]\<rparr>)],
         st_next_round_robin_partition = 0\<rparr>)],
      bs_groups = [], bs_pending = [], bs_dead_letters = [],
      bs_idempotency_index = [((demo_topic, IdempotencyKey (str ''k1'')),
        \<lparr>ir_fingerprint = PublishFingerprint_compute demo_sha demo_topic demo_envelope,
         ir_partition_id = PartitionId 0, ir_offset = Offset 0, ir_message_id = env_id demo_envelope\<rparr>)]\<rparr>\<rparr>"
proof -
  have e: "env_partition_key demo_envelope = None"
    "env_idempotency_key demo_envelope = Some (IdempotencyKey (str ''k1''))"
    by (simp_all add: demo_envelope_def)
  show ?thesis
    by (simp add: demo_published_def svc_apply_def svc_publish_def svc_lift_def publish_def
        demo_created_state demo_publish_def bt_contains_def bt_get_def check_idempotency_def e
        append_to_topic_def select_partition_def round_robin_partition_def st_partition_log_def
        PartitionLog_append_def st_set_partition_log_def st_advance_round_robin_partition_def
        advance_round_robin_partition_def st_partition_count_def PublishedMessage_new_def Let_def)
qed

lemma demo_logs_fit:
  "logs_fit (svc_state (BrokerService_new demo_config))" "logs_fit (svc_state demo_created)"
  "logs_fit (svc_state demo_published)"
  by (simp add: logs_fit_default BrokerService_new_def)
    (auto simp: demo_created_state demo_published_state
      logs_fit_def log_of_def bt_get_def st_partition_log_def split: if_splits)

lemma demo_reachable:
  "svc_reachable demo_sha demo_config demo_created"
  "svc_reachable demo_sha demo_config demo_published"
  "svc_reachable demo_sha demo_config demo_consumed"
proof -
  have 1: "svc_steps demo_sha (BrokerService_new demo_config) demo_created"
    unfolding demo_created_def
    by (rule svc_steps.step[OF svc_steps.start]) (simp_all add: svc_op_ok_def demo_logs_fit demo_create_def)
  have 2: "svc_steps demo_sha (BrokerService_new demo_config) demo_published"
    unfolding demo_published_def
    by (rule svc_steps.step[OF 1]) (simp_all add: svc_op_ok_def demo_logs_fit)
  have 3: "svc_steps demo_sha (BrokerService_new demo_config) demo_consumed"
    unfolding demo_consumed_def
    by (rule svc_steps.step[OF 2]) (simp_all add: svc_op_ok_def demo_logs_fit)
  show "svc_reachable demo_sha demo_config demo_created"
    "svc_reachable demo_sha demo_config demo_published"
    "svc_reachable demo_sha demo_config demo_consumed"
    using 1 2 3 by (simp_all add: svc_reachable_def)
qed

lemma demo_consumed_state:
  "demo_consumed = \<lparr>svc_config = demo_config, svc_state = (svc_state demo_published)
     \<lparr>bs_groups := [(demo_group, \<lparr>gs_partitions = [((demo_topic, PartitionId 0),
        GroupPartitionState_default
          \<lparr>gp_pending_by_offset := [(Offset 0, demo_delivery)], gp_attempt_counts := [(Offset 0, 1)]\<rparr>)]\<rparr>)],
      bs_pending := [(demo_delivery,
        \<lparr>pd_message_ref = demo_ref, pd_consumer_group_id = demo_group, pd_consumer_id = demo_consumer,
         pd_attempt_number = 1, pd_lease_expires_at = MessageTimestamp 30100\<rparr>)]\<rparr>\<rparr>"
  by (simp add: demo_consumed_def svc_apply_def svc_consume_def svc_lift_def demo_consume_def
      ConsumeCommand_new_def consume_def demo_published_state bt_get_def st_partition_ids_def
      st_partition_log_def PartitionLog_len_def offset_available_def Let_def message_at_def log_of_def
      PartitionLog_get_def group_partition_state_mut_def gs_partition_state_mut_def bt_entry_or_def
      GroupState_default_def GroupPartitionState_default_def gps_of_def gp_next_attempt_number_def
      add_millis_def checked_add_def demo_config_def deliver_offset_def gp_mark_pending_def
      demo_delivery_def demo_ref_def)

section \<open>Invariant and absence of panics\<close>

text \<open>C1: Every reachable service satisfies the broker invariant: each partition state keeps acked,
  pending, waiting and dead offsets apart, each pending delivery is the one its partition state
  names at that offset with its attempt count, every idempotency record names a message of the log
  with that key and fingerprint, and the dead-letter queue holds exactly the dead messages, once.\<close>

theorem svc_reachable_invariant:
  assumes "svc_reachable sha config b"
  shows "broker_inv (svc_state b) \<and> idempotency_ok sha (svc_state b) \<and> dead_ok (svc_state b)"
  using svc_reachable_inv[OF assms] by (simp add: svc_inv_def)

theorem svc_reachable_invariant_witness:
  "broker_inv (svc_state demo_consumed) \<and> idempotency_ok demo_sha (svc_state demo_consumed) \<and>
   dead_ok (svc_state demo_consumed)"
  by (rule svc_reachable_invariant[OF demo_reachable(3)])

text \<open>C11: No operation of a reachable service panics: none of the \<^verbatim>\<open>expect\<close> calls of the in-memory
  broker can fail.\<close>

theorem svc_never_panics:
  assumes "svc_reachable sha config b" "svc_op_ok x" "logs_fit (svc_state b)"
  shows "\<not> svc_panics sha x b"
  by (rule svc_apply_inv(4)[OF svc_reachable_inv[OF assms(1)] assms(2,3)])

theorem svc_never_panics_witness: "\<not> svc_panics demo_sha (SvcConsume demo_consume) demo_published"
  by (rule svc_never_panics[OF demo_reachable(2) _ demo_logs_fit(3)]) (simp add: svc_op_ok_def)

section \<open>Consuming\<close>

text \<open>C4: \<^verbatim>\<open>consume\<close> on an existing topic returns the first \<^verbatim>\<open>max_messages\<close> available messages of the
  group in partition and offset order, each with the next attempt number and the lease of the
  command, and puts exactly these in flight: every other status, every other pending delivery, the
  logs, the dead letters and the idempotency records stay as they are.\<close>

theorem svc_consume_delivers:
  assumes "svc_reachable sha config b" "logs_fit (svc_state b)"
    "bt_get (bs_topics (svc_state b)) (cc_topic c) = Some st"
    "add_millis (cc_timestamp c) (fst (svc_lease b c)) (snd (svc_lease b c)) = Ok expires"
  shows "\<exists>b'. svc_consume c b =
      (Ok (map (consumed_at (svc_state b) c expires) (selection (svc_state b) c st)), b') \<and>
    consumed_all (svc_state b) c expires (selection (svc_state b) c st) (svc_state b')"
proof -
  let ?s = "svc_state b" and ?l = "fst (svc_lease b c)" and ?f = "snd (svc_lease b c)"
  have inv: "broker_inv ?s" by (rule svc_reachable_broker_inv[OF assms(1)])
  have "\<exists>s'. consume c ?l ?f ?s = (Ok (map (consumed_at ?s c expires) (selection ?s c st)), s') \<and>
      consumed_all ?s c expires (selection ?s c st) s'"
    using inv assms(2)
    by (cases rule: consume_cases[where s = ?s and c = c and lease = ?l and f = ?f])
      (use assms(3,4) in \<open>auto simp: consumed_all_def\<close>)
  then obtain s' where "consume c ?l ?f ?s = (Ok (map (consumed_at ?s c expires) (selection ?s c st)), s')"
    "consumed_all ?s c expires (selection ?s c st) s'" by blast
  then show ?thesis
    by (intro exI[of _ "b\<lparr>svc_state := s'\<rparr>"]) (simp add: svc_consume_eq svc_lift_def)
qed

theorem svc_consume_delivers_witness:
  "\<exists>b'. svc_consume demo_consume demo_published =
      (Ok (map (consumed_at (svc_state demo_published) demo_consume (MessageTimestamp 30100))
            [(PartitionId 0, Offset 0)]), b') \<and>
    consumed_all (svc_state demo_published) demo_consume (MessageTimestamp 30100)
      [(PartitionId 0, Offset 0)] (svc_state b')"
proof -
  let ?st = "\<lparr>st_topic = Topic_new demo_topic \<lparr>tc_partition_count = 1\<rparr>,
       st_partitions = [(PartitionId 0, \<lparr>pl_entries = [demo_envelope]\<rparr>)],
       st_next_round_robin_partition = 0\<rparr>"
  have sel: "selection (svc_state demo_published) demo_consume ?st = [(PartitionId 0, Offset 0)]"
    by (simp add: selection_def demo_consume_def ConsumeCommand_new_def available_messages_def
        st_partition_ids_def available_in_def st_partition_log_def bt_get_def offsets_upto_def
        status_def gps_of_def demo_published_state bt_entry_or_def GroupState_default_def)
  have st: "bt_get (bs_topics (svc_state demo_published)) (cc_topic demo_consume) = Some ?st"
    by (simp add: demo_published_state bt_get_def demo_consume_def ConsumeCommand_new_def)
  have le: "add_millis (cc_timestamp demo_consume) (fst (svc_lease demo_published demo_consume))
      (snd (svc_lease demo_published demo_consume)) = Ok (MessageTimestamp 30100)"
    by (simp add: demo_consume_def ConsumeCommand_new_def svc_lease_def demo_published_state
        demo_config_def add_millis_def checked_add_def)
  show ?thesis
    using svc_consume_delivers[OF demo_reachable(2) demo_logs_fit(3) st le] unfolding sel .
qed

text \<open>C5: A message that a group has acknowledged or that was dead-lettered is never delivered to that
  group again, after any further run of operations.\<close>

theorem settled_never_redelivered:
  assumes "svc_reachable sha config b" "status_of_ref (svc_state b) g r \<in> {Done, Dead}"
    "svc_steps sha b b'" "logs_fit (svc_state b')" "svc_consume c b' = (Ok ms, b'')"
    "m \<in> set ms" "cm_consumer_group_id m = g"
  shows "\<lparr>mr_topic = cm_topic m, mr_partition_id = cm_partition_id m, mr_offset = cm_offset m\<rparr> \<noteq> r"
proof
  let ?s = "svc_state b'" and ?l = "fst (svc_lease b' c)" and ?f = "snd (svc_lease b' c)"
  assume r: "\<lparr>mr_topic = cm_topic m, mr_partition_id = cm_partition_id m, mr_offset = cm_offset m\<rparr> = r"
  have re': "svc_reachable sha config b'" by (rule svc_reachable_steps[OF assms(3,1)])
  have inv: "broker_inv ?s" by (rule svc_reachable_broker_inv[OF re'])
  have "evolves (svc_state b) ?s"
    using svc_steps_inv[OF assms(3) svc_reachable_inv[OF assms(1)]] by blast
  then have fin: "status_of_ref ?s g r \<in> {Done, Dead}"
    using assms(2) status_steps_final unfolding evolves_def by blast
  have run: "fst (consume c ?l ?f ?s) = Ok ms"
    using assms(5) by (metis fst_conv svc_consume_eq svc_lift_fst)
  show False
    using inv assms(4)
  proof (cases rule: consume_cases[where s = ?s and c = c and lease = ?l and f = ?f])
    case (delivered st expires s')
    then obtain x where x: "x \<in> set (selection ?s c st)" "m = consumed_at ?s c expires x"
      using run assms(6) by auto
    have "selection_ok ?s c (selection ?s c st)"
      by (rule selection_selection_ok[OF inv assms(4) delivered(1)])
    with x r assms(7) fin show False
      by (auto simp: selection_ok_def consumed_at_def ref_of_def)
  qed (use run assms(6) in auto)
qed

lemma demo_acked_state:
  "demo_acked = \<lparr>svc_config = demo_config, svc_state = (svc_state demo_published)
     \<lparr>bs_groups := [(demo_group, \<lparr>gs_partitions = [((demo_topic, PartitionId 0),
        GroupPartitionState_default \<lparr>gp_cursor := 1, gp_acked_offsets := [Offset 0]\<rparr>)]\<rparr>)]\<rparr>\<rparr>"
  by (simp add: demo_acked_def svc_apply_def svc_ack_def svc_lift_def ack_def pending_for_command_def
      demo_consumed_state demo_published_state bt_get_def bt_remove_def demo_ref_def
      group_partition_state_mut_def gs_partition_state_mut_def bt_entry_or_def
      GroupPartitionState_default_def gp_remove_pending_def gp_mark_acked_def gp_advance_cursor_def
      bs_contains_def)

definition demo_publish_second :: publish_command where
  "demo_publish_second = \<lparr>pc_topic = demo_topic, pc_envelope =
     demo_envelope\<lparr>env_id := MessageId (str ''m2''), env_idempotency_key := None\<rparr>\<rparr>"

definition demo_second :: broker_service where
  "demo_second = svc_apply demo_sha (SvcPublish demo_publish_second) demo_acked"

lemma demo_second_state:
  "demo_second = demo_acked\<lparr>svc_state := (svc_state demo_acked)\<lparr>bs_topics := [(demo_topic,
        \<lparr>st_topic = Topic_new demo_topic \<lparr>tc_partition_count = 1\<rparr>,
         st_partitions = [(PartitionId 0, \<lparr>pl_entries = [demo_envelope, pc_envelope demo_publish_second]\<rparr>)],
         st_next_round_robin_partition = 0\<rparr>)]\<rparr>\<rparr>"
  by (simp add: demo_second_def svc_apply_def svc_publish_def svc_lift_def publish_def
      demo_acked_state demo_published_state demo_publish_second_def bt_contains_def bt_get_def
      check_idempotency_def append_to_topic_def select_partition_def round_robin_partition_def
      st_partition_log_def PartitionLog_append_def st_set_partition_log_def
      st_advance_round_robin_partition_def advance_round_robin_partition_def st_partition_count_def
      Let_def demo_envelope_def)

lemma demo_later_fit:
  "logs_fit (svc_state demo_consumed)" "logs_fit (svc_state demo_acked)" "logs_fit (svc_state demo_second)"
  by (auto simp: demo_consumed_state demo_second_state demo_acked_state demo_published_state logs_fit_def
      log_of_def bt_get_def st_partition_log_def split: if_splits)

lemma demo_later_steps:
  "svc_reachable demo_sha demo_config demo_acked" "svc_steps demo_sha demo_acked demo_second"
proof -
  show "svc_reachable demo_sha demo_config demo_acked"
    using demo_reachable(3) demo_later_fit(1) unfolding svc_reachable_def demo_acked_def
    by (intro svc_steps.step) (simp_all add: svc_op_ok_def)
  show "svc_steps demo_sha demo_acked demo_second"
    unfolding demo_second_def
    by (rule svc_steps.step[OF svc_steps.start]) (simp_all add: svc_op_ok_def demo_later_fit)
qed

lemma demo_second_consume:
  "\<exists>m b'. svc_consume demo_consume demo_second = (Ok [m], b') \<and> cm_consumer_group_id m = demo_group \<and>
     cm_offset m = Offset 1"
  by (simp add: svc_consume_def svc_lift_def demo_consume_def ConsumeCommand_new_def consume_def
      demo_second_state demo_acked_state demo_published_state bt_get_def st_partition_ids_def
      st_partition_log_def PartitionLog_len_def offset_available_def gs_partition_state_def
      gp_is_available_def bs_contains_def bt_contains_def GroupPartitionState_default_def Let_def
      message_at_def log_of_def PartitionLog_get_def add_millis_def checked_add_def demo_config_def
      deliver_offset_def)

theorem settled_never_redelivered_witness:
  "\<exists>m b'. svc_consume demo_consume demo_second = (Ok [m], b') \<and>
     \<lparr>mr_topic = cm_topic m, mr_partition_id = cm_partition_id m, mr_offset = cm_offset m\<rparr> \<noteq> demo_ref"
proof -
  obtain m b' where run: "svc_consume demo_consume demo_second = (Ok [m], b')"
    "cm_consumer_group_id m = demo_group"
    using demo_second_consume by blast
  have "status_of_ref (svc_state demo_acked) demo_group demo_ref \<in> {Done, Dead}"
    by (simp add: demo_acked_state status_of_ref_def status_def gps_of_def bt_entry_or_def bt_get_def
        status_Done_iff bs_contains_def demo_ref_def)
  from settled_never_redelivered[OF demo_later_steps(1) this demo_later_steps(2) demo_later_fit(3)
      run(1) _ run(2)] run show ?thesis by auto
qed

section \<open>Settling\<close>

text \<open>What \<^verbatim>\<open>settled_status\<close> and the pending map say together about a settled delivery.\<close>

definition settled_as ::
  "broker_state \<Rightarrow> broker_state \<Rightarrow> delivery_id \<Rightarrow> pending_delivery \<Rightarrow> offset_status \<Rightarrow> bool" where
  "settled_as s s' did pd x \<longleftrightarrow>
     settled_status s s' pd x \<and> bs_pending s' = bt_remove did (bs_pending s) \<and>
     bs_topics s' = bs_topics s \<and> bs_idempotency_index s' = bs_idempotency_index s"

lemma settled_as_settle:
  "settled_status s (settle f did pd s) pd x \<Longrightarrow> settled_as s (settle f did pd s) did pd x"
  by (simp add: settled_as_def)

lemma settled_as_dead_letters [simp]:
  "settled_as s (s'\<lparr>bs_dead_letters := ds\<rparr>) did pd x \<longleftrightarrow> settled_as s s' did pd x"
  by (simp add: settled_as_def settled_status_def)

text \<open>C13: \<^verbatim>\<open>ack\<close> fails without any effect for an unknown delivery and for a consumer that does not
  own it; otherwise it succeeds, removes the delivery, marks its message as done for its group, and
  changes no other status, no topic, no idempotency record and no dead letter.\<close>

theorem svc_ack_settles:
  assumes "svc_reachable sha config b"
  shows "svc_ack c b =
    (case bt_get (bs_pending (svc_state b)) (ac_delivery_id c) of
       None \<Rightarrow> (Err (DeliveryNotFound (ac_delivery_id c)), b)
     | Some pd \<Rightarrow>
         if pd_consumer_id pd \<noteq> ac_consumer_id c
         then (Err (InvalidConsumer (ac_delivery_id c) (pd_consumer_id pd) (ac_consumer_id c)), b)
         else (Ok (), snd (svc_ack c b))) \<and>
   (\<forall>pd. bt_get (bs_pending (svc_state b)) (ac_delivery_id c) = Some pd \<and> pd_consumer_id pd = ac_consumer_id c \<longrightarrow>
      settled_as (svc_state b) (svc_state (snd (svc_ack c b))) (ac_delivery_id c) pd Done \<and>
      bs_dead_letters (svc_state (snd (svc_ack c b))) = bs_dead_letters (svc_state b))"
proof -
  note inv = svc_reachable_broker_inv[OF assms]
  show ?thesis
    by (auto simp: svc_ack_def svc_lift_def ack_eq pending_for_command_cases split: option.split
        intro: settled_as_settle[OF settle_done(2)[OF inv]])
qed

theorem svc_ack_settles_witness:
  "settled_as (svc_state demo_consumed) (svc_state demo_acked) demo_delivery
     \<lparr>pd_message_ref = demo_ref, pd_consumer_group_id = demo_group, pd_consumer_id = demo_consumer,
      pd_attempt_number = 1, pd_lease_expires_at = MessageTimestamp 30100\<rparr> Done"
  using svc_ack_settles[OF demo_reachable(3), of "\<lparr>ac_delivery_id = demo_delivery,
      ac_consumer_id = demo_consumer, ac_timestamp = MessageTimestamp 101\<rparr>"]
  by (simp add: demo_acked_def svc_apply_def demo_consumed_state bt_get_def)

text \<open>C14: \<^verbatim>\<open>nack\<close> of a pending delivery by its consumer dead-letters the message when its attempt was
  the last one the policy permits, and otherwise schedules a retry at the timestamp plus the
  back-off. When that time does not fit in 64 bits it reports the error but has already dropped the
  delivery, so the message is available again at once.\<close>

theorem svc_nack_settles:
  assumes "svc_reachable sha config b"
    "bt_get (bs_pending (svc_state b)) (nc_delivery_id c) = Some pd" "pd_consumer_id pd = nc_consumer_id c"
  shows "let policy = bc_retry_policy config; s = svc_state b; (r, b') = svc_nack c b; s' = svc_state b';
      reason = Manual (case nc_reason c of None \<Rightarrow> str ''nack'' | Some t \<Rightarrow> t) in
    if rp_max_attempts policy < pd_attempt_number pd + 1
    then r = Ok () \<and> settled_as s s' (nc_delivery_id c) pd Dead \<and>
         (\<exists>env. message_at s (pd_message_ref pd) = Some env \<and>
            bs_dead_letters s' = bs_dead_letters s @ [dead_letter_of pd env reason (nc_timestamp c)])
    else bs_dead_letters s' = bs_dead_letters s \<and>
      (case retry_ready_at policy (nc_timestamp c) of
         Ok ready \<Rightarrow> r = Ok () \<and> settled_as s s' (nc_delivery_id c) pd
                        (AwaitingRetry \<lparr>re_message_ref = pd_message_ref pd, re_ready_at = ready\<rparr>)
       | Err e \<Rightarrow> r = Err e \<and> settled_as s s' (nc_delivery_id c) pd Available
       | Panicked \<Rightarrow> False)"
proof -
  let ?s = "svc_state b" and ?p = "bc_retry_policy config"
  note inv = svc_reachable_broker_inv[OF assms(1)]
  have cfg: "svc_config b = config" using svc_reachable_inv[OF assms(1)] by (simp add: svc_inv_def)
  obtain env where env: "message_at ?s (pd_message_ref pd) = Some env"
    using pending_in_flight(4)[OF inv assms(2)] by blast
  note eq = schedule_eq[OF env, of ?p "nc_timestamp c" "Manual (case nc_reason c of None \<Rightarrow> str ''nack'' | Some t \<Rightarrow> t)"
      "nc_delivery_id c"]
  note d = settled_as_settle[OF settle_dead(2)[OF inv assms(2)]]
    settled_as_settle[OF settle_retry(2)[OF inv assms(2)]] settled_as_settle[OF settle_drop(2)[OF inv assms(2)]]
  show ?thesis
    using assms(2,3) env d
    by (simp add: svc_nack_def svc_lift_def nack_eq pending_for_command_cases cfg eq Let_def
        split: rres.split)
qed

theorem svc_nack_settles_witness:
  "fst (svc_nack (NackCommand_new demo_delivery demo_consumer (MessageTimestamp 200)) demo_consumed) = Ok () \<and>
   settled_as (svc_state demo_consumed)
     (svc_state (snd (svc_nack (NackCommand_new demo_delivery demo_consumer (MessageTimestamp 200)) demo_consumed)))
     demo_delivery
     \<lparr>pd_message_ref = demo_ref, pd_consumer_group_id = demo_group, pd_consumer_id = demo_consumer,
      pd_attempt_number = 1, pd_lease_expires_at = MessageTimestamp 30100\<rparr>
     (AwaitingRetry \<lparr>re_message_ref = demo_ref, re_ready_at = MessageTimestamp 1200\<rparr>)"
  using svc_nack_settles[OF demo_reachable(3), where
      c = "NackCommand_new demo_delivery demo_consumer (MessageTimestamp 200)" and
      pd = "\<lparr>pd_message_ref = demo_ref, pd_consumer_group_id = demo_group, pd_consumer_id = demo_consumer,
         pd_attempt_number = 1, pd_lease_expires_at = MessageTimestamp 30100\<rparr>"]
  by (simp add: demo_consumed_state bt_get_def NackCommand_new_def demo_config_def retry_ready_at_def
      add_millis_def checked_add_def Let_def split_beta)




text \<open>C24: With a retry policy of \<^verbatim>\<open>max_attempts\<close> below \<^verbatim>\<open>u32::MAX\<close>, every delivery in flight is at an
  attempt between 1 and \<^verbatim>\<open>max_attempts\<close>, and every dead letter was given up at exactly attempt
  \<^verbatim>\<open>max_attempts\<close>.\<close>

theorem svc_attempts_bounded:
  assumes "svc_reachable sha config b" "policy_bounded config"
  shows "(\<forall>d pd. bt_get (bs_pending (svc_state b)) d = Some pd \<longrightarrow>
            pd_attempt_number pd \<noteq> 0 \<and> pd_attempt_number pd \<le> rp_max_attempts (bc_retry_policy config)) \<and>
         (\<forall>e\<in>set (bs_dead_letters (svc_state b)). dl_attempt_count e = rp_max_attempts (bc_retry_policy config))"
proof -
  note c = svc_reachable_counts[OF assms, unfolded svc_counts_def]
  note p = pending_in_flight(2)[OF svc_reachable_broker_inv[OF assms(1)]]
  have "pd_attempt_number pd \<noteq> 0 \<and> pd_attempt_number pd \<le> rp_max_attempts (bc_retry_policy config)"
    if "bt_get (bs_pending (svc_state b)) d = Some pd" for d pd
    using c p[OF that] unfolding attempts_ok_def by blast
  with c show ?thesis by (auto simp: dead_attempts_def)
qed

theorem svc_attempts_bounded_witness:
  "\<exists>pd. bt_get (bs_pending (svc_state demo_consumed)) demo_delivery = Some pd \<and>
     pd_attempt_number pd \<noteq> 0 \<and> pd_attempt_number pd \<le> 2"
proof -
  have "policy_bounded demo_config" by (simp add: policy_bounded_def demo_config_def)
  note b = svc_attempts_bounded[OF demo_reachable(3) this]
  obtain pd where "bt_get (bs_pending (svc_state demo_consumed)) demo_delivery = Some pd"
    by (simp add: demo_consumed_state bt_get_def)
  with b show ?thesis by (auto simp: demo_config_def)
qed

text \<open>C29: The dead-letter listing: the error for an unknown topic, and otherwise each message that is
  dead for its group and matches the query exactly once, with the envelope of the log.\<close>

theorem svc_list_dlq_exact:
  assumes "svc_reachable sha config b"
  shows "case svc_list_dlq q b of
      Err e \<Rightarrow> (\<exists>t. dq_topic q = Some t \<and> \<not> bt_contains (bs_topics (svc_state b)) t \<and> e = TopicNotFound t)
    | Ok es \<Rightarrow>
        distinct (map dl_loc es) \<and>
        (\<forall>g r. (g, r) \<in> dl_loc ` set es \<longleftrightarrow>
           status_of_ref (svc_state b) g r = Dead \<and>
           (dq_topic q = None \<or> dq_topic q = Some (mr_topic r)) \<and>
           (dq_consumer_group_id q = None \<or> dq_consumer_group_id q = Some g)) \<and>
        (\<forall>e\<in>set es. message_at (svc_state b) (snd (dl_loc e)) = Some (dl_envelope e))
    | Panicked \<Rightarrow> False"
proof -
  let ?s = "svc_state b"
  have ok: "dead_ok ?s" using svc_reachable_inv[OF assms] by (simp add: svc_inv_def)
  let ?es = "filter (dlq_matches q) (bs_dead_letters ?s)"
  have d: "distinct (map dl_loc ?es)"
    using ok by (simp add: dead_ok_def distinct_map_filter)
  have m: "dlq_matches q e \<longleftrightarrow> (dq_topic q = None \<or> dq_topic q = Some (mr_topic (snd (dl_loc e)))) \<and>
      (dq_consumer_group_id q = None \<or> dq_consumer_group_id q = Some (fst (dl_loc e)))" for e
    by (auto simp: dlq_matches_def dl_loc_def split: option.split)
  have set: "(g, r) \<in> dl_loc ` set ?es \<longleftrightarrow>
      status_of_ref ?s g r = Dead \<and> (dq_topic q = None \<or> dq_topic q = Some (mr_topic r)) \<and>
      (dq_consumer_group_id q = None \<or> dq_consumer_group_id q = Some g)" for g r
  proof -
    have "(g, r) \<in> dl_loc ` set ?es \<longleftrightarrow> (\<exists>e\<in>set (bs_dead_letters ?s). dl_loc e = (g, r) \<and> dlq_matches q e)"
      by force
    also have "\<dots> \<longleftrightarrow> (g, r) \<in> dl_loc ` set (bs_dead_letters ?s) \<and>
        (dq_topic q = None \<or> dq_topic q = Some (mr_topic r)) \<and>
        (dq_consumer_group_id q = None \<or> dq_consumer_group_id q = Some g)"
      using m by (auto simp: image_iff) (metis fst_conv snd_conv)+
    finally show ?thesis using ok by (simp add: dead_ok_def)
  qed
  have env: "\<forall>e\<in>set ?es. message_at ?s (snd (dl_loc e)) = Some (dl_envelope e)"
    using ok by (auto simp: dead_ok_def)
  show ?thesis
    using d set env by (auto simp: svc_list_dlq_def list_dlq_def split: option.split)
qed

theorem svc_list_dlq_exact_witness:
  "svc_list_dlq DlqQuery_all demo_consumed = Ok []"
proof -
  have "bs_dead_letters (svc_state demo_consumed) = []" by (simp add: demo_consumed_state demo_published_state)
  then have "svc_list_dlq DlqQuery_all demo_consumed = Ok []"
    by (simp add: svc_list_dlq_def list_dlq_def DlqQuery_all_def)
  with svc_list_dlq_exact[OF demo_reachable(3), of DlqQuery_all] show ?thesis by simp
qed

section \<open>Publishing\<close>

text \<open>C22: A publish to an existing topic whose idempotency key is absent or new appends the envelope to
  exactly one partition log, that of the key hash or of the round-robin counter, and returns that
  existing partition, the old length of its log as the offset and the message id; the message can
  be read back there, every other log is unchanged, and no delivery state changes.\<close>

theorem svc_publish_appends:
  assumes "svc_reachable sha config b" "logs_fit (svc_state b)"
    "bt_get (bs_topics (svc_state b)) (pc_topic c) = Some st"
    "\<forall>k. env_idempotency_key (pc_envelope c) = Some k \<longrightarrow>
       bt_get (bs_idempotency_index (svc_state b)) (pc_topic c, k) = None"
  shows "\<exists>log b'. let p = select_partition st (pc_envelope c); off = Offset (of_nat (length (pl_entries log))) in
     st_partition_log st p = Some log \<and> pid_value p < st_partition_count st \<and>
     svc_publish sha c b = (Ok (PublishedMessage_new (pc_topic c) p off (env_id (pc_envelope c))), b') \<and>
     message_at (svc_state b') \<lparr>mr_topic = pc_topic c, mr_partition_id = p, mr_offset = off\<rparr> = Some (pc_envelope c) \<and>
     (\<forall>t' p'. log_of (svc_state b') t' p' =
        (if t' = pc_topic c \<and> p' = p then Some \<lparr>pl_entries = pl_entries log @ [pc_envelope c]\<rparr>
         else log_of (svc_state b) t' p')) \<and>
     status_of_ref (svc_state b') = status_of_ref (svc_state b) \<and>
     bs_pending (svc_state b') = bs_pending (svc_state b)"
proof -
  let ?s = "svc_state b" and ?t = "pc_topic c" and ?e = "pc_envelope c"
  note inv = svc_reachable_broker_inv[OF assms(1)]
  obtain log where log: "st_partition_log st (select_partition st ?e) = Some log"
    using select_partition_log[OF inv assms(3)] by blast
  let ?s1 = "?s\<lparr>bs_topics := bt_insert ?t (published_topic ?e st log) (bs_topics ?s)\<rparr>"
  have "stored_topic_ok ?t st" using inv assms(3) by (simp add: broker_inv_def topics_ok_def)
  then have bound: "pid_value (select_partition st ?e) < st_partition_count st" by (rule select_partition_bound)
  obtain s' where pub: "publish sha ?t ?e ?s = (Ok (PublishedMessage_new ?t (select_partition st ?e)
      (Offset (of_nat (length (pl_entries log)))) (env_id ?e)), s')"
    and s': "s' = ?s1\<lparr>bs_idempotency_index := bs_idempotency_index s'\<rparr>"
    using inv by (cases rule: publish_cases[where s = ?s and t = ?t and sha = sha and e = ?e])
      (use assms(3,4) log in \<open>auto simp: bt_contains_def\<close>)
  have m: "message_at s' = message_at ?s1" "log_of s' = log_of ?s1"
    "status_of_ref s' = status_of_ref ?s1" "bs_pending s' = bs_pending ?s1"
    by (subst s'; simp)+
  have app: "snd (PartitionLog_append ?e log) = \<lparr>pl_entries = pl_entries log @ [?e]\<rparr>"
    by (simp add: PartitionLog_append_def)
  show ?thesis
    using pub log bound message_at_append[OF assms(3) log assms(2)]
    by (intro exI[of _ log] exI[of _ "b\<lparr>svc_state := s'\<rparr>"])
      (simp add: svc_publish_def svc_lift_def m log_of_append[OF assms(3)] app)
qed

theorem svc_publish_appends_witness:
  "\<exists>b'. svc_publish demo_sha demo_publish demo_created =
     (Ok (PublishedMessage_new demo_topic (PartitionId 0) (Offset 0) (MessageId (str ''m1''))), b') \<and>
     message_at (svc_state b') demo_ref = Some demo_envelope"
proof -
  let ?st = "\<lparr>st_topic = Topic_new demo_topic \<lparr>tc_partition_count = 1\<rparr>,
       st_partitions = [(PartitionId 0, \<lparr>pl_entries = []\<rparr>)], st_next_round_robin_partition = 0\<rparr>"
  have st: "bt_get (bs_topics (svc_state demo_created)) (pc_topic demo_publish) = Some ?st"
    by (simp add: demo_created_state bt_get_def demo_publish_def)
  have fresh: "\<forall>k. env_idempotency_key (pc_envelope demo_publish) = Some k \<longrightarrow>
       bt_get (bs_idempotency_index (svc_state demo_created)) (pc_topic demo_publish, k) = None"
    by (simp add: demo_created_state)
  have sel: "select_partition ?st demo_envelope = PartitionId 0"
    by (simp add: select_partition_def demo_envelope_def round_robin_partition_def)
  show ?thesis
    using svc_publish_appends[OF demo_reachable(1) demo_logs_fit(2) st fresh] sel
    by (auto simp: Let_def demo_publish_def st_partition_log_def bt_get_def demo_ref_def demo_envelope_def)
qed

lemma fingerprint_input_intent:
  "intent_of t e = intent_of t' e' \<Longrightarrow> fingerprint_input t e = fingerprint_input t' e'"
  by (simp add: intent_of_def fingerprint_input_def)

lemma tracked_publish_record:
  assumes inv: "broker_inv s" and k: "env_idempotency_key e = Some k" and eq: "publish sha t e s = (Ok pm, s')"
  shows "bt_contains (bs_topics s') t"
    "bt_get (bs_idempotency_index s') (t, k) =
       Some \<lparr>ir_fingerprint = PublishFingerprint_compute sha t e, ir_partition_id = pm_partition_id pm,
             ir_offset = pm_offset pm, ir_message_id = pm_message_id pm\<rparr>" "pm_topic pm = t"
proof -
  have "bt_contains (bs_topics s') t \<and> bt_get (bs_idempotency_index s') (t, k) =
      Some \<lparr>ir_fingerprint = PublishFingerprint_compute sha t e, ir_partition_id = pm_partition_id pm,
            ir_offset = pm_offset pm, ir_message_id = pm_message_id pm\<rparr> \<and> pm_topic pm = t"
    using inv by (cases rule: publish_cases[where s = s and t = t and sha = sha and e = e])
      (use eq k in \<open>auto simp: PublishedMessage_replay_def PublishedMessage_new_def\<close>)
  then show "bt_contains (bs_topics s') t"
    "bt_get (bs_idempotency_index s') (t, k) =
       Some \<lparr>ir_fingerprint = PublishFingerprint_compute sha t e, ir_partition_id = pm_partition_id pm,
             ir_offset = pm_offset pm, ir_message_id = pm_message_id pm\<rparr>" "pm_topic pm = t"
    by blast+
qed

lemma svc_publish_later:
  assumes "svc_reachable sha config b" "env_idempotency_key (pc_envelope c) = Some k"
    "svc_publish sha c b = (Ok pm, b1)" "svc_steps sha b1 b2" "logs_fit (svc_state b)"
  shows "bt_contains (bs_topics (svc_state b2)) (pc_topic c)"
    "bt_get (bs_idempotency_index (svc_state b2)) (pc_topic c, k) =
       Some \<lparr>ir_fingerprint = PublishFingerprint_compute sha (pc_topic c) (pc_envelope c),
             ir_partition_id = pm_partition_id pm, ir_offset = pm_offset pm, ir_message_id = pm_message_id pm\<rparr>"
    "pm_topic pm = pc_topic c"
proof -
  note inv = svc_reachable_inv[OF assms(1)]
  have bi: "broker_inv (svc_state b)" using inv by (simp add: svc_inv_def)
  obtain s1 where eq: "publish sha (pc_topic c) (pc_envelope c) (svc_state b) = (Ok pm, s1)"
    and s1: "svc_state b1 = s1"
    using assms(3) by (auto simp: svc_publish_def svc_lift_def split: prod.splits)
  have b1: "b1 = svc_apply sha (SvcPublish c) b" using assms(3) by (simp add: svc_apply_def)
  have inv1: "svc_inv sha config b1"
    unfolding b1 by (rule svc_apply_inv(1)[OF inv _ assms(5)]) (simp add: svc_op_ok_def)
  note later = svc_steps_inv[OF assms(4) inv1]
  note rec = tracked_publish_record[OF bi assms(2) eq]
  have ext: "extends (svc_state b1) (svc_state b2)" using later by blast
  from rec(2) ext s1 show "bt_get (bs_idempotency_index (svc_state b2)) (pc_topic c, k) =
       Some \<lparr>ir_fingerprint = PublishFingerprint_compute sha (pc_topic c) (pc_envelope c),
             ir_partition_id = pm_partition_id pm, ir_offset = pm_offset pm, ir_message_id = pm_message_id pm\<rparr>"
    unfolding extends_def by blast
  have "idempotency_ok sha (svc_state b2)" using later by (simp add: svc_inv_def)
  with \<open>bt_get (bs_idempotency_index (svc_state b2)) (pc_topic c, k) = _\<close>
  obtain env where "message_at (svc_state b2) \<lparr>mr_topic = pc_topic c, mr_partition_id = pm_partition_id pm,
      mr_offset = pm_offset pm\<rparr> = Some env"
    unfolding idempotency_ok_def by fastforce
  then show "bt_contains (bs_topics (svc_state b2)) (pc_topic c)"
    by (auto simp: message_at_def log_of_def bt_contains_def split: option.splits)
  show "pm_topic pm = pc_topic c" by (rule rec(3))
qed

text \<open>C20: Publishing again with the same key and the same semantic intent, however much later and with
  whatever message id and timestamp, returns the location and id of the first publish, marked as a
  duplicate, and changes nothing.\<close>

theorem svc_publish_deduplicates:
  assumes "svc_reachable sha config b" "logs_fit (svc_state b)"
    "env_idempotency_key (pc_envelope c) = Some k" "svc_publish sha c b = (Ok pm, b1)"
    "svc_steps sha b1 b2" "pc_topic c' = pc_topic c" "env_idempotency_key (pc_envelope c') = Some k"
    "intent_of (pc_topic c') (pc_envelope c') = intent_of (pc_topic c) (pc_envelope c)"
  shows "svc_publish sha c' b2 = (Ok (pm\<lparr>pm_deduplicated := True\<rparr>), b2)"
proof -
  note L = svc_publish_later[OF assms(1,3,4,5,2)]
  have fp: "PublishFingerprint_compute sha (pc_topic c) (pc_envelope c') =
      PublishFingerprint_compute sha (pc_topic c) (pc_envelope c)"
    using fingerprint_input_intent[OF assms(8)] assms(6) by (simp add: PublishFingerprint_compute_def)
  have pm: "PublishedMessage_replay (pc_topic c) (pm_partition_id pm) (pm_offset pm) (pm_message_id pm) =
      pm\<lparr>pm_deduplicated := True\<rparr>"
    using L(3) by (cases pm) (simp add: PublishedMessage_replay_def)
  show ?thesis
    using L(1,2) assms(6,7) fp pm
    by (simp add: svc_publish_def svc_lift_def publish_def check_idempotency_def)
qed

lemma demo_publish_result:
  "svc_publish demo_sha demo_publish demo_created =
     (Ok (PublishedMessage_new demo_topic (PartitionId 0) (Offset 0) (MessageId (str ''m1''))), demo_published)"
  using svc_publish_appends_witness by (auto simp: demo_published_def svc_apply_def)

lemma demo_published_steps: "svc_steps demo_sha demo_published demo_acked"
proof -
  have "svc_steps demo_sha demo_published demo_consumed"
    unfolding demo_consumed_def
    by (rule svc_steps.step[OF svc_steps.start]) (simp_all add: svc_op_ok_def demo_logs_fit)
  then show ?thesis
    unfolding demo_acked_def by (rule svc_steps.step) (simp_all add: svc_op_ok_def demo_later_fit)
qed

theorem svc_publish_deduplicates_witness:
  "svc_publish demo_sha \<lparr>pc_topic = demo_topic, pc_envelope = demo_envelope\<lparr>env_id := MessageId (str ''m9'')\<rparr>\<rparr>
     demo_acked =
   (Ok \<lparr>pm_topic = demo_topic, pm_partition_id = PartitionId 0, pm_offset = Offset 0,
        pm_message_id = MessageId (str ''m1''), pm_deduplicated = True\<rparr>, demo_acked)"
proof -
  have k: "env_idempotency_key (pc_envelope demo_publish) = Some (IdempotencyKey (str ''k1''))"
    by (simp add: demo_publish_def demo_envelope_def)
  show ?thesis
    using svc_publish_deduplicates[OF demo_reachable(1) demo_logs_fit(2) k demo_publish_result
        demo_published_steps, where c' = "\<lparr>pc_topic = demo_topic,
          pc_envelope = demo_envelope\<lparr>env_id := MessageId (str ''m9'')\<rparr>\<rparr>"]
    by (simp add: demo_publish_def demo_envelope_def intent_of_def PublishedMessage_new_def)
qed

text \<open>C21: Reusing a key for a different semantic intent is a conflict and changes nothing, for a digest
  that does not collide on the two hashed inputs: the hashed bytes determine the topic and every
  intent field, so only a SHA-256 collision could hide the difference.\<close>

theorem svc_publish_conflict:
  assumes "svc_reachable sha config b" "logs_fit (svc_state b)"
    "env_idempotency_key (pc_envelope c) = Some k" "svc_publish sha c b = (Ok pm, b1)"
    "svc_steps sha b1 b2" "pc_topic c' = pc_topic c" "env_idempotency_key (pc_envelope c') = Some k"
    "intent_ok (pc_topic c) (pc_envelope c)" "intent_ok (pc_topic c') (pc_envelope c')"
    "sha (fingerprint_input (pc_topic c) (pc_envelope c)) = sha (fingerprint_input (pc_topic c') (pc_envelope c')) \<Longrightarrow>
       fingerprint_input (pc_topic c) (pc_envelope c) = fingerprint_input (pc_topic c') (pc_envelope c')"
    "intent_of (pc_topic c') (pc_envelope c') \<noteq> intent_of (pc_topic c) (pc_envelope c)"
  shows "svc_publish sha c' b2 = (Err (IdempotencyKeyConflict (pc_topic c)), b2)"
proof -
  note L = svc_publish_later[OF assms(1,3,4,5,2)]
  have "sha (fingerprint_input (pc_topic c) (pc_envelope c)) \<noteq> sha (fingerprint_input (pc_topic c') (pc_envelope c'))"
    using assms(10,11) fingerprint_input_iff[OF assms(8,9)] by auto
  then show ?thesis
    using L(1,2) assms(6,7)
    by (simp add: svc_publish_def svc_lift_def publish_def check_idempotency_def PublishFingerprint_compute_def)
qed

lemma demo_intent_ok:
  "intent_ok demo_topic demo_envelope" "intent_ok demo_topic (demo_envelope\<lparr>env_payload := MessagePayload [9]\<rparr>)"
  by (simp_all add: intent_ok_def demo_topic_def demo_envelope_def str_ok_def opt_ok_def headers_ok_def
      str_def valid_str_def is_code_point_def short_bytes_def str_bytes_def utf8_ascii)

theorem svc_publish_conflict_witness:
  "svc_publish demo_sha \<lparr>pc_topic = demo_topic, pc_envelope = demo_envelope\<lparr>env_payload := MessagePayload [9]\<rparr>\<rparr>
     demo_acked = (Err (IdempotencyKeyConflict demo_topic), demo_acked)"
proof -
  have k: "env_idempotency_key (pc_envelope demo_publish) = Some (IdempotencyKey (str ''k1''))"
    by (simp add: demo_publish_def demo_envelope_def)
  show ?thesis
    using svc_publish_conflict[OF demo_reachable(1) demo_logs_fit(2) k demo_publish_result
        demo_published_steps, where c' = "\<lparr>pc_topic = demo_topic,
          pc_envelope = demo_envelope\<lparr>env_payload := MessagePayload [9]\<rparr>\<rparr>"] demo_intent_ok
    by (simp add: demo_publish_def demo_sha_def) (simp add: demo_envelope_def intent_of_def)
qed

text \<open>The logs are append-only: a message once readable at a topic, partition and offset is readable
  there, unchanged, after any run of operations.\<close>

lemma svc_log_append_only:
  assumes "svc_reachable sha config b" "svc_steps sha b b'" "message_at (svc_state b) r = Some e"
  shows "message_at (svc_state b') r = Some e"
  using message_at_extends[OF _ assms(3)] svc_steps_inv[OF assms(2) svc_reachable_inv[OF assms(1)]] by blast

section \<open>Round robin\<close>

text \<open>A client that publishes a list of envelopes one after the other.\<close>

fun publish_each ::
  "(bytes \<Rightarrow> bytes) \<Rightarrow> topic_name \<Rightarrow> message_envelope list \<Rightarrow> broker_state
     \<Rightarrow> published_message broker_result list \<times> broker_state" where
  "publish_each sha t [] s = ([], s)"
| "publish_each sha t (e # es) s =
     (let (r, s1) = publish sha t e s; (rs, s2) = publish_each sha t es s1 in (r # rs, s2))"

lemma publish_keyless:
  assumes inv: "broker_inv s" and st: "bt_get (bs_topics s) t = Some st"
    and e: "env_partition_key e = None" "env_idempotency_key e = None"
    and eq: "publish sha t e s = (r, s')"
  shows "\<exists>pm st'. r = Ok pm \<and> pid_value (pm_partition_id pm) = st_next_round_robin_partition st \<and>
     bt_get (bs_topics s') t = Some st' \<and> st_partition_count st' = st_partition_count st \<and>
     unat (st_next_round_robin_partition st') =
       (unat (st_next_round_robin_partition st) + 1) mod unat (st_partition_count st)"
proof -
  have ok: "stored_topic_ok t st" using inv st by (simp add: broker_inv_def topics_ok_def)
  show ?thesis
    using inv
  proof (cases rule: publish_cases[where s = s and t = t and sha = sha and e = e])
    case (untracked st1 log)
    then show ?thesis
      using eq st e ok advance_round_robin_unat
      by (auto simp: PublishedMessage_new_def select_partition_def round_robin_partition_def
          published_topic_def Let_def st_advance_round_robin_partition_def stored_topic_ok_def
          st_partition_count_def st_set_partition_log_def)
  qed (use st e in \<open>auto simp: bt_contains_def\<close>)
qed

text \<open>C30: Consecutive publishes without partition key and idempotency key go round the partitions: the
  i-th goes to the partition i places after the counter, modulo the partition count.\<close>

theorem publish_round_robin:
  assumes "broker_inv s" "bt_get (bs_topics s) t = Some st"
    "\<forall>e\<in>set es. env_partition_key e = None \<and> env_idempotency_key e = None" "i < length es"
  shows "\<exists>pm. fst (publish_each sha t es s) ! i = Ok pm \<and>
     unat (pid_value (pm_partition_id pm)) =
       (unat (st_next_round_robin_partition st) + i) mod unat (st_partition_count st)"
  using assms
proof (induction es arbitrary: s st i)
  case Nil
  then show ?case by simp
next
  case (Cons e es)
  obtain r s1 where eq: "publish sha t e s = (r, s1)" by fastforce
  obtain pm st1 where one: "r = Ok pm" "pid_value (pm_partition_id pm) = st_next_round_robin_partition st"
    "bt_get (bs_topics s1) t = Some st1" "st_partition_count st1 = st_partition_count st"
    "unat (st_next_round_robin_partition st1) =
       (unat (st_next_round_robin_partition st) + 1) mod unat (st_partition_count st)"
    using publish_keyless[OF Cons.prems(1,2) _ _ eq] Cons.prems(3) by auto
  have fst: "fst (publish_each sha t (e # es) s) = r # fst (publish_each sha t es s1)"
    by (simp add: eq split: prod.split)
  show ?case
  proof (cases i)
    case 0
    have "stored_topic_ok t st" using Cons.prems(1,2) by (simp add: broker_inv_def topics_ok_def)
    then have "unat (st_next_round_robin_partition st) < unat (st_partition_count st)"
      by (simp add: stored_topic_ok_def word_less_nat_alt)
    then show ?thesis using one(1,2) unfolding fst 0 by simp
  next
    case (Suc j)
    with Cons.prems(3,4) Cons.IH[OF publish_inv(1)[OF Cons.prems(1) eq] one(3), of j] obtain pm' where
      "fst (publish_each sha t es s1) ! j = Ok pm'"
      "unat (pid_value (pm_partition_id pm')) =
         (unat (st_next_round_robin_partition st1) + j) mod unat (st_partition_count st)"
      by (auto simp: one(4))
    then show ?thesis unfolding fst Suc by (auto simp: one(5) mod_add_left_eq)
  qed
qed

lemma publish_round_robin_witness:
  "\<exists>pm. fst (publish_each demo_sha demo_topic [demo_envelope\<lparr>env_idempotency_key := None\<rparr>] (svc_state demo_created)) ! 0 =
     Ok pm \<and> unat (pid_value (pm_partition_id pm)) = 0"
proof -
  let ?st = "\<lparr>st_topic = Topic_new demo_topic \<lparr>tc_partition_count = 1\<rparr>,
       st_partitions = [(PartitionId 0, \<lparr>pl_entries = []\<rparr>)], st_next_round_robin_partition = 0\<rparr>"
  have st: "bt_get (bs_topics (svc_state demo_created)) demo_topic = Some ?st"
    by (simp add: demo_created_state bt_get_def)
  show ?thesis
    using publish_round_robin[OF svc_reachable_broker_inv[OF demo_reachable(1)] st,
        of "[demo_envelope\<lparr>env_idempotency_key := None\<rparr>]" 0 demo_sha]
    by (simp add: demo_envelope_def)
qed

end
