(* ===== verification/Storage.thy ===== *)
theory Storage
  imports Domain Message BTree
begin

text \<open>
  \<^verbatim>\<open>msg-storage/src/lib.rs\<close>: the segment-backed append-only log of one topic partition.

  The file system is a map from paths to file contents, \<^verbatim>\<open>fs\<close>; a path is the list of its
  components. Serialisation (\<^verbatim>\<open>serde_json\<close>) and CRC-32 (\<^verbatim>\<open>crc32fast\<close>) are crates outside the
  repository, so they are the parameter \<^verbatim>\<open>record_codec\<close>. The outcome of the write path's system
  calls is the parameter \<^verbatim>\<open>io_outcome\<close>; calls that read are taken to succeed. Sizes are natural
  numbers with the 64-bit overflow tests written out. Tracing and metrics are not modelled.
\<close>

section \<open>Types\<close>

type_synonym path = "rstring list"
type_synonym fs = "(path, bytes) btree_map"

datatype storage_error =
    Io rstring
  | SInvalidConfig rstring
  | InvalidFormat path rstring
  | ChecksumMismatch path nat u32 u32
  | CorruptSegment path rstring
  | Serde

type_synonym 'a storage_result = "(storage_error, 'a) rres"

definition FORMAT_VERSION :: u8 where
  "FORMAT_VERSION = 1"

definition FRAME_HEADER_BYTES :: nat where
  "FRAME_HEADER_BYTES = 8"

definition SEGMENT_FILE_EXTENSION :: rstring where
  "SEGMENT_FILE_EXTENSION = str ''log''"

definition SEGMENT_FILE_NAME_WIDTH :: nat where
  "SEGMENT_FILE_NAME_WIDTH = 20"

record log_config =
  lc_root_dir :: path
  lc_max_segment_bytes :: u64

record stored_message_record =
  smr_topic :: topic_name
  smr_partition :: partition_id
  smr_offset :: offset
  smr_envelope :: message_envelope

record segment_metadata =
  seg_base_offset :: offset
  seg_next_offset :: offset
  seg_path :: path
  seg_size_bytes :: nat

record storage_log =
  sl_config :: log_config
  sl_topic :: topic_name
  sl_partition :: partition_id
  sl_partition_dir :: path
  sl_segments :: "segment_metadata list"
  sl_next_offset :: offset

record persisted_record =
  pr_format_version :: u8
  pr_topic :: topic_name
  pr_partition :: partition_id
  pr_offset :: offset
  pr_envelope :: message_envelope

record segment_scan =
  scan_records :: "stored_message_record list"
  scan_next_offset :: offset
  scan_size_bytes :: nat

record scan_mode =
  repair_final_trailing_record :: bool

definition ScanMode_STRICT :: scan_mode where
  "ScanMode_STRICT = \<lparr>repair_final_trailing_record = False\<rparr>"

definition ScanMode_RECOVER_FINAL :: scan_mode where
  "ScanMode_RECOVER_FINAL = \<lparr>repair_final_trailing_record = True\<rparr>"

record segment_file =
  sf_base_offset :: offset
  sf_path :: path

text \<open>What the log uses of other crates: \<^verbatim>\<open>to_vec\<close>, \<^verbatim>\<open>from_slice\<close> and \<^verbatim>\<open>crc32fast::hash\<close>.\<close>

record record_codec =
  to_vec :: "persisted_record \<Rightarrow> bytes option"
  from_slice :: "bytes \<Rightarrow> persisted_record option"
  crc32_hash :: "bytes \<Rightarrow> u32"

text \<open>
  How the system calls of one append end: whether a new segment file can be created, whether the
  segment can be opened, how many bytes reach the file when writing or flushing fails, whether
  the truncation that rolls back succeeds, and the texts of the errors.
\<close>

record io_outcome =
  io_create_ok :: bool
  io_open_ok :: bool
  io_failed_after :: "nat option"
  io_set_len_ok :: bool
  io_text :: rstring
  io_rollback_text :: rstring

definition io_all_ok :: io_outcome where
  "io_all_ok = \<lparr>io_create_ok = True, io_open_ok = True, io_failed_after = None, io_set_len_ok = True,
     io_text = [], io_rollback_text = []\<rparr>"

section \<open>Paths and file names\<close>

definition validate_config :: "log_config \<Rightarrow> unit storage_result" where
  "validate_config c =
     (if lc_max_segment_bytes c = 0
      then Err (SInvalidConfig (str ''max_segment_bytes must be greater than zero'')) else Ok ())"

definition partition_dir :: "path \<Rightarrow> topic_name \<Rightarrow> partition_id \<Rightarrow> path" where
  "partition_dir root t p =
     root @ [str ''topics'', tn_str t, str ''partitions'', dec (unat (pid_value p))]"

definition segment_path :: "path \<Rightarrow> offset \<Rightarrow> path" where
  "segment_path dir base_offset =
     dir @ [dec_padded SEGMENT_FILE_NAME_WIDTH (unat (offset_value base_offset)) @ [46] @
            SEGMENT_FILE_EXTENSION]"

text \<open>\<^verbatim>\<open>Path::file_stem\<close> and \<^verbatim>\<open>Path::extension\<close>: the split of a file name at its last dot.\<close>

definition split_file_name :: "rstring \<Rightarrow> rstring \<times> rstring option" where
  "split_file_name name =
     (let after = rev (takeWhile (\<lambda>c. c \<noteq> 46) (rev name));
          stem = take (length name - length after - 1) name in
      if name = str ''..'' \<or> 46 \<notin> set name \<or> stem = [] then (name, None)
      else (stem, Some after))"

definition parse_segment_base_offset :: "path \<Rightarrow> offset storage_result" where
  "parse_segment_base_offset path =
     (let stem = fst (split_file_name (last path)) in
      if length (utf8 stem) \<noteq> SEGMENT_FILE_NAME_WIDTH \<or> \<not> list_all is_ascii_digit (utf8 stem)
      then Err (InvalidFormat path (str ''segment file name must be a 20-digit base offset''))
      else case parse_u64_digits stem of
          None \<Rightarrow> Err (InvalidFormat path
            (str ''segment base offset is invalid: number too large to fit in target type''))
        | Some value \<Rightarrow> Ok (Offset value))"

text \<open>
  \<^verbatim>\<open>read_dir\<close> lists the files directly below the directory. Its order is not specified; the
  result is sorted, so the order shows only in which of several bad names is reported.
\<close>

definition read_dir :: "fs \<Rightarrow> path \<Rightarrow> path list" where
  "read_dir fs dir = filter (\<lambda>p. p \<noteq> [] \<and> butlast p = dir) (map fst fs)"

definition discover_segment_files :: "fs \<Rightarrow> path \<Rightarrow> segment_file list storage_result" where
  "discover_segment_files fs dir =
     map_ok (sort_key sf_base_offset)
       (rmap (\<lambda>path. map_ok (\<lambda>base. \<lparr>sf_base_offset = base, sf_path = path\<rparr>)
                       (parse_segment_base_offset path))
         (filter (\<lambda>path. snd (split_file_name (last path)) = Some SEGMENT_FILE_EXTENSION)
           (read_dir fs dir)))"

section \<open>Frames\<close>

definition encode_frame :: "record_codec \<Rightarrow> bytes \<Rightarrow> path \<Rightarrow> bytes storage_result" where
  "encode_frame c payload path =
     (if 2 ^ 32 \<le> length payload
      then Err (InvalidFormat path (str ''record payload exceeds u32 frame length''))
      else Ok (u32_to_le_bytes (of_nat (length payload)) @ u32_to_le_bytes (crc32_hash c payload) @
               payload))"

definition increment_offset :: "offset \<Rightarrow> path \<Rightarrow> offset storage_result" where
  "increment_offset off path =
     (case checked_add (offset_value off) 1 of
        Some next \<Rightarrow> Ok (Offset next)
      | None \<Rightarrow> Err (InvalidFormat path (str ''offset overflow'')))"

definition validate_persisted_record ::
  "path \<Rightarrow> topic_name \<Rightarrow> partition_id \<Rightarrow> offset \<Rightarrow> persisted_record \<Rightarrow> stored_message_record storage_result" where
  "validate_persisted_record path t p expected_offset r =
     (if pr_format_version r \<noteq> FORMAT_VERSION
      then Err (InvalidFormat path
        (str ''unsupported record format version '' @ dec (unat (pr_format_version r))))
      else if tn_str (pr_topic r) \<noteq> tn_str t
      then Err (CorruptSegment path
        (str ''record topic '' @ tn_str (pr_topic r) @ str '' does not match expected topic '' @ tn_str t))
      else if pr_partition r \<noteq> p
      then Err (CorruptSegment path
        (str ''record partition '' @ dec (unat (pid_value (pr_partition r))) @
         str '' does not match expected partition '' @ dec (unat (pid_value p))))
      else if pr_offset r \<noteq> expected_offset
      then Err (CorruptSegment path
        (str ''record offset '' @ dec (unat (offset_value (pr_offset r))) @
         str '' does not match expected offset '' @ dec (unat (offset_value expected_offset))))
      else Ok \<lparr>smr_topic = pr_topic r, smr_partition = pr_partition r, smr_offset = pr_offset r,
               smr_envelope = pr_envelope r\<rparr>)"

section \<open>Scanning a segment\<close>

text \<open>The result of a scan comes with the content of the file after it: a repair truncates.\<close>

definition repair_or_reject_trailing ::
  "path \<Rightarrow> bytes \<Rightarrow> nat \<Rightarrow> offset \<Rightarrow> stored_message_record list \<Rightarrow> scan_mode \<Rightarrow> rstring
     \<Rightarrow> segment_scan storage_result \<times> bytes" where
  "repair_or_reject_trailing path content frame_start expected_offset records mode reason =
     (if repair_final_trailing_record mode
      then (Ok \<lparr>scan_records = records, scan_next_offset = expected_offset, scan_size_bytes = frame_start\<rparr>,
            take frame_start content)
      else (Err (CorruptSegment path reason), content))"

text \<open>
  The loop of \<^verbatim>\<open>scan_segment\<close>, from the byte \<^verbatim>\<open>position\<close>; every round that does not return moves
  the position forward by a whole frame.
\<close>

function scan_loop ::
  "record_codec \<Rightarrow> path \<Rightarrow> topic_name \<Rightarrow> partition_id \<Rightarrow> scan_mode \<Rightarrow> bytes \<Rightarrow> nat \<Rightarrow> offset
     \<Rightarrow> stored_message_record list \<Rightarrow> segment_scan storage_result \<times> bytes" where
  "scan_loop c path t p mode content position expected_offset records =
     (let file_len = length content in
      if file_len \<le> position
      then (Ok \<lparr>scan_records = records, scan_next_offset = expected_offset, scan_size_bytes = file_len\<rparr>,
            content)
      else
        let frame_start = position;
            remaining = file_len - frame_start;
            repair = repair_or_reject_trailing path content frame_start expected_offset records mode in
        if remaining < 4 then repair (str ''truncated record length'')
        else
          let record_length = unat (u32_from_le_bytes (take 4 (drop frame_start content)));
              frame_size = FRAME_HEADER_BYTES + record_length in
          if remaining < frame_size then repair (str ''truncated record payload'')
          else
            let expected_checksum = u32_from_le_bytes (take 4 (drop (frame_start + 4) content));
                payload = take record_length (drop (frame_start + 8) content);
                position' = frame_start + frame_size;
                trailing = (repair_final_trailing_record mode \<and> position' = file_len);
                actual_checksum = crc32_hash c payload in
            if expected_checksum \<noteq> actual_checksum
            then (if trailing then repair (str ''checksum mismatch in trailing record'')
                  else (Err (ChecksumMismatch path frame_start expected_checksum actual_checksum), content))
            else
              case from_slice c payload of
                None \<Rightarrow> (if trailing then repair (str ''invalid trailing JSON record: '')
                         else (Err Serde, content))
              | Some persisted \<Rightarrow>
                  (case validate_persisted_record path t p expected_offset persisted of
                     Ok record \<Rightarrow>
                       (case increment_offset expected_offset path of
                          Ok next_offset \<Rightarrow>
                            scan_loop c path t p mode content position' next_offset (records @ [record])
                        | Err e \<Rightarrow> (Err e, content)
                        | Panicked \<Rightarrow> (Panicked, content))
                   | Err e \<Rightarrow>
                       (if trailing then repair (str ''invalid trailing record metadata: '')
                        else (Err e, content))
                   | Panicked \<Rightarrow> (Panicked, content)))"
  by pat_completeness auto
termination
  by (relation "measure (\<lambda>(c, path, t, p, mode, content, position, e, r). length content - position)")
    (auto simp: FRAME_HEADER_BYTES_def)

declare scan_loop.simps [simp del]

definition scan_segment ::
  "record_codec \<Rightarrow> fs \<Rightarrow> path \<Rightarrow> topic_name \<Rightarrow> partition_id \<Rightarrow> offset \<Rightarrow> scan_mode
     \<Rightarrow> segment_scan storage_result \<times> fs" where
  "scan_segment c fs path t p start_offset mode =
     (case bt_get fs path of
        None \<Rightarrow> (Err (Io (str ''entity not found'')), fs)
      | Some content \<Rightarrow>
          (let (r, content') = scan_loop c path t p mode content 0 start_offset []
           in (r, bt_insert path content' fs)))"

section \<open>Opening and recovery\<close>

fun recover_segments ::
  "record_codec \<Rightarrow> topic_name \<Rightarrow> partition_id \<Rightarrow> segment_file list \<Rightarrow> offset \<Rightarrow> segment_metadata list \<Rightarrow> fs
     \<Rightarrow> (segment_metadata list \<times> offset) storage_result \<times> fs" where
  "recover_segments c t p [] expected_offset segments fs = (Ok (segments, expected_offset), fs)"
| "recover_segments c t p (sf # sfs) expected_offset segments fs =
     (if sf_base_offset sf \<noteq> expected_offset
      then (Err (CorruptSegment (sf_path sf)
             (str ''segment base offset '' @ dec (unat (offset_value (sf_base_offset sf))) @
              str '' does not match expected offset '' @ dec (unat (offset_value expected_offset)))), fs)
      else
        let is_final = (sfs = []);
            mode = (if is_final then ScanMode_RECOVER_FINAL else ScanMode_STRICT) in
        case scan_segment c fs (sf_path sf) t p expected_offset mode of
          (Ok scan, fs1) \<Rightarrow>
            (if scan_size_bytes scan = 0 \<and> \<not> is_final
             then (Err (CorruptSegment (sf_path sf) (str ''empty non-final segment'')), fs1)
             else recover_segments c t p sfs (scan_next_offset scan)
                    (segments @ [\<lparr>seg_base_offset = sf_base_offset sf, seg_next_offset = scan_next_offset scan,
                                  seg_path = sf_path sf, seg_size_bytes = scan_size_bytes scan\<rparr>]) fs1)
        | (Err e, fs1) \<Rightarrow> (Err e, fs1)
        | (Panicked, fs1) \<Rightarrow> (Panicked, fs1))"

definition StorageLog_recover :: "record_codec \<Rightarrow> storage_log \<Rightarrow> fs \<Rightarrow> storage_log storage_result \<times> fs" where
  "StorageLog_recover c l fs =
     (case discover_segment_files fs (sl_partition_dir l) of
        Ok segment_files \<Rightarrow>
          (case recover_segments c (sl_topic l) (sl_partition l) segment_files (Offset 0) (sl_segments l) fs of
             (Ok (segments, next_offset), fs1) \<Rightarrow>
               (Ok (l\<lparr>sl_segments := segments, sl_next_offset := next_offset\<rparr>), fs1)
           | (Err e, fs1) \<Rightarrow> (Err e, fs1)
           | (Panicked, fs1) \<Rightarrow> (Panicked, fs1))
      | Err e \<Rightarrow> (Err e, fs)
      | Panicked \<Rightarrow> (Panicked, fs))"

definition StorageLog_open ::
  "record_codec \<Rightarrow> log_config \<Rightarrow> topic_name \<Rightarrow> partition_id \<Rightarrow> fs \<Rightarrow> storage_log storage_result \<times> fs" where
  "StorageLog_open c config t p fs =
     (case validate_config config of
        Ok u \<Rightarrow>
          StorageLog_recover c
            \<lparr>sl_config = config, sl_topic = t, sl_partition = p,
             sl_partition_dir = partition_dir (lc_root_dir config) t p, sl_segments = [],
             sl_next_offset = Offset 0\<rparr> fs
      | Err e \<Rightarrow> (Err e, fs)
      | Panicked \<Rightarrow> (Panicked, fs))"

section \<open>Appending\<close>

definition create_active_segment ::
  "io_outcome \<Rightarrow> storage_log \<Rightarrow> fs \<Rightarrow> unit storage_result \<times> storage_log \<times> fs" where
  "create_active_segment io l fs =
     (let base_offset = sl_next_offset l;
          path = segment_path (sl_partition_dir l) base_offset in
      if \<not> io_create_ok io then (Err (Io (io_text io)), l, fs)
      else if bt_contains fs path then (Err (Io (str ''file exists'')), l, fs)
      else (Ok (),
            l\<lparr>sl_segments := sl_segments l @
                [\<lparr>seg_base_offset = base_offset, seg_next_offset = base_offset, seg_path = path,
                  seg_size_bytes = 0\<rparr>]\<rparr>,
            bt_insert path [] fs))"

definition roll_if_needed ::
  "io_outcome \<Rightarrow> nat \<Rightarrow> storage_log \<Rightarrow> fs \<Rightarrow> unit storage_result \<times> storage_log \<times> fs" where
  "roll_if_needed io frame_size l fs =
     (if sl_segments l = [] then (Ok (), l, fs)
      else
        let active = last (sl_segments l);
            would_exceed = (2 ^ 64 \<le> seg_size_bytes active + frame_size \<or>
              unat (lc_max_segment_bytes (sl_config l)) < seg_size_bytes active + frame_size) in
        if 0 < seg_size_bytes active \<and> would_exceed then create_active_segment io l fs
        else (Ok (), l, fs))"

definition ensure_active_segment ::
  "io_outcome \<Rightarrow> storage_log \<Rightarrow> fs \<Rightarrow> nat storage_result \<times> storage_log \<times> fs" where
  "ensure_active_segment io l fs =
     (if sl_segments l = []
      then case create_active_segment io l fs of
          (Ok u, l1, fs1) \<Rightarrow> (Ok (length (sl_segments l1) - 1), l1, fs1)
        | (Err e, l1, fs1) \<Rightarrow> (Err e, l1, fs1)
        | (Panicked, l1, fs1) \<Rightarrow> (Panicked, l1, fs1)
      else (Ok (length (sl_segments l) - 1), l, fs))"

text \<open>\<^verbatim>\<open>write_all\<close> and \<^verbatim>\<open>flush\<close> in append mode; \<^verbatim>\<open>set_len\<close> extends with zeros when it is longer.\<close>

definition set_len :: "nat \<Rightarrow> bytes \<Rightarrow> bytes" where
  "set_len n content = take n content @ replicate (n - length content) 0"

definition append_frame_with_rollback ::
  "io_outcome \<Rightarrow> path \<Rightarrow> bytes \<Rightarrow> nat \<Rightarrow> fs \<Rightarrow> unit storage_result \<times> fs" where
  "append_frame_with_rollback io path frame rollback_len fs =
     (if \<not> io_open_ok io then (Err (Io (io_text io)), fs)
      else
        let content = (case bt_get fs path of None \<Rightarrow> [] | Some b \<Rightarrow> b) in
        case io_failed_after io of
          None \<Rightarrow> (Ok (), bt_insert path (content @ frame) fs)
        | Some n \<Rightarrow>
            (let torn = content @ take n frame in
             if \<not> io_set_len_ok io
             then (Err (CorruptSegment path
                    (str ''append failed ('' @ io_text io @ str ''); rollback to byte '' @ dec rollback_len @
                     str '' failed: '' @ io_rollback_text io)), bt_insert path torn fs)
             else (Err (Io (io_text io)), bt_insert path (set_len rollback_len torn) fs)))"

definition StorageLog_append ::
  "record_codec \<Rightarrow> io_outcome \<Rightarrow> message_envelope \<Rightarrow> storage_log \<Rightarrow> fs
     \<Rightarrow> offset storage_result \<times> storage_log \<times> fs" where
  "StorageLog_append c io envelope l fs =
     (let off = sl_next_offset l in
      case increment_offset off (sl_partition_dir l) of
        Err e \<Rightarrow> (Err e, l, fs)
      | Panicked \<Rightarrow> (Panicked, l, fs)
      | Ok next_offset \<Rightarrow>
          (case to_vec c \<lparr>pr_format_version = FORMAT_VERSION, pr_topic = sl_topic l,
                          pr_partition = sl_partition l, pr_offset = off, pr_envelope = envelope\<rparr> of
             None \<Rightarrow> (Err Serde, l, fs)
           | Some payload \<Rightarrow>
               (case encode_frame c payload (sl_partition_dir l) of
                  Err e \<Rightarrow> (Err e, l, fs)
                | Panicked \<Rightarrow> (Panicked, l, fs)
                | Ok frame \<Rightarrow>
                    (let frame_size = length frame in
                     case roll_if_needed io frame_size l fs of
                       (Err e, l1, fs1) \<Rightarrow> (Err e, l1, fs1)
                     | (Panicked, l1, fs1) \<Rightarrow> (Panicked, l1, fs1)
                     | (Ok u, l1, fs1) \<Rightarrow>
                         (case ensure_active_segment io l1 fs1 of
                            (Err e, l2, fs2) \<Rightarrow> (Err e, l2, fs2)
                          | (Panicked, l2, fs2) \<Rightarrow> (Panicked, l2, fs2)
                          | (Ok segment_index, l2, fs2) \<Rightarrow>
                              (let segment = sl_segments l2 ! segment_index;
                                   rollback_len = seg_size_bytes segment in
                               if 2 ^ 64 \<le> rollback_len + frame_size
                               then (Err (InvalidFormat (seg_path segment) (str ''segment size overflow'')),
                                     l2, fs2)
                               else
                                 (case append_frame_with_rollback io (seg_path segment) frame rollback_len fs2 of
                                    (Err e, fs3) \<Rightarrow> (Err e, l2, fs3)
                                  | (Panicked, fs3) \<Rightarrow> (Panicked, l2, fs3)
                                  | (Ok v, fs3) \<Rightarrow>
                                      (Ok off,
                                       l2\<lparr>sl_segments := (sl_segments l2)[segment_index :=
                                              segment\<lparr>seg_size_bytes := rollback_len + frame_size,
                                                      seg_next_offset := next_offset\<rparr>],
                                           sl_next_offset := next_offset\<rparr>, fs3))))))))"

section \<open>Reading\<close>

fun take_records ::
  "offset \<Rightarrow> nat \<Rightarrow> stored_message_record list \<Rightarrow> stored_message_record list \<Rightarrow> stored_message_record list" where
  "take_records off limit [] records = records"
| "take_records off limit (r # rs) records =
     (if off \<le> smr_offset r
      then (let records' = records @ [r] in
            if limit \<le> length records' then records' else take_records off limit rs records')
      else take_records off limit rs records)"

fun read_segments ::
  "record_codec \<Rightarrow> storage_log \<Rightarrow> offset \<Rightarrow> nat \<Rightarrow> segment_metadata list \<Rightarrow> stored_message_record list \<Rightarrow> fs
     \<Rightarrow> stored_message_record list storage_result" where
  "read_segments c l off limit [] records fs = Ok records"
| "read_segments c l off limit (seg # segs) records fs =
     (if limit \<le> length records then Ok records
      else if seg_next_offset seg \<le> off then read_segments c l off limit segs records fs
      else
        case fst (scan_segment c fs (seg_path seg) (sl_topic l) (sl_partition l) (seg_base_offset seg)
                    ScanMode_STRICT) of
          Ok scan \<Rightarrow>
            read_segments c l off limit segs (take_records off limit (scan_records scan) records) fs
        | Err e \<Rightarrow> Err e
        | Panicked \<Rightarrow> Panicked)"

definition StorageLog_read_from ::
  "record_codec \<Rightarrow> offset \<Rightarrow> nat \<Rightarrow> storage_log \<Rightarrow> fs \<Rightarrow> stored_message_record list storage_result" where
  "StorageLog_read_from c off limit l fs =
     (if limit = 0 \<or> sl_next_offset l \<le> off then Ok []
      else read_segments c l off limit (sl_segments l) [] fs)"

section \<open>Classification of repairs and errors\<close>

definition trailing_repair_kind :: "rstring \<Rightarrow> string" where
  "trailing_repair_kind reason =
     (if contains_str (str ''checksum'') reason then ''checksum_mismatch''
      else if contains_str (str ''JSON'') reason then ''invalid_json''
      else if contains_str (str ''metadata'') reason then ''invalid_metadata''
      else if contains_str (str ''length'') reason then ''truncated_length''
      else ''truncated_payload'')"

fun storage_error_kind :: "storage_error \<Rightarrow> string" where
  "storage_error_kind (Io m) = ''io''"
| "storage_error_kind (SInvalidConfig r) = ''invalid_config''"
| "storage_error_kind (InvalidFormat p r) = ''invalid_format''"
| "storage_error_kind (ChecksumMismatch p n e a) = ''checksum_mismatch''"
| "storage_error_kind (CorruptSegment p r) = ''corrupt_segment''"
| "storage_error_kind Serde = ''serde''"

end
