(* ===== verification/Storage_Scan.thy ===== *)
theory Storage_Scan
  imports Storage
begin

text \<open>
  Frames and the scan of a segment. \<^verbatim>\<open>encodes\<close> relates the bytes of a segment to the envelopes it
  holds; scanning such bytes returns exactly their records, and a torn frame at the end is cut
  off in the repairing mode and rejected in the strict one.
\<close>

text \<open>The documented behaviour of the serialisation crate: what it writes it reads back.\<close>

definition codec_ok :: "record_codec \<Rightarrow> bool" where
  "codec_ok c \<longleftrightarrow> (\<forall>r b. to_vec c r = Some b \<longrightarrow> from_slice c b = Some r)"

definition record_for :: "topic_name \<Rightarrow> partition_id \<Rightarrow> nat \<Rightarrow> message_envelope \<Rightarrow> persisted_record" where
  "record_for t p k e =
     \<lparr>pr_format_version = FORMAT_VERSION, pr_topic = t, pr_partition = p, pr_offset = Offset (of_nat k),
      pr_envelope = e\<rparr>"

definition stored_record :: "topic_name \<Rightarrow> partition_id \<Rightarrow> nat \<Rightarrow> message_envelope \<Rightarrow> stored_message_record" where
  "stored_record t p k e =
     \<lparr>smr_topic = t, smr_partition = p, smr_offset = Offset (of_nat k), smr_envelope = e\<rparr>"

fun stored_records :: "topic_name \<Rightarrow> partition_id \<Rightarrow> nat \<Rightarrow> message_envelope list \<Rightarrow> stored_message_record list" where
  "stored_records t p k [] = []"
| "stored_records t p k (e # es) = stored_record t p k e # stored_records t p (Suc k) es"

definition frame_of :: "record_codec \<Rightarrow> bytes \<Rightarrow> bytes" where
  "frame_of c payload =
     u32_to_le_bytes (of_nat (length payload)) @ u32_to_le_bytes (crc32_hash c payload) @ payload"

definition framed :: "record_codec \<Rightarrow> persisted_record \<Rightarrow> bytes \<Rightarrow> bool" where
  "framed c r frame \<longleftrightarrow>
     (\<exists>payload. to_vec c r = Some payload \<and> length payload < 2 ^ 32 \<and> frame = frame_of c payload)"

fun encodes :: "record_codec \<Rightarrow> topic_name \<Rightarrow> partition_id \<Rightarrow> nat \<Rightarrow> message_envelope list \<Rightarrow> bytes \<Rightarrow> bool" where
  "encodes c t p k [] bs \<longleftrightarrow> bs = []"
| "encodes c t p k (e # es) bs \<longleftrightarrow>
     (\<exists>frame rest. framed c (record_for t p k e) frame \<and> bs = frame @ rest \<and> encodes c t p (Suc k) es rest)"

lemma length_stored_records [simp]: "length (stored_records t p k es) = length es"
  by (induction es arbitrary: k) auto

lemma stored_records_append:
  "stored_records t p k (es @ fs) = stored_records t p k es @ stored_records t p (k + length es) fs"
  by (induction es arbitrary: k) auto

lemma stored_records_nth:
  "i < length es \<Longrightarrow> stored_records t p k es ! i = stored_record t p (k + i) (es ! i)"
  by (induction es arbitrary: k i) (auto simp: nth_Cons')

lemma encodes_append:
  "encodes c t p k (es @ fs) bs \<longleftrightarrow>
     (\<exists>b1 b2. bs = b1 @ b2 \<and> encodes c t p k es b1 \<and> encodes c t p (k + length es) fs b2)"
proof (induction es arbitrary: k bs)
  case Nil
  then show ?case by auto
next
  case (Cons e es)
  have "encodes c t p k ((e # es) @ fs) bs \<longleftrightarrow>
      (\<exists>frame b1 b2. bs = frame @ b1 @ b2 \<and> framed c (record_for t p k e) frame \<and>
         encodes c t p (Suc k) es b1 \<and> encodes c t p (Suc k + length es) fs b2)"
    by (simp add: Cons.IH) blast
  moreover have "(\<exists>b1 b2. bs = b1 @ b2 \<and> encodes c t p k (e # es) b1 \<and> encodes c t p (k + length (e # es)) fs b2) \<longleftrightarrow>
      (\<exists>frame b1 b2. bs = (frame @ b1) @ b2 \<and> framed c (record_for t p k e) frame \<and>
         encodes c t p (Suc k) es b1 \<and> encodes c t p (Suc k + length es) fs b2)"
    by (simp del: append_assoc) blast
  ultimately show ?case by simp
qed

lemma length_frame_of: "length (frame_of c payload) = 8 + length payload"
  by (simp add: frame_of_def)

lemma framed_length: "framed c r frame \<Longrightarrow> 8 \<le> length frame"
  by (auto simp: framed_def length_frame_of)

lemma encodes_empty_iff: "encodes c t p k es bs \<Longrightarrow> bs = [] \<longleftrightarrow> es = []"
  by (cases es) (auto dest: framed_length)

lemma encode_frame_Ok_iff:
  "encode_frame c payload path = Ok frame \<longleftrightarrow> length payload < 2 ^ 32 \<and> frame = frame_of c payload"
  by (auto simp: encode_frame_def frame_of_def)

text \<open>The three fields of a frame, read at the position where it stands.\<close>

lemma frame_fields:
  assumes "length payload < 2 ^ 32"
  shows "unat (u32_from_le_bytes (take 4 (drop (length pre) (pre @ frame_of c payload @ rest)))) = length payload"
    "u32_from_le_bytes (take 4 (drop (length pre + 4) (pre @ frame_of c payload @ rest))) = crc32_hash c payload"
    "take (length payload) (drop (length pre + 8) (pre @ frame_of c payload @ rest)) = payload"
proof -
  show "unat (u32_from_le_bytes (take 4 (drop (length pre) (pre @ frame_of c payload @ rest)))) = length payload"
    using assms by (simp add: frame_of_def unat_of_nat_small)
  show "u32_from_le_bytes (take 4 (drop (length pre + 4) (pre @ frame_of c payload @ rest))) = crc32_hash c payload"
    by (simp add: frame_of_def)
  show "take (length payload) (drop (length pre + 8) (pre @ frame_of c payload @ rest)) = payload"
    by (simp add: frame_of_def)
qed

lemma increment_offset_Ok:
  assumes "k + 1 < 2 ^ 64"
  shows "increment_offset (Offset (of_nat k)) path = Ok (Offset (of_nat (Suc k)))"
proof -
  have u: "unat (of_nat k :: u64) + unat (1 :: u64) < 2 ^ 64"
    using assms by (simp add: unat_of_nat_small)
  have "checked_add (of_nat k :: u64) 1 = Some (of_nat k + 1)" using u by (simp add: checked_add_def)
  moreover have "(of_nat k :: u64) + 1 = of_nat (Suc k)" by simp
  ultimately show ?thesis by (simp add: increment_offset_def)
qed

lemma validate_record_for [simp]:
  "validate_persisted_record path t p (Offset (of_nat k)) (record_for t p k e) = Ok (stored_record t p k e)"
  by (simp add: validate_persisted_record_def record_for_def stored_record_def)

section \<open>Whole frames\<close>

lemma scan_loop_step:
  assumes "pos < length content" "4 \<le> length content - pos"
    "unat (u32_from_le_bytes (take 4 (drop pos content))) = rl" "8 + rl \<le> length content - pos"
    "take rl (drop (pos + 8) content) = payload"
    "u32_from_le_bytes (take 4 (drop (pos + 4) content)) = crc32_hash c payload"
    "from_slice c payload = Some pr" "validate_persisted_record path t p off pr = Ok r"
    "increment_offset off path = Ok off'"
  shows "scan_loop c path t p mode content pos off recs =
    scan_loop c path t p mode content (pos + (8 + rl)) off' (recs @ [r])"
  using assms by (subst scan_loop.simps) (simp add: Let_def FRAME_HEADER_BYTES_def)

lemma scan_one_frame:
  assumes ok: "codec_ok c" and fr: "framed c (record_for t p k e) frame" and k: "k + 1 < 2 ^ 64"
  shows "scan_loop c path t p mode (pre @ frame @ rest) (length pre) (Offset (of_nat k)) recs =
    scan_loop c path t p mode (pre @ frame @ rest) (length pre + length frame) (Offset (of_nat (Suc k)))
      (recs @ [stored_record t p k e])"
proof -
  from fr obtain payload where pl: "to_vec c (record_for t p k e) = Some payload"
    "length payload < 2 ^ 32" and frame: "frame = frame_of c payload"
    by (auto simp: framed_def)
  have fs: "from_slice c payload = Some (record_for t p k e)" using ok pl(1) by (simp add: codec_ok_def)
  note f = frame_fields[OF pl(2), of pre c rest]
  have len: "length (pre @ frame_of c payload @ rest) = length pre + (8 + length payload) + length rest"
    by (simp add: length_frame_of)
  show ?thesis
    unfolding frame length_frame_of
    by (rule scan_loop_step[OF _ _ f(1) _ f(3) f(2) fs validate_record_for increment_offset_Ok[OF k]])
      (simp_all add: len length_frame_of)
qed

lemma scan_frames:
  assumes "codec_ok c" "encodes c t p k es bs" "k + length es < 2 ^ 64"
  shows "scan_loop c path t p mode (pre @ bs @ tail) (length pre) (Offset (of_nat k)) recs =
    scan_loop c path t p mode (pre @ bs @ tail) (length pre + length bs) (Offset (of_nat (k + length es)))
      (recs @ stored_records t p k es)"
  using assms
proof (induction es arbitrary: k bs pre recs)
  case Nil
  then show ?case by simp
next
  case (Cons e es)
  from Cons.prems(2) obtain frame rest where fr: "framed c (record_for t p k e) frame"
    and bs: "bs = frame @ rest" and enc: "encodes c t p (Suc k) es rest" by auto
  have "scan_loop c path t p mode (pre @ bs @ tail) (length pre) (Offset (of_nat k)) recs =
      scan_loop c path t p mode ((pre @ frame) @ rest @ tail) (length (pre @ frame)) (Offset (of_nat (Suc k)))
        (recs @ [stored_record t p k e])"
    using scan_one_frame[OF Cons.prems(1) fr, of path mode pre "rest @ tail" recs] Cons.prems(3)
    by (simp add: bs)
  also have "\<dots> = scan_loop c path t p mode ((pre @ frame) @ rest @ tail) (length (pre @ frame) + length rest)
      (Offset (of_nat (Suc k + length es))) ((recs @ [stored_record t p k e]) @ stored_records t p (Suc k) es)"
    using Cons.prems by (intro Cons.IH[OF _ enc]) simp_all
  finally show ?case by (simp add: bs ac_simps)
qed

lemma scan_loop_end:
  "scan_loop c path t p mode content (length content) off recs =
     (Ok \<lparr>scan_records = recs, scan_next_offset = off, scan_size_bytes = length content\<rparr>, content)"
  by (subst scan_loop.simps) simp

lemma scan_encoded:
  assumes "codec_ok c" "encodes c t p k es bs" "k + length es < 2 ^ 64"
  shows "scan_loop c path t p mode bs 0 (Offset (of_nat k)) [] =
    (Ok \<lparr>scan_records = stored_records t p k es, scan_next_offset = Offset (of_nat (k + length es)),
         scan_size_bytes = length bs\<rparr>, bs)"
  using scan_frames[OF assms, of path mode "[]" "[]" "[]"] scan_loop_end[of c path t p mode bs]
  by simp

section \<open>A torn frame at the end\<close>

definition torn :: "record_codec \<Rightarrow> bytes \<Rightarrow> bool" where
  "torn c tail \<longleftrightarrow>
     (\<exists>payload n. length payload < 2 ^ 32 \<and> n < length (frame_of c payload) \<and> tail = take n (frame_of c payload))"

lemma torn_Nil: "torn c []"
  by (auto simp: torn_def length_frame_of intro!: exI[of _ "[]"] exI[of _ 0])

text \<open>
  What the scan takes for a truncated frame: bytes too few for a length field, or for the frame that the
  length field announces. Every torn frame is of that kind, and so is a run of whole frames
  behind a length field that was overwritten with a larger number.
\<close>

definition cut_off :: "bytes \<Rightarrow> bool" where
  "cut_off tail \<longleftrightarrow>
     length tail < 4 \<or> length tail < FRAME_HEADER_BYTES + unat (u32_from_le_bytes (take 4 tail))"

lemma torn_cut_off:
  assumes "torn c tail"
  shows "cut_off tail"
proof -
  from assms obtain payload n where pl: "length payload < 2 ^ 32" and n: "n < length (frame_of c payload)"
    and tail: "tail = take n (frame_of c payload)"
    by (auto simp: torn_def)
  have len: "length tail = n" using n tail by simp
  show ?thesis
  proof (cases "n < 4")
    case True
    then show ?thesis using len by (simp add: cut_off_def)
  next
    case False
    have "take 4 tail = u32_to_le_bytes (of_nat (length payload))"
      using False by (simp add: tail frame_of_def min_absorb1)
    then show ?thesis
      using n len pl by (simp add: cut_off_def length_frame_of FRAME_HEADER_BYTES_def unat_of_nat_small)
  qed
qed

lemma scan_cut_off:
  assumes "cut_off tail" "tail \<noteq> []"
  shows "\<exists>reason. scan_loop c path t p mode (pre @ tail) (length pre) off recs =
    repair_or_reject_trailing path (pre @ tail) (length pre) off recs mode reason"
proof (cases "length tail < 4")
  case True
  with assms(2) show ?thesis
    by (intro exI[of _ "str ''truncated record length''"]) (subst scan_loop.simps, simp add: Let_def)
next
  case False
  with assms show ?thesis
    by (intro exI[of _ "str ''truncated record payload''"])
      (subst scan_loop.simps, simp add: Let_def cut_off_def)
qed

lemma scan_recovers:
  assumes ok: "codec_ok c" and enc: "encodes c t p k es bs" and k: "k + length es < 2 ^ 64" and tail: "cut_off tail"
  shows "scan_loop c path t p ScanMode_RECOVER_FINAL (bs @ tail) 0 (Offset (of_nat k)) [] =
    (Ok \<lparr>scan_records = stored_records t p k es, scan_next_offset = Offset (of_nat (k + length es)),
         scan_size_bytes = length bs\<rparr>, bs)"
proof (cases "tail = []")
  case True
  then show ?thesis using scan_encoded[OF ok enc k] by simp
next
  case False
  have "scan_loop c path t p ScanMode_RECOVER_FINAL (bs @ tail) 0 (Offset (of_nat k)) [] =
      scan_loop c path t p ScanMode_RECOVER_FINAL (bs @ tail) (length bs) (Offset (of_nat (k + length es)))
        (stored_records t p k es)"
    using scan_frames[OF ok enc k, of path ScanMode_RECOVER_FINAL "[]" tail "[]"] by simp
  with scan_cut_off[OF tail False, of c path t p ScanMode_RECOVER_FINAL bs] show ?thesis
    by (auto simp: repair_or_reject_trailing_def ScanMode_RECOVER_FINAL_def)
qed

lemma scan_strict_rejects:
  assumes ok: "codec_ok c" and enc: "encodes c t p k es bs" and k: "k + length es < 2 ^ 64"
    and tail: "cut_off tail" "tail \<noteq> []"
  shows "\<exists>reason. scan_loop c path t p ScanMode_STRICT (bs @ tail) 0 (Offset (of_nat k)) [] =
    (Err (CorruptSegment path reason), bs @ tail)"
proof -
  have "scan_loop c path t p ScanMode_STRICT (bs @ tail) 0 (Offset (of_nat k)) [] =
      scan_loop c path t p ScanMode_STRICT (bs @ tail) (length bs) (Offset (of_nat (k + length es)))
        (stored_records t p k es)"
    using scan_frames[OF ok enc k, of path ScanMode_STRICT "[]" tail "[]"] by simp
  with scan_cut_off[OF tail, of c path t p ScanMode_STRICT bs] show ?thesis
    by (auto simp: repair_or_reject_trailing_def ScanMode_STRICT_def)
qed

section \<open>Every scan is gapless\<close>

lemma validate_persisted_record_Ok:
  "validate_persisted_record path t p off r = Ok sr \<Longrightarrow>
     tn_str (smr_topic sr) = tn_str t \<and> smr_partition sr = p \<and> smr_offset sr = off"
  by (auto simp: validate_persisted_record_def split: if_splits)

lemma increment_offset_iff:
  "increment_offset off path = Ok off' \<longleftrightarrow>
     unat (offset_value off) + 1 < 2 ^ 64 \<and> offset_value off' = offset_value off + 1"
  by (cases off') (auto simp: increment_offset_def checked_add_def split: option.splits if_splits)

text \<open>Whatever the bytes, an accepted scan yields records of this topic and partition with consecutive
  offsets, from the expected one on, and an end offset that counts them.\<close>

definition gapless :: "topic_name \<Rightarrow> partition_id \<Rightarrow> nat \<Rightarrow> stored_message_record list \<Rightarrow> bool" where
  "gapless t p k rs \<longleftrightarrow>
     (\<forall>i<length rs. tn_str (smr_topic (rs ! i)) = tn_str t \<and> smr_partition (rs ! i) = p \<and>
        smr_offset (rs ! i) = Offset (of_nat (k + i)))"

lemma gapless_snoc:
  "gapless t p k (rs @ [r]) \<longleftrightarrow> gapless t p k rs \<and> tn_str (smr_topic r) = tn_str t \<and> smr_partition r = p \<and>
     smr_offset r = Offset (of_nat (k + length rs))"
  by (auto simp: gapless_def nth_append less_Suc_eq)

lemma scan_loop_gapless:
  assumes "scan_loop c path t p mode content pos off recs = (Ok scan, content')"
    "gapless t p k recs" "off = Offset (of_nat (k + length recs))"
  shows "gapless t p k (scan_records scan) \<and>
    scan_next_offset scan = Offset (of_nat (k + length (scan_records scan)))"
  using assms
proof (induction c path t p mode content pos off recs rule: scan_loop.induct)
  case (1 c path t p mode content pos off recs)
  have rep: "gapless t p k (scan_records scan) \<and>
      scan_next_offset scan = Offset (of_nat (k + length (scan_records scan)))"
    if "repair_or_reject_trailing path content fs off recs mode reason = (Ok scan, content')" for fs reason
    using that 1(3,4) by (auto simp: repair_or_reject_trailing_def split: if_splits)
  note run = 1(2)[unfolded scan_loop.simps[of c path t p mode content pos off recs] Let_def]
  let ?rl = "unat (u32_from_le_bytes (take 4 (drop pos content)))"
  let ?pl = "take ?rl (drop (pos + 8) content)"
  show ?case
  proof (cases "length content \<le> pos")
    case True
    then show ?thesis using run 1(3,4) by auto
  next
    case more: False
    show ?thesis
    proof (cases "length content - pos < 4 \<or> length content - pos < FRAME_HEADER_BYTES + ?rl")
      case True
      then show ?thesis using run more by (auto dest: rep split: if_splits)
    next
      case whole: False
      show ?thesis
      proof (cases "u32_from_le_bytes (take 4 (drop (pos + 4) content)) = crc32_hash c ?pl")
        case False
        then show ?thesis using run more whole by (auto dest: rep split: if_splits)
      next
        case crc: True
        show ?thesis
        proof (cases "from_slice c ?pl")
          case None
          then show ?thesis using run more whole crc by (auto dest: rep split: if_splits)
        next
          case (Some pr)
          show ?thesis
          proof (cases "validate_persisted_record path t p off pr")
            case (Ok r)
            note v = validate_persisted_record_Ok[OF Ok]
            show ?thesis
            proof (cases "increment_offset off path")
              case inc: (Ok off')
              have off': "off' = Offset (of_nat (k + length (recs @ [r])))"
                using inc 1(4) by (cases off') (simp add: increment_offset_iff add.commute)
              have go: "scan_loop c path t p mode content (pos + (FRAME_HEADER_BYTES + ?rl)) off' (recs @ [r]) =
                  (Ok scan, content')"
                using run more whole crc Some Ok inc by (simp split: if_splits)
              have g: "gapless t p k (recs @ [r])" using 1(3,4) v by (simp add: gapless_snoc)
              show ?thesis
                by (rule 1(1)[OF refl more refl refl refl _ refl refl _ refl refl refl refl refl _ Some Ok inc go g off'])
                  (use whole crc in auto)
            qed (use run more whole crc Some Ok in \<open>auto split: if_splits\<close>)
          qed (use run more whole crc Some in \<open>auto dest: rep split: if_splits\<close>)
        qed
      qed
    qed
  qed
qed

end
