(* ===== verification/Storage_Paths.thy ===== *)
theory Storage_Paths
  imports Storage "HOL-Library.Multiset"
begin

text \<open>
  Segment file names. A name is the 20-digit base offset with the extension \<^verbatim>\<open>log\<close>; it parses back
  to its offset, so distinct offsets have distinct files, and the directory listing of a log's
  segments comes back in the order of the base offsets.
\<close>

lemma takeWhile_neq_append: "x \<notin> set xs \<Longrightarrow> takeWhile (\<lambda>c. c \<noteq> x) (xs @ x # ys) = xs"
  by (induction xs) auto

lemma split_file_name_ext:
  assumes "46 \<notin> set ext" "ext \<noteq> []" "stem \<noteq> []"
  shows "split_file_name (stem @ [46] @ ext) = (stem, Some ext)"
proof -
  have tw: "takeWhile (\<lambda>c. c \<noteq> 46) (rev ext @ 46 # rev stem) = rev ext"
    using assms(1) by (simp add: takeWhile_neq_append)
  have "stem @ [46] @ ext \<noteq> str ''..''" 
    using assms by (cases stem) (auto simp: str_def append_eq_Cons_conv)
  then show ?thesis using assms(3) by (simp add: split_file_name_def tw)
qed

lemma length_offset_name: "length (dec_padded SEGMENT_FILE_NAME_WIDTH (unat (w :: u64))) = 20"
  using unat_u64_less[of w] by (simp add: SEGMENT_FILE_NAME_WIDTH_def length_dec_padded)

lemma split_segment_name:
  "split_file_name (dec_padded SEGMENT_FILE_NAME_WIDTH (unat (w :: u64)) @ [46] @ SEGMENT_FILE_EXTENSION) =
     (dec_padded SEGMENT_FILE_NAME_WIDTH (unat w), Some SEGMENT_FILE_EXTENSION)"
proof (rule split_file_name_ext)
  show "46 \<notin> set SEGMENT_FILE_EXTENSION" "SEGMENT_FILE_EXTENSION \<noteq> []" by (simp_all add: SEGMENT_FILE_EXTENSION_def str_def)
  show "dec_padded SEGMENT_FILE_NAME_WIDTH (unat w) \<noteq> []"
    using length_offset_name[of w] by auto
qed

lemma last_segment_path:
  "last (segment_path dir off) =
     dec_padded SEGMENT_FILE_NAME_WIDTH (unat (offset_value off)) @ [46] @ SEGMENT_FILE_EXTENSION"
  by (simp add: segment_path_def)

lemma butlast_segment_path [simp]: "butlast (segment_path dir off) = dir"
  by (simp add: segment_path_def)

lemma segment_path_not_Nil [simp]: "segment_path dir off \<noteq> []"
  by (simp add: segment_path_def)

lemma segment_path_ext [simp]:
  "snd (split_file_name (last (segment_path dir off))) = Some SEGMENT_FILE_EXTENSION"
  by (simp only: last_segment_path split_segment_name snd_conv)

lemma parse_segment_path [simp]: "parse_segment_base_offset (segment_path dir off) = Ok off"
proof -
  let ?s = "dec_padded SEGMENT_FILE_NAME_WIDTH (unat (offset_value off))"
  have d: "list_all is_ascii_digit ?s" by (rule dec_padded_digits)
  then have u: "utf8 ?s = ?s" by (intro utf8_ascii) (auto simp: list_all_iff is_ascii_digit_def)
  have "fst (split_file_name (last (segment_path dir off))) = ?s"
    by (simp only: last_segment_path split_segment_name fst_conv)
  then show ?thesis
    using d by (simp add: parse_segment_base_offset_def u length_offset_name)
      (simp add: SEGMENT_FILE_NAME_WIDTH_def)
qed

lemma segment_path_inject [simp]: "segment_path dir a = segment_path dir b \<longleftrightarrow> a = b"
  by (metis parse_segment_path rres.inject(1))

text \<open>The files that recovery looks at.\<close>

definition log_files :: "fs \<Rightarrow> path \<Rightarrow> path set" where
  "log_files fs dir =
     {p. bt_contains fs p \<and> p \<noteq> [] \<and> butlast p = dir \<and>
         snd (split_file_name (last p)) = Some SEGMENT_FILE_EXTENSION}"

lemma set_log_files:
  "set (filter (\<lambda>path. snd (split_file_name (last path)) = Some SEGMENT_FILE_EXTENSION) (read_dir fs dir)) =
     log_files fs dir"
  using bt_get_None_iff[of fs] by (auto simp: log_files_def read_dir_def bt_contains_def)

lemma log_files_insert:
  "log_files (bt_insert p b fs) dir =
     (if p \<noteq> [] \<and> butlast p = dir \<and> snd (split_file_name (last p)) = Some SEGMENT_FILE_EXTENSION
      then insert p (log_files fs dir) else log_files fs dir)"
  by (auto simp: log_files_def)

lemma rmap_map: "rmap f (map g xs) = rmap (\<lambda>x. f (g x)) xs"
  by (induction xs) auto

lemma discover_segments:
  assumes sorted: "bt_sorted fs" and offs: "sorted_wrt (<) offs"
    and files: "log_files fs dir = segment_path dir ` set offs"
  shows "discover_segment_files fs dir =
    Ok (map (\<lambda>off. \<lparr>sf_base_offset = off, sf_path = segment_path dir off\<rparr>) offs)"
proof -
  let ?fs = "filter (\<lambda>path. snd (split_file_name (last path)) = Some SEGMENT_FILE_EXTENSION) (read_dir fs dir)"
  let ?mk = "\<lambda>off. \<lparr>sf_base_offset = off, sf_path = segment_path dir off\<rparr>"
  have set: "set ?fs = segment_path dir ` set offs" by (simp only: set_log_files files)
  have dist: "distinct ?fs"
    using sorted by (simp add: read_dir_def bt_sorted_distinct)
  define ps where "ps = map (\<lambda>p. case parse_segment_base_offset p of Ok off \<Rightarrow> off | _ \<Rightarrow> Offset 0) ?fs"
  have fs_ps: "?fs = map (segment_path dir) ps"
  proof -
    have "map (segment_path dir) ps = map (\<lambda>p. p) ?fs"
      unfolding ps_def map_map using set by (intro map_cong) auto
    then show ?thesis by simp
  qed
  have set_ps: "set ps = set offs" 
  proof -
    have "segment_path dir ` set ps = segment_path dir ` set offs" using set fs_ps by (metis set_map)
    moreover have "inj (segment_path dir)" by (rule injI) simp
    ultimately show ?thesis by (simp add: inj_image_eq_iff)
  qed
  have dist_ps: "distinct ps" using dist fs_ps by (metis distinct_map)
  have r: "rmap (\<lambda>path. map_ok (\<lambda>base. \<lparr>sf_base_offset = base, sf_path = path\<rparr>) (parse_segment_base_offset path)) ?fs =
      Ok (map ?mk ps)"
    unfolding fs_ps rmap_map by (rule rmap_total) simp
  have "sort_key sf_base_offset (map ?mk ps) = map ?mk offs"
  proof (rule properties_for_sort_key)
    have "mset ps = mset offs"
      using dist_ps set_ps offs by (simp add: set_eq_iff_mset_eq_distinct[symmetric] strict_sorted_iff)
    then show "mset (map ?mk offs) = mset (map ?mk ps)" by simp
    show "sorted (map sf_base_offset (map ?mk offs))"
      using offs by (simp add: o_def strict_sorted_iff)
    fix k assume "k \<in> set (map ?mk offs)"
    then obtain off where k: "k = ?mk off" and off: "off \<in> set offs" by auto
    have one: "filter (\<lambda>x. off = x) xs = [off]" if "distinct xs" "off \<in> set xs" for xs
      using that by (induction xs) (auto simp: filter_empty_conv)
    have "filter (\<lambda>x. sf_base_offset k = sf_base_offset x) (map ?mk xs) = map ?mk (filter (\<lambda>x. off = x) xs)" for xs
      by (simp add: k filter_map o_def)
    then show "filter (\<lambda>x. sf_base_offset k = sf_base_offset x) (map ?mk offs) =
        filter (\<lambda>x. sf_base_offset k = sf_base_offset x) (map ?mk ps)"
      using one[OF dist_ps] one[of offs] off set_ps offs by (simp add: strict_sorted_iff)
  qed
  then show ?thesis by (simp add: discover_segment_files_def r)
qed

section \<open>Partition directories\<close>

lemma partition_dir_inject [simp]:
  "partition_dir root t p = partition_dir root t' p' \<longleftrightarrow> t = t' \<and> p = p'"
proof -
  have "tn_str t = tn_str t' \<longleftrightarrow> t = t'" by (auto intro: topic_name.expand)
  moreover have "unat (pid_value p) = unat (pid_value p') \<longleftrightarrow> p = p'"
    by (auto dest: unat_eqD intro: partition_id.expand)
  ultimately show ?thesis by (simp add: partition_dir_def)
qed

end
