(* ===== verification/Storage_Log.thy ===== *)
theory Storage_Log
  imports Storage_Scan Storage_Paths
begin

text \<open>
  The partition log against its specification, the list of appended envelopes. \<^verbatim>\<open>log_holds\<close> relates
  a log value and the file system to that list: the segments partition the list, every file holds
  exactly the frames of its part, and no other segment file exists.
\<close>

section \<open>What a log holds\<close>

definition seg_holds ::
  "record_codec \<Rightarrow> fs \<Rightarrow> topic_name \<Rightarrow> partition_id \<Rightarrow> path \<Rightarrow> nat \<Rightarrow> segment_metadata
     \<Rightarrow> message_envelope list \<Rightarrow> bool" where
  "seg_holds c fs t p dir k sg es \<longleftrightarrow>
     seg_base_offset sg = Offset (of_nat k) \<and> seg_next_offset sg = Offset (of_nat (k + length es)) \<and>
     seg_path sg = segment_path dir (Offset (of_nat k)) \<and>
     (\<exists>bs. bt_get fs (seg_path sg) = Some bs \<and> encodes c t p k es bs \<and> seg_size_bytes sg = length bs)"

fun segs_hold ::
  "record_codec \<Rightarrow> fs \<Rightarrow> topic_name \<Rightarrow> partition_id \<Rightarrow> path \<Rightarrow> nat \<Rightarrow> segment_metadata list
     \<Rightarrow> message_envelope list \<Rightarrow> bool" where
  "segs_hold c fs t p dir k [] es \<longleftrightarrow> es = []"
| "segs_hold c fs t p dir k (sg # sgs) es \<longleftrightarrow>
     (\<exists>es1 es2. es = es1 @ es2 \<and> seg_holds c fs t p dir k sg es1 \<and>
        segs_hold c fs t p dir (k + length es1) sgs es2)"

definition seg_offsets :: "segment_metadata list \<Rightarrow> offset list" where
  "seg_offsets sgs = map seg_base_offset sgs"

definition log_holds :: "record_codec \<Rightarrow> fs \<Rightarrow> storage_log \<Rightarrow> message_envelope list \<Rightarrow> bool" where
  "log_holds c fs l es \<longleftrightarrow>
     bt_sorted fs \<and> length es < 2 ^ 64 \<and> sl_next_offset l = Offset (of_nat (length es)) \<and>
     segs_hold c fs (sl_topic l) (sl_partition l) (sl_partition_dir l) 0 (sl_segments l) es \<and>
     (\<forall>sg\<in>set (butlast (sl_segments l)). 0 < seg_size_bytes sg) \<and>
     log_files fs (sl_partition_dir l) =
       segment_path (sl_partition_dir l) ` set (seg_offsets (sl_segments l))"

lemma segs_hold_snoc:
  "segs_hold c fs t p dir k (sgs @ [sg]) es \<longleftrightarrow>
     (\<exists>es1 es2. es = es1 @ es2 \<and> segs_hold c fs t p dir k sgs es1 \<and>
        seg_holds c fs t p dir (k + length es1) sg es2)"
proof (induction sgs arbitrary: k es)
  case Nil
  then show ?case by auto
next
  case (Cons s sgs)
  have "segs_hold c fs t p dir k ((s # sgs) @ [sg]) es \<longleftrightarrow>
      (\<exists>e1 e2 e3. es = e1 @ e2 @ e3 \<and> seg_holds c fs t p dir k s e1 \<and>
         segs_hold c fs t p dir (k + length e1) sgs e2 \<and> seg_holds c fs t p dir (k + length e1 + length e2) sg e3)"
    by (simp add: Cons.IH) blast
  moreover have "(\<exists>es1 es2. es = es1 @ es2 \<and> segs_hold c fs t p dir k (s # sgs) es1 \<and>
        seg_holds c fs t p dir (k + length es1) sg es2) \<longleftrightarrow>
      (\<exists>e1 e2 e3. es = (e1 @ e2) @ e3 \<and> seg_holds c fs t p dir k s e1 \<and>
         segs_hold c fs t p dir (k + length e1) sgs e2 \<and> seg_holds c fs t p dir (k + length (e1 @ e2)) sg e3)"
    by (simp only: segs_hold.simps) blast
  ultimately show ?case by (simp add: add.assoc)
qed

lemma seg_holds_size: "seg_holds c fs t p dir k sg es \<Longrightarrow> seg_size_bytes sg = 0 \<longleftrightarrow> es = []"
  by (auto simp: seg_holds_def dest: encodes_empty_iff)

lemma seg_holds_cong:
  "bt_get fs' (seg_path sg) = bt_get fs (seg_path sg) \<Longrightarrow>
   seg_holds c fs' t p dir k sg es \<longleftrightarrow> seg_holds c fs t p dir k sg es"
  by (simp add: seg_holds_def)

lemma segs_hold_cong:
  "(\<And>sg. sg \<in> set sgs \<Longrightarrow> bt_get fs' (seg_path sg) = bt_get fs (seg_path sg)) \<Longrightarrow>
   segs_hold c fs' t p dir k sgs es \<longleftrightarrow> segs_hold c fs t p dir k sgs es"
proof (induction sgs arbitrary: k es)
  case Nil
  then show ?case by simp
next
  case (Cons sg sgs)
  have "seg_holds c fs' t p dir k sg es1 \<longleftrightarrow> seg_holds c fs t p dir k sg es1" for es1
    using Cons.prems by (intro seg_holds_cong) simp
  moreover have "segs_hold c fs' t p dir j sgs es2 \<longleftrightarrow> segs_hold c fs t p dir j sgs es2" for j es2
    using Cons.prems by (intro Cons.IH) simp
  ultimately show ?case by simp
qed

text \<open>The base offsets of full segments lie before the end, in increasing order.\<close>

lemma segs_hold_bases:
  assumes "segs_hold c fs t p dir k sgs es" "\<forall>sg\<in>set sgs. 0 < seg_size_bytes sg"
  shows "\<forall>sg\<in>set sgs. \<exists>j. seg_base_offset sg = Offset (of_nat j) \<and> k \<le> j \<and> j < k + length es \<and>
      seg_path sg = segment_path dir (Offset (of_nat j))"
    "k + length es < 2 ^ 64 \<Longrightarrow> sorted_wrt (<) (seg_offsets sgs)"
proof -
  have "(\<forall>sg\<in>set sgs. \<exists>j. seg_base_offset sg = Offset (of_nat j) \<and> k \<le> j \<and> j < k + length es \<and>
      seg_path sg = segment_path dir (Offset (of_nat j))) \<and>
    (k + length es < 2 ^ 64 \<longrightarrow> sorted_wrt (<) (seg_offsets sgs))"
    using assms
  proof (induction sgs arbitrary: k es)
    case Nil
    then show ?case by (simp add: seg_offsets_def)
  next
    case (Cons sg sgs)
    from Cons.prems obtain es1 es2 where es: "es = es1 @ es2" and sg: "seg_holds c fs t p dir k sg es1"
      and rest: "segs_hold c fs t p dir (k + length es1) sgs es2" by auto
    have ne: "es1 \<noteq> []" using seg_holds_size[OF sg] Cons.prems(2) by auto
    from Cons.IH[OF rest] Cons.prems(2) have
      IH1: "\<forall>s\<in>set sgs. \<exists>j. seg_base_offset s = Offset (of_nat j) \<and> k + length es1 \<le> j \<and>
        j < k + length es1 + length es2 \<and> seg_path s = segment_path dir (Offset (of_nat j))"
      and IH2: "k + length es1 + length es2 < 2 ^ 64 \<longrightarrow> sorted_wrt (<) (seg_offsets sgs)" by auto
    have base: "seg_base_offset sg = Offset (of_nat k)" "seg_path sg = segment_path dir (Offset (of_nat k))"
      using sg by (simp_all add: seg_holds_def)
    have "\<exists>j. seg_base_offset s = Offset (of_nat j) \<and> k \<le> j \<and> j < k + length es \<and>
        seg_path s = segment_path dir (Offset (of_nat j))" if "s \<in> set (sg # sgs)" for s
    proof (cases "s = sg")
      case True
      then show ?thesis using base ne es by (intro exI[of _ k]) (cases es1, auto)
    next
      case False
      with that IH1 obtain j where "seg_base_offset s = Offset (of_nat j)" "k + length es1 \<le> j"
        "j < k + length es1 + length es2" "seg_path s = segment_path dir (Offset (of_nat j))" by auto
      then show ?thesis using es by (intro exI[of _ j]) auto
    qed
    moreover have "sorted_wrt (<) (seg_offsets (sg # sgs))" if fit: "k + length es < 2 ^ 64"
    proof -
      have "seg_base_offset sg < seg_base_offset s" if s: "s \<in> set sgs" for s
      proof -
        obtain j where j: "seg_base_offset s = Offset (of_nat j)" "k + length es1 \<le> j"
          "j < k + length es1 + length es2" using IH1 s by blast
        have "k < j" using j(2) ne by (cases es1) auto
        moreover have "j < 2 ^ 64" "k < 2 ^ 64" using j(3) fit es by auto
        ultimately show ?thesis
          by (simp add: base j less_offset_def word_less_nat_alt unat_of_nat_small)
      qed
      then show ?thesis using IH2 fit es by (auto simp: seg_offsets_def)
    qed
    ultimately show ?case by blast
  qed
  then show "\<forall>sg\<in>set sgs. \<exists>j. seg_base_offset sg = Offset (of_nat j) \<and> k \<le> j \<and> j < k + length es \<and>
      seg_path sg = segment_path dir (Offset (of_nat j))"
    "k + length es < 2 ^ 64 \<Longrightarrow> sorted_wrt (<) (seg_offsets sgs)" by blast+
qed

text \<open>The view of a non-empty segment list that append and recovery use: full segments and a last one.\<close>

lemma log_holds_last:
  assumes "log_holds c fs l es" "sl_segments l \<noteq> []"
  obtains sgs sg es1 es2 where "sl_segments l = sgs @ [sg]" "es = es1 @ es2"
    "segs_hold c fs (sl_topic l) (sl_partition l) (sl_partition_dir l) 0 sgs es1"
    "seg_holds c fs (sl_topic l) (sl_partition l) (sl_partition_dir l) (length es1) sg es2"
    "\<forall>s\<in>set sgs. 0 < seg_size_bytes s"
proof -
  have split: "sl_segments l = butlast (sl_segments l) @ [last (sl_segments l)]" using assms(2) by simp
  with assms(1) have "segs_hold c fs (sl_topic l) (sl_partition l) (sl_partition_dir l) 0
      (butlast (sl_segments l) @ [last (sl_segments l)]) es" by (simp add: log_holds_def)
  then obtain es1 es2 where "es = es1 @ es2"
    "segs_hold c fs (sl_topic l) (sl_partition l) (sl_partition_dir l) 0 (butlast (sl_segments l)) es1"
    "seg_holds c fs (sl_topic l) (sl_partition l) (sl_partition_dir l) (0 + length es1) (last (sl_segments l)) es2"
    unfolding segs_hold_snoc by blast
  with that[OF split] assms(1) show ?thesis by (simp add: log_holds_def)
qed

lemma log_holds_offsets:
  assumes "log_holds c fs l es"
  shows "sorted_wrt (<) (seg_offsets (sl_segments l))"
proof (cases "sl_segments l = []")
  case True
  then show ?thesis by (simp add: seg_offsets_def)
next
  case False
  from assms have fit: "length es < 2 ^ 64" by (simp add: log_holds_def)
  obtain sgs sg es1 es2 where L: "sl_segments l = sgs @ [sg]" "es = es1 @ es2"
    "segs_hold c fs (sl_topic l) (sl_partition l) (sl_partition_dir l) 0 sgs es1"
    "seg_holds c fs (sl_topic l) (sl_partition l) (sl_partition_dir l) (length es1) sg es2"
    "\<forall>s\<in>set sgs. 0 < seg_size_bytes s"
    using log_holds_last[OF assms False] by metis
  note B = segs_hold_bases[OF L(3,5)]
  have "seg_base_offset s < seg_base_offset sg" if s: "s \<in> set sgs" for s
  proof -
    obtain j where j: "seg_base_offset s = Offset (of_nat j)" "j < length es1" using B(1) s by auto
    have "seg_base_offset sg = Offset (of_nat (length es1))" using L(4) by (simp add: seg_holds_def)
    moreover have "j < 2 ^ 64" "length es1 < 2 ^ 64" using j(2) fit L(2) by auto
    ultimately show ?thesis using j
      by (simp add: less_offset_def word_less_nat_alt unat_of_nat_small)
  qed
  moreover have "sorted_wrt (<) (seg_offsets sgs)" using B(2) fit L(2) by simp
  ultimately show ?thesis by (auto simp: L(1) seg_offsets_def sorted_wrt_append)
qed

text \<open>The path of the segment that the next roll would create is free.\<close>

lemma log_holds_fresh:
  assumes "log_holds c fs l es" "\<forall>sg\<in>set (sl_segments l). 0 < seg_size_bytes sg"
  shows "segment_path (sl_partition_dir l) (sl_next_offset l) \<notin> seg_path ` set (sl_segments l)"
    "\<not> bt_contains fs (segment_path (sl_partition_dir l) (sl_next_offset l))"
proof -
  let ?d = "sl_partition_dir l"
  from assms(1) have H: "segs_hold c fs (sl_topic l) (sl_partition l) ?d 0 (sl_segments l) es"
    and fit: "length es < 2 ^ 64" and nx: "sl_next_offset l = Offset (of_nat (length es))"
    and files: "log_files fs ?d = segment_path ?d ` set (seg_offsets (sl_segments l))"
    by (simp_all add: log_holds_def)
  note B = segs_hold_bases(1)[OF H assms(2)]
  have ne: "(Offset (of_nat j)) \<noteq> Offset (of_nat (length es))" if "j < length es" for j
    using that fit of_nat_u64_inject[of j "length es"] by simp
  have other: "seg_base_offset sg \<noteq> sl_next_offset l" "seg_path sg \<noteq> segment_path ?d (sl_next_offset l)"
    if sg: "sg \<in> set (sl_segments l)" for sg
  proof -
    obtain j where j: "seg_base_offset sg = Offset (of_nat j)" "j < length es"
      "seg_path sg = segment_path ?d (Offset (of_nat j))" using B sg by auto
    show "seg_base_offset sg \<noteq> sl_next_offset l" "seg_path sg \<noteq> segment_path ?d (sl_next_offset l)"
      using ne[OF j(2)] by (simp_all add: j nx)
  qed
  show "segment_path ?d (sl_next_offset l) \<notin> seg_path ` set (sl_segments l)"
    using other(2) by fastforce
  have "segment_path ?d (sl_next_offset l) \<notin> log_files fs ?d"
    unfolding files using other(1) by (fastforce simp: seg_offsets_def)
  then show "\<not> bt_contains fs (segment_path ?d (sl_next_offset l))"
    by (simp add: log_files_def)
qed

section \<open>Rolling and creating segments\<close>

text \<open>The parts of a log that no append changes, and the files outside its directory.\<close>

definition same_log :: "storage_log \<Rightarrow> storage_log \<Rightarrow> bool" where
  "same_log l l' \<longleftrightarrow> sl_config l' = sl_config l \<and> sl_topic l' = sl_topic l \<and>
     sl_partition l' = sl_partition l \<and> sl_partition_dir l' = sl_partition_dir l"

definition outside :: "path \<Rightarrow> fs \<Rightarrow> fs \<Rightarrow> bool" where
  "outside dir fs fs' \<longleftrightarrow> (\<forall>p. butlast p \<noteq> dir \<longrightarrow> bt_get fs' p = bt_get fs p)"

lemma same_log_refl [simp]: "same_log l l"
  by (simp add: same_log_def)

lemma same_log_trans: "same_log l l' \<Longrightarrow> same_log l' l'' \<Longrightarrow> same_log l l''"
  by (simp add: same_log_def)

lemma outside_refl [simp]: "outside dir fs fs"
  by (simp add: outside_def)

lemma outside_trans: "outside dir fs fs' \<Longrightarrow> outside dir fs' fs'' \<Longrightarrow> outside dir fs fs''"
  by (simp add: outside_def)

lemma outside_insert: "butlast p = dir \<Longrightarrow> outside dir fs (bt_insert p b fs)"
  by (auto simp: outside_def)

text \<open>No segment grows beyond the configured size, except by holding a single record.\<close>

definition log_sized :: "storage_log \<Rightarrow> bool" where
  "log_sized l \<longleftrightarrow> (\<forall>sg\<in>set (sl_segments l).
     seg_size_bytes sg \<le> unat (lc_max_segment_bytes (sl_config l)) \<or>
     offset_value (seg_next_offset sg) = offset_value (seg_base_offset sg) + 1)"

lemma create_active_holds:
  assumes h: "log_holds c fs l es" and full: "\<forall>sg\<in>set (sl_segments l). 0 < seg_size_bytes sg"
    and run: "create_active_segment io l fs = (r, l1, fs1)"
  shows "log_holds c fs1 l1 es" "same_log l l1" "outside (sl_partition_dir l) fs fs1"
    "r = Ok () \<and> sl_segments l1 \<noteq> [] \<and> seg_size_bytes (last (sl_segments l1)) = 0 \<or> (\<exists>m. r = Err (Io m)) \<and> l1 = l"
    "io_create_ok io \<Longrightarrow> r = Ok ()" "log_sized l \<Longrightarrow> log_sized l1"
proof -
  let ?d = "sl_partition_dir l" and ?p = "segment_path (sl_partition_dir l) (sl_next_offset l)"
  let ?sg = "\<lparr>seg_base_offset = sl_next_offset l, seg_next_offset = sl_next_offset l, seg_path = ?p,
    seg_size_bytes = 0\<rparr>"
  note fresh = log_holds_fresh[OF h full]
  from h have bs: "bt_sorted fs" and fit: "length es < 2 ^ 64"
    and nx: "sl_next_offset l = Offset (of_nat (length es))"
    and H: "segs_hold c fs (sl_topic l) (sl_partition l) ?d 0 (sl_segments l) es"
    and files: "log_files fs ?d = segment_path ?d ` set (seg_offsets (sl_segments l))"
    by (simp_all add: log_holds_def)
  have cong: "segs_hold c (bt_insert ?p [] fs) (sl_topic l) (sl_partition l) ?d 0 (sl_segments l) es"
    using H fresh(1) by (subst segs_hold_cong[where fs = fs]) (auto simp: image_iff)
  have one: "seg_holds c (bt_insert ?p [] fs) (sl_topic l) (sl_partition l) ?d (0 + length es) ?sg []"
    by (simp add: seg_holds_def nx)
  have new: "log_holds c (bt_insert ?p [] fs) (l\<lparr>sl_segments := sl_segments l @ [?sg]\<rparr>) es"
    unfolding log_holds_def
  proof (intro conjI)
    show "segs_hold c (bt_insert ?p [] fs) (sl_topic (l\<lparr>sl_segments := sl_segments l @ [?sg]\<rparr>))
       (sl_partition (l\<lparr>sl_segments := sl_segments l @ [?sg]\<rparr>))
       (sl_partition_dir (l\<lparr>sl_segments := sl_segments l @ [?sg]\<rparr>)) 0
       (sl_segments (l\<lparr>sl_segments := sl_segments l @ [?sg]\<rparr>)) es"
      using cong one by (simp add: segs_hold_snoc) (intro exI[of _ es] exI[of _ "[]"], simp)
  qed (use bs fit nx full files in \<open>auto simp: bt_sorted_insert log_files_insert seg_offsets_def\<close>)
  have res: "(r, l1, fs1) = (Ok (), l\<lparr>sl_segments := sl_segments l @ [?sg]\<rparr>, bt_insert ?p [] fs) \<or>
      (\<not> io_create_ok io \<and> (\<exists>m. r = Err (Io m)) \<and> l1 = l \<and> fs1 = fs)"
    using run fresh(2) by (auto simp: create_active_segment_def Let_def split: if_splits)
  show "log_holds c fs1 l1 es" using res new h by auto
  show "same_log l l1" using res by (auto simp: same_log_def)
  show "outside ?d fs fs1" using res by (auto intro: outside_insert)
  show "r = Ok () \<and> sl_segments l1 \<noteq> [] \<and> seg_size_bytes (last (sl_segments l1)) = 0 \<or> (\<exists>m. r = Err (Io m)) \<and> l1 = l"
    using res by auto
  show "io_create_ok io \<Longrightarrow> r = Ok ()" using res by auto
  show "log_sized l \<Longrightarrow> log_sized l1" using res by (auto simp: log_sized_def)
qed

text \<open>After rolling and creating, the last segment exists and has room for the frame.\<close>

definition has_room :: "storage_log \<Rightarrow> nat \<Rightarrow> bool" where
  "has_room l n \<longleftrightarrow> sl_segments l \<noteq> [] \<and>
     (let size = seg_size_bytes (last (sl_segments l)) in
      size = 0 \<or> size + n < 2 ^ 64 \<and> size + n \<le> unat (lc_max_segment_bytes (sl_config l)))"

definition prepare_segment ::
  "io_outcome \<Rightarrow> nat \<Rightarrow> storage_log \<Rightarrow> fs \<Rightarrow> nat storage_result \<times> storage_log \<times> fs" where
  "prepare_segment io n l fs =
     (case roll_if_needed io n l fs of
        (Ok u, l1, fs1) \<Rightarrow> ensure_active_segment io l1 fs1
      | (Err e, l1, fs1) \<Rightarrow> (Err e, l1, fs1)
      | (Panicked, l1, fs1) \<Rightarrow> (Panicked, l1, fs1))"

lemma log_holds_full_last:
  assumes "log_holds c fs l es" "sl_segments l = [] \<or> 0 < seg_size_bytes (last (sl_segments l))"
  shows "\<forall>sg\<in>set (sl_segments l). 0 < seg_size_bytes sg"
proof (cases "sl_segments l = []")
  case False
  then have "set (sl_segments l) = insert (last (sl_segments l)) (set (butlast (sl_segments l)))"
    by (metis append_butlast_last_id list.simps(15) rotate1.simps(2) set_rotate1)
  with False assms show ?thesis by (auto simp: log_holds_def)
qed simp

lemma prepare_holds:
  assumes h: "log_holds c fs l es" and run: "prepare_segment io n l fs = (r, l1, fs1)"
  shows "log_holds c fs1 l1 es \<and> same_log l l1 \<and> outside (sl_partition_dir l) fs fs1 \<and>
    (r = Ok (length (sl_segments l1) - 1) \<and> has_room l1 n \<or> (\<exists>m. r = Err (Io m)) \<and> l1 = l) \<and>
    (io_create_ok io \<longrightarrow> (\<exists>i. r = Ok i)) \<and> (log_sized l \<longrightarrow> log_sized l1)"
proof -
  obtain r0 l0 fs0 where roll: "roll_if_needed io n l fs = (r0, l0, fs0)" by (metis prod_cases3)
  show ?thesis
  proof (cases "sl_segments l = []")
    case True
    then have "r0 = Ok ()" "l0 = l" "fs0 = fs" using roll by (simp_all add: roll_if_needed_def)
    moreover obtain rc lc fc where cr: "create_active_segment io l fs = (rc, lc, fc)" by (metis prod_cases3)
    moreover note C = create_active_holds[OF h _ cr]
    ultimately show ?thesis using True run roll
      by (auto simp: prepare_segment_def ensure_active_segment_def has_room_def split: rres.splits)
  next
    case False
    show ?thesis
    proof (cases "r0 = Ok () \<and> l0 = l \<and> fs0 = fs \<and> has_room l n")
      case True
      with False run roll h show ?thesis by (auto simp: prepare_segment_def ensure_active_segment_def)
    next
      case not_room: False
      have cr: "create_active_segment io l fs = (r0, l0, fs0)" and full: "0 < seg_size_bytes (last (sl_segments l))"
        using roll not_room False by (auto simp: roll_if_needed_def has_room_def Let_def split: if_splits)
      note C = create_active_holds[OF h log_holds_full_last[OF h disjI2[OF full]] cr]
      show ?thesis using C run roll False
        by (auto simp: prepare_segment_def ensure_active_segment_def has_room_def split: rres.splits)
    qed
  qed
qed

end
