(* ===== verification/Storage_Append.thy ===== *)
theory Storage_Append
  imports Storage_Log
begin

text \<open>
  Appending to a partition log. Whatever the write calls do, an append that returns an offset has
  added exactly one record at that offset, an append that returns an error leaves the stored records
  as they were, and only a rollback that itself fails leaves bytes of a torn frame behind.
\<close>

section \<open>Logs over equal files\<close>

lemma log_holds_cong:
  assumes "bt_sorted fs'" "\<And>p. bt_get fs' p = bt_get fs p" "log_holds c fs l es"
  shows "log_holds c fs' l es"
proof -
  have "log_files fs' (sl_partition_dir l) = log_files fs (sl_partition_dir l)"
    using assms(2) by (simp add: log_files_def bt_contains_iff)
  moreover have "segs_hold c fs' (sl_topic l) (sl_partition l) (sl_partition_dir l) 0 (sl_segments l) es"
    using assms(3) by (subst segs_hold_cong[where fs = fs]) (simp_all add: assms(2) log_holds_def)
  ultimately show ?thesis using assms(1,3) by (simp add: log_holds_def)
qed

lemma segs_hold_paths:
  "segs_hold c fs t p dir k sgs es \<Longrightarrow> \<forall>sg\<in>set sgs. seg_path sg = segment_path dir (seg_base_offset sg)"
proof (induction sgs arbitrary: k es)
  case (Cons sg sgs)
  then obtain es1 es2 where "seg_holds c fs t p dir k sg es1" "segs_hold c fs t p dir (k + length es1) sgs es2"
    by auto
  with Cons.IH show ?case by (auto simp: seg_holds_def)
qed simp

lemma log_holds_paths:
  "log_holds c fs l es \<Longrightarrow>
     \<forall>sg\<in>set (sl_segments l). seg_path sg = segment_path (sl_partition_dir l) (seg_base_offset sg)"
  by (auto simp: log_holds_def dest: segs_hold_paths)

text \<open>The last segment has a file of its own.\<close>

lemma log_holds_last_path:
  assumes h: "log_holds c fs l es" and sgs: "sl_segments l = sgs @ [sg]"
  shows "\<forall>s\<in>set sgs. seg_path s \<noteq> seg_path sg"
proof
  fix s assume s: "s \<in> set sgs"
  have "seg_base_offset s < seg_base_offset sg"
    using log_holds_offsets[OF h] s by (auto simp: sgs seg_offsets_def sorted_wrt_append)
  with log_holds_paths[OF h] s show "seg_path s \<noteq> seg_path sg" by (auto simp: sgs)
qed

section \<open>Torn logs\<close>

text \<open>The log \<^verbatim>\<open>l\<close> holds \<^verbatim>\<open>es\<close> but for the bytes \<^verbatim>\<open>tail\<close> at the end of its last file.\<close>

definition log_torn ::
  "record_codec \<Rightarrow> fs \<Rightarrow> storage_log \<Rightarrow> message_envelope list \<Rightarrow> bytes \<Rightarrow> bool" where
  "log_torn c fs l es tail \<longleftrightarrow> sl_segments l \<noteq> [] \<and> bt_sorted fs \<and>
     (\<exists>bs. bt_get fs (seg_path (last (sl_segments l))) = Some (bs @ tail) \<and>
        seg_size_bytes (last (sl_segments l)) = length bs \<and>
        log_holds c (bt_insert (seg_path (last (sl_segments l))) bs fs) l es)"

lemma log_torn_Nil:
  assumes "log_holds c fs l es" "sl_segments l \<noteq> []"
  shows "log_torn c fs l es []"
proof -
  obtain sgs sg and es1 es2 :: "message_envelope list" where L: "sl_segments l = sgs @ [sg]" 
    "seg_holds c fs (sl_topic l) (sl_partition l) (sl_partition_dir l) (length es1) sg es2"
    by (rule log_holds_last[OF assms]) blast
  then obtain bs where bs: "bt_get fs (seg_path sg) = Some bs" "seg_size_bytes sg = length bs"
    by (auto simp: seg_holds_def)
  have s: "bt_sorted fs" using assms(1) by (simp add: log_holds_def)
  have "log_holds c (bt_insert (seg_path sg) bs fs) l es"
    by (rule log_holds_cong[OF bt_sorted_insert[OF s] _ assms(1)]) (simp add: bs)
  with s bs L show ?thesis by (simp add: log_torn_def)
qed

section \<open>Writing the frame\<close>

definition push_record :: "storage_log \<Rightarrow> nat \<Rightarrow> offset \<Rightarrow> storage_log" where
  "push_record l n next = 
     (let sg = last (sl_segments l) in
      l\<lparr>sl_segments := butlast (sl_segments l) @
          [sg\<lparr>seg_size_bytes := seg_size_bytes sg + n, seg_next_offset := next\<rparr>],
        sl_next_offset := next\<rparr>)"

lemma push_record_holds:
  assumes h: "log_torn c fs l es tail" and fit: "length es + 1 < 2 ^ 64"
    and fr: "framed c (record_for (sl_topic l) (sl_partition l) (length es) e) tail"
  shows "log_holds c fs (push_record l (length tail) (Offset (of_nat (Suc (length es))))) (es @ [e])"
proof -
  let ?t = "sl_topic l" and ?p = "sl_partition l" and ?d = "sl_partition_dir l"
  let ?sg = "last (sl_segments l)" and ?next = "Offset (of_nat (Suc (length es)))"
  from h obtain bs where ne: "sl_segments l \<noteq> []" and srt: "bt_sorted fs"
    and bs: "bt_get fs (seg_path ?sg) = Some (bs @ tail)" "seg_size_bytes ?sg = length bs"
    and hold: "log_holds c (bt_insert (seg_path ?sg) bs fs) l es"
    by (auto simp: log_torn_def)
  let ?fs = "bt_insert (seg_path ?sg) bs fs"
  obtain sgs sg es1 es2 where L: "sl_segments l = sgs @ [sg]" "es = es1 @ es2"
    "segs_hold c ?fs ?t ?p ?d 0 sgs es1" "seg_holds c ?fs ?t ?p ?d (length es1) sg es2"
    "\<forall>s\<in>set sgs. 0 < seg_size_bytes s"
    using log_holds_last[OF hold ne] by metis
  have sg: "?sg = sg" using L(1) by simp
  have enc: "encodes c ?t ?p (length es1) es2 bs" using L(4) by (simp add: seg_holds_def sg)
  then have enc': "encodes c ?t ?p (length es1) (es2 @ [e]) (bs @ tail)"
    using fr by (simp add: encodes_append L(2)) blast
  have others: "segs_hold c fs ?t ?p ?d 0 sgs es1"
    using L(3) log_holds_last_path[OF hold L(1)] by (subst segs_hold_cong[where fs = ?fs]) (auto simp: sg)
  have this_seg: "seg_holds c fs ?t ?p ?d (length es1)
      (sg\<lparr>seg_size_bytes := seg_size_bytes sg + length tail, seg_next_offset := ?next\<rparr>) (es2 @ [e])"
    using L(4) enc' bs by (simp add: seg_holds_def sg L(2))
  have segs: "segs_hold c fs ?t ?p ?d 0
      (sgs @ [sg\<lparr>seg_size_bytes := seg_size_bytes sg + length tail, seg_next_offset := ?next\<rparr>]) (es @ [e])"
    unfolding segs_hold_snoc using others this_seg L(2) by (intro exI[of _ es1] exI[of _ "es2 @ [e]"]) simp
  have files: "log_files fs ?d = segment_path ?d ` set (seg_offsets (sl_segments l))"
  proof -
    have "log_files ?fs ?d = log_files fs ?d" using bs(1) by (auto simp: log_files_def bt_contains_iff)
    with hold show ?thesis by (simp add: log_holds_def)
  qed
  show ?thesis
    unfolding log_holds_def
    using srt fit segs files L(5) by (simp add: push_record_def Let_def L(1) seg_offsets_def)
qed

lemma push_record_sized:
  assumes h: "log_holds c fs l es" and room: "has_room l n" and s: "log_sized l"
  shows "log_sized (push_record l n (Offset (of_nat (Suc (length es)))))"
proof -
  from room have ne: "sl_segments l \<noteq> []" by (simp add: has_room_def)
  obtain sgs sg es1 es2 where L: "sl_segments l = sgs @ [sg]" "es = es1 @ es2"
    "segs_hold c fs (sl_topic l) (sl_partition l) (sl_partition_dir l) 0 sgs es1"
    "seg_holds c fs (sl_topic l) (sl_partition l) (sl_partition_dir l) (length es1) sg es2"
    "\<forall>s\<in>set sgs. 0 < seg_size_bytes s"
    using log_holds_last[OF h ne] by metis
  have "seg_base_offset sg = Offset (of_nat (length es1))" using L(4) by (simp add: seg_holds_def)
  moreover have "seg_size_bytes sg = 0 \<Longrightarrow> length es = length es1" using seg_holds_size[OF L(4)] L(2) by simp
  ultimately show ?thesis
    using room s by (auto simp: log_sized_def push_record_def has_room_def Let_def L(1))
qed

lemma append_frame_cases:
  assumes h: "log_holds c fs l es" and ne: "sl_segments l \<noteq> []"
    and run: "append_frame_with_rollback io (seg_path (last (sl_segments l))) frame
      (seg_size_bytes (last (sl_segments l))) fs = (r, fs')"
  shows "outside (sl_partition_dir l) fs fs'"
    "r = Ok () \<and> log_torn c fs' l es frame \<or> (\<exists>m. r = Err (Io m)) \<and> log_holds c fs' l es \<or>
     (\<exists>n q m. io_failed_after io = Some n \<and> \<not> io_set_len_ok io \<and> r = Err (CorruptSegment q m) \<and>
        log_torn c fs' l es (take n frame))"
    "io_open_ok io \<Longrightarrow> io_failed_after io = None \<Longrightarrow> r = Ok ()"
proof -
  let ?sg = "last (sl_segments l)" and ?d = "sl_partition_dir l"
  from log_torn_Nil[OF h ne] obtain bs where srt: "bt_sorted fs"
    and bs: "bt_get fs (seg_path ?sg) = Some bs" "seg_size_bytes ?sg = length bs" by (auto simp: log_torn_def)
  have tear: "log_torn c (bt_insert (seg_path ?sg) (bs @ tl) fs) l es tl" for tl
  proof -
    have "log_holds c (bt_insert (seg_path ?sg) bs (bt_insert (seg_path ?sg) (bs @ tl) fs)) l es"
      by (rule log_holds_cong[OF _ _ h]) (simp_all add: bt_sorted_insert srt bs)
    then show ?thesis using srt ne bs by (simp add: log_torn_def bt_sorted_insert)
  qed
  have whole: "log_holds c (bt_insert (seg_path ?sg) bs fs) l es"
    by (rule log_holds_cong[OF _ _ h]) (simp_all add: bt_sorted_insert srt bs)
  have trim: "set_len (length bs) (bs @ tl) = bs" for tl by (simp add: set_len_def)
  have dir: "butlast (seg_path ?sg) = ?d" using log_holds_paths[OF h] ne by simp
  consider (closed) "\<not> io_open_ok io" "\<exists>m. r = Err (Io m)" "fs' = fs"
    | (written) "io_open_ok io" "io_failed_after io = None" "r = Ok ()" "fs' = bt_insert (seg_path ?sg) (bs @ frame) fs"
    | (undone) n where "io_failed_after io = Some n" "\<exists>m. r = Err (Io m)" "fs' = bt_insert (seg_path ?sg) bs fs"
    | (left_over) n q m where "io_failed_after io = Some n" "\<not> io_set_len_ok io" "r = Err (CorruptSegment q m)"
        "fs' = bt_insert (seg_path ?sg) (bs @ take n frame) fs"
    using run bs by (auto simp: append_frame_with_rollback_def Let_def trim split: if_splits option.splits)
  note cases = this
  show "outside ?d fs fs'" by (rule cases) (auto intro: outside_insert[OF dir])
  show "r = Ok () \<and> log_torn c fs' l es frame \<or> (\<exists>m. r = Err (Io m)) \<and> log_holds c fs' l es \<or>
     (\<exists>n q m. io_failed_after io = Some n \<and> \<not> io_set_len_ok io \<and> r = Err (CorruptSegment q m) \<and>
        log_torn c fs' l es (take n frame))"
    by (rule cases) (use h tear whole in auto)
  show "io_open_ok io \<Longrightarrow> io_failed_after io = None \<Longrightarrow> r = Ok ()" by (rule cases) auto
qed

section \<open>The whole append\<close>

text \<open>\<^verbatim>\<open>StorageLog_append\<close> once the frame is known.\<close>

lemma append_prepared:
  assumes nx: "sl_next_offset l = Offset (of_nat k)" and k: "k + 1 < 2 ^ 64"
    and tv: "to_vec c (record_for (sl_topic l) (sl_partition l) k e) = Some payload" and pl: "length payload < 2 ^ 32"
    and pr: "prepare_segment io (length (frame_of c payload)) l fs = (Ok i, l2, fs2)"
    and i: "i = length (sl_segments l2) - 1" and room: "has_room l2 (length (frame_of c payload))"
    and wr: "append_frame_with_rollback io (seg_path (last (sl_segments l2))) (frame_of c payload)
      (seg_size_bytes (last (sl_segments l2))) fs2 = (r, fs3)"
  shows "StorageLog_append c io e l fs =
    (case r of Ok v \<Rightarrow> (Ok (Offset (of_nat k)),
        push_record l2 (length (frame_of c payload)) (Offset (of_nat (Suc k))), fs3)
     | Err err \<Rightarrow> (Err err, l2, fs3) | Panicked \<Rightarrow> (Panicked, l2, fs3))"
proof -
  from room have ne: "sl_segments l2 \<noteq> []" by (simp add: has_room_def)
  have nth: "sl_segments l2 ! i = last (sl_segments l2)" using ne i by (simp add: last_conv_nth)
  have upd: "(sl_segments l2)[i := x] = butlast (sl_segments l2) @ [x]" for x
    using ne i by (metis append_butlast_last_id length_butlast list_update_length)
  have small: "\<not> 2 ^ 64 \<le> seg_size_bytes (last (sl_segments l2)) + length (frame_of c payload)"
    using room pl by (auto simp: has_room_def Let_def length_frame_of)
  obtain u l1 fs1 where roll: "roll_if_needed io (length (frame_of c payload)) l fs = (Ok u, l1, fs1)"
    and ens: "ensure_active_segment io l1 fs1 = (Ok i, l2, fs2)"
    using pr by (auto simp: prepare_segment_def split: prod.splits rres.splits)
  show ?thesis
    using tv pl roll ens wr small
    by (simp add: StorageLog_append_def Let_def nx increment_offset_Ok[OF k] record_for_def nth upd
        encode_frame_Ok_iff[THEN iffD2, OF conjI[OF pl refl]] push_record_def split: rres.splits)
qed

lemma append_outcome:
  assumes h: "log_holds c fs l es" and fit: "length es + 1 < 2 ^ 64"
    and run: "StorageLog_append c io e l fs = (r, l', fs')"
  shows "same_log l l' \<and> outside (sl_partition_dir l) fs fs' \<and> (log_sized l \<longrightarrow> log_sized l') \<and>
    (r = Ok (Offset (of_nat (length es))) \<and> log_holds c fs' l' (es @ [e]) \<or>
     (\<exists>err. r = Err err) \<and> log_holds c fs' l' es \<or>
     (\<exists>n q m frame. io_failed_after io = Some n \<and> \<not> io_set_len_ok io \<and> r = Err (CorruptSegment q m) \<and>
        framed c (record_for (sl_topic l) (sl_partition l) (length es) e) frame \<and>
        log_torn c fs' l' es (take n frame)))"
proof -
  let ?rec = "record_for (sl_topic l) (sl_partition l) (length es) e"
  from h have nx: "sl_next_offset l = Offset (of_nat (length es))" by (simp add: log_holds_def)
  note inc = increment_offset_Ok[OF fit]
  show ?thesis
  proof (cases "to_vec c ?rec")
    case None
    then have "(\<exists>err. r = Err err) \<and> l' = l \<and> fs' = fs"
      using run by (auto simp: StorageLog_append_def Let_def nx inc record_for_def)
    then show ?thesis using h by auto
  next
    case (Some payload)
    show ?thesis
    proof (cases "length payload < 2 ^ 32")
      case False
      then have "(\<exists>err. r = Err err) \<and> l' = l \<and> fs' = fs"
        using run Some by (auto simp: StorageLog_append_def Let_def nx inc record_for_def encode_frame_def)
      then show ?thesis using h by auto
    next
      case pl: True
      let ?frame = "frame_of c payload"
      have fr: "framed c ?rec ?frame" using Some pl by (auto simp: framed_def)
      obtain rp l2 fs2 where pr: "prepare_segment io (length ?frame) l fs = (rp, l2, fs2)" by (metis prod_cases3)
      note P = prepare_holds[OF h pr]
      then have h2: "log_holds c fs2 l2 es" and s2: "same_log l l2" and o2: "outside (sl_partition_dir l) fs fs2"
        and z2: "log_sized l \<longrightarrow> log_sized l2" by blast+
      show ?thesis
      proof (cases rp)
        case (Ok i)
        with P have i: "i = length (sl_segments l2) - 1" and room: "has_room l2 (length ?frame)" by auto
        then have ne: "sl_segments l2 \<noteq> []" by (simp add: has_room_def)
        obtain rw fs3 where wr: "append_frame_with_rollback io (seg_path (last (sl_segments l2))) ?frame
            (seg_size_bytes (last (sl_segments l2))) fs2 = (rw, fs3)" by (metis surj_pair)
        note A = append_frame_cases[OF h2 ne wr]
        have d2: "sl_partition_dir l2 = sl_partition_dir l" "sl_topic l2 = sl_topic l"
          "sl_partition l2 = sl_partition l" using s2 by (simp_all add: same_log_def)
        note run' = append_prepared[OF nx fit Some pl pr[unfolded Ok] i room wr]
        have o3: "outside (sl_partition_dir l) fs fs3" using outside_trans[OF o2] A(1) d2 by simp
        from A(2) consider (ok) "rw = Ok ()" "log_torn c fs3 l2 es ?frame"
          | (undone) m where "rw = Err (Io m)" "log_holds c fs3 l2 es"
          | (left_over) n q m where "io_failed_after io = Some n" "\<not> io_set_len_ok io" "rw = Err (CorruptSegment q m)"
              "log_torn c fs3 l2 es (take n ?frame)" by blast
        then show ?thesis
        proof cases
          case ok
          have "log_holds c fs3 (push_record l2 (length ?frame) (Offset (of_nat (Suc (length es))))) (es @ [e])"
            by (rule push_record_holds[OF ok(2) fit]) (simp add: d2 fr)
          moreover have "same_log l (push_record l2 n x)" for n x
            using s2 by (simp add: same_log_def push_record_def Let_def)
          ultimately show ?thesis using run run' ok o3 z2 push_record_sized[OF h2 room] by auto
        next
          case undone
          then show ?thesis using run run' o3 s2 z2 by auto
        next
          case left_over
          then show ?thesis using run run' o3 s2 z2 fr by auto
        qed
      next
        case (Err err)
        then have "r = Err err \<and> l' = l2 \<and> fs' = fs2" 
          using run pr Some pl
          by (auto simp: prepare_segment_def StorageLog_append_def Let_def nx inc record_for_def encode_frame_def
              frame_of_def split: prod.splits rres.splits)
        then show ?thesis using h2 s2 o2 z2 by auto
      next
        case Panicked
        with P show ?thesis by auto
      qed
    qed
  qed
qed

text \<open>When the record can be encoded and every call succeeds, the append succeeds.\<close>

lemma append_succeeds:
  assumes h: "log_holds c fs l es" and fit: "length es + 1 < 2 ^ 64"
    and fr: "framed c (record_for (sl_topic l) (sl_partition l) (length es) e) frame"
    and io: "io_create_ok io" "io_open_ok io" "io_failed_after io = None"
  shows "\<exists>l' fs'. StorageLog_append c io e l fs = (Ok (Offset (of_nat (length es))), l', fs')"
proof -
  from h have nx: "sl_next_offset l = Offset (of_nat (length es))" by (simp add: log_holds_def)
  from fr obtain payload where tv: "to_vec c (record_for (sl_topic l) (sl_partition l) (length es) e) = Some payload"
    and pl: "length payload < 2 ^ 32" by (auto simp: framed_def)
  obtain rp l2 fs2 where pr: "prepare_segment io (length (frame_of c payload)) l fs = (rp, l2, fs2)"
    by (metis prod_cases3)
  note P = prepare_holds[OF h pr]
  with io(1) obtain i where Ok: "rp = Ok i" by blast
  with P have i: "i = length (sl_segments l2) - 1" and room: "has_room l2 (length (frame_of c payload))"
    and h2: "log_holds c fs2 l2 es" by auto
  then have ne: "sl_segments l2 \<noteq> []" by (simp add: has_room_def)
  obtain rw fs3 where wr: "append_frame_with_rollback io (seg_path (last (sl_segments l2))) (frame_of c payload)
      (seg_size_bytes (last (sl_segments l2))) fs2 = (rw, fs3)" by (metis surj_pair)
  show ?thesis
    using append_prepared[OF nx fit tv pl pr[unfolded Ok] i room wr] append_frame_cases(3)[OF h2 ne wr io(2,3)]
    by simp
qed

end
