(* ===== verification/Storage_Recovery.thy ===== *)
theory Storage_Recovery
  imports Storage_Append
begin

text \<open>
  Opening a partition directory. Recovery rebuilds from the files the very log value that wrote them,
  cutting off a torn frame at the end, and reading returns the appended messages by offset.
\<close>

lemma bt_insert_same: "bt_sorted m \<Longrightarrow> bt_get m k = Some v \<Longrightarrow> bt_insert k v m = m"
proof (induction m)
  case (Cons kv m)
  obtain k' v' where kv: "kv = (k', v')" by (metis surj_pair)
  have s: "bt_sorted m" and lt: "\<forall>x\<in>fst ` set m. k' < x" using Cons.prems(1) by (auto simp: bt_sorted_def kv)
  show ?case
  proof (cases "k = k'")
    case True
    then show ?thesis using Cons.prems(2) by (simp add: kv bt_get_def)
  next
    case False
    then have g: "bt_get m k = Some v" using Cons.prems(2) by (auto simp: kv bt_get_def)
    then have "k' < k" using lt bt_get_in_set[OF g] by force
    then show ?thesis using Cons.IH[OF s g] False by (auto simp: kv)
  qed
qed simp

section \<open>Scanning the segments of a log\<close>

abbreviation segment_file_of :: "path \<Rightarrow> offset \<Rightarrow> segment_file" where
  "segment_file_of dir off \<equiv> \<lparr>sf_base_offset = off, sf_path = segment_path dir off\<rparr>"

lemma scan_held:
  assumes "codec_ok c" "bt_sorted fs" "seg_holds c fs t p dir k sg es" "k + length es < 2 ^ 64"
  shows "scan_segment c fs (segment_path dir (Offset (of_nat k))) t p (Offset (of_nat k)) mode =
    (Ok \<lparr>scan_records = stored_records t p k es, scan_next_offset = seg_next_offset sg,
         scan_size_bytes = seg_size_bytes sg\<rparr>, fs)"
proof -
  from assms(3) obtain bs where bs: "bt_get fs (segment_path dir (Offset (of_nat k))) = Some bs"
    "encodes c t p k es bs" "seg_size_bytes sg = length bs" "seg_next_offset sg = Offset (of_nat (k + length es))"
    by (auto simp: seg_holds_def)
  show ?thesis
    using scan_encoded[OF assms(1) bs(2) assms(4), of "segment_path dir (Offset (of_nat k))" mode]
    by (simp add: scan_segment_def bs(1,3,4) bt_insert_same[OF assms(2) bs(1)])
qed

lemma seg_holds_record:
  assumes "seg_holds c fs t p dir k sg es"
  shows "\<lparr>seg_base_offset = Offset (of_nat k), seg_next_offset = seg_next_offset sg,
      seg_path = segment_path dir (Offset (of_nat k)), seg_size_bytes = seg_size_bytes sg\<rparr> = sg"
  using assms by (cases sg) (simp add: seg_holds_def)

lemma recover_full:
  assumes "codec_ok c" "bt_sorted fs" "segs_hold c fs t p dir k sgs es" "\<forall>sg\<in>set sgs. 0 < seg_size_bytes sg"
    "k + length es < 2 ^ 64" "rest \<noteq> []"
  shows "recover_segments c t p (map (segment_file_of dir) (seg_offsets sgs) @ rest) (Offset (of_nat k)) acc fs =
    recover_segments c t p rest (Offset (of_nat (k + length es))) (acc @ sgs) fs"
  using assms
proof (induction sgs arbitrary: k es acc)
  case Nil
  then show ?case by (simp add: seg_offsets_def)
next
  case (Cons sg sgs)
  then obtain es1 es2 where es: "es = es1 @ es2" and sg: "seg_holds c fs t p dir k sg es1"
    and rest: "segs_hold c fs t p dir (k + length es1) sgs es2" by auto
  have k1: "k + length es1 < 2 ^ 64" "(k + length es1) + length es2 < 2 ^ 64" using Cons.prems(5) es by auto
  have base: "seg_base_offset sg = Offset (of_nat k)" "seg_next_offset sg = Offset (of_nat (k + length es1))"
    using sg by (simp_all add: seg_holds_def)
  have ne: "map (segment_file_of dir) (seg_offsets sgs) @ rest \<noteq> []" using Cons.prems(6) by simp
  have "recover_segments c t p (map (segment_file_of dir) (seg_offsets (sg # sgs)) @ rest) (Offset (of_nat k)) acc fs =
      recover_segments c t p (map (segment_file_of dir) (seg_offsets sgs) @ rest) (seg_next_offset sg) (acc @ [sg]) fs"
    using Cons.prems(4,6) scan_held[OF Cons.prems(1,2) sg k1(1), of ScanMode_STRICT] seg_holds_record[OF sg] ne
    by (simp add: seg_offsets_def base(1) Let_def)
  also have "\<dots> = recover_segments c t p rest (Offset (of_nat (k + length es1 + length es2))) ((acc @ [sg]) @ sgs) fs"
    unfolding base(2) using Cons.prems(4) by (intro Cons.IH[OF Cons.prems(1,2) rest _ k1(2) Cons.prems(6)]) simp
  finally show ?case by (simp add: es add.assoc)
qed

section \<open>Reopening\<close>

definition opens_at :: "storage_log \<Rightarrow> bool" where
  "opens_at l \<longleftrightarrow> sl_partition_dir l = partition_dir (lc_root_dir (sl_config l)) (sl_topic l) (sl_partition l) \<and>
     lc_max_segment_bytes (sl_config l) \<noteq> 0"

definition reopen :: "record_codec \<Rightarrow> storage_log \<Rightarrow> fs \<Rightarrow> storage_log storage_result \<times> fs" where
  "reopen c l fs = StorageLog_open c (sl_config l) (sl_topic l) (sl_partition l) fs"

lemma open_unfold:
  assumes "opens_at l" "log_files fs (sl_partition_dir l) = segment_path (sl_partition_dir l) ` set offs"
    "bt_sorted fs" "sorted_wrt (<) offs"
    "recover_segments c (sl_topic l) (sl_partition l) (map (segment_file_of (sl_partition_dir l)) offs) (Offset 0) [] fs =
       (Ok (sl_segments l, sl_next_offset l), fs')"
  shows "reopen c l fs = (Ok l, fs')"
  using assms(1,5) discover_segments[OF assms(3,4,2)]
  by (cases l) (simp add: reopen_def StorageLog_open_def validate_config_def opens_at_def StorageLog_recover_def)

lemma reopen_empty:
  assumes h: "log_holds c fs l es" and op: "opens_at l" and e: "sl_segments l = []"
  shows "reopen c l fs = (Ok l, fs)"
proof -
  from h e have "es = []" "bt_sorted fs" "sl_next_offset l = Offset 0" "log_files fs (sl_partition_dir l) = {}"
    by (simp_all add: log_holds_def seg_offsets_def)
  then show ?thesis using e by (intro open_unfold[OF op, of _ "[]"]) simp_all
qed

lemma reopen_torn:
  assumes ok: "codec_ok c" and h: "log_torn c fs l es tail" and tail: "cut_off tail" and op: "opens_at l"
  shows "\<exists>fs'. reopen c l fs = (Ok l, fs') \<and> log_holds c fs' l es \<and> outside (sl_partition_dir l) fs fs' \<and>
    (tail = [] \<longrightarrow> fs' = fs)"
proof -
  let ?t = "sl_topic l" and ?p = "sl_partition l" and ?d = "sl_partition_dir l" and ?sg = "last (sl_segments l)"
  from h obtain bs where ne: "sl_segments l \<noteq> []" and srt: "bt_sorted fs"
    and bs: "bt_get fs (seg_path ?sg) = Some (bs @ tail)" "seg_size_bytes ?sg = length bs"
    and hold: "log_holds c (bt_insert (seg_path ?sg) bs fs) l es"
    by (auto simp: log_torn_def)
  let ?fs = "bt_insert (seg_path ?sg) bs fs"
  obtain sgs sg es1 es2 where L: "sl_segments l = sgs @ [sg]" "es = es1 @ es2"
    "segs_hold c ?fs ?t ?p ?d 0 sgs es1" "seg_holds c ?fs ?t ?p ?d (length es1) sg es2"
    "\<forall>s\<in>set sgs. 0 < seg_size_bytes s"
    using log_holds_last[OF hold ne] by metis
  have sg: "?sg = sg" using L(1) by simp
  have fit: "length es1 + length es2 < 2 ^ 64" using hold L(2) by (simp add: log_holds_def)
  have sgp: "seg_base_offset sg = Offset (of_nat (length es1))" "seg_path sg = segment_path ?d (Offset (of_nat (length es1)))"
    using L(4) by (simp_all add: seg_holds_def)
  have enc: "encodes c ?t ?p (length es1) es2 bs" and nx: "seg_next_offset sg = Offset (of_nat (length es1 + length es2))"
    using L(4) by (simp_all add: seg_holds_def sg)
  have others: "segs_hold c fs ?t ?p ?d 0 sgs es1"
    using L(3) log_holds_last_path[OF hold L(1)] by (subst segs_hold_cong[where fs = ?fs]) (auto simp: sg)
  have lastscan: "scan_segment c fs (segment_path ?d (Offset (of_nat (length es1)))) ?t ?p (Offset (of_nat (length es1)))
      ScanMode_RECOVER_FINAL =
    (Ok \<lparr>scan_records = stored_records ?t ?p (length es1) es2, scan_next_offset = seg_next_offset sg,
         scan_size_bytes = seg_size_bytes sg\<rparr>, ?fs)"
    using scan_recovers[OF ok enc fit tail, of "segment_path ?d (Offset (of_nat (length es1)))"] bs nx
    by (simp add: scan_segment_def sg sgp)
  have files: "log_files fs ?d = segment_path ?d ` set (seg_offsets (sl_segments l))"
  proof -
    have "log_files ?fs ?d = log_files fs ?d" using bs(1) by (auto simp: log_files_def bt_contains_iff)
    with hold show ?thesis by (simp add: log_holds_def)
  qed
  have rec1: "recover_segments c ?t ?p (map (segment_file_of ?d) (seg_offsets (sl_segments l))) (Offset 0) [] fs =
      recover_segments c ?t ?p [segment_file_of ?d (Offset (of_nat (length es1)))] (Offset (of_nat (length es1))) sgs fs"
    using recover_full[OF ok srt others L(5), of "[segment_file_of ?d (Offset (of_nat (length es1)))]" "[]"] fit
    by (simp add: L(1) seg_offsets_def sgp)
  have rec2: "recover_segments c ?t ?p [segment_file_of ?d (Offset (of_nat (length es1)))] (Offset (of_nat (length es1))) sgs fs =
      (Ok (sgs @ [sg], seg_next_offset sg), ?fs)"
    using lastscan seg_holds_record[OF L(4)] by simp
  have "reopen c l fs = (Ok l, ?fs)"
    using rec1 rec2 hold nx L(1,2)
    by (intro open_unfold[OF op files srt log_holds_offsets[OF hold]]) (simp add: log_holds_def)
  moreover have "outside ?d fs ?fs" by (rule outside_insert) (simp add: sg sgp)
  moreover have "tail = [] \<longrightarrow> ?fs = fs" using bt_insert_same[OF srt] bs(1) by simp
  ultimately show ?thesis using hold by blast
qed

lemma reopen_same:
  assumes "codec_ok c" "log_holds c fs l es" "opens_at l"
  shows "reopen c l fs = (Ok l, fs)"
proof (cases "sl_segments l = []")
  case True
  then show ?thesis using reopen_empty[OF assms(2,3)] by simp
next
  case False
  have "cut_off []" by (simp add: cut_off_def)
  from reopen_torn[OF assms(1) log_torn_Nil[OF assms(2) False] this assms(3)] show ?thesis by auto
qed

lemma reopen_holds:
  assumes "codec_ok c" "log_holds c fs l es" "opens_at l"
  shows "\<exists>fs'. reopen c l fs = (Ok l, fs') \<and> log_holds c fs' l es \<and> outside (sl_partition_dir l) fs fs'"
  using reopen_same[OF assms] assms(2) by simp

text \<open>After an append, whatever became of it, the log opens again with or without the new record.\<close>

lemma framed_torn: "framed c r frame \<Longrightarrow> n < length frame \<Longrightarrow> torn c (take n frame)"
  unfolding framed_def torn_def by blast

lemma append_reopen:
  assumes ok: "codec_ok c" and h: "log_holds c fs l es" and fit: "length es + 1 < 2 ^ 64" and op: "opens_at l"
    and run: "StorageLog_append c io e l fs = (r, l', fs')"
  shows "\<exists>l'' fs'' es'. reopen c l' fs' = (Ok l'', fs'') \<and> log_holds c fs'' l'' es' \<and> same_log l l'' \<and>
    (es' = es \<or> es' = es @ [e]) \<and> (is_ok r \<longrightarrow> es' = es @ [e] \<and> l'' = l')"
proof -
  from append_outcome[OF h fit run] have same: "same_log l l'"
    and cases: "r = Ok (Offset (of_nat (length es))) \<and> log_holds c fs' l' (es @ [e]) \<or>
     (\<exists>err. r = Err err) \<and> log_holds c fs' l' es \<or>
     (\<exists>n q m frame. io_failed_after io = Some n \<and> \<not> io_set_len_ok io \<and> r = Err (CorruptSegment q m) \<and>
        framed c (record_for (sl_topic l) (sl_partition l) (length es) e) frame \<and>
        log_torn c fs' l' es (take n frame))" by blast+
  have op': "opens_at l'" using op same by (simp add: opens_at_def same_log_def)
  from cases consider (done') "is_ok r" "log_holds c fs' l' (es @ [e])" | (kept) "\<not> is_ok r" "log_holds c fs' l' es"
    | (left_over) n frame where "\<not> is_ok r"
      "framed c (record_for (sl_topic l) (sl_partition l) (length es) e) frame" "log_torn c fs' l' es (take n frame)"
    by auto
  then show ?thesis
  proof cases
    case done'
    then show ?thesis using reopen_holds[OF ok done'(2) op'] same by blast
  next
    case kept
    then show ?thesis using reopen_holds[OF ok kept(2) op'] same by blast
  next
    case left_over
    show ?thesis
    proof (cases "n < length frame")
      case True
      show ?thesis using reopen_torn[OF ok left_over(3) torn_cut_off[OF framed_torn[OF left_over(2) True]] op'] same left_over(1) by blast
    next
      case False
      let ?l = "push_record l' (length frame) (Offset (of_nat (Suc (length es))))"
      have s: "sl_topic l = sl_topic l'" "sl_partition l = sl_partition l'" using same by (simp_all add: same_log_def)
      have "log_holds c fs' ?l (es @ [e])"
        using left_over False by (intro push_record_holds[OF _ fit]) (simp_all add: s)
      moreover have "opens_at ?l" "reopen c ?l = reopen c l'"
        using op' by (simp_all add: opens_at_def push_record_def Let_def reopen_def fun_eq_iff)
      moreover have "same_log l ?l" using same by (auto simp: same_log_def push_record_def Let_def)
      ultimately show ?thesis using reopen_holds[OF ok, of fs' ?l "es @ [e]"] left_over(1) by metis
    qed
  qed
qed

section \<open>Reading\<close>

lemma take_records_eq:
  "length acc < limit \<Longrightarrow>
   take_records off limit rs acc = acc @ take (limit - length acc) (filter (\<lambda>r. off \<le> smr_offset r) rs)"
proof (induction rs arbitrary: acc)
  case (Cons r rs)
  show ?case
  proof (cases "off \<le> smr_offset r \<and> Suc (length acc) < limit")
    case True
    then have "limit - length acc = Suc (limit - Suc (length acc))" by arith
    with True show ?thesis using Cons.IH[of "acc @ [r]"] by simp
  next
    case False
    then have "off \<le> smr_offset r \<Longrightarrow> limit - length acc = Suc 0" using Cons.prems by arith
    with False show ?thesis using Cons by (auto simp: Let_def)
  qed
qed simp

lemma filter_stored_records:
  assumes "j + length es < 2 ^ 64" "k < 2 ^ 64"
  shows "filter (\<lambda>r. Offset (of_nat k) \<le> smr_offset r) (stored_records t p j es) = drop (k - j) (stored_records t p j es)"
  using assms(1)
proof (induction es arbitrary: j)
  case (Cons e es)
  have "Offset (of_nat k) \<le> smr_offset (stored_record t p j e) \<longleftrightarrow> k \<le> j"
    using Cons.prems assms(2)
    by (simp add: stored_record_def less_eq_offset_def word_le_nat_alt unat_of_nat_small)
  then show ?case using Cons.IH[of "Suc j"] Cons.prems
    by (cases "k \<le> j") (simp_all add: Suc_diff_Suc drop_Cons' flip: diff_Suc_1)
qed simp

lemma read_segments_held:
  assumes ok: "codec_ok c" and srt: "bt_sorted fs" and k: "k < 2 ^ 64"
  shows "segs_hold c fs (sl_topic l) (sl_partition l) dir j sgs es \<Longrightarrow> j + length es < 2 ^ 64 \<Longrightarrow> length acc \<le> limit \<Longrightarrow>
    read_segments c l (Offset (of_nat k)) limit sgs acc fs =
      Ok (take limit (acc @ drop (k - j) (stored_records (sl_topic l) (sl_partition l) j es)))"
proof (induction sgs arbitrary: j es acc)
  case Nil
  then show ?case by simp
next
  case (Cons sg sgs)
  let ?sr = "stored_records (sl_topic l) (sl_partition l)"
  from Cons.prems obtain es1 es2 where es: "es = es1 @ es2"
    and sg: "seg_holds c fs (sl_topic l) (sl_partition l) dir j sg es1"
    and rest: "segs_hold c fs (sl_topic l) (sl_partition l) dir (j + length es1) sgs es2" by auto
  have fit: "j + length es1 < 2 ^ 64" "j + length es1 + length es2 < 2 ^ 64" using Cons.prems(2) es by auto
  have split: "drop (k - j) (?sr j es) = drop (k - j) (?sr j es1) @ drop (k - (j + length es1)) (?sr (j + length es1) es2)"
    by (simp add: es stored_records_append diff_diff_add)
  have base: "seg_base_offset sg = Offset (of_nat j)" "seg_path sg = segment_path dir (Offset (of_nat j))"
    and nx: "seg_next_offset sg = Offset (of_nat (j + length es1))" using sg by (simp_all add: seg_holds_def)
  show ?case
  proof (cases "limit \<le> length acc")
    case True
    then show ?thesis using Cons.prems(3) by simp
  next
    case more: False
    have skip: "seg_next_offset sg \<le> Offset (of_nat k) \<longleftrightarrow> j + length es1 \<le> k"
    proof -
      have "unat (of_nat (j + length es1) :: u64) = j + length es1" "unat (of_nat k :: u64) = k"
        using unat_of_nat_small[where 'a = 64, of "j + length es1"] unat_of_nat_small[where 'a = 64, of k] fit(1) k by simp_all
      then show ?thesis by (simp only: nx less_eq_offset_def word_le_nat_alt offset.sel)
    qed
    show ?thesis
    proof (cases "j + length es1 \<le> k")
      case True
      then have "read_segments c l (Offset (of_nat k)) limit (sg # sgs) acc fs =
          read_segments c l (Offset (of_nat k)) limit sgs acc fs" using more skip by simp
      also have "\<dots> = Ok (take limit (acc @ drop (k - (j + length es1)) (?sr (j + length es1) es2)))"
        by (rule Cons.IH[OF rest fit(2) Cons.prems(3)])
      finally show ?thesis using True by (simp add: split)
    next
      case False
      let ?new = "drop (k - j) (?sr j es1)"
      let ?acc = "acc @ take (limit - length acc) ?new"
      have tr: "take_records (Offset (of_nat k)) limit (?sr j es1) acc = ?acc"
        using more by (simp add: take_records_eq filter_stored_records[OF fit(1) k])
      have "read_segments c l (Offset (of_nat k)) limit (sg # sgs) acc fs =
          read_segments c l (Offset (of_nat k)) limit sgs ?acc fs"
        using more skip False scan_held[OF ok srt sg fit(1), of ScanMode_STRICT] tr by (simp add: base)
      also have "\<dots> = Ok (take limit (?acc @ drop (k - (j + length es1)) (?sr (j + length es1) es2)))"
        by (rule Cons.IH[OF rest fit(2)]) (use more in auto)
      also have "take limit (?acc @ drop (k - (j + length es1)) (?sr (j + length es1) es2)) =
          take limit (acc @ drop (k - j) (?sr j es))"
        using more by (cases "length ?new \<le> limit - length acc") (simp_all add: split)
      finally show ?thesis .
    qed
  qed
qed

lemma read_from_holds:
  assumes ok: "codec_ok c" and h: "log_holds c fs l es" and k: "k < 2 ^ 64"
  shows "StorageLog_read_from c (Offset (of_nat k)) limit l fs =
    Ok (take limit (drop k (stored_records (sl_topic l) (sl_partition l) 0 es)))"
proof (cases "limit = 0 \<or> length es \<le> k")
  case True
  have "sl_next_offset l \<le> Offset (of_nat k) \<longleftrightarrow> length es \<le> k"
    using h k by (simp add: log_holds_def less_eq_offset_def word_le_nat_alt unat_of_nat_small)
  with True show ?thesis by (auto simp: StorageLog_read_from_def)
next
  case False
  have "sl_next_offset l \<le> Offset (of_nat k) \<longleftrightarrow> length es \<le> k"
    using h k by (simp add: log_holds_def less_eq_offset_def word_le_nat_alt unat_of_nat_small)
  moreover have "read_segments c l (Offset (of_nat k)) limit (sl_segments l) [] fs =
      Ok (take limit ([] @ drop (k - 0) (stored_records (sl_topic l) (sl_partition l) 0 es)))"
    using h by (intro read_segments_held[OF ok _ k]) (auto simp: log_holds_def)
  ultimately show ?thesis using False by (simp add: StorageLog_read_from_def)
qed

end
