(* ===== verification/Storage_Sessions.thy ===== *)
theory Storage_Sessions
  imports Storage_Recovery "HOL-Library.Sublist"
begin

text \<open>
  The interface of an append-only log that may fail and be restarted, and its laws for the partition
  log. What a client proves from the laws alone: acknowledged entries survive every restart, in
  order, and nothing is stored that was not submitted.
\<close>

text \<open>A session: every entry is put; after a failure or a crash the log is restarted.\<close>

fun log_session ::
  "('io \<Rightarrow> 'e \<Rightarrow> 's \<Rightarrow> bool \<times> 's) \<Rightarrow> ('s \<Rightarrow> 's) \<Rightarrow> ('io \<times> 'e \<times> bool) list \<Rightarrow> 's \<Rightarrow> 'e list \<times> 's" where
  "log_session put restart [] s = ([], s)"
| "log_session put restart ((io, e, crash) # xs) s =
     (let (ok, s1) = put io e s;
          s2 = (if crash \<or> \<not> ok then restart s1 else s1);
          (acks, s3) = log_session put restart xs s2
      in (if ok then e # acks else acks, s3))"

abbreviation submitted :: "('io \<times> 'e \<times> bool) list \<Rightarrow> 'e list" where
  "submitted xs \<equiv> map (\<lambda>(io, e, crash). e) xs"

locale append_log =
  fixes holds :: "'s \<Rightarrow> 'e list \<Rightarrow> bool"
    and put :: "'io \<Rightarrow> 'e \<Rightarrow> 's \<Rightarrow> bool \<times> 's"
    and restart :: "'s \<Rightarrow> 's"
    and capacity :: nat
  assumes put_ok: "holds s es \<Longrightarrow> length es + 1 < capacity \<Longrightarrow> put io e s = (True, s') \<Longrightarrow> holds s' (es @ [e])"
    and put_restart: "holds s es \<Longrightarrow> length es + 1 < capacity \<Longrightarrow> put io e s = (ok, s') \<Longrightarrow>
      \<exists>es'. holds (restart s') es' \<and> (es' = es \<or> es' = es @ [e]) \<and> (ok \<longrightarrow> es' = es @ [e])"
begin

lemma step:
  assumes "holds s es" "length es + 1 < capacity" "put io e s = (ok, s1)"
    "s2 = (if crash \<or> \<not> ok then restart s1 else s1)"
  shows "\<exists>new. holds s2 (es @ new) \<and> (new = [] \<or> new = [e]) \<and> (ok \<longrightarrow> new = [e])"
proof (cases "crash \<or> \<not> ok")
  case True
  obtain es' where "holds (restart s1) es'" "es' = es \<or> es' = es @ [e]" "ok \<longrightarrow> es' = es @ [e]"
    using put_restart[OF assms(1-3)] by blast
  with True assms(4) show ?thesis
    by (cases "es' = es") (auto intro: exI[of _ "[]"] exI[of _ "[e]"])
next
  case False
  with put_ok[OF assms(1,2)] assms(3,4) show ?thesis by auto
qed

lemma session:
  assumes "holds s es" "length es + length xs < capacity" "log_session put restart xs s = (acks, s')"
  shows "\<exists>new. holds s' (es @ new) \<and> subseq acks new \<and> subseq new (submitted xs)"
  using assms
proof (induction xs arbitrary: s es acks)
  case Nil
  then show ?case by (auto intro: exI[of _ "[]"])
next
  case (Cons x xs)
  obtain io e crash where x: "x = (io, e, crash)" by (metis prod_cases3)
  obtain ok s1 where p: "put io e s = (ok, s1)" by (metis surj_pair)
  define s2 where "s2 = (if crash \<or> \<not> ok then restart s1 else s1)"
  obtain acks' s3 where r: "log_session put restart xs s2 = (acks', s3)" by (metis surj_pair)
  have acks: "acks = (if ok then e # acks' else acks')" "s' = s3"
    using Cons.prems(3) p r by (auto simp: x Let_def s2_def)
  obtain n where n: "holds s2 (es @ n)" "n = [] \<or> n = [e]" "ok \<longrightarrow> n = [e]"
    using step[OF Cons.prems(1) _ p s2_def] Cons.prems(2) by auto
  have "length (es @ n) + length xs < capacity" using Cons.prems(2) n(2) by auto
  from Cons.IH[OF n(1) this r[folded acks(2)]] obtain new where new: "holds s' ((es @ n) @ new)" "subseq acks' new"
    "subseq new (submitted xs)" by blast
  have "subseq acks (n @ new)" using acks n new(2) by auto
  moreover have "subseq (n @ new) (submitted (x # xs))" using n(2) new(3) by (auto simp: x)
  ultimately show ?case using new(1) by (intro exI[of _ "n @ new"]) simp
qed

end

section \<open>The partition log is such a log\<close>

type_synonym log_state = "storage_log \<times> fs"

fun log_put :: "record_codec \<Rightarrow> io_outcome \<Rightarrow> message_envelope \<Rightarrow> log_state \<Rightarrow> bool \<times> log_state" where
  "log_put c io e (l, fs) = (case StorageLog_append c io e l fs of (r, l', fs') \<Rightarrow> (is_ok r, l', fs'))"

fun log_restart :: "record_codec \<Rightarrow> log_state \<Rightarrow> log_state" where
  "log_restart c (l, fs) = (case reopen c l fs of (Ok l', fs') \<Rightarrow> (l', fs') | _ \<Rightarrow> (l, fs))"

fun log_state_holds :: "record_codec \<Rightarrow> storage_log \<Rightarrow> log_state \<Rightarrow> message_envelope list \<Rightarrow> bool" where
  "log_state_holds c l0 (l, fs) es \<longleftrightarrow> codec_ok c \<and> log_holds c fs l es \<and> opens_at l \<and> same_log l0 l"

lemma opens_at_same: "same_log l l' \<Longrightarrow> opens_at l \<Longrightarrow> opens_at l'"
  by (simp add: same_log_def opens_at_def)

interpretation plog: append_log "log_state_holds c l0" "log_put c" "log_restart c" "2 ^ 64" for c l0
proof
  fix s es io e s' ok
  assume h: "log_state_holds c l0 s es" and fit: "length es + 1 < 2 ^ 64" and put: "log_put c io e s = (ok, s')"
  obtain l fs where s: "s = (l, fs)" by (metis surj_pair)
  obtain r l1 fs1 where run: "StorageLog_append c io e l fs = (r, l1, fs1)" by (metis prod_cases3)
  have s': "s' = (l1, fs1)" "ok = is_ok r" using put run by (auto simp: s)
  from h have H: "codec_ok c" "log_holds c fs l es" "opens_at l" "same_log l0 l" by (simp_all add: s)
  obtain l2 fs2 es' where R: "reopen c l1 fs1 = (Ok l2, fs2)" "log_holds c fs2 l2 es'" "same_log l l2"
    "es' = es \<or> es' = es @ [e]" "is_ok r \<longrightarrow> es' = es @ [e] \<and> l2 = l1"
    using append_reopen[OF H(1,2) fit H(3) run] by blast
  have "log_state_holds c l0 (log_restart c s') es'"
    using R(1,2) H(1) opens_at_same[OF R(3) H(3)] same_log_trans[OF H(4) R(3)] by (simp add: s')
  with R(4,5) s'(2) show "\<exists>es'. log_state_holds c l0 (log_restart c s') es' \<and> (es' = es \<or> es' = es @ [e]) \<and>
      (ok \<longrightarrow> es' = es @ [e])" by blast
next
  fix s es io e s'
  assume h: "log_state_holds c l0 s es" and fit: "length es + 1 < 2 ^ 64" and put: "log_put c io e s = (True, s')"
  obtain l fs where s: "s = (l, fs)" by (metis surj_pair)
  obtain r l1 fs1 where run: "StorageLog_append c io e l fs = (r, l1, fs1)" by (metis prod_cases3)
  have s': "s' = (l1, fs1)" "is_ok r" using put run by (auto simp: s)
  from h have H: "codec_ok c" "log_holds c fs l es" "opens_at l" "same_log l0 l" by (simp_all add: s)
  from append_outcome[OF H(2) fit run] have same: "same_log l l1" and "log_holds c fs1 l1 (es @ [e])"
    using s'(2) by (auto simp: is_ok_iff)
  then show "log_state_holds c l0 s' (es @ [e])"
    using H opens_at_same[OF same] same_log_trans[OF H(4) same] by (simp add: s')
qed

end
