(* ===== verification/Storage_Properties.thy ===== *)
theory Storage_Properties
  imports Storage_Sessions
begin

text \<open>
  The properties of the partition log, with a small table codec on which the witnesses run.
\<close>

section \<open>A codec and a log to run\<close>

definition table_codec :: "(persisted_record \<times> bytes) list \<Rightarrow> record_codec" where
  "table_codec tbl =
     \<lparr>to_vec = map_of tbl, from_slice = map_of (map (\<lambda>(r, b). (b, r)) tbl),
      crc32_hash = (\<lambda>b. of_nat (length b))\<rparr>"

lemma table_codec_ok: "distinct (map snd tbl) \<Longrightarrow> codec_ok (table_codec tbl)"
proof -
  assume d: "distinct (map snd tbl)"
  have "map_of (map (\<lambda>(r, b). (b, r)) tbl) b = Some r" if "map_of tbl r = Some b" for r b
  proof -
    have "(b, r) \<in> set (map (\<lambda>(r, b). (b, r)) tbl)" using map_of_SomeD[OF that] by force
    moreover have "distinct (map fst (map (\<lambda>(r, b). (b, r)) tbl))"
      using d by (simp add: case_prod_unfold o_def)
    ultimately show ?thesis using map_of_is_SomeI by metis
  qed
  then show ?thesis by (simp add: codec_ok_def table_codec_def)
qed

definition log_topic :: topic_name where
  "log_topic = TopicName (str ''orders'')"

definition log_envelope :: message_envelope where
  "log_envelope =
     \<lparr>env_id = MessageId (str ''m1''), env_source = EventSource (str ''shop''),
      env_event_type = EventType (str ''created''), env_subject = None,
      env_content_type = ContentType (str ''text/plain''), env_timestamp = MessageTimestamp 5,
      env_headers = [], env_payload = MessagePayload [1, 2, 3], env_partition_key = None,
      env_idempotency_key = None\<rparr>"

definition log_payload :: "nat \<Rightarrow> bytes" where
  "log_payload k = replicate (Suc k) 7"

definition log_codec :: record_codec where
  "log_codec = table_codec (map (\<lambda>k. (record_for log_topic (PartitionId 0) k log_envelope, log_payload k)) [0, 1, 2])"

definition log_empty :: storage_log where
  "log_empty =
     \<lparr>sl_config = \<lparr>lc_root_dir = [str ''data''], lc_max_segment_bytes = 1024\<rparr>, sl_topic = log_topic,
      sl_partition = PartitionId 0,
      sl_partition_dir = partition_dir [str ''data''] log_topic (PartitionId 0), sl_segments = [],
      sl_next_offset = Offset 0\<rparr>"

definition io_torn :: io_outcome where
  "io_torn = io_all_ok\<lparr>io_failed_after := Some 5, io_set_len_ok := False\<rparr>"

lemma log_codec_ok: "codec_ok log_codec"
  unfolding log_codec_def by (rule table_codec_ok) (simp add: log_payload_def numeral_2_eq_2)

lemma log_empty_holds: "log_holds c [] log_empty []"
  by (simp add: log_holds_def log_empty_def log_files_def seg_offsets_def)

lemma log_empty_opens: "opens_at log_empty"
  by (simp add: opens_at_def log_empty_def)

lemma log_codec_framed:
  "k < 3 \<Longrightarrow> framed log_codec (record_for log_topic (PartitionId 0) k log_envelope) (frame_of log_codec (log_payload k))"
proof -
  assume "k < 3"
  then have "k = 0 \<or> k = 1 \<or> k = 2" by auto
  moreover have "record_for log_topic (PartitionId 0) a log_envelope \<noteq> record_for log_topic (PartitionId 0) b log_envelope"
    if "(of_nat a :: u64) \<noteq> of_nat b" for a b using that by (simp add: record_for_def)
  ultimately show ?thesis
    by (auto simp: framed_def log_codec_def table_codec_def log_payload_def intro!: exI)
qed

section \<open>Durability of acknowledged appends\<close>



text \<open>C19: one append against a log that holds \<^verbatim>\<open>es\<close>: if it returns an offset, this is the number of
  messages before it and the log holds the message after them; if it returns an error and the bytes written could
  be rolled back, the log holds what it held. Whatever happened, opening the directory again
  succeeds, with or without the message, and yields the very log value when the append succeeded.\<close>

theorem storage_append_then_reopen:
  assumes "codec_ok c" "log_holds c fs l es" "opens_at l" "length es + 1 < 2 ^ 64"
    and "StorageLog_append c io e l fs = (r, l', fs')"
  shows "(\<forall>off. r = Ok off \<longrightarrow> off = Offset (of_nat (length es)) \<and> log_holds c fs' l' (es @ [e])) \<and>
    (\<not> is_ok r \<and> (io_set_len_ok io \<or> io_failed_after io = None) \<longrightarrow> log_holds c fs' l' es) \<and>
    (\<exists>l'' fs'' es'. StorageLog_open c (sl_config l) (sl_topic l) (sl_partition l) fs' = (Ok l'', fs'') \<and>
       log_holds c fs'' l'' es' \<and> (es' = es \<or> es' = es @ [e]) \<and> (is_ok r \<longrightarrow> es' = es @ [e] \<and> l'' = l'))"
proof -
  note out = append_outcome[OF assms(2,4,5)]
  then have same: "same_log l l'" by blast
  have re: "reopen c l' fs' = StorageLog_open c (sl_config l) (sl_topic l) (sl_partition l) fs'"
    using same by (simp add: reopen_def same_log_def)
  show ?thesis
    using out append_reopen[OF assms(1,2,4,3,5), unfolded re] by auto
qed

theorem storage_append_then_reopen_witness:
  "\<exists>l' fs' l'' fs''. StorageLog_append log_codec io_all_ok log_envelope log_empty [] = (Ok (Offset 0), l', fs') \<and>
     log_holds log_codec fs' l' [log_envelope] \<and>
     StorageLog_open log_codec (sl_config log_empty) log_topic (PartitionId 0) fs' = (Ok l'', fs'') \<and>
     log_holds log_codec fs'' l'' [log_envelope] \<and> l'' = l'"
proof -
  obtain l' fs' where run: "StorageLog_append log_codec io_all_ok log_envelope log_empty [] = (Ok (Offset 0), l', fs')"
    using append_succeeds[OF log_empty_holds, of log_codec log_envelope "frame_of log_codec (log_payload 0)" io_all_ok]
      log_codec_framed[of 0] by (auto simp: io_all_ok_def log_empty_def)
  show ?thesis
    using storage_append_then_reopen[OF log_codec_ok log_empty_holds log_empty_opens _ run] run
    by (simp add: log_empty_def)
qed

text \<open>An append succeeds when the record can be encoded in a frame and the system calls succeed.\<close>

lemma storage_append_succeeds:
  assumes "log_holds c fs l es" "length es + 1 < 2 ^ 64"
    and "to_vec c (record_for (sl_topic l) (sl_partition l) (length es) e) = Some payload" "length payload < 2 ^ 32"
    and "io_create_ok io" "io_open_ok io" "io_failed_after io = None"
  shows "fst (StorageLog_append c io e l fs) = Ok (Offset (of_nat (length es)))"
proof -
  have "framed c (record_for (sl_topic l) (sl_partition l) (length es) e) (frame_of c payload)"
    using assms(3,4) by (auto simp: framed_def)
  from append_succeeds[OF assms(1,2) this assms(5-7)] show ?thesis by auto
qed

text \<open>C31: reading from an offset returns the messages from that offset on, at most \<^verbatim>\<open>limit\<close> of them,
  each with its topic, partition and offset, across the segments.\<close>

theorem storage_read_exact:
  assumes "codec_ok c" "log_holds c fs l es" "k < 2 ^ 64"
  shows "StorageLog_read_from c (Offset (of_nat k)) limit l fs =
    Ok (take limit (drop k (stored_records (sl_topic l) (sl_partition l) 0 es)))"
  by (rule read_from_holds[OF assms])

theorem storage_read_exact_witness:
  "\<exists>l fs. log_holds log_codec fs l [log_envelope] \<and>
     StorageLog_read_from log_codec (Offset 0) 10 l fs = Ok [stored_record log_topic (PartitionId 0) 0 log_envelope] \<and>
     StorageLog_read_from log_codec (Offset 1) 10 l fs = Ok []"
proof -
  obtain l fs where run: "StorageLog_append log_codec io_all_ok log_envelope log_empty [] = (Ok (Offset 0), l, fs)"
    using append_succeeds[OF log_empty_holds, of log_codec log_envelope "frame_of log_codec (log_payload 0)" io_all_ok]
      log_codec_framed[of 0] by (auto simp: io_all_ok_def log_empty_def)
  have h: "log_holds log_codec fs l [log_envelope]" and s: "same_log log_empty l"
    using append_outcome[OF log_empty_holds _ run] by auto
  then have "sl_topic l = log_topic" "sl_partition l = PartitionId 0" by (simp_all add: same_log_def log_empty_def)
  with h storage_read_exact[OF log_codec_ok h, of 0 10] storage_read_exact[OF log_codec_ok h, of 1 10]
  show ?thesis by auto
qed

section \<open>Segments\<close>

text \<open>C32: appends, whatever their outcome, never let a segment grow beyond the configured size unless
  it holds a single record.\<close>

theorem storage_segments_bounded:
  assumes "log_holds c fs l es" "length es + 1 < 2 ^ 64" "log_sized l"
    and "StorageLog_append c io e l fs = (r, l', fs')"
  shows "log_sized l'"
  using append_outcome[OF assms(1,2,4)] assms(3) by blast

theorem storage_segments_bounded_witness:
  "log_sized (fst (snd (StorageLog_append log_codec io_torn log_envelope log_empty [])))"
proof -
  obtain r l' fs' where run: "StorageLog_append log_codec io_torn log_envelope log_empty [] = (r, l', fs')"
    by (metis prod_cases3)
  have "log_sized log_empty" by (simp add: log_sized_def log_empty_def)
  from storage_segments_bounded[OF log_empty_holds _ this run] run show ?thesis by simp
qed

text \<open>C33: whatever bytes a segment file holds and whatever the codec does, a scan that is accepted
  yields records of the log's topic and partition with consecutive offsets from the expected one on,
  and the end offset that follows them.\<close>

theorem storage_scan_gapless:
  assumes "scan_segment c fs path t p (Offset (of_nat k)) mode = (Ok scan, fs')"
  shows "gapless t p k (scan_records scan) \<and>
    scan_next_offset scan = Offset (of_nat (k + length (scan_records scan)))"
proof -
  from assms obtain content content' where
    "scan_loop c path t p mode content 0 (Offset (of_nat k)) [] = (Ok scan, content')"
    by (auto simp: scan_segment_def Let_def split: option.splits prod.splits)
  from scan_loop_gapless[OF this, of k] show ?thesis by (simp add: gapless_def)
qed

theorem storage_scan_gapless_witness:
  "gapless log_topic (PartitionId 0) 3 (scan_records \<lparr>scan_records = [], scan_next_offset = Offset 3, scan_size_bytes = 0\<rparr>)"
proof -
  have "scan_segment log_codec [([str ''f''], [1, 2])] [str ''f''] log_topic (PartitionId 0) (Offset (of_nat 3))
      ScanMode_RECOVER_FINAL =
    (Ok \<lparr>scan_records = [], scan_next_offset = Offset 3, scan_size_bytes = 0\<rparr>, [([str ''f''], [])])"
    by (simp add: scan_segment_def bt_get_def)
      (subst scan_loop.simps, simp add: Let_def repair_or_reject_trailing_def ScanMode_RECOVER_FINAL_def)
  from storage_scan_gapless[OF this] show ?thesis by blast
qed

text \<open>C34: a segment's file name parses back to its base offset, and two partitions of topics with
  accepted names never share a directory: the topic is a single path component, not empty, not
  a dot name, and without a separator.\<close>

theorem storage_paths_separate:
  assumes "TopicName_new s = Ok t" "TopicName_new s' = Ok t'"
  shows "parse_segment_base_offset (segment_path (partition_dir root t p) off) = Ok off \<and>
    (segment_path (partition_dir root t p) off = segment_path (partition_dir root t' p') off' \<longleftrightarrow>
       t = t' \<and> p = p' \<and> off = off') \<and>
    tn_str t \<noteq> [] \<and> tn_str t \<noteq> str ''.'' \<and> tn_str t \<noteq> str ''..'' \<and> 47 \<notin> set (tn_str t) \<and> 0 \<notin> set (tn_str t)"
proof -
  have r: "topic_name_rules (tn_str t)"
    using assms(1) by (auto simp: TopicName_new_def tn_text.new_Ok_iff)
  then have "tn_str t \<noteq> []" "hd (tn_str t) \<noteq> 46" "list_all allowed_name_char (tn_str t)"
    by (simp_all add: topic_name_rules_def)
  moreover have "47 \<notin> set (tn_str t)" "0 \<notin> set (tn_str t)"
    using calculation(3) by (auto simp: list_all_iff allowed_name_char_def is_ascii_alphanumeric_def is_ascii_digit_def)
  moreover have "segment_path (partition_dir root t p) off = segment_path (partition_dir root t' p') off' \<longleftrightarrow>
       t = t' \<and> p = p' \<and> off = off'"
    by (metis butlast_segment_path partition_dir_inject segment_path_inject)
  ultimately show ?thesis by (auto simp: str_def)
qed

theorem storage_paths_separate_witness:
  "47 \<notin> set (tn_str (TopicName (str ''a''))) \<and>
   segment_path (partition_dir [] (TopicName (str ''a'')) (PartitionId 0)) (Offset 0) \<noteq>
   segment_path (partition_dir [] (TopicName (str ''a'')) (PartitionId 1)) (Offset 0)"
proof -
  have n: "TopicName_new (str ''a'') = Ok (TopicName (str ''a''))"
    unfolding TopicName_new_def
    by (rule tn_text.new_of_rules)
      (auto simp: topic_name_rules_def str_def MAX_TEXT_LEN_def allowed_name_char_def is_ascii_alphanumeric_def
        is_ascii_digit_def trimmed_def is_white_space_def Cons_eq_append_conv)
  from storage_paths_separate[OF n n, of "[]" "PartitionId 0" "Offset 0" "PartitionId 1" "Offset 0"]
  show ?thesis by simp
qed

section \<open>Where recovery loses messages\<close>

text \<open>C39: recovery cuts the last segment at the first length field that announces more bytes than follow,
  and opens without an error, even when whole acknowledged records stand behind that field.\<close>

theorem storage_long_length_cuts:
  assumes "codec_ok c" "log_torn c fs l es tail" "opens_at l"
    "length tail < FRAME_HEADER_BYTES + unat (u32_from_le_bytes (take 4 tail))"
  shows "\<exists>fs'. StorageLog_open c (sl_config l) (sl_topic l) (sl_partition l) fs = (Ok l, fs') \<and>
    log_holds c fs' l es"
proof -
  have "cut_off tail" using assms(4) by (simp add: cut_off_def)
  from reopen_torn[OF assms(1,2) this assms(3)] show ?thesis unfolding reopen_def by blast
qed

text \<open>The last file of a log with one message, followed by two more whole frames, the first of them with
  255 written over its length field: opening finds one message.\<close>

definition log_two_frames :: bytes where
  "log_two_frames = frame_of log_codec (log_payload 1) @ frame_of log_codec (log_payload 2)"

lemma le_bytes_4:
  "le_bytes 4 n = [of_nat (n mod 256), of_nat (n div 256 mod 256), of_nat (n div 256 div 256 mod 256),
     of_nat (n div 256 div 256 div 256 mod 256)]"
proof -
  have four: "(4 :: nat) = Suc (Suc (Suc (Suc 0)))" by simp
  show ?thesis unfolding four le_bytes.simps by (rule refl)
qed

theorem storage_long_length_cuts_witness:
  "\<exists>fs l fs'. log_torn log_codec fs l [log_envelope] (log_two_frames[0 := 255]) \<and>
     framed log_codec (record_for log_topic (PartitionId 0) 1 log_envelope) (take 10 log_two_frames) \<and>
     StorageLog_open log_codec (sl_config l) (sl_topic l) (sl_partition l) fs = (Ok l, fs') \<and>
     log_holds log_codec fs' l [log_envelope]"
proof -
  obtain l fs where run: "StorageLog_append log_codec io_all_ok log_envelope log_empty [] = (Ok (Offset 0), l, fs)"
    using append_succeeds[OF log_empty_holds, of log_codec log_envelope "frame_of log_codec (log_payload 0)" io_all_ok]
      log_codec_framed[of 0] by (auto simp: io_all_ok_def log_empty_def)
  have h: "log_holds log_codec fs l [log_envelope]" and s: "same_log log_empty l"
    using append_outcome[OF log_empty_holds _ run] by auto
  have ne: "sl_segments l \<noteq> []" using h by (auto simp: log_holds_def)
  obtain bs where srt: "bt_sorted fs" and bs: "bt_get fs (seg_path (last (sl_segments l))) = Some bs"
    "seg_size_bytes (last (sl_segments l)) = length bs"
    using log_torn_Nil[OF h ne] by (auto simp: log_torn_def)
  let ?fs = "bt_insert (seg_path (last (sl_segments l))) (bs @ log_two_frames[0 := 255]) fs"
  have "log_holds log_codec (bt_insert (seg_path (last (sl_segments l))) bs ?fs) l [log_envelope]"
    by (rule log_holds_cong[OF _ _ h]) (simp_all add: bt_sorted_insert srt bs)
  then have t: "log_torn log_codec ?fs l [log_envelope] (log_two_frames[0 := 255])"
    using ne srt bs by (simp add: log_torn_def bt_sorted_insert)
  have hd4: "u32_to_le_bytes (of_nat (length (log_payload 1))) = [2, 0, 0, 0]"
    by (simp add: log_payload_def u32_to_le_bytes_def le_bytes_4)
  have first: "log_two_frames = [2, 0, 0, 0] @ u32_to_le_bytes (crc32_hash log_codec (log_payload 1)) @ log_payload 1 @
      frame_of log_codec (log_payload 2)"
    by (simp only: log_two_frames_def frame_of_def hd4 append_assoc)
  have two: "log_two_frames[0 := 255] = [255, 0, 0, 0] @ drop 4 log_two_frames" "length log_two_frames = 21"
    "take 10 log_two_frames = frame_of log_codec (log_payload 1)"
    by (simp_all add: first) (simp_all add: length_frame_of log_payload_def frame_of_def
        hd4[unfolded log_payload_def, simplified])
  have "length (log_two_frames[0 := 255]) < FRAME_HEADER_BYTES + unat (u32_from_le_bytes (take 4 (log_two_frames[0 := 255])))"
    unfolding two(1) by (simp add: FRAME_HEADER_BYTES_def u32_from_le_bytes_def two(2))
  from storage_long_length_cuts[OF log_codec_ok t opens_at_same[OF s log_empty_opens] this] t
    log_codec_framed[of 1] two(3)
  show ?thesis by auto
qed

text \<open>C40: the log is not closed after a rollback that failed. When at least the length field of the torn
  frame is in the file, the next append that fits in the missing bytes is acknowledged and lost by recovery.\<close>

theorem storage_append_after_failed_rollback_lost:
  assumes "codec_ok c" "log_torn c fs l es (take n torn_frame)" "opens_at l" "length es + 1 < 2 ^ 64"
    and "framed c r torn_frame" "4 \<le> n"
    and "framed c (record_for (sl_topic l) (sl_partition l) (length es) e) frame" "n + length frame < length torn_frame"
    and "has_room l (length frame)"
  shows "\<exists>l' fs' fs''. StorageLog_append c io_all_ok e l fs = (Ok (Offset (of_nat (length es))), l', fs') \<and>
    StorageLog_open c (sl_config l) (sl_topic l) (sl_partition l) fs' = (Ok l, fs'') \<and> log_holds c fs'' l es"
proof -
  let ?p = "seg_path (last (sl_segments l))"
  from assms(2) obtain bs where ne: "sl_segments l \<noteq> []" and srt: "bt_sorted fs"
    and bs: "bt_get fs ?p = Some (bs @ take n torn_frame)" "seg_size_bytes (last (sl_segments l)) = length bs"
    and hold: "log_holds c (bt_insert ?p bs fs) l es" by (auto simp: log_torn_def)
  from assms(7) obtain payload where tv: "to_vec c (record_for (sl_topic l) (sl_partition l) (length es) e) = Some payload"
    and pl: "length payload < 2 ^ 32" and frame: "frame = frame_of c payload" by (auto simp: framed_def)
  have nx: "sl_next_offset l = Offset (of_nat (length es))" using hold by (simp add: log_holds_def)
  let ?fs = "bt_insert ?p (bs @ take n torn_frame @ frame) fs"
  have pr: "prepare_segment io_all_ok (length (frame_of c payload)) l fs = (Ok (length (sl_segments l) - 1), l, fs)"
    using ne assms(9)
    by (auto simp: prepare_segment_def roll_if_needed_def ensure_active_segment_def has_room_def frame Let_def)
  have wr: "append_frame_with_rollback io_all_ok ?p (frame_of c payload) (seg_size_bytes (last (sl_segments l))) fs =
      (Ok (), ?fs)"
    using bs(1) by (simp add: append_frame_with_rollback_def io_all_ok_def frame)
  define l' where "l' = push_record l (length frame) (Offset (of_nat (Suc (length es))))"
  have app: "StorageLog_append c io_all_ok e l fs = (Ok (Offset (of_nat (length es))), l', ?fs)"
    using append_prepared[OF nx assms(4) tv pl pr refl _ wr] assms(9) by (simp add: frame l'_def)
  have "log_holds c (bt_insert ?p bs ?fs) l es"
    by (rule log_holds_cong[OF _ _ hold]) (simp_all add: bt_sorted_insert srt)
  then have t: "log_torn c ?fs l es (take n torn_frame @ frame)"
    using ne srt bs by (simp add: log_torn_def bt_sorted_insert)
  obtain old where old: "length old < 2 ^ 32" "torn_frame = frame_of c old" using assms(5) by (auto simp: framed_def)
  have "take 4 (take n torn_frame @ frame) = u32_to_le_bytes (of_nat (length old))"
    using assms(6,8) by (simp add: old(2) frame_of_def min_absorb1)
  then have "cut_off (take n torn_frame @ frame)"
    using assms(8) old by (simp add: cut_off_def FRAME_HEADER_BYTES_def unat_of_nat_small length_frame_of)
  from reopen_torn[OF assms(1) t this assms(3)] app show ?thesis unfolding reopen_def by blast
qed

text \<open>A 28-byte record of which five bytes are left, then a record with a one-byte payload.\<close>

definition lost_codec :: record_codec where
  "lost_codec = table_codec
     [(record_for log_topic (PartitionId 0) 0 log_envelope, [7]),
      (record_for log_topic (PartitionId 0) 0 (log_envelope\<lparr>env_payload := MessagePayload [9]\<rparr>), replicate 20 9)]"

definition lost_log :: storage_log where
  "lost_log = log_empty\<lparr>sl_segments :=
     [\<lparr>seg_base_offset = Offset 0, seg_next_offset = Offset 0,
       seg_path = segment_path (sl_partition_dir log_empty) (Offset 0), seg_size_bytes = 0\<rparr>]\<rparr>"

theorem storage_append_after_failed_rollback_lost_witness:
  "\<exists>fs l' fs' fs''. StorageLog_append lost_codec io_all_ok log_envelope lost_log fs = (Ok (Offset 0), l', fs') \<and>
     StorageLog_open lost_codec (sl_config lost_log) (sl_topic lost_log) (sl_partition lost_log) fs' = (Ok lost_log, fs'') \<and>
     log_holds lost_codec fs'' lost_log []"
proof -
  let ?e = "log_envelope\<lparr>env_payload := MessagePayload [9]\<rparr>"
  let ?p = "segment_path (sl_partition_dir log_empty) (Offset 0)"
  let ?big = "frame_of lost_codec (replicate 20 9)"
  let ?fs = "bt_insert ?p (take 5 ?big) []"
  have diff: "[7 :: u8] \<noteq> replicate 20 9" by (rule notI, drule arg_cong[of _ _ length]) simp
  have ok: "codec_ok lost_codec" unfolding lost_codec_def by (rule table_codec_ok) (simp add: diff)
  have ne: "?e \<noteq> log_envelope" by (simp add: log_envelope_def)
  have fr: "framed lost_codec (record_for log_topic (PartitionId 0) 0 ?e) ?big"
    "framed lost_codec (record_for log_topic (PartitionId 0) 0 log_envelope) (frame_of lost_codec [7])"
    using ne by (simp_all add: framed_def lost_codec_def table_codec_def record_for_def)
  have fields: "sl_topic lost_log = log_topic" "sl_partition lost_log = PartitionId 0"
    "sl_partition_dir lost_log = sl_partition_dir log_empty" "sl_next_offset lost_log = Offset 0"
    by (simp_all add: lost_log_def log_empty_def)
  have "log_holds lost_codec (bt_insert ?p [] ?fs) lost_log []"
    by (simp add: log_holds_def fields) 
      (auto simp: lost_log_def seg_holds_def log_files_def seg_offsets_def bt_sorted_def bt_get_def bt_contains_def)
  then have t: "log_torn lost_codec ?fs lost_log [] (take 5 ?big)"
    by (simp add: log_torn_def bt_sorted_insert) (simp add: lost_log_def bt_sorted_def bt_get_def)
  have o: "opens_at lost_log" using log_empty_opens by (simp add: opens_at_def lost_log_def)
  have room: "has_room lost_log (length (frame_of lost_codec [7]))" by (simp add: has_room_def lost_log_def)
  from storage_append_after_failed_rollback_lost[OF ok t o _ fr(1) _ _ _ room, of log_envelope] fr(2)
  show ?thesis by (simp add: fields length_frame_of) blast
qed

end
