(* ===== verification/Durable_State.thy ===== *)
theory Durable_State
  imports Memory_Broker Storage
begin

text \<open>
  \<^verbatim>\<open>msg-broker/src/durable.rs\<close>, first part: the types of the durable broker, the events of its
  state log, the file of that log, and the changes that an event makes to the delivery state.

  An event is a line of JSON. \<^verbatim>\<open>serde_json\<close> is outside the repository, so writing and reading an
  event is the parameter \<^verbatim>\<open>event_codec\<close>; the framing by newlines, the cut of an incomplete last
  line and the numbering of lines are modelled. The state log file is the file at \<^verbatim>\<open>db_state_log\<close>.
\<close>

section \<open>Configuration, errors and state\<close>

record durable_broker_config =
  dbc_root_dir :: path
  dbc_broker_config :: broker_config
  dbc_max_segment_bytes :: u64

datatype durable_broker_error =
    DBroker broker_error
  | DStorage storage_error
  | DIo rstring
  | DSerde
  | StateCorruption path nat rstring
  | Corruption rstring

type_synonym 'a durable_result = "(durable_broker_error, 'a) rres"

record durable_broker_status =
  dst_mode :: string
  dst_topic_count :: nat
  dst_dlq_count :: nat
  dst_root_dir :: path

record durable_delivery_state =
  dds_groups :: "(consumer_group_id, group_state) btree_map"
  dds_pending :: "(delivery_id, pending_delivery) btree_map"
  dds_dead_letters :: "dead_letter_entry list"

definition DurableDeliveryState_default :: durable_delivery_state where
  "DurableDeliveryState_default = \<lparr>dds_groups = [], dds_pending = [], dds_dead_letters = []\<rparr>"

record durable_topic =
  dt_topic :: topic
  dt_partitions :: "(partition_id, storage_log) btree_map"
  dt_next_round_robin_partition :: u32

record durable_broker =
  db_config :: durable_broker_config
  db_topics :: "(topic_name, durable_topic) btree_map"
  db_state :: durable_delivery_state
  db_state_log :: path
  db_idempotency_index :: idempotency_index

section \<open>Events\<close>

datatype delivery_outcome =
    OutcomeRetryScheduled message_timestamp
  | OutcomeDeadLettered dead_letter_reason u32

record delivery_event =
  de_delivery_id :: delivery_id
  de_consumer_id :: consumer_id
  de_topic :: topic_name
  de_partition_id :: partition_id
  de_offset :: offset
  de_consumer_group_id :: consumer_group_id
  de_attempt_number :: u32
  de_delivered_at :: message_timestamp
  de_lease_expires_at :: message_timestamp

record expired_delivery_outcome =
  eo_delivery_id :: delivery_id
  eo_consumer_id :: consumer_id
  eo_topic :: topic_name
  eo_partition_id :: partition_id
  eo_offset :: offset
  eo_consumer_group_id :: consumer_group_id
  eo_attempt_number :: u32
  eo_timestamp :: message_timestamp
  eo_reason :: dead_letter_reason
  eo_outcome :: delivery_outcome

record retry_available_event =
  ra_consumer_group_id :: consumer_group_id
  ra_topic :: topic_name
  ra_partition_id :: partition_id
  ra_offset :: offset

datatype broker_state_event =
    TopicCreated topic
  | MessagesConsumed "delivery_event list"
  | MessageAcked delivery_id consumer_id topic_name partition_id offset consumer_group_id
      message_timestamp
  | MessageNacked delivery_id consumer_id topic_name partition_id offset consumer_group_id u32
      message_timestamp dead_letter_reason delivery_outcome
  | RetryMaintenanceApplied message_timestamp "expired_delivery_outcome list" "retry_available_event list"

record selected_delivery =
  sd_event :: delivery_event
  sd_message :: consumed_message

record computed_outcome =
  co_outcome :: delivery_outcome
  co_dead_letter :: "dead_letter_entry option"

record event_codec =
  ev_to_vec :: "broker_state_event \<Rightarrow> bytes option"
  ev_from_slice :: "bytes \<Rightarrow> rstring + broker_state_event"

section \<open>The state log\<close>

text \<open>
  How the three writes of one append end: \<^verbatim>\<open>Some n\<close> when they fail after \<^verbatim>\<open>n\<close> bytes reached the
  file, with the text of the error. Nothing is rolled back.
\<close>

record state_io =
  sio_failed_after :: "nat option"
  sio_text :: rstring

definition state_io_ok :: state_io where
  "state_io_ok = \<lparr>sio_failed_after = None, sio_text = []\<rparr>"

definition StateLog_open :: "path \<Rightarrow> fs \<Rightarrow> path \<times> fs" where
  "StateLog_open path fs = (path, if bt_contains fs path then fs else bt_insert path [] fs)"

definition StateLog_append ::
  "event_codec \<Rightarrow> state_io \<Rightarrow> broker_state_event \<Rightarrow> path \<Rightarrow> fs \<Rightarrow> unit durable_result \<times> fs" where
  "StateLog_append ec io event path fs =
     (case ev_to_vec ec event of
        None \<Rightarrow> (Err DSerde, fs)
      | Some line \<Rightarrow>
          (let content = (case bt_get fs path of None \<Rightarrow> [] | Some b \<Rightarrow> b) in
           case sio_failed_after io of
             None \<Rightarrow> (Ok (), bt_insert path (content @ line @ [10]) fs)
           | Some n \<Rightarrow> (Err (DIo (sio_text io)), bt_insert path (content @ take n (line @ [10])) fs)))"

definition complete_len :: "bytes \<Rightarrow> nat" where
  "complete_len bs =
     (if bs \<noteq> [] \<and> last bs = 10 then length bs else length (dropWhile (\<lambda>b. b \<noteq> 10) (rev bs)))"

text \<open>\<^verbatim>\<open>bytes.split(|b| b == '\n')\<close>: one piece more than there are newlines.\<close>

fun split_newlines :: "bytes \<Rightarrow> bytes list" where
  "split_newlines [] = [[]]"
| "split_newlines (b # bs) =
     (if b = 10 then [] # split_newlines bs
      else case split_newlines bs of [] \<Rightarrow> [[b]] | l # ls \<Rightarrow> (b # l) # ls)"

fun parse_lines :: "event_codec \<Rightarrow> path \<Rightarrow> nat \<Rightarrow> bytes list \<Rightarrow> broker_state_event list durable_result" where
  "parse_lines ec path line_index [] = Ok []"
| "parse_lines ec path line_index (line # lines) =
     (if line = [] then parse_lines ec path (line_index + 1) lines
      else case ev_from_slice ec line of
          Inl reason \<Rightarrow> Err (StateCorruption path (line_index + 1) reason)
        | Inr event \<Rightarrow> map_ok (\<lambda>events. event # events) (parse_lines ec path (line_index + 1) lines))"

definition recover_state_events ::
  "event_codec \<Rightarrow> path \<Rightarrow> fs \<Rightarrow> broker_state_event list durable_result \<times> fs" where
  "recover_state_events ec path fs =
     (case bt_get fs path of
        None \<Rightarrow> (Ok [], fs)
      | Some bs \<Rightarrow>
          (let n = complete_len bs;
               fs1 = (if n \<noteq> length bs then bt_insert path (take n bs) fs else fs)
           in (parse_lines ec path 0 (split_newlines (take n bs)), fs1)))"

section \<open>Changes of the delivery state\<close>

definition dds_group_partition_state_mut ::
  "consumer_group_id \<Rightarrow> message_ref \<Rightarrow> (group_partition_state \<Rightarrow> group_partition_state)
     \<Rightarrow> durable_delivery_state \<Rightarrow> durable_delivery_state" where
  "dds_group_partition_state_mut g r f s =
     s\<lparr>dds_groups :=
         bt_insert g
           (gs_partition_state_mut (mr_topic r) (mr_partition_id r) f
             (bt_entry_or GroupState_default (dds_groups s) g))
           (dds_groups s)\<rparr>"

text \<open>\<^verbatim>\<open>groups.get(group).and_then(partition_state)\<close>, which creates nothing.\<close>

definition dds_partition_state ::
  "durable_delivery_state \<Rightarrow> consumer_group_id \<Rightarrow> topic_name \<Rightarrow> partition_id \<Rightarrow> group_partition_state option" where
  "dds_partition_state s g t p =
     (case bt_get (dds_groups s) g of None \<Rightarrow> None | Some group_state \<Rightarrow> gs_partition_state group_state t p)"

definition MessageRef_new :: "topic_name \<Rightarrow> partition_id \<Rightarrow> offset \<Rightarrow> message_ref" where
  "MessageRef_new t p off = \<lparr>mr_topic = t, mr_partition_id = p, mr_offset = off\<rparr>"

definition apply_consumed_delivery :: "delivery_event \<Rightarrow> durable_delivery_state \<Rightarrow> durable_delivery_state" where
  "apply_consumed_delivery d s =
     (let r = MessageRef_new (de_topic d) (de_partition_id d) (de_offset d);
          s1 = dds_group_partition_state_mut (de_consumer_group_id d) r
                 (\<lambda>ps. gp_mark_pending (de_offset d) (de_delivery_id d)
                   (ps\<lparr>gp_attempt_counts := bt_insert (de_offset d) (de_attempt_number d) (gp_attempt_counts ps)\<rparr>)) s
      in s1\<lparr>dds_pending :=
             bt_insert (de_delivery_id d)
               \<lparr>pd_message_ref = r, pd_consumer_group_id = de_consumer_group_id d,
                pd_consumer_id = de_consumer_id d, pd_attempt_number = de_attempt_number d,
                pd_lease_expires_at = de_lease_expires_at d\<rparr> (dds_pending s1)\<rparr>)"

definition apply_ack :: "delivery_id \<Rightarrow> pending_delivery \<Rightarrow> durable_delivery_state \<Rightarrow> durable_delivery_state" where
  "apply_ack did pending s =
     dds_group_partition_state_mut (pd_consumer_group_id pending) (pd_message_ref pending)
       (\<lambda>ps. gp_mark_acked (mr_offset (pd_message_ref pending))
               (gp_remove_pending (mr_offset (pd_message_ref pending)) ps))
       (s\<lparr>dds_pending := bt_remove did (dds_pending s)\<rparr>)"

definition apply_pending_outcome ::
  "delivery_id \<Rightarrow> pending_delivery \<Rightarrow> delivery_outcome \<Rightarrow> dead_letter_entry option \<Rightarrow> durable_delivery_state
     \<Rightarrow> unit durable_result \<times> durable_delivery_state" where
  "apply_pending_outcome did pending outcome dead_letter s =
     (let r = pd_message_ref pending;
          upd = (\<lambda>f. dds_group_partition_state_mut (pd_consumer_group_id pending) r f);
          s1 = upd (gp_remove_pending (mr_offset r)) (s\<lparr>dds_pending := bt_remove did (dds_pending s)\<rparr>) in
      case outcome of
        OutcomeRetryScheduled ready_at \<Rightarrow>
          (Ok (), upd (gp_mark_retry_scheduled (mr_offset r)
                        \<lparr>re_message_ref = r, re_ready_at = ready_at\<rparr>) s1)
      | OutcomeDeadLettered reason attempt_count \<Rightarrow>
          (let s2 = upd (gp_mark_dead_lettered (mr_offset r)) s1 in
           case dead_letter of
             None \<Rightarrow> (Err (Corruption (str ''dead-letter outcome missing dead-letter entry'')), s2)
           | Some entry \<Rightarrow> (Ok (), s2\<lparr>dds_dead_letters := dds_dead_letters s2 @ [entry]\<rparr>)))"

definition location_text :: "topic_name \<Rightarrow> partition_id \<Rightarrow> offset \<Rightarrow> rstring" where
  "location_text t p off =
     tn_str t @ [58] @ dec (unat (pid_value p)) @ [58] @ dec (unat (offset_value off))"

definition apply_retry_available ::
  "retry_available_event \<Rightarrow> message_timestamp \<Rightarrow> durable_delivery_state
     \<Rightarrow> bool durable_result \<times> durable_delivery_state" where
  "apply_retry_available e timestamp s =
     (let r = MessageRef_new (ra_topic e) (ra_partition_id e) (ra_offset e);
          s1 = dds_group_partition_state_mut (ra_consumer_group_id e) r id s in
      case (case dds_partition_state s1 (ra_consumer_group_id e) (ra_topic e) (ra_partition_id e) of
              None \<Rightarrow> None | Some ps \<Rightarrow> bt_get (gp_retry_by_offset ps) (ra_offset e)) of
        None \<Rightarrow> (Err (Corruption (str ''retry availability event for unscheduled offset '' @
                  location_text (ra_topic e) (ra_partition_id e) (ra_offset e))), s1)
      | Some entry \<Rightarrow>
          (if timestamp < re_ready_at entry
           then (Err (Corruption (str ''retry availability event before ready_at for offset '' @
                  location_text (ra_topic e) (ra_partition_id e) (ra_offset e))), s1)
           else (Ok True, dds_group_partition_state_mut (ra_consumer_group_id e) r
                            (gp_mark_retry_available (ra_offset e)) s1)))"

definition dds_ready_retry_entries ::
  "message_timestamp \<Rightarrow> durable_delivery_state \<Rightarrow> (consumer_group_id \<times> message_ref) list" where
  "dds_ready_retry_entries now s =
     concat (map (\<lambda>(g, group_state).
       concat (map (\<lambda>(key, ps).
         map (\<lambda>(off, entry). (g, re_message_ref entry))
           (filter (\<lambda>(off, entry). re_ready_at entry \<le> now) (gp_retry_by_offset ps)))
         (gs_partitions group_state)))
       (dds_groups s))"

text \<open>The two lookups of a pending delivery: for a command, and for an event that is replayed.\<close>

definition dds_pending_for_command ::
  "delivery_id \<Rightarrow> consumer_id \<Rightarrow> durable_delivery_state \<Rightarrow> pending_delivery broker_result" where
  "dds_pending_for_command did cid s =
     (case bt_get (dds_pending s) did of
        None \<Rightarrow> Err (DeliveryNotFound did)
      | Some pending \<Rightarrow>
          (if pd_consumer_id pending \<noteq> cid then Err (InvalidConsumer did (pd_consumer_id pending) cid)
           else Ok pending))"

definition pending_for_replay ::
  "delivery_id \<Rightarrow> consumer_id \<Rightarrow> consumer_group_id \<Rightarrow> message_ref \<Rightarrow> u32 option \<Rightarrow> durable_delivery_state
     \<Rightarrow> pending_delivery durable_result" where
  "pending_for_replay did cid g r attempt_number s =
     (case bt_get (dds_pending s) did of
        None \<Rightarrow> Err (Corruption (str ''missing pending delivery '' @ did_str did))
      | Some pending \<Rightarrow>
          if pd_consumer_id pending \<noteq> cid
          then Err (Corruption (str ''delivery '' @ did_str did @ str '' consumer mismatch: expected '' @
                 ci_str (pd_consumer_id pending) @ str '', got '' @ ci_str cid))
          else if pd_consumer_group_id pending \<noteq> g
          then Err (Corruption (str ''delivery '' @ did_str did @ str '' consumer group mismatch''))
          else if pd_message_ref pending \<noteq> r
          then Err (Corruption (str ''delivery '' @ did_str did @ str '' message reference mismatch''))
          else case attempt_number of
              Some n \<Rightarrow>
                (if pd_attempt_number pending \<noteq> n
                 then Err (Corruption (str ''delivery '' @ did_str did @ str '' attempt mismatch: expected '' @
                        dec (unat (pd_attempt_number pending)) @ str '', got '' @ dec (unat n)))
                 else Ok pending)
            | None \<Rightarrow> Ok pending)"

definition dds_release_pending :: "durable_delivery_state \<Rightarrow> durable_delivery_state" where
  "dds_release_pending s =
     fold (\<lambda>(did, pending).
             dds_group_partition_state_mut (pd_consumer_group_id pending) (pd_message_ref pending)
               (gp_remove_pending (mr_offset (pd_message_ref pending))))
       (dds_pending s) (s\<lparr>dds_pending := []\<rparr>)"

end
