(* ===== verification/Durable_Broker.thy ===== *)
theory Durable_Broker
  imports Durable_State
begin

text \<open>
  \<^verbatim>\<open>msg-broker/src/durable.rs\<close>, second part: the operations of \<^verbatim>\<open>DurableBroker\<close>. An operation takes
  the broker and the file system and returns its result with both as it leaves them. What the
  code calls outside the repository is gathered in \<^verbatim>\<open>durable_env\<close>: SHA-256, and the two codecs.
  The outcome of the write calls is an argument of each operation that writes.
\<close>

record durable_env =
  env_sha :: "bytes \<Rightarrow> bytes"
  env_records :: record_codec
  env_events :: event_codec

section \<open>Topics and their logs\<close>

definition storage_log_config :: "durable_broker_config \<Rightarrow> log_config" where
  "storage_log_config config =
     \<lparr>lc_root_dir = dbc_root_dir config @ [str ''messages''],
      lc_max_segment_bytes = dbc_max_segment_bytes config\<rparr>"

definition state_path :: "durable_broker_config \<Rightarrow> path" where
  "state_path config = dbc_root_dir config @ [str ''broker-state'', str ''events.jsonl'']"

fun open_partitions ::
  "durable_env \<Rightarrow> log_config \<Rightarrow> topic_name \<Rightarrow> partition_id list \<Rightarrow> (partition_id, storage_log) btree_map \<Rightarrow> fs
     \<Rightarrow> (partition_id, storage_log) btree_map durable_result \<times> fs" where
  "open_partitions E config t [] partitions fs = (Ok partitions, fs)"
| "open_partitions E config t (p # ps) partitions fs =
     (case StorageLog_open (env_records E) config t p fs of
        (Ok l, fs1) \<Rightarrow> open_partitions E config t ps (bt_insert p l partitions) fs1
      | (Err e, fs1) \<Rightarrow> (Err (DStorage e), fs1)
      | (Panicked, fs1) \<Rightarrow> (Panicked, fs1))"

definition DurableTopic_open ::
  "durable_env \<Rightarrow> log_config \<Rightarrow> topic \<Rightarrow> fs \<Rightarrow> durable_topic durable_result \<times> fs" where
  "DurableTopic_open E config t fs =
     (case open_partitions E config (topic_name t) (topic_partition_ids t) [] fs of
        (Ok partitions, fs1) \<Rightarrow>
          (Ok \<lparr>dt_topic = t, dt_partitions = partitions, dt_next_round_robin_partition = 0\<rparr>, fs1)
      | (Err e, fs1) \<Rightarrow> (Err e, fs1)
      | (Panicked, fs1) \<Rightarrow> (Panicked, fs1))"

definition dt_partition_log :: "durable_topic \<Rightarrow> partition_id \<Rightarrow> storage_log option" where
  "dt_partition_log dt p = bt_get (dt_partitions dt) p"

definition dt_partition_count :: "durable_topic \<Rightarrow> u32" where
  "dt_partition_count dt = topic_partition_count (dt_topic dt)"

definition dt_partition_ids :: "durable_topic \<Rightarrow> partition_id list" where
  "dt_partition_ids dt = map fst (dt_partitions dt)"

definition dt_set_next_round_robin_partition :: "u32 \<Rightarrow> durable_topic \<Rightarrow> durable_topic" where
  "dt_set_next_round_robin_partition n dt =
     dt\<lparr>dt_next_round_robin_partition := n mod dt_partition_count dt\<rparr>"

definition dt_advance_round_robin_partition :: "durable_topic \<Rightarrow> durable_topic" where
  "dt_advance_round_robin_partition dt =
     dt\<lparr>dt_next_round_robin_partition :=
          advance_round_robin_partition (dt_next_round_robin_partition dt) (dt_partition_count dt)\<rparr>"

definition select_durable_partition :: "durable_topic \<Rightarrow> message_envelope \<Rightarrow> partition_id" where
  "select_durable_partition dt e =
     (case env_partition_key e of
        Some key \<Rightarrow> keyed_partition key (dt_partition_count dt)
      | None \<Rightarrow> round_robin_partition (dt_next_round_robin_partition dt))"

text \<open>The conversion of the next offset to \<^verbatim>\<open>usize\<close> cannot fail on a 64-bit machine.\<close>

definition read_all_records ::
  "durable_env \<Rightarrow> storage_log \<Rightarrow> fs \<Rightarrow> stored_message_record list durable_result" where
  "read_all_records E l fs =
     map_err DStorage
       (StorageLog_read_from (env_records E) (Offset 0) (unat (offset_value (sl_next_offset l))) l fs)"

definition db_create_topic ::
  "durable_env \<Rightarrow> state_io \<Rightarrow> create_topic_command \<Rightarrow> durable_broker \<Rightarrow> fs
     \<Rightarrow> topic durable_result \<times> durable_broker \<times> fs" where
  "db_create_topic E sio command b fs =
     (let topic = Topic_new (ctc_name command) (ctc_config command) in
      if bt_contains (db_topics b) (topic_name topic)
      then (Err (DBroker (TopicAlreadyExists (topic_name topic))), b, fs)
      else
        case DurableTopic_open E (storage_log_config (db_config b)) topic fs of
          (Err e, fs1) \<Rightarrow> (Err e, b, fs1)
        | (Panicked, fs1) \<Rightarrow> (Panicked, b, fs1)
        | (Ok dt, fs1) \<Rightarrow>
            (case StateLog_append (env_events E) sio (TopicCreated topic) (db_state_log b) fs1 of
               (Err e, fs2) \<Rightarrow> (Err e, b, fs2)
             | (Panicked, fs2) \<Rightarrow> (Panicked, b, fs2)
             | (Ok u, fs2) \<Rightarrow>
                 (Ok topic, b\<lparr>db_topics := bt_insert (topic_name topic) dt (db_topics b)\<rparr>, fs2)))"

definition db_list_topics :: "durable_broker \<Rightarrow> topic list" where
  "db_list_topics b = map (\<lambda>(t, dt). dt_topic dt) (db_topics b)"

definition db_get_topic :: "topic_name \<Rightarrow> durable_broker \<Rightarrow> topic durable_result" where
  "db_get_topic t b = ok_or (map_option dt_topic (bt_get (db_topics b) t)) (DBroker (TopicNotFound t))"

definition db_status :: "durable_broker \<Rightarrow> durable_broker_status" where
  "db_status b =
     \<lparr>dst_mode = ''local-durable'', dst_topic_count = length (db_topics b),
      dst_dlq_count = length (dds_dead_letters (db_state b)), dst_root_dir = dbc_root_dir (db_config b)\<rparr>"

section \<open>Publishing\<close>

text \<open>The append of \<^verbatim>\<open>publish\<close>; the two \<^verbatim>\<open>expect\<close>s are the \<^verbatim>\<open>Panicked\<close> branches.\<close>

definition db_append_to_topic ::
  "durable_env \<Rightarrow> io_outcome \<Rightarrow> topic_name \<Rightarrow> message_envelope \<Rightarrow> durable_broker \<Rightarrow> fs
     \<Rightarrow> published_message durable_result \<times> durable_broker \<times> fs" where
  "db_append_to_topic E io t envelope b fs =
     (case bt_get (db_topics b) t of
        None \<Rightarrow> (Panicked, b, fs)
      | Some dt \<Rightarrow>
          (let should_advance_round_robin = (env_partition_key envelope = None);
               p = select_durable_partition dt envelope in
           case dt_partition_log dt p of
             None \<Rightarrow> (Panicked, b, fs)
           | Some l \<Rightarrow>
               (case StorageLog_append (env_records E) io envelope l fs of
                  (r, l1, fs1) \<Rightarrow>
                    (let dt1 = dt\<lparr>dt_partitions := bt_insert p l1 (dt_partitions dt)\<rparr>;
                         b1 = (\<lambda>d. b\<lparr>db_topics := bt_insert t d (db_topics b)\<rparr>) in
                     case r of
                       Err e \<Rightarrow> (Err (DStorage e), b1 dt1, fs1)
                     | Panicked \<Rightarrow> (Panicked, b1 dt1, fs1)
                     | Ok off \<Rightarrow>
                         (Ok (PublishedMessage_new t p off (env_id envelope)),
                          b1 (if should_advance_round_robin then dt_advance_round_robin_partition dt1 else dt1),
                          fs1)))))"

definition db_publish ::
  "durable_env \<Rightarrow> io_outcome \<Rightarrow> publish_command \<Rightarrow> durable_broker \<Rightarrow> fs
     \<Rightarrow> published_message durable_result \<times> durable_broker \<times> fs" where
  "db_publish E io command b fs =
     (let t = pc_topic command; envelope = pc_envelope command in
      if \<not> bt_contains (db_topics b) t then (Err (DBroker (TopicNotFound t)), b, fs)
      else case check_idempotency (env_sha E) t envelope (db_idempotency_index b) of
          Err e \<Rightarrow> (Err (DBroker e), b, fs)
        | Panicked \<Rightarrow> (Panicked, b, fs)
        | Ok (Replay existing) \<Rightarrow>
            (Ok (PublishedMessage_replay t (ir_partition_id existing) (ir_offset existing)
                  (ir_message_id existing)), b, fs)
        | Ok Untracked \<Rightarrow> db_append_to_topic E io t envelope b fs
        | Ok (New key fingerprint) \<Rightarrow>
            (case db_append_to_topic E io t envelope b fs of
               (Ok published, b1, fs1) \<Rightarrow>
                 (Ok published,
                  b1\<lparr>db_idempotency_index :=
                       bt_insert (t, key)
                         \<lparr>ir_fingerprint = fingerprint, ir_partition_id = pm_partition_id published,
                          ir_offset = pm_offset published, ir_message_id = pm_message_id published\<rparr>
                         (db_idempotency_index b1)\<rparr>, fs1)
             | r \<Rightarrow> r))"

section \<open>Consuming\<close>

definition consume_lease :: "durable_broker \<Rightarrow> consume_command \<Rightarrow> u64 \<times> string" where
  "consume_lease b command =
     (case cc_delivery_lease_millis command of
        None \<Rightarrow> (bc_delivery_lease_millis (dbc_broker_config (db_config b)), ''delivery_lease_millis'')
      | Some lease_millis \<Rightarrow> (lease_millis, ''lease_ms''))"

definition delivery_for ::
  "durable_broker \<Rightarrow> consume_command \<Rightarrow> partition_id \<Rightarrow> group_partition_state option \<Rightarrow> stored_message_record
     \<Rightarrow> selected_delivery durable_result" where
  "delivery_for b command p partition_state r =
     (let attempt_number =
        (case partition_state of None \<Rightarrow> 1 | Some ps \<Rightarrow> gp_next_attempt_number ps (smr_offset r)) in
      rbind (map_err DBroker (deterministic_delivery_id (cc_consumer_group_id command) (cc_topic command) p
               (smr_offset r) attempt_number)) (\<lambda>did.
      rbind (map_err DBroker (add_millis (cc_timestamp command) (fst (consume_lease b command))
               (snd (consume_lease b command)))) (\<lambda>lease_expires_at.
      Ok \<lparr>sd_event =
             \<lparr>de_delivery_id = did, de_consumer_id = cc_consumer_id command, de_topic = cc_topic command,
              de_partition_id = p, de_offset = smr_offset r,
              de_consumer_group_id = cc_consumer_group_id command, de_attempt_number = attempt_number,
              de_delivered_at = cc_timestamp command, de_lease_expires_at = lease_expires_at\<rparr>,
           sd_message =
             \<lparr>cm_delivery_id = did, cm_topic = cc_topic command, cm_partition_id = p,
              cm_offset = smr_offset r, cm_envelope = smr_envelope r,
              cm_consumer_group_id = cc_consumer_group_id command, cm_consumer_id = cc_consumer_id command,
              cm_attempt_number = attempt_number, cm_delivered_at = cc_timestamp command,
              cm_lease_expires_at = lease_expires_at\<rparr>\<rparr>)))"

fun select_records ::
  "durable_broker \<Rightarrow> consume_command \<Rightarrow> partition_id \<Rightarrow> group_partition_state option \<Rightarrow> stored_message_record list
     \<Rightarrow> selected_delivery list \<Rightarrow> selected_delivery list durable_result" where
  "select_records b command p partition_state [] selected = Ok selected"
| "select_records b command p partition_state (r # rs) selected =
     (if \<not> (case partition_state of None \<Rightarrow> True | Some ps \<Rightarrow> gp_is_available ps (smr_offset r))
      then select_records b command p partition_state rs selected
      else rbind (delivery_for b command p partition_state r) (\<lambda>d.
        let selected' = selected @ [d] in
        if length selected' = cc_max_messages command then Ok selected'
        else select_records b command p partition_state rs selected'))"

fun select_durable_partitions ::
  "durable_env \<Rightarrow> durable_broker \<Rightarrow> fs \<Rightarrow> consume_command \<Rightarrow> durable_topic \<Rightarrow> partition_id list
     \<Rightarrow> selected_delivery list \<Rightarrow> selected_delivery list durable_result" where
  "select_durable_partitions E b fs command dt [] selected = Ok selected"
| "select_durable_partitions E b fs command dt (p # ps) selected =
     (case dt_partition_log dt p of
        None \<Rightarrow> Panicked
      | Some l \<Rightarrow>
          rbind (read_all_records E l fs) (\<lambda>records.
          rbind (select_records b command p
                   (dds_partition_state (db_state b) (cc_consumer_group_id command) (cc_topic command) p)
                   records selected) (\<lambda>selected'.
          if length selected' = cc_max_messages command then Ok selected'
          else select_durable_partitions E b fs command dt ps selected')))"

definition select_available_deliveries ::
  "durable_env \<Rightarrow> consume_command \<Rightarrow> durable_broker \<Rightarrow> fs \<Rightarrow> selected_delivery list durable_result" where
  "select_available_deliveries E command b fs =
     (case bt_get (db_topics b) (cc_topic command) of
        None \<Rightarrow> Err (DBroker (TopicNotFound (cc_topic command)))
      | Some dt \<Rightarrow> select_durable_partitions E b fs command dt (dt_partition_ids dt) [])"

definition db_consume ::
  "durable_env \<Rightarrow> state_io \<Rightarrow> consume_command \<Rightarrow> durable_broker \<Rightarrow> fs
     \<Rightarrow> consumed_message list durable_result \<times> durable_broker \<times> fs" where
  "db_consume E sio command b fs =
     (if \<not> bt_contains (db_topics b) (cc_topic command)
      then (Err (DBroker (TopicNotFound (cc_topic command))), b, fs)
      else if cc_max_messages command = 0 then (Ok [], b, fs)
      else
        case select_available_deliveries E command b fs of
          Err e \<Rightarrow> (Err e, b, fs)
        | Panicked \<Rightarrow> (Panicked, b, fs)
        | Ok selected \<Rightarrow>
            (if selected = [] then (Ok [], b, fs)
             else
               case StateLog_append (env_events E) sio (MessagesConsumed (map sd_event selected))
                      (db_state_log b) fs of
                 (Err e, fs1) \<Rightarrow> (Err e, b, fs1)
               | (Panicked, fs1) \<Rightarrow> (Panicked, b, fs1)
               | (Ok u, fs1) \<Rightarrow>
                   (Ok (map sd_message selected),
                    b\<lparr>db_state := fold (\<lambda>d. apply_consumed_delivery (sd_event d)) selected (db_state b)\<rparr>,
                    fs1)))"

section \<open>Settling deliveries\<close>

definition durable_envelope_for ::
  "durable_env \<Rightarrow> message_ref \<Rightarrow> durable_broker \<Rightarrow> fs \<Rightarrow> message_envelope durable_result" where
  "durable_envelope_for E r b fs =
     (case bt_get (db_topics b) (mr_topic r) of
        None \<Rightarrow> Err (DBroker (TopicNotFound (mr_topic r)))
      | Some dt \<Rightarrow>
          (case dt_partition_log dt (mr_partition_id r) of
             None \<Rightarrow> Err (Corruption (str ''missing partition '' @
               dec (unat (pid_value (mr_partition_id r))) @ str '' for topic '' @ tn_str (mr_topic r)))
           | Some l \<Rightarrow>
               rbind (map_err DStorage (StorageLog_read_from (env_records E) (mr_offset r) 1 l fs)) (\<lambda>records.
               case records of
                 [] \<Rightarrow> Err (Corruption (str ''missing message record '' @
                   location_text (mr_topic r) (mr_partition_id r) (mr_offset r)))
               | record # rest \<Rightarrow>
                   (if smr_offset record \<noteq> mr_offset r
                    then Err (Corruption (str ''read offset '' @ dec (unat (offset_value (smr_offset record))) @
                      str '' for requested offset '' @ dec (unat (offset_value (mr_offset r)))))
                    else Ok (smr_envelope record)))))"

definition build_dead_letter_entry ::
  "durable_env \<Rightarrow> pending_delivery \<Rightarrow> dead_letter_reason \<Rightarrow> u32 \<Rightarrow> message_timestamp \<Rightarrow> durable_broker \<Rightarrow> fs
     \<Rightarrow> dead_letter_entry durable_result" where
  "build_dead_letter_entry E pending reason attempt_count timestamp b fs =
     (let r = pd_message_ref pending in
      rbind (durable_envelope_for E r b fs) (\<lambda>envelope.
      Ok \<lparr>dl_topic = mr_topic r, dl_partition_id = mr_partition_id r, dl_offset = mr_offset r,
          dl_message_id = env_id envelope, dl_envelope = envelope,
          dl_consumer_group_id = pd_consumer_group_id pending, dl_reason = reason,
          dl_attempt_count = attempt_count, dl_timestamp = timestamp\<rparr>))"

definition compute_pending_outcome ::
  "durable_env \<Rightarrow> pending_delivery \<Rightarrow> retry_policy \<Rightarrow> message_timestamp \<Rightarrow> dead_letter_reason \<Rightarrow> durable_broker \<Rightarrow> fs
     \<Rightarrow> computed_outcome durable_result" where
  "compute_pending_outcome E pending policy timestamp reason b fs =
     (case checked_add (pd_attempt_number pending) 1 of
        None \<Rightarrow> Err (DBroker (InvalidConfig ''attempt_number'' ''attempt number overflow''))
      | Some next_attempt \<Rightarrow>
          (if rp_max_attempts policy < next_attempt
           then rbind (build_dead_letter_entry E pending reason (pd_attempt_number pending) timestamp b fs)
                  (\<lambda>dead_letter.
                   Ok \<lparr>co_outcome = OutcomeDeadLettered reason (pd_attempt_number pending),
                       co_dead_letter = Some dead_letter\<rparr>)
           else rbind (case rp_backoff_millis policy of
                         Some backoff \<Rightarrow>
                           map_err DBroker (add_millis timestamp backoff ''retry_policy.backoff_millis'')
                       | None \<Rightarrow> Ok timestamp)
                  (\<lambda>ready_at. Ok \<lparr>co_outcome = OutcomeRetryScheduled ready_at, co_dead_letter = None\<rparr>)))"

definition db_ack ::
  "durable_env \<Rightarrow> state_io \<Rightarrow> ack_command \<Rightarrow> durable_broker \<Rightarrow> fs \<Rightarrow> unit durable_result \<times> durable_broker \<times> fs" where
  "db_ack E sio command b fs =
     (case dds_pending_for_command (ac_delivery_id command) (ac_consumer_id command) (db_state b) of
        Err e \<Rightarrow> (Err (DBroker e), b, fs)
      | Panicked \<Rightarrow> (Panicked, b, fs)
      | Ok pending \<Rightarrow>
          (let r = pd_message_ref pending;
               event = MessageAcked (ac_delivery_id command) (ac_consumer_id command) (mr_topic r)
                 (mr_partition_id r) (mr_offset r) (pd_consumer_group_id pending) (ac_timestamp command) in
           case StateLog_append (env_events E) sio event (db_state_log b) fs of
             (Err e, fs1) \<Rightarrow> (Err e, b, fs1)
           | (Panicked, fs1) \<Rightarrow> (Panicked, b, fs1)
           | (Ok u, fs1) \<Rightarrow>
               (Ok (), b\<lparr>db_state := apply_ack (ac_delivery_id command) pending (db_state b)\<rparr>, fs1)))"

definition db_nack ::
  "durable_env \<Rightarrow> state_io \<Rightarrow> nack_command \<Rightarrow> durable_broker \<Rightarrow> fs \<Rightarrow> unit durable_result \<times> durable_broker \<times> fs" where
  "db_nack E sio command b fs =
     (case dds_pending_for_command (nc_delivery_id command) (nc_consumer_id command) (db_state b) of
        Err e \<Rightarrow> (Err (DBroker e), b, fs)
      | Panicked \<Rightarrow> (Panicked, b, fs)
      | Ok pending \<Rightarrow>
          (let reason = Manual (case nc_reason command of None \<Rightarrow> str ''nack'' | Some reason \<Rightarrow> reason);
               r = pd_message_ref pending in
           case compute_pending_outcome E pending (bc_retry_policy (dbc_broker_config (db_config b)))
                  (nc_timestamp command) reason b fs of
             Err e \<Rightarrow> (Err e, b, fs)
           | Panicked \<Rightarrow> (Panicked, b, fs)
           | Ok computed \<Rightarrow>
               (let event = MessageNacked (nc_delivery_id command) (nc_consumer_id command) (mr_topic r)
                      (mr_partition_id r) (mr_offset r) (pd_consumer_group_id pending)
                      (pd_attempt_number pending) (nc_timestamp command) reason (co_outcome computed) in
                case StateLog_append (env_events E) sio event (db_state_log b) fs of
                  (Err e, fs1) \<Rightarrow> (Err e, b, fs1)
                | (Panicked, fs1) \<Rightarrow> (Panicked, b, fs1)
                | (Ok u, fs1) \<Rightarrow>
                    (case apply_pending_outcome (nc_delivery_id command) pending (co_outcome computed)
                            (co_dead_letter computed) (db_state b) of
                       (res, s1) \<Rightarrow> (res, b\<lparr>db_state := s1\<rparr>, fs1)))))"

section \<open>Retry maintenance\<close>

text \<open>What the loop over the expired deliveries collects.\<close>

record retry_work =
  rw_expired_outcomes :: "expired_delivery_outcome list"
  rw_computed_outcomes :: "(delivery_id \<times> pending_delivery \<times> computed_outcome) list"
  rw_made_available :: "retry_available_event list"
  rw_dead_lettered :: nat

definition add_expired ::
  "message_timestamp \<Rightarrow> delivery_id \<Rightarrow> pending_delivery \<Rightarrow> computed_outcome \<Rightarrow> retry_work \<Rightarrow> retry_work" where
  "add_expired now did pending computed w =
     (let r = pd_message_ref pending in
      \<lparr>rw_expired_outcomes = rw_expired_outcomes w @
         [\<lparr>eo_delivery_id = did, eo_consumer_id = pd_consumer_id pending, eo_topic = mr_topic r,
           eo_partition_id = mr_partition_id r, eo_offset = mr_offset r,
           eo_consumer_group_id = pd_consumer_group_id pending, eo_attempt_number = pd_attempt_number pending,
           eo_timestamp = now, eo_reason = Expired, eo_outcome = co_outcome computed\<rparr>],
       rw_computed_outcomes = rw_computed_outcomes w @ [(did, pending, computed)],
       rw_made_available =
         (case co_outcome computed of
            OutcomeRetryScheduled ready_at \<Rightarrow>
              (if ready_at \<le> now
               then rw_made_available w @
                 [\<lparr>ra_consumer_group_id = pd_consumer_group_id pending, ra_topic = mr_topic r,
                   ra_partition_id = mr_partition_id r, ra_offset = mr_offset r\<rparr>]
               else rw_made_available w)
          | OutcomeDeadLettered reason attempt_count \<Rightarrow> rw_made_available w),
       rw_dead_lettered =
         (case co_outcome computed of
            OutcomeDeadLettered reason attempt_count \<Rightarrow> rw_dead_lettered w + 1
          | OutcomeRetryScheduled ready_at \<Rightarrow> rw_dead_lettered w)\<rparr>)"

fun compute_expired ::
  "durable_env \<Rightarrow> message_timestamp \<Rightarrow> durable_broker \<Rightarrow> fs \<Rightarrow> (delivery_id \<times> pending_delivery) list \<Rightarrow> retry_work
     \<Rightarrow> retry_work durable_result" where
  "compute_expired E now b fs [] w = Ok w"
| "compute_expired E now b fs ((did, pending) # ps) w =
     rbind (compute_pending_outcome E pending (bc_retry_policy (dbc_broker_config (db_config b))) now Expired b fs)
       (\<lambda>computed. compute_expired E now b fs ps (add_expired now did pending computed w))"

fun apply_outcomes ::
  "(delivery_id \<times> pending_delivery \<times> computed_outcome) list \<Rightarrow> durable_delivery_state
     \<Rightarrow> unit durable_result \<times> durable_delivery_state" where
  "apply_outcomes [] s = (Ok (), s)"
| "apply_outcomes ((did, pending, computed) # cs) s =
     (case apply_pending_outcome did pending (co_outcome computed) (co_dead_letter computed) s of
        (Ok u, s1) \<Rightarrow> apply_outcomes cs s1
      | (Err e, s1) \<Rightarrow> (Err e, s1)
      | (Panicked, s1) \<Rightarrow> (Panicked, s1))"

fun apply_available ::
  "message_timestamp \<Rightarrow> retry_available_event list \<Rightarrow> nat \<Rightarrow> durable_delivery_state
     \<Rightarrow> nat durable_result \<times> durable_delivery_state" where
  "apply_available now [] count s = (Ok count, s)"
| "apply_available now (e # es) count s =
     (case apply_retry_available e now s of
        (Ok released, s1) \<Rightarrow> apply_available now es (if released then count + 1 else count) s1
      | (Err er, s1) \<Rightarrow> (Err er, s1)
      | (Panicked, s1) \<Rightarrow> (Panicked, s1))"

definition db_retry_ready ::
  "durable_env \<Rightarrow> state_io \<Rightarrow> message_timestamp \<Rightarrow> durable_broker \<Rightarrow> fs
     \<Rightarrow> retry_summary durable_result \<times> durable_broker \<times> fs" where
  "db_retry_ready E sio now b fs =
     (let expired_pending =
            filter (\<lambda>(did, pending). pd_lease_expires_at pending \<le> now) (dds_pending (db_state b));
          already_ready =
            map (\<lambda>(g, r). \<lparr>ra_consumer_group_id = g, ra_topic = mr_topic r,
                            ra_partition_id = mr_partition_id r, ra_offset = mr_offset r\<rparr>)
              (dds_ready_retry_entries now (db_state b)) in
      case compute_expired E now b fs expired_pending
             \<lparr>rw_expired_outcomes = [], rw_computed_outcomes = [], rw_made_available = already_ready,
              rw_dead_lettered = 0\<rparr> of
        Err e \<Rightarrow> (Err e, b, fs)
      | Panicked \<Rightarrow> (Panicked, b, fs)
      | Ok w \<Rightarrow>
          (case StateLog_append (env_events E) sio
                  (RetryMaintenanceApplied now (rw_expired_outcomes w) (rw_made_available w))
                  (db_state_log b) fs of
             (Err e, fs1) \<Rightarrow> (Err e, b, fs1)
           | (Panicked, fs1) \<Rightarrow> (Panicked, b, fs1)
           | (Ok u, fs1) \<Rightarrow>
               (case apply_outcomes (rw_computed_outcomes w) (db_state b) of
                  (Err e, s1) \<Rightarrow> (Err e, b\<lparr>db_state := s1\<rparr>, fs1)
                | (Panicked, s1) \<Rightarrow> (Panicked, b\<lparr>db_state := s1\<rparr>, fs1)
                | (Ok v, s1) \<Rightarrow>
                    (case apply_available now (rw_made_available w) 0 s1 of
                       (Err e, s2) \<Rightarrow> (Err e, b\<lparr>db_state := s2\<rparr>, fs1)
                     | (Panicked, s2) \<Rightarrow> (Panicked, b\<lparr>db_state := s2\<rparr>, fs1)
                     | (Ok made_available_count, s2) \<Rightarrow>
                         (Ok \<lparr>rs_retry_scheduled = length (rw_made_available w),
                             rs_lease_expired = length expired_pending,
                             rs_made_available = made_available_count,
                             rs_dead_lettered = rw_dead_lettered w\<rparr>,
                          b\<lparr>db_state := s2\<rparr>, fs1)))))"

definition db_list_dlq :: "dlq_query \<Rightarrow> durable_broker \<Rightarrow> dead_letter_entry list durable_result" where
  "db_list_dlq query b =
     (case dq_topic query of
        Some t \<Rightarrow>
          (if \<not> bt_contains (db_topics b) t then Err (DBroker (TopicNotFound t))
           else Ok (filter (dlq_matches query) (dds_dead_letters (db_state b))))
      | None \<Rightarrow> Ok (filter (dlq_matches query) (dds_dead_letters (db_state b))))"

end
