(* ===== verification/Durable_Recovery.thy ===== *)
theory Durable_Recovery
  imports Durable_Broker
begin

text \<open>
  \<^verbatim>\<open>msg-broker/src/durable.rs\<close>, third part: opening a durable broker. The events of the state log are
  replayed, each checked against the state it meets; the message logs give back the round-robin
  counters and the idempotency index; deliveries still pending are released.
\<close>

section \<open>Replaying events\<close>

definition replay_topic_created ::
  "durable_env \<Rightarrow> topic \<Rightarrow> durable_broker \<Rightarrow> fs \<Rightarrow> unit durable_result \<times> durable_broker \<times> fs" where
  "replay_topic_created E topic b fs =
     (if bt_contains (db_topics b) (topic_name topic)
      then (Err (Corruption (str ''duplicate topic_created event for '' @ tn_str (topic_name topic))), b, fs)
      else
        case DurableTopic_open E (storage_log_config (db_config b)) topic fs of
          (Err e, fs1) \<Rightarrow> (Err e, b, fs1)
        | (Panicked, fs1) \<Rightarrow> (Panicked, b, fs1)
        | (Ok dt, fs1) \<Rightarrow> (Ok (), b\<lparr>db_topics := bt_insert (topic_name topic) dt (db_topics b)\<rparr>, fs1))"

definition ensure_message_exists ::
  "topic_name \<Rightarrow> partition_id \<Rightarrow> offset \<Rightarrow> durable_broker \<Rightarrow> unit durable_result" where
  "ensure_message_exists t p off b =
     (case bt_get (db_topics b) t of
        None \<Rightarrow> Err (Corruption (str ''state event references unknown topic '' @ tn_str t))
      | Some dt \<Rightarrow>
          (case dt_partition_log dt p of
             None \<Rightarrow> Err (Corruption (str ''state event references unknown partition '' @
               dec (unat (pid_value p)) @ str '' for topic '' @ tn_str t))
           | Some l \<Rightarrow>
               (if sl_next_offset l \<le> off
                then Err (Corruption (str ''state event references missing offset '' @ location_text t p off))
                else Ok ())))"

definition replay_consumed_delivery ::
  "delivery_event \<Rightarrow> durable_broker \<Rightarrow> unit durable_result \<times> durable_broker" where
  "replay_consumed_delivery d b =
     (case ensure_message_exists (de_topic d) (de_partition_id d) (de_offset d) b of
        Err e \<Rightarrow> (Err e, b)
      | Panicked \<Rightarrow> (Panicked, b)
      | Ok u \<Rightarrow>
          if bt_contains (dds_pending (db_state b)) (de_delivery_id d)
          then (Err (Corruption (str ''duplicate pending delivery '' @ did_str (de_delivery_id d))), b)
          else if \<not> (case dds_partition_state (db_state b) (de_consumer_group_id d) (de_topic d) (de_partition_id d) of
                        None \<Rightarrow> True | Some ps \<Rightarrow> gp_is_available ps (de_offset d))
          then (Err (Corruption (str ''delivery '' @ did_str (de_delivery_id d) @
                  str '' consumed unavailable offset '' @
                  location_text (de_topic d) (de_partition_id d) (de_offset d))), b)
          else (Ok (), b\<lparr>db_state := apply_consumed_delivery d (db_state b)\<rparr>))"

fun replay_consumed ::
  "delivery_event list \<Rightarrow> durable_broker \<Rightarrow> unit durable_result \<times> durable_broker" where
  "replay_consumed [] b = (Ok (), b)"
| "replay_consumed (d # ds) b =
     (case replay_consumed_delivery d b of
        (Ok u, b1) \<Rightarrow> replay_consumed ds b1
      | (Err e, b1) \<Rightarrow> (Err e, b1)
      | (Panicked, b1) \<Rightarrow> (Panicked, b1))"

definition dead_letter_for_outcome ::
  "durable_env \<Rightarrow> pending_delivery \<Rightarrow> delivery_outcome \<Rightarrow> message_timestamp \<Rightarrow> durable_broker \<Rightarrow> fs
     \<Rightarrow> dead_letter_entry option durable_result" where
  "dead_letter_for_outcome E pending outcome timestamp b fs =
     (case outcome of
        OutcomeRetryScheduled ready_at \<Rightarrow> Ok None
      | OutcomeDeadLettered reason attempt_count \<Rightarrow>
          map_ok Some (build_dead_letter_entry E pending reason attempt_count timestamp b fs))"

text \<open>The common end of a replayed NACK and of a replayed expiry.\<close>

definition replay_outcome ::
  "durable_env \<Rightarrow> delivery_id \<Rightarrow> consumer_id \<Rightarrow> consumer_group_id \<Rightarrow> message_ref \<Rightarrow> u32 \<Rightarrow> message_timestamp
     \<Rightarrow> delivery_outcome \<Rightarrow> durable_broker \<Rightarrow> fs \<Rightarrow> unit durable_result \<times> durable_broker" where
  "replay_outcome E did cid g r attempt_number timestamp outcome b fs =
     (case pending_for_replay did cid g r (Some attempt_number) (db_state b) of
        Err e \<Rightarrow> (Err e, b)
      | Panicked \<Rightarrow> (Panicked, b)
      | Ok pending \<Rightarrow>
          (case dead_letter_for_outcome E pending outcome timestamp b fs of
             Err e \<Rightarrow> (Err e, b)
           | Panicked \<Rightarrow> (Panicked, b)
           | Ok dead_letter \<Rightarrow>
               (case apply_pending_outcome did pending outcome dead_letter (db_state b) of
                  (res, s1) \<Rightarrow> (res, b\<lparr>db_state := s1\<rparr>))))"

definition replay_expired_outcome ::
  "durable_env \<Rightarrow> expired_delivery_outcome \<Rightarrow> durable_broker \<Rightarrow> fs \<Rightarrow> unit durable_result \<times> durable_broker" where
  "replay_expired_outcome E x b fs =
     replay_outcome E (eo_delivery_id x) (eo_consumer_id x) (eo_consumer_group_id x)
       (MessageRef_new (eo_topic x) (eo_partition_id x) (eo_offset x)) (eo_attempt_number x) (eo_timestamp x)
       (eo_outcome x) b fs"

fun replay_expired ::
  "durable_env \<Rightarrow> expired_delivery_outcome list \<Rightarrow> durable_broker \<Rightarrow> fs \<Rightarrow> unit durable_result \<times> durable_broker" where
  "replay_expired E [] b fs = (Ok (), b)"
| "replay_expired E (x # xs) b fs =
     (case replay_expired_outcome E x b fs of
        (Ok u, b1) \<Rightarrow> replay_expired E xs b1 fs
      | (Err e, b1) \<Rightarrow> (Err e, b1)
      | (Panicked, b1) \<Rightarrow> (Panicked, b1))"

fun apply_recovered_event ::
  "durable_env \<Rightarrow> broker_state_event \<Rightarrow> durable_broker \<Rightarrow> fs \<Rightarrow> unit durable_result \<times> durable_broker \<times> fs" where
  "apply_recovered_event E (TopicCreated topic) b fs = replay_topic_created E topic b fs"
| "apply_recovered_event E (MessagesConsumed deliveries) b fs =
     (case replay_consumed deliveries b of (res, b1) \<Rightarrow> (res, b1, fs))"
| "apply_recovered_event E (MessageAcked did cid t p off g ts) b fs =
     (case pending_for_replay did cid g (MessageRef_new t p off) None (db_state b) of
        Err e \<Rightarrow> (Err e, b, fs)
      | Panicked \<Rightarrow> (Panicked, b, fs)
      | Ok pending \<Rightarrow> (Ok (), b\<lparr>db_state := apply_ack did pending (db_state b)\<rparr>, fs))"
| "apply_recovered_event E (MessageNacked did cid t p off g attempt_number timestamp reason outcome) b fs =
     (case replay_outcome E did cid g (MessageRef_new t p off) attempt_number timestamp outcome b fs of
        (res, b1) \<Rightarrow> (res, b1, fs))"
| "apply_recovered_event E (RetryMaintenanceApplied timestamp expired available) b fs =
     (case replay_expired E expired b fs of
        (Err e, b1) \<Rightarrow> (Err e, b1, fs)
      | (Panicked, b1) \<Rightarrow> (Panicked, b1, fs)
      | (Ok u, b1) \<Rightarrow>
          (case apply_available timestamp available 0 (db_state b1) of
             (res, s1) \<Rightarrow> (map_ok (\<lambda>n. ()) res, b1\<lparr>db_state := s1\<rparr>, fs)))"

fun replay_events ::
  "durable_env \<Rightarrow> broker_state_event list \<Rightarrow> durable_broker \<Rightarrow> fs \<Rightarrow> unit durable_result \<times> durable_broker \<times> fs" where
  "replay_events E [] b fs = (Ok (), b, fs)"
| "replay_events E (e # es) b fs =
     (case apply_recovered_event E e b fs of
        (Ok u, b1, fs1) \<Rightarrow> replay_events E es b1 fs1
      | (Err er, b1, fs1) \<Rightarrow> (Err er, b1, fs1)
      | (Panicked, b1, fs1) \<Rightarrow> (Panicked, b1, fs1))"

section \<open>The publish state from the message logs\<close>

fun recover_records ::
  "durable_env \<Rightarrow> topic_name \<Rightarrow> partition_id \<Rightarrow> stored_message_record list \<Rightarrow> u64 \<Rightarrow> idempotency_index
     \<Rightarrow> (u64 \<times> idempotency_index) durable_result" where
  "recover_records E t p [] count index = Ok (count, index)"
| "recover_records E t p (r # rs) count index =
     rbind (if env_partition_key (smr_envelope r) = None
            then ok_or (checked_add count 1)
                   (Corruption (str ''unkeyed message count overflow during recovery''))
            else Ok count) (\<lambda>count'.
     case env_idempotency_key (smr_envelope r) of
       None \<Rightarrow> recover_records E t p rs count' index
     | Some key \<Rightarrow>
         (let fingerprint = PublishFingerprint_compute (env_sha E) t (smr_envelope r) in
          case bt_get index (t, key) of
            None \<Rightarrow>
              recover_records E t p rs count'
                (bt_insert (t, key)
                   \<lparr>ir_fingerprint = fingerprint, ir_partition_id = smr_partition r,
                    ir_offset = smr_offset r, ir_message_id = env_id (smr_envelope r)\<rparr> index)
          | Some existing \<Rightarrow>
              (if ir_fingerprint existing = fingerprint then recover_records E t p rs count' index
               else Err (Corruption (str ''conflicting idempotency key reuse detected for topic '' @ [39] @
                 tn_str t @ [39] @ str '' (partition '' @ dec (unat (pid_value p)) @ str '' offset '' @
                 dec (unat (offset_value (smr_offset r))) @ str '' conflicts with partition '' @
                 dec (unat (pid_value (ir_partition_id existing))) @ str '' offset '' @
                 dec (unat (offset_value (ir_offset existing))) @ str '')'')))))"

fun recover_partitions ::
  "durable_env \<Rightarrow> topic_name \<Rightarrow> durable_topic \<Rightarrow> partition_id list \<Rightarrow> u64 \<Rightarrow> idempotency_index \<Rightarrow> fs
     \<Rightarrow> (u64 \<times> idempotency_index) durable_result" where
  "recover_partitions E t dt [] count index fs = Ok (count, index)"
| "recover_partitions E t dt (p # ps) count index fs =
     (case dt_partition_log dt p of
        None \<Rightarrow> Panicked
      | Some l \<Rightarrow>
          rbind (read_all_records E l fs) (\<lambda>records.
          rbind (recover_records E t p records count index) (\<lambda>(count', index').
          recover_partitions E t dt ps count' index' fs)))"

text \<open>A partition count of zero would make the remainder panic; no \<^verbatim>\<open>Topic\<close> has one.\<close>

fun recover_topics ::
  "durable_env \<Rightarrow> (topic_name \<times> durable_topic) list \<Rightarrow> idempotency_index \<Rightarrow> fs
     \<Rightarrow> ((topic_name \<times> durable_topic) list \<times> idempotency_index) durable_result" where
  "recover_topics E [] index fs = Ok ([], index)"
| "recover_topics E ((t, dt) # topics) index fs =
     rbind (recover_partitions E t dt (dt_partition_ids dt) 0 index fs) (\<lambda>(count, index').
     if dt_partition_count dt = 0 then Panicked
     else
       let next_partition = count mod ucast (dt_partition_count dt);
           dt' = dt_set_next_round_robin_partition (ucast next_partition) dt in
       rbind (recover_topics E topics index' fs) (\<lambda>(topics', index'').
       Ok ((t, dt') # topics', index'')))"

definition recover_publish_state ::
  "durable_env \<Rightarrow> durable_broker \<Rightarrow> fs \<Rightarrow> durable_broker durable_result" where
  "recover_publish_state E b fs =
     map_ok (\<lambda>(topics, index). b\<lparr>db_topics := topics, db_idempotency_index := index\<rparr>)
       (recover_topics E (db_topics b) [] fs)"

definition release_recovered_pending :: "durable_broker \<Rightarrow> durable_broker" where
  "release_recovered_pending b = b\<lparr>db_state := dds_release_pending (db_state b)\<rparr>"

section \<open>Opening\<close>

definition DurableBroker_new :: "durable_broker_config \<Rightarrow> path \<Rightarrow> durable_broker" where
  "DurableBroker_new config state_log =
     \<lparr>db_config = config, db_topics = [], db_state = DurableDeliveryState_default,
      db_state_log = state_log, db_idempotency_index = []\<rparr>"

definition DurableBroker_open ::
  "durable_env \<Rightarrow> durable_broker_config \<Rightarrow> fs \<Rightarrow> durable_broker durable_result \<times> fs" where
  "DurableBroker_open E config fs =
     (case recover_state_events (env_events E) (state_path config) fs of
        (Err e, fs1) \<Rightarrow> (Err e, fs1)
      | (Panicked, fs1) \<Rightarrow> (Panicked, fs1)
      | (Ok events, fs1) \<Rightarrow>
          (let (state_log, fs2) = StateLog_open (state_path config) fs1 in
           case replay_events E events (DurableBroker_new config state_log) fs2 of
             (Err e, b, fs3) \<Rightarrow> (Err e, fs3)
           | (Panicked, b, fs3) \<Rightarrow> (Panicked, fs3)
           | (Ok u, b, fs3) \<Rightarrow>
               (map_ok release_recovered_pending (recover_publish_state E b fs3), fs3)))"

fun durable_error_kind :: "durable_broker_error \<Rightarrow> string" where
  "durable_error_kind (DBroker (Domain e)) = ''domain''"
| "durable_error_kind (DBroker (TopicAlreadyExists t)) = ''topic_already_exists''"
| "durable_error_kind (DBroker (TopicNotFound t)) = ''topic_not_found''"
| "durable_error_kind (DBroker (DeliveryNotFound d)) = ''delivery_not_found''"
| "durable_error_kind (DBroker (InvalidConsumer d e a)) = ''invalid_consumer''"
| "durable_error_kind (DBroker (InvalidConfig f r)) = ''invalid_config''"
| "durable_error_kind (DBroker (IdempotencyKeyConflict t)) = ''idempotency_key_conflict''"
| "durable_error_kind (DStorage e) = ''storage''"
| "durable_error_kind (DIo m) = ''io''"
| "durable_error_kind DSerde = ''serde''"
| "durable_error_kind (StateCorruption p n r) = ''state_corruption''"
| "durable_error_kind (Corruption r) = ''corruption''"

end
