(* ===== verification/Durable_Abs.thy ===== *)
theory Durable_Abs
  imports Durable_Recovery Storage_Sessions Memory_Reachable
begin

text \<open>
  The durable broker seen as the in-memory one. \<^verbatim>\<open>db_wf\<close> relates a durable broker and the file system
  to the messages its logs hold; \<^verbatim>\<open>db_mem\<close> is the in-memory broker state with these messages in
  place of the logs. The lemmas show that writes in one place leave the logs elsewhere alone,
  and that the log reads of the code return the messages of \<^verbatim>\<open>db_mem\<close>.
\<close>

section \<open>Mapping over a tree map\<close>

definition bt_map :: "('k \<Rightarrow> 'a \<Rightarrow> 'b) \<Rightarrow> ('k, 'a) btree_map \<Rightarrow> ('k, 'b) btree_map" where
  "bt_map f m = map (\<lambda>(k, v). (k, f k v)) m"

lemma bt_get_map [simp]: "bt_get (bt_map f m) k = map_option (f k) (bt_get m k)"
  by (induction m) (auto simp: bt_map_def bt_get_def)

lemma bt_contains_map [simp]: "bt_contains (bt_map f m) k \<longleftrightarrow> bt_contains m k"
  by (simp add: bt_contains_def)

lemma bt_map_insert: "bt_map f (bt_insert k v m) = bt_insert k (f k v) (bt_map f m)"
  by (induction k v m rule: bt_insert.induct) (auto simp: bt_map_def)

lemma bt_map_keys [simp]: "map fst (bt_map f m) = map fst m"
  by (induction m) (auto simp: bt_map_def)

lemma bt_sorted_map [simp]: "bt_sorted (bt_map f m) \<longleftrightarrow> bt_sorted m"
  by (simp add: bt_sorted_def)

lemma bt_map_cong:
  "bt_sorted m \<Longrightarrow> (\<And>k v. bt_get m k = Some v \<Longrightarrow> f k v = g k v) \<Longrightarrow> bt_map f m = bt_map g m"
  using bt_mem_iff[of m] by (auto simp: bt_map_def)

section \<open>Logs and the places they live in\<close>

type_synonym contents = "topic_name \<Rightarrow> partition_id \<Rightarrow> message_envelope list"

definition log_at ::
  "durable_env \<Rightarrow> durable_broker_config \<Rightarrow> fs \<Rightarrow> topic_name \<Rightarrow> partition_id \<Rightarrow> storage_log
     \<Rightarrow> message_envelope list \<Rightarrow> bool" where
  "log_at E config fs t p l es \<longleftrightarrow>
     log_holds (env_records E) fs l es \<and> opens_at l \<and> sl_config l = storage_log_config config \<and>
     sl_topic l = t \<and> sl_partition l = p"

definition log_dir :: "durable_broker_config \<Rightarrow> topic_name \<Rightarrow> partition_id \<Rightarrow> path" where
  "log_dir config t p = partition_dir (lc_root_dir (storage_log_config config)) t p"

lemma log_at_dir: "log_at E config fs t p l es \<Longrightarrow> sl_partition_dir l = log_dir config t p"
  by (simp add: log_at_def opens_at_def log_dir_def)

lemma log_dir_inject [simp]: "log_dir config t p = log_dir config t' p' \<longleftrightarrow> t = t' \<and> p = p'"
  by (simp add: log_dir_def)

lemma state_path_outside: "butlast (state_path config) \<noteq> log_dir config t p"
proof
  assume "butlast (state_path config) = log_dir config t p"
  then have "length (butlast (state_path config)) = length (log_dir config t p)" by simp
  then show False by (simp add: state_path_def log_dir_def partition_dir_def storage_log_config_def)
qed

lemma log_holds_outside:
  assumes h: "log_holds c fs l es" and o: "outside dir fs fs'" and d: "sl_partition_dir l \<noteq> dir"
    and s: "bt_sorted fs'"
  shows "log_holds c fs' l es"
proof -
  have same: "bt_get fs' p = bt_get fs p" if "butlast p = sl_partition_dir l" for p
    using o d that by (simp add: outside_def)
  have "log_files fs' (sl_partition_dir l) = log_files fs (sl_partition_dir l)"
    using same by (auto simp: log_files_def bt_contains_iff)
  moreover have "segs_hold c fs' (sl_topic l) (sl_partition l) (sl_partition_dir l) 0 (sl_segments l) es"
    using h log_holds_paths[OF h] same by (subst segs_hold_cong[where fs = fs]) (simp_all add: log_holds_def)
  ultimately show ?thesis using h s by (simp add: log_holds_def)
qed

lemma log_files_outside:
  "outside dir fs fs' \<Longrightarrow> d \<noteq> dir \<Longrightarrow> log_files fs' d = log_files fs d"
  by (auto simp: log_files_def bt_contains_iff outside_def)

lemma log_at_outside:
  assumes "log_at E config fs t p l es" "outside dir fs fs'" "log_dir config t p \<noteq> dir" "bt_sorted fs'"
  shows "log_at E config fs' t p l es"
  using assms log_holds_outside[OF _ assms(2) _ assms(4)] log_at_dir[OF assms(1)] by (simp add: log_at_def)

section \<open>A durable broker over its files\<close>

definition db_wf :: "durable_env \<Rightarrow> durable_broker \<Rightarrow> fs \<Rightarrow> contents \<Rightarrow> bool" where
  "db_wf E b fs M \<longleftrightarrow>
     bt_sorted fs \<and> bt_sorted (db_topics b) \<and> codec_ok (env_records E) \<and> db_state_log b = state_path (db_config b) \<and>
     dbc_max_segment_bytes (db_config b) \<noteq> 0 \<and>
     (\<forall>t dt p l. bt_get (db_topics b) t = Some dt \<longrightarrow> bt_get (dt_partitions dt) p = Some l \<longrightarrow>
        log_at E (db_config b) fs t p l (M t p)) \<and>
     (\<forall>t p. \<not> bt_contains (db_topics b) t \<longrightarrow> log_files fs (log_dir (db_config b) t p) = {} \<and> M t p = [])"

definition mem_topic :: "(partition_id \<Rightarrow> message_envelope list) \<Rightarrow> durable_topic \<Rightarrow> stored_topic" where
  "mem_topic m dt =
     \<lparr>st_topic = dt_topic dt, st_partitions = bt_map (\<lambda>p l. \<lparr>pl_entries = m p\<rparr>) (dt_partitions dt),
      st_next_round_robin_partition = dt_next_round_robin_partition dt\<rparr>"

definition mem_state ::
  "(topic_name, stored_topic) btree_map \<Rightarrow> durable_delivery_state \<Rightarrow> idempotency_index \<Rightarrow> broker_state" where
  "mem_state T s I =
     \<lparr>bs_topics = T, bs_groups = dds_groups s, bs_pending = dds_pending s,
      bs_dead_letters = dds_dead_letters s, bs_idempotency_index = I\<rparr>"

definition db_mem :: "contents \<Rightarrow> durable_broker \<Rightarrow> broker_state" where
  "db_mem M b =
     mem_state (bt_map (\<lambda>t. mem_topic (M t)) (db_topics b)) (db_state b) (db_idempotency_index b)"

lemma db_wf_state [simp]:
  "db_wf E (b\<lparr>db_state := s\<rparr>) fs M = db_wf E b fs M"
  "db_wf E (b\<lparr>db_idempotency_index := i\<rparr>) fs M = db_wf E b fs M"
  by (simp_all add: db_wf_def)

lemma db_wf_log:
  "db_wf E b fs M \<Longrightarrow> bt_get (db_topics b) t = Some dt \<Longrightarrow> dt_partition_log dt p = Some l \<Longrightarrow>
   log_at E (db_config b) fs t p l (M t p)"
  by (simp add: db_wf_def dt_partition_log_def)

lemma db_wf_outside:
  assumes wf: "db_wf E b fs M" and o: "outside dir fs fs'" and s: "bt_sorted fs'"
    and d: "\<And>t p. log_dir (db_config b) t p \<noteq> dir"
  shows "db_wf E b fs' M"
  using wf s log_at_outside[OF _ o d s] log_files_outside[OF o d] unfolding db_wf_def by blast

lemma db_wf_state_append:
  assumes wf: "db_wf E b fs M" and run: "StateLog_append ec sio ev (db_state_log b) fs = (r, fs')"
  shows "db_wf E b fs' M"
proof -
  let ?d = "butlast (state_path (db_config b))"
  from wf have path: "db_state_log b = state_path (db_config b)" and srt: "bt_sorted fs" by (simp_all add: db_wf_def)
  have "fs' = fs \<or> (\<exists>bs. fs' = bt_insert (state_path (db_config b)) bs fs)"
    using run by (auto simp: StateLog_append_def path Let_def split: option.splits)
  then have "outside ?d fs fs'" "bt_sorted fs'" using srt by (auto intro: outside_insert simp: bt_sorted_insert)
  then show ?thesis by (rule db_wf_outside[OF wf]) (rule state_path_outside[symmetric])
qed

lemma mem_topic_simps [simp]:
  "st_topic (mem_topic m dt) = dt_topic dt"
  "st_next_round_robin_partition (mem_topic m dt) = dt_next_round_robin_partition dt"
  "st_partition_count (mem_topic m dt) = dt_partition_count dt"
  "st_partition_ids (mem_topic m dt) = dt_partition_ids dt"
  "st_partition_log (mem_topic m dt) p = map_option (\<lambda>l. \<lparr>pl_entries = m p\<rparr>) (dt_partition_log dt p)"
  "bt_sorted (st_partitions (mem_topic m dt)) = bt_sorted (dt_partitions dt)"
  by (simp_all add: mem_topic_def st_partition_count_def dt_partition_count_def st_partition_ids_def
      dt_partition_ids_def st_partition_log_def dt_partition_log_def)

lemma mem_state_simps [simp]:
  "bs_topics (mem_state T s I) = T" "bs_groups (mem_state T s I) = dds_groups s"
  "bs_pending (mem_state T s I) = dds_pending s" "bs_dead_letters (mem_state T s I) = dds_dead_letters s"
  "bs_idempotency_index (mem_state T s I) = I"
  by (simp_all add: mem_state_def)

lemma db_mem_simps [simp]:
  "bs_groups (db_mem M b) = dds_groups (db_state b)" "bs_pending (db_mem M b) = dds_pending (db_state b)"
  "bs_dead_letters (db_mem M b) = dds_dead_letters (db_state b)"
  "bs_idempotency_index (db_mem M b) = db_idempotency_index b"
  "bt_get (bs_topics (db_mem M b)) t = map_option (mem_topic (M t)) (bt_get (db_topics b) t)"
  "bt_contains (bs_topics (db_mem M b)) t = bt_contains (db_topics b) t"
  by (simp_all add: db_mem_def)

lemma db_mem_state: "db_mem M (b\<lparr>db_state := s\<rparr>) = mem_state (bs_topics (db_mem M b)) s (db_idempotency_index b)"
  by (simp add: db_mem_def)

lemma db_mem_eq: "db_mem M b = mem_state (bs_topics (db_mem M b)) (db_state b) (db_idempotency_index b)"
  by (simp add: db_mem_def)

lemma log_of_db_mem:
  "log_of (db_mem M b) t p =
     (case bt_get (db_topics b) t of None \<Rightarrow> None
      | Some dt \<Rightarrow> map_option (\<lambda>l. \<lparr>pl_entries = M t p\<rparr>) (dt_partition_log dt p))"
  by (simp add: log_of_def split: option.split)

section \<open>Reading the logs\<close>

lemma read_all_held:
  assumes "codec_ok (env_records E)" "log_at E config fs t p l es"
  shows "read_all_records E l fs = Ok (stored_records t p 0 es)"
proof -
  from assms(2) have h: "log_holds (env_records E) fs l es" and t: "sl_topic l = t" "sl_partition l = p"
    by (simp_all add: log_at_def)
  have fit: "length es < 2 ^ 64" and nx: "sl_next_offset l = Offset (of_nat (length es))"
    using h by (simp_all add: log_holds_def)
  have "unat (offset_value (sl_next_offset l)) = length es" using fit by (simp add: nx unat_of_nat_small)
  then show ?thesis
    using read_from_holds[OF assms(1) h, of 0 "length es"] t by (simp add: read_all_records_def)
qed

lemma take1_drop: "k < length xs \<Longrightarrow> take 1 (drop k xs) = [xs ! k]"
  by (simp add: take_Suc_conv_app_nth hd_drop_conv_nth)

text \<open>The part of \<^verbatim>\<open>db_wf\<close> that reading needs.\<close>

definition db_logs :: "durable_env \<Rightarrow> durable_broker \<Rightarrow> fs \<Rightarrow> contents \<Rightarrow> bool" where
  "db_logs E b fs M \<longleftrightarrow> bt_sorted fs \<and> codec_ok (env_records E) \<and>
     (\<forall>t dt p l. bt_get (db_topics b) t = Some dt \<longrightarrow> dt_partition_log dt p = Some l \<longrightarrow>
        log_at E (db_config b) fs t p l (M t p))"

lemma db_wf_logs: "db_wf E b fs M \<Longrightarrow> db_logs E b fs M"
  by (simp add: db_wf_def db_logs_def dt_partition_log_def)

lemma db_logs_log:
  "db_logs E b fs M \<Longrightarrow> bt_get (db_topics b) t = Some dt \<Longrightarrow> dt_partition_log dt p = Some l \<Longrightarrow>
   log_at E (db_config b) fs t p l (M t p)"
  by (simp add: db_logs_def)

lemma envelope_for_logs:
  assumes wf: "db_logs E b fs M" and m: "message_at (db_mem M b) r = Some env"
  shows "durable_envelope_for E r b fs = Ok env"
proof -
  let ?k = "unat (offset_value (mr_offset r))"
  from m obtain dt l where dt: "bt_get (db_topics b) (mr_topic r) = Some dt"
    and l: "dt_partition_log dt (mr_partition_id r) = Some l"
    and k: "?k < length (M (mr_topic r) (mr_partition_id r))" "M (mr_topic r) (mr_partition_id r) ! ?k = env"
    by (auto simp: message_at_def log_of_db_mem PartitionLog_get_def split: option.splits if_splits)
  have off: "mr_offset r = Offset (of_nat ?k)" by (cases "mr_offset r") simp
  from db_logs_log[OF wf dt l] have at: "log_holds (env_records E) fs l (M (mr_topic r) (mr_partition_id r))"
    "sl_topic l = mr_topic r" "sl_partition l = mr_partition_id r" by (simp_all add: log_at_def)
  have ok: "codec_ok (env_records E)" using wf by (simp add: db_logs_def)
  have "StorageLog_read_from (env_records E) (mr_offset r) 1 l fs =
      Ok [stored_record (mr_topic r) (mr_partition_id r) ?k env]"
    using read_from_holds[OF ok at(1), of ?k 1] k at(2,3) unat_u64_less[of "offset_value (mr_offset r)"]
      take1_drop[of ?k "stored_records (mr_topic r) (mr_partition_id r) 0 (M (mr_topic r) (mr_partition_id r))"]
    by (simp add: off[symmetric] stored_records_nth del: One_nat_def)
  then show ?thesis
    by (simp add: durable_envelope_for_def dt l stored_record_def off[symmetric])
qed

lemmas envelope_for_held = envelope_for_logs[OF db_wf_logs]

section \<open>Updating the delivery state\<close>

lemma mem_group_mut:
  "mem_state T (dds_group_partition_state_mut g r f s) I =
     group_partition_state_mut g (mr_topic r) (mr_partition_id r) f (mem_state T s I)"
  by (simp add: mem_state_def dds_group_partition_state_mut_def group_partition_state_mut_def)

lemma dds_mut_frame [simp]:
  "dds_pending (dds_group_partition_state_mut g r f s) = dds_pending s"
  "dds_dead_letters (dds_group_partition_state_mut g r f s) = dds_dead_letters s"
  by (simp_all add: dds_group_partition_state_mut_def)

lemma mem_pending: "mem_state T (s\<lparr>dds_pending := m\<rparr>) I = (mem_state T s I)\<lparr>bs_pending := m\<rparr>"
  by (simp add: mem_state_def)

lemma mem_dead: "mem_state T (s\<lparr>dds_dead_letters := m\<rparr>) I = (mem_state T s I)\<lparr>bs_dead_letters := m\<rparr>"
  by (simp add: mem_state_def)

lemmas mem_updates = mem_group_mut mem_pending mem_dead

lemma mem_partition_state:
  "(case dds_partition_state s g t p of None \<Rightarrow> True | Some ps \<Rightarrow> gp_is_available ps off) \<longleftrightarrow>
     offset_available (mem_state T s I) g t p off"
  by (simp add: dds_partition_state_def offset_available_def split: option.split)

lemma mem_next_attempt:
  "(case dds_partition_state s g t p of None \<Rightarrow> 1 | Some ps \<Rightarrow> gp_next_attempt_number ps off) =
     gp_next_attempt_number (gps_of (mem_state T s I) g t p) off"
  by (simp add: dds_partition_state_def gps_of_def gs_partition_state_def bt_entry_or_def GroupState_default_def
      GroupPartitionState_default_def gp_next_attempt_number_def split: option.split)

lemma mem_pending_for_command:
  "dds_pending_for_command did cid s = pending_for_command did cid (mem_state T s I)"
  by (simp add: dds_pending_for_command_def pending_for_command_def)

end
