(* ===== verification/Durable_Consume.thy ===== *)
theory Durable_Consume
  imports Durable_Abs
begin

text \<open>
  \<^verbatim>\<open>consume\<close> of the durable broker against the in-memory one: it selects the same messages, logs one
  event for them, and changes the delivery state in the same way.
\<close>

section \<open>One selected delivery\<close>

definition event_at ::
  "broker_state \<Rightarrow> consume_command \<Rightarrow> message_timestamp \<Rightarrow> partition_id \<times> offset \<Rightarrow> delivery_event" where
  "event_at s c expires x =
     \<lparr>de_delivery_id = delivery_id_at s c x, de_consumer_id = cc_consumer_id c, de_topic = cc_topic c,
      de_partition_id = fst x, de_offset = snd x, de_consumer_group_id = cc_consumer_group_id c,
      de_attempt_number = next_attempt s (cc_consumer_group_id c) (ref_of c x),
      de_delivered_at = cc_timestamp c, de_lease_expires_at = expires\<rparr>"

definition selected_at ::
  "broker_state \<Rightarrow> consume_command \<Rightarrow> message_timestamp \<Rightarrow> partition_id \<times> offset \<Rightarrow> selected_delivery" where
  "selected_at s c expires x = \<lparr>sd_event = event_at s c expires x, sd_message = consumed_at s c expires x\<rparr>"

lemma selected_at_fields [simp]:
  "sd_event (selected_at s c expires x) = event_at s c expires x"
  "sd_message (selected_at s c expires x) = consumed_at s c expires x"
  by (simp_all add: selected_at_def)

lemma delivery_for_eq:
  assumes ps: "ps = dds_partition_state (db_state b) (cc_consumer_group_id c) (cc_topic c) p"
    and msg: "message_at (db_mem M b) (ref_of c (p, smr_offset r)) = Some (smr_envelope r)"
  shows "delivery_for b c p ps r =
    (case add_millis (cc_timestamp c) (fst (consume_lease b c)) (snd (consume_lease b c)) of
       Ok expires \<Rightarrow> Ok (selected_at (db_mem M b) c expires (p, smr_offset r))
     | Err e \<Rightarrow> Err (DBroker e) | Panicked \<Rightarrow> Panicked)"
proof -
  let ?s = "db_mem M b" and ?off = "smr_offset r"
  let ?n = "next_attempt ?s (cc_consumer_group_id c) (ref_of c (p, ?off))"
  have n: "(case ps of None \<Rightarrow> 1 | Some st \<Rightarrow> gp_next_attempt_number st ?off) = ?n"
    unfolding ps using mem_next_attempt by (simp add: next_attempt_def gps_at_def db_mem_def)
  have id: "deterministic_delivery_id (cc_consumer_group_id c) (cc_topic c) p ?off ?n =
      Ok (delivery_id_at ?s c (p, ?off))"
    by (simp add: delivery_id_at_def)
  show ?thesis
    unfolding delivery_for_def n Let_def id using msg
    by (simp add: selected_at_def event_at_def consumed_at_def split: rres.split)
qed

section \<open>Selection\<close>

text \<open>The records of a partition, read while its messages are those of \<^verbatim>\<open>db_mem\<close>.\<close>

definition records_at :: "broker_state \<Rightarrow> consume_command \<Rightarrow> partition_id \<Rightarrow> stored_message_record list \<Rightarrow> bool" where
  "records_at s c p rs \<longleftrightarrow> (\<forall>r\<in>set rs. message_at s (ref_of c (p, smr_offset r)) = Some (smr_envelope r))"

lemma select_records_eq:
  assumes ps: "ps = dds_partition_state (db_state b) (cc_consumer_group_id c) (cc_topic c) p"
    and le: "add_millis (cc_timestamp c) (fst (consume_lease b c)) (snd (consume_lease b c)) = Ok expires"
  shows "records_at (db_mem M b) c p rs \<Longrightarrow> length xs < cc_max_messages c \<Longrightarrow>
    select_records b c p ps rs (map (selected_at (db_mem M b) c expires) xs) =
      Ok (map (selected_at (db_mem M b) c expires) (take (cc_max_messages c)
        (xs @ map (Pair p) (filter (\<lambda>off. status (db_mem M b) (cc_consumer_group_id c) (cc_topic c) p off = Available)
                             (map smr_offset rs)))))"
proof (induction rs arbitrary: xs)
  case Nil
  then show ?case by simp
next
  case (Cons r rs)
  let ?s = "db_mem M b"
  have av: "(case ps of None \<Rightarrow> True | Some st \<Rightarrow> gp_is_available st (smr_offset r)) \<longleftrightarrow>
      status ?s (cc_consumer_group_id c) (cc_topic c) p (smr_offset r) = Available"
    unfolding ps using mem_partition_state offset_available_iff by (simp add: db_mem_def)
  have rs: "records_at ?s c p rs" using Cons.prems(1) by (simp add: records_at_def)
  have d: "delivery_for b c p ps r = Ok (selected_at ?s c expires (p, smr_offset r))"
    using delivery_for_eq[OF ps, of M r] Cons.prems(1) le by (simp add: records_at_def)
  show ?case
  proof (cases "status ?s (cc_consumer_group_id c) (cc_topic c) p (smr_offset r) = Available")
    case False
    then show ?thesis using Cons.IH[OF rs Cons.prems(2)] av by simp
  next
    case True
    show ?thesis
    proof (cases "Suc (length xs) = cc_max_messages c")
      case full: True
      then have "cc_max_messages c - length xs = Suc 0" by arith
      with full show ?thesis using True av d by (simp add: Let_def)
    next
      case False
      then have "length (xs @ [(p, smr_offset r)]) < cc_max_messages c" using Cons.prems(2) by simp
      from Cons.IH[OF rs this] show ?thesis using True av d False by (simp add: Let_def)
    qed
  qed
qed

lemma select_records_Err:
  assumes ps: "ps = dds_partition_state (db_state b) (cc_consumer_group_id c) (cc_topic c) p"
    and le: "add_millis (cc_timestamp c) (fst (consume_lease b c)) (snd (consume_lease b c)) = Err e"
  shows "records_at (db_mem M b) c p rs \<Longrightarrow>
    select_records b c p ps rs sel =
      (if filter (\<lambda>off. status (db_mem M b) (cc_consumer_group_id c) (cc_topic c) p off = Available) (map smr_offset rs) = []
       then Ok sel else Err (DBroker e))"
proof (induction rs)
  case Nil
  then show ?case by simp
next
  case (Cons r rs)
  have av: "(case ps of None \<Rightarrow> True | Some st \<Rightarrow> gp_is_available st (smr_offset r)) \<longleftrightarrow>
      status (db_mem M b) (cc_consumer_group_id c) (cc_topic c) p (smr_offset r) = Available"
    unfolding ps using mem_partition_state offset_available_iff by (simp add: db_mem_def)
  have d: "delivery_for b c p ps r = Err (DBroker e)"
    using delivery_for_eq[OF ps, of M r] Cons.prems le by (simp add: records_at_def)
  from Cons show ?case using av d by (auto simp: records_at_def)
qed

lemma map_smr_offset_stored:
  "map smr_offset (stored_records t p 0 es) = offsets_upto (length es)"
  by (rule nth_equalityI) (simp_all add: offsets_upto_def stored_records_nth stored_record_def)

lemma records_at_stored:
  assumes wf: "db_wf E b fs M" and dt: "bt_get (db_topics b) (cc_topic c) = Some dt"
    and l: "dt_partition_log dt p = Some l"
  shows "records_at (db_mem M b) c p (stored_records (cc_topic c) p 0 (M (cc_topic c) p))"
proof -
  have "length (M (cc_topic c) p) < 2 ^ 64"
    using db_wf_log[OF wf dt l] by (simp add: log_at_def log_holds_def)
  then show ?thesis
    by (auto simp: records_at_def in_set_conv_nth stored_records_nth stored_record_def message_at_def log_of_db_mem
        dt l PartitionLog_get_def unat_of_nat_small)
qed

lemma available_in_mem:
  assumes "bt_get (db_topics b) t = Some dt" "dt_partition_log dt p = Some l"
  shows "available_in (db_mem M b) g t (mem_topic (M t) dt) p =
    map (Pair p) (filter (\<lambda>off. status (db_mem M b) g t p off = Available) (offsets_upto (length (M t p))))"
  using assms by (simp add: available_in_def)

lemma take_append_full:
  assumes "m \<le> length xs"
  shows "take m (xs @ ys) = take m xs"
  using assms by simp

lemma select_durable_partitions_eq:
  assumes wf: "db_wf E b fs M" and dt: "bt_get (db_topics b) (cc_topic c) = Some dt"
    and le: "add_millis (cc_timestamp c) (fst (consume_lease b c)) (snd (consume_lease b c)) = Ok expires"
  shows "(\<forall>p\<in>set ps. \<exists>l. dt_partition_log dt p = Some l) \<Longrightarrow> length xs < cc_max_messages c \<Longrightarrow>
    select_durable_partitions E b fs c dt ps (map (selected_at (db_mem M b) c expires) xs) =
      Ok (map (selected_at (db_mem M b) c expires) (take (cc_max_messages c)
        (xs @ concat (map (available_in (db_mem M b) (cc_consumer_group_id c) (cc_topic c) (mem_topic (M (cc_topic c)) dt)) ps))))"
proof (induction ps arbitrary: xs)
  case Nil
  then show ?case by simp
next
  case (Cons p ps)
  let ?s = "db_mem M b" and ?m = "cc_max_messages c"
  let ?av = "available_in ?s (cc_consumer_group_id c) (cc_topic c) (mem_topic (M (cc_topic c)) dt)"
  let ?map = "map (selected_at ?s c expires)"
  from Cons.prems(1) obtain l where l: "dt_partition_log dt p = Some l" by auto
  have ok: "codec_ok (env_records E)" using wf by (simp add: db_wf_def)
  have read: "read_all_records E l fs = Ok (stored_records (cc_topic c) p 0 (M (cc_topic c) p))"
    by (rule read_all_held[OF ok db_wf_log[OF wf dt l]])
  have sel: "select_records b c p (dds_partition_state (db_state b) (cc_consumer_group_id c) (cc_topic c) p)
      (stored_records (cc_topic c) p 0 (M (cc_topic c) p)) (?map xs) = Ok (?map (take ?m (xs @ ?av p)))"
    using select_records_eq[OF refl le records_at_stored[OF wf dt l] Cons.prems(2)]
    by (simp add: map_smr_offset_stored available_in_mem[OF dt l])
  have step: "select_durable_partitions E b fs c dt (p # ps) (?map xs) =
      (if length (take ?m (xs @ ?av p)) = ?m then Ok (?map (take ?m (xs @ ?av p)))
       else select_durable_partitions E b fs c dt ps (?map (take ?m (xs @ ?av p))))"
    unfolding select_durable_partitions.simps l option.case read rbind.simps sel length_map ..
  show ?case
  proof (cases "length (xs @ ?av p) < ?m")
    case True
    then show ?thesis using Cons.IH[OF _ True] Cons.prems(1) unfolding step by simp
  next
    case False
    then have full: "length (take ?m (xs @ ?av p)) = ?m" by simp
    have "take ?m (xs @ concat (map ?av (p # ps))) = take ?m ((xs @ ?av p) @ concat (map ?av ps))" by simp
    also have "\<dots> = take ?m (xs @ ?av p)" using False by (intro take_append_full) simp
    finally show ?thesis unfolding step using full by (simp only: simp_thms if_True)
  qed
qed

lemma select_durable_partitions_Err:
  assumes wf: "db_wf E b fs M" and dt: "bt_get (db_topics b) (cc_topic c) = Some dt"
    and le: "add_millis (cc_timestamp c) (fst (consume_lease b c)) (snd (consume_lease b c)) = Err e"
  shows "(\<forall>p\<in>set ps. \<exists>l. dt_partition_log dt p = Some l) \<Longrightarrow> cc_max_messages c \<noteq> 0 \<Longrightarrow>
    select_durable_partitions E b fs c dt ps [] =
      (if concat (map (available_in (db_mem M b) (cc_consumer_group_id c) (cc_topic c) (mem_topic (M (cc_topic c)) dt)) ps) = []
       then Ok [] else Err (DBroker e))"
proof (induction ps)
  case Nil
  then show ?case by simp
next
  case (Cons p ps)
  from Cons.prems(1) obtain l where l: "dt_partition_log dt p = Some l" by auto
  have ok: "codec_ok (env_records E)" using wf by (simp add: db_wf_def)
  have read: "read_all_records E l fs = Ok (stored_records (cc_topic c) p 0 (M (cc_topic c) p))"
    by (rule read_all_held[OF ok db_wf_log[OF wf dt l]])
  from Cons show ?case
    using select_records_Err[OF refl le records_at_stored[OF wf dt l], of "[]"] l read
    by (auto simp: map_smr_offset_stored available_in_mem[OF dt l])
qed

lemma dt_partition_ids_log:
  assumes "p \<in> set (dt_partition_ids dt)"
  shows "\<exists>l. dt_partition_log dt p = Some l"
proof (cases "bt_get (dt_partitions dt) p")
  case None
  with assms show ?thesis using bt_get_None_iff[of "dt_partitions dt" p] by (simp add: dt_partition_ids_def)
qed (simp add: dt_partition_log_def)

lemma select_available_deliveries_eq:
  assumes wf: "db_wf E b fs M" and dt: "bt_get (db_topics b) (cc_topic c) = Some dt" and m: "cc_max_messages c \<noteq> 0"
  defines "sel \<equiv> selection (db_mem M b) c (mem_topic (M (cc_topic c)) dt)"
  shows "select_available_deliveries E c b fs =
    (case add_millis (cc_timestamp c) (fst (consume_lease b c)) (snd (consume_lease b c)) of
       Ok expires \<Rightarrow> Ok (map (selected_at (db_mem M b) c expires) sel)
     | Err e \<Rightarrow> if sel = [] then Ok [] else Err (DBroker e)
     | Panicked \<Rightarrow> Panicked)"
proof -
  have logs: "\<forall>p\<in>set (dt_partition_ids dt). \<exists>l. dt_partition_log dt p = Some l"
    using dt_partition_ids_log by blast
  show ?thesis
  proof (cases "add_millis (cc_timestamp c) (fst (consume_lease b c)) (snd (consume_lease b c))")
    case (Ok expires)
    then show ?thesis
      using select_durable_partitions_eq[OF wf dt Ok logs, of "[]"] m
      by (simp add: select_available_deliveries_def dt sel_def selection_def available_messages_def)
  next
    case (Err e)
    then show ?thesis
      using select_durable_partitions_Err[OF wf dt Err logs m] m
      by (simp add: select_available_deliveries_def dt sel_def selection_def available_messages_def)
  qed simp
qed

section \<open>The change of state\<close>

lemma mem_apply_consumed:
  "mem_state T (apply_consumed_delivery (event_at (mem_state T s I) c expires x) s) I =
     delivered_state (mem_state T s I) c expires x"
  by (simp add: apply_consumed_delivery_def Let_def mem_updates event_at_def delivered_state_def
      deliver_update_def[abs_def] pending_at_def ref_of_def MessageRef_new_def)

lemma consume_selected_fold:
  assumes "broker_inv (mem_state T s I)" "selection_ok (mem_state T s I) c xs"
    "add_millis (cc_timestamp c) lease f = Ok expires"
  shows "consume_selected c lease f xs acc (mem_state T s I) =
    (Ok (acc @ map (consumed_at (mem_state T s I) c expires) xs),
     mem_state T (fold apply_consumed_delivery (map (event_at (mem_state T s I) c expires) xs) s) I)"
  using assms
proof (induction xs arbitrary: acc s)
  case Nil
  then show ?case by simp
next
  case (Cons x xs)
  let ?m = "mem_state T s I"
  let ?s1 = "apply_consumed_delivery (event_at ?m c expires x) s" and ?g = "cc_consumer_group_id c"
  have m1: "mem_state T ?s1 I = delivered_state ?m c expires x" by (rule mem_apply_consumed)
  from Cons.prems(2) obtain env where av: "status_of_ref ?m ?g (ref_of c x) = Available"
    and env: "message_at ?m (ref_of c x) = Some env" and ok: "selection_ok ?m c xs" and nx: "x \<notin> set xs"
    by (auto simp: selection_ok_def)
  note one = delivered_state_inv[OF Cons.prems(1) av env, where le = expires]
  have "selection_ok (mem_state T ?s1 I) c xs"
    unfolding m1 using ok nx by (auto simp: selection_ok_def one(2))
  note IH = Cons.IH[OF one(1)[folded m1] this Cons.prems(3), of "acc @ [consumed_at ?m c expires x]"]
  have na: "next_attempt (mem_state T ?s1 I) ?g (ref_of c y) = next_attempt ?m ?g (ref_of c y)" if "y \<in> set xs" for y
    using that nx by (auto simp: m1 one(3))
  have msg: "message_at (mem_state T ?s1 I) = message_at ?m" by (simp add: m1)
  have same: "consumed_at (mem_state T ?s1 I) c expires y = consumed_at ?m c expires y"
    "event_at (mem_state T ?s1 I) c expires y = event_at ?m c expires y" if "y \<in> set xs" for y
    using na[OF that] msg by (simp_all add: delivery_id_at_def consumed_at_def event_at_def)
  have maps: "map (consumed_at (mem_state T ?s1 I) c expires) xs = map (consumed_at ?m c expires) xs"
    "map (event_at (mem_state T ?s1 I) c expires) xs = map (event_at ?m c expires) xs"
    using same by simp_all
  show ?case
    unfolding consume_selected_step[OF env Cons.prems(3)] m1[symmetric] IH maps by simp
qed

text \<open>\<^verbatim>\<open>consume\<close> on every branch.\<close>

lemma db_consume_cases:
  assumes wf: "db_wf E b fs M" and inv: "broker_inv (db_mem M b)" and fit: "logs_fit (db_mem M b)"
    and run: "db_consume E sio c b fs = (r, b', fs')"
  shows "db_wf E b' fs' M \<and> r \<noteq> Panicked \<and>
    (\<forall>ms. r = Ok ms \<longrightarrow>
       consume c (fst (consume_lease b c)) (snd (consume_lease b c)) (db_mem M b) = (Ok ms, db_mem M b') \<and>
       (b' = b \<and> fs' = fs \<and> ms = [] \<or>
        (\<exists>evs. StateLog_append (env_events E) sio (MessagesConsumed evs) (db_state_log b) fs = (Ok (), fs') \<and>
           (\<exists>expires dt. bt_get (db_topics b) (cc_topic c) = Some dt \<and>
             evs = map (event_at (db_mem M b) c expires) (selection (db_mem M b) c (mem_topic (M (cc_topic c)) dt)) \<and>
             ms = map (consumed_at (db_mem M b) c expires) (selection (db_mem M b) c (mem_topic (M (cc_topic c)) dt))) \<and>
           b' = b\<lparr>db_state := fold apply_consumed_delivery evs (db_state b)\<rparr>))) \<and>
    (\<forall>e. r = Err e \<longrightarrow> b' = b \<and> (fs' = fs \<or>
       (\<exists>evs. StateLog_append (env_events E) sio (MessagesConsumed evs) (db_state_log b) fs = (Err e, fs'))))"
proof (cases "bt_get (db_topics b) (cc_topic c)")
  case None
  then have "r = Err (DBroker (TopicNotFound (cc_topic c)))" "b' = b" "fs' = fs"
    using run by (simp_all add: db_consume_def bt_contains_def)
  then show ?thesis using wf by simp
next
  case (Some dt)
  let ?st = "mem_topic (M (cc_topic c)) dt" and ?s = "db_mem M b"
  have st: "bt_get (bs_topics ?s) (cc_topic c) = Some ?st" using Some by simp
  show ?thesis
  proof (cases "cc_max_messages c = 0")
    case True
    then show ?thesis using run wf Some st by (auto simp: db_consume_def bt_contains_def consume_def)
  next
    case False
    let ?sel = "selection ?s c ?st"
    note sel = select_available_deliveries_eq[OF wf Some False]
    have mem: "consume c lease f ?s = consume_selected c lease f ?sel [] ?s" for lease f
      using False by (simp add: consume_def Some select_partitions_eq selection_def available_messages_def)
    show ?thesis
    proof (cases "?sel = []")
      case True
      then have "select_available_deliveries E c b fs = Ok []"
        unfolding sel by (cases "add_millis (cc_timestamp c) (fst (consume_lease b c)) (snd (consume_lease b c))") auto
      then show ?thesis using run wf Some False mem True by (auto simp: db_consume_def bt_contains_def)
    next
      case ne: False
      show ?thesis
      proof (cases "add_millis (cc_timestamp c) (fst (consume_lease b c)) (snd (consume_lease b c))")
        case (Err e)
        then show ?thesis using run wf Some False sel ne by (auto simp: db_consume_def bt_contains_def)
      next
        case (Ok expires)
        let ?evs = "map (event_at ?s c expires) ?sel"
        have s': "select_available_deliveries E c b fs = Ok (map (selected_at ?s c expires) ?sel)" using sel Ok by simp
        have evs: "map sd_event (map (selected_at ?s c expires) ?sel) = ?evs"
          "map sd_message (map (selected_at ?s c expires) ?sel) = map (consumed_at ?s c expires) ?sel" by simp_all
        have folds: "fold (\<lambda>d. apply_consumed_delivery (sd_event d)) (map (selected_at ?s c expires) ?sel) x =
            fold apply_consumed_delivery ?evs x" for x by (simp add: fold_map comp_def)
        obtain ra fs1 where ap: "StateLog_append (env_events E) sio (MessagesConsumed ?evs) (db_state_log b) fs = (ra, fs1)"
          by (metis surj_pair)
        note wf1 = db_wf_state_append[OF wf ap]
        have run': "(r, b', fs') = (case ra of Err e \<Rightarrow> (Err e, b, fs1) | Panicked \<Rightarrow> (Panicked, b, fs1)
            | Ok u \<Rightarrow> (Ok (map (consumed_at ?s c expires) ?sel),
                b\<lparr>db_state := fold apply_consumed_delivery ?evs (db_state b)\<rparr>, fs1))"
          using run Some False s' ne ap
          by (simp add: db_consume_def bt_contains_def evs folds del: map_map) (cases ra; simp add: evs folds del: map_map)
        have np: "ra \<noteq> Panicked" using ap by (auto simp: StateLog_append_def Let_def split: option.splits)
        have ok: "selection_ok ?s c ?sel" by (rule selection_selection_ok[OF inv fit st])
        have m: "consume c (fst (consume_lease b c)) (snd (consume_lease b c)) ?s =
            (Ok (map (consumed_at ?s c expires) ?sel),
             db_mem M (b\<lparr>db_state := fold apply_consumed_delivery ?evs (db_state b)\<rparr>))"
          unfolding mem db_mem_state
          using consume_selected_fold[of "bs_topics ?s" "db_state b" "db_idempotency_index b" c ?sel
              "fst (consume_lease b c)" "snd (consume_lease b c)" expires "[]", folded db_mem_eq[of M b]] inv ok Ok
          by simp
        show ?thesis
        proof (cases ra)
          case (Ok u)
          then have "r = Ok (map (consumed_at ?s c expires) ?sel)" "fs' = fs1"
            "b' = b\<lparr>db_state := fold apply_consumed_delivery ?evs (db_state b)\<rparr>" using run' by simp_all
          with Ok m ap wf1 Some show ?thesis by auto
        next
          case (Err e)
          with run' ap wf1 show ?thesis by auto
        qed (use np in simp)
      qed simp
    qed
  qed
qed

end
