(* ===== verification/Durable_Settle.thy ===== *)
theory Durable_Settle
  imports Durable_Consume
begin

text \<open>
  \<^verbatim>\<open>ack\<close> and \<^verbatim>\<open>nack\<close> of the durable broker against the in-memory one. The outcome of a NACK is computed
  before it is logged, so an operation that fails changes nothing, and once the event is
  logged the change of state cannot fail.
\<close>

section \<open>The computed outcome\<close>

lemma compute_pending_outcome_Ok:
  "compute_pending_outcome E pd policy ts reason b fs = Ok co \<longleftrightarrow>
     unat (pd_attempt_number pd) + 1 < 2 ^ 32 \<and>
     (if rp_max_attempts policy < pd_attempt_number pd + 1
      then \<exists>env. durable_envelope_for E (pd_message_ref pd) b fs = Ok env \<and>
        co = \<lparr>co_outcome = OutcomeDeadLettered reason (pd_attempt_number pd),
              co_dead_letter = Some (dead_letter_of pd env reason ts)\<rparr>
      else \<exists>ready. retry_ready_at policy ts = Ok ready \<and>
        co = \<lparr>co_outcome = OutcomeRetryScheduled ready, co_dead_letter = None\<rparr>)"
  by (auto simp: compute_pending_outcome_def checked_add_def build_dead_letter_entry_def dead_letter_of_def
      retry_ready_at_def Let_def split: option.splits)

lemma read_segments_not_Panicked:
  "read_segments c l off limit segs recs fs \<noteq> Panicked"
proof (induction segs arbitrary: recs)
  case (Cons sg segs)
  have loop: "fst (scan_loop c path t p mode content pos off' rs) \<noteq> Panicked" for path t p mode content pos off' rs
  proof (induction c path t p mode content pos off' rs rule: scan_loop.induct)
    case (1 c path t p mode content pos off' rs)
    have v: "validate_persisted_record path t p off' pr \<noteq> Panicked" for pr
      by (simp add: validate_persisted_record_def)
    have i: "increment_offset off' path \<noteq> Panicked" by (simp add: increment_offset_def split: option.split)
    have r: "fst (repair_or_reject_trailing path content n off' rs mode x) \<noteq> Panicked" for n x
      by (simp add: repair_or_reject_trailing_def)
    show ?case
      apply (subst scan_loop.simps)
      using 1 v i r by (auto simp: Let_def split: option.splits rres.splits)
  qed
  have "fst (scan_segment c fs path t p off' mode) \<noteq> Panicked" for path t p off' mode
    using loop by (simp add: scan_segment_def Let_def case_prod_unfold split: option.split)
  with Cons show ?case by (auto split: rres.splits)
qed simp

lemma durable_envelope_for_not_Panicked [simp]: "durable_envelope_for E r b fs \<noteq> Panicked"
  using read_segments_not_Panicked
  by (auto simp: durable_envelope_for_def rbind_eq_Panicked StorageLog_read_from_def split: option.splits list.splits)

lemma compute_pending_outcome_not_Panicked [simp]: "compute_pending_outcome E pd policy ts reason b fs \<noteq> Panicked"
  by (auto simp: compute_pending_outcome_def build_dead_letter_entry_def Let_def rbind_eq_Panicked split: option.splits)

section \<open>One settled delivery\<close>

lemma mem_settle:
  "mem_state T (dds_group_partition_state_mut (pd_consumer_group_id pd) (pd_message_ref pd) f
      (s\<lparr>dds_pending := bt_remove did (dds_pending s)\<rparr>)) I = settle f did pd (mem_state T s I)"
  by (simp add: mem_updates settle_def gps_mut_pending)

lemma dds_mut_mut:
  "dds_group_partition_state_mut g r h (dds_group_partition_state_mut g r f s) =
     dds_group_partition_state_mut g r (\<lambda>ps. h (f ps)) s"
  by (simp add: dds_group_partition_state_mut_def gs_partition_state_mut_def)

lemma apply_pending_outcome_eq:
  "apply_pending_outcome did pd (OutcomeRetryScheduled ready) dl s =
     (Ok (), dds_group_partition_state_mut (pd_consumer_group_id pd) (pd_message_ref pd)
        (retry_update (pd_offset pd) \<lparr>re_message_ref = pd_message_ref pd, re_ready_at = ready\<rparr>)
        (s\<lparr>dds_pending := bt_remove did (dds_pending s)\<rparr>))"
  "apply_pending_outcome did pd (OutcomeDeadLettered reason n) (Some entry) s =
     (Ok (), (dds_group_partition_state_mut (pd_consumer_group_id pd) (pd_message_ref pd)
        (dead_update (pd_offset pd)) (s\<lparr>dds_pending := bt_remove did (dds_pending s)\<rparr>))
        \<lparr>dds_dead_letters := dds_dead_letters s @ [entry]\<rparr>)"
  by (simp_all add: apply_pending_outcome_def Let_def dds_mut_mut retry_update_def[abs_def] dead_update_def[abs_def])

text \<open>What a settled delivery's new status is.\<close>

fun outcome_status :: "message_ref \<Rightarrow> delivery_outcome \<Rightarrow> offset_status" where
  "outcome_status r (OutcomeRetryScheduled ready) = AwaitingRetry \<lparr>re_message_ref = r, re_ready_at = ready\<rparr>"
| "outcome_status r (OutcomeDeadLettered reason n) = Dead"

definition outcome_dead :: "computed_outcome \<Rightarrow> dead_letter_entry list" where
  "outcome_dead co = (case co_dead_letter co of None \<Rightarrow> [] | Some entry \<Rightarrow> [entry])"

lemma one_outcome:
  assumes inv: "broker_inv (mem_state T s I)" and pd: "bt_get (dds_pending s) did = Some pd"
    and co: "compute_pending_outcome E pd policy ts reason b fs = Ok co"
    and env: "\<And>r env. message_at (mem_state T s I) r = Some env \<Longrightarrow> durable_envelope_for E r b fs = Ok env"
  shows "\<exists>s'. apply_pending_outcome did pd (co_outcome co) (co_dead_letter co) s = (Ok (), s') \<and>
    schedule_pending_retry_or_dlq pd policy ts reason ((mem_state T s I)\<lparr>bs_pending := bt_remove did (dds_pending s)\<rparr>) =
      (Ok (), mem_state T s' I) \<and>
    settled_status (mem_state T s I) (mem_state T s' I) pd (outcome_status (pd_message_ref pd) (co_outcome co)) \<and>
    dds_pending s' = bt_remove did (dds_pending s) \<and> dds_dead_letters s' = dds_dead_letters s @ outcome_dead co"
proof -
  let ?m = "mem_state T s I"
  have pd': "bt_get (bs_pending ?m) did = Some pd" using pd by simp
  obtain e0 where e0: "message_at ?m (pd_message_ref pd) = Some e0" using pending_in_flight(4)[OF inv pd'] by blast
  have e1: "durable_envelope_for E (pd_message_ref pd) b fs = Ok e0" by (rule env[OF e0])
  note sch = schedule_eq[OF e0, of policy ts reason did, simplified]
  show ?thesis
  proof (cases "rp_max_attempts policy < pd_attempt_number pd + 1")
    case True
    with co e1 have co': "co = \<lparr>co_outcome = OutcomeDeadLettered reason (pd_attempt_number pd),
        co_dead_letter = Some (dead_letter_of pd e0 reason ts)\<rparr>" by (simp add: compute_pending_outcome_Ok)
    let ?s' = "(dds_group_partition_state_mut (pd_consumer_group_id pd) (pd_message_ref pd)
        (dead_update (pd_offset pd)) (s\<lparr>dds_pending := bt_remove did (dds_pending s)\<rparr>))
        \<lparr>dds_dead_letters := dds_dead_letters s @ [dead_letter_of pd e0 reason ts]\<rparr>"
    have m': "mem_state T ?s' I = (settle (dead_update (pd_offset pd)) did pd ?m)
        \<lparr>bs_dead_letters := dds_dead_letters s @ [dead_letter_of pd e0 reason ts]\<rparr>"
      by (simp add: mem_dead mem_settle)
    have "settled_status ?m (mem_state T ?s' I) pd Dead"
      using settle_dead(2)[OF inv pd'] unfolding m' by (simp add: settled_status_def)
    then show ?thesis using True co' sch m'
      by (intro exI[of _ ?s']) (simp add: apply_pending_outcome_eq outcome_dead_def)
  next
    case False
    with co obtain ready where r: "retry_ready_at policy ts = Ok ready"
      "co = \<lparr>co_outcome = OutcomeRetryScheduled ready, co_dead_letter = None\<rparr>"
      by (auto simp: compute_pending_outcome_Ok)
    let ?e = "\<lparr>re_message_ref = pd_message_ref pd, re_ready_at = ready\<rparr>"
    let ?s' = "dds_group_partition_state_mut (pd_consumer_group_id pd) (pd_message_ref pd)
        (retry_update (pd_offset pd) ?e) (s\<lparr>dds_pending := bt_remove did (dds_pending s)\<rparr>)"
    have m': "mem_state T ?s' I = settle (retry_update (pd_offset pd) ?e) did pd ?m" by (rule mem_settle)
    have "settled_status ?m (mem_state T ?s' I) pd (AwaitingRetry ?e)"
      unfolding m' by (rule settle_retry(2)[OF inv pd']) simp
    then show ?thesis using False r sch m'
      by (intro exI[of _ ?s']) (simp add: apply_pending_outcome_eq outcome_dead_def)
  qed
qed

section \<open>ACK and NACK\<close>

lemma StateLog_append_not_Panicked [simp]: "StateLog_append ec sio ev path fs \<noteq> (Panicked, fs')"
  by (simp add: StateLog_append_def Let_def split: option.split)

lemma db_ack_cases:
  assumes wf: "db_wf E b fs M" and run: "db_ack E sio c b fs = (r, b', fs')"
  shows "db_wf E b' fs' M \<and> r \<noteq> Panicked \<and>
    (r = Ok () \<longrightarrow> ack c (db_mem M b) = (Ok (), db_mem M b') \<and>
       (\<exists>pd. bt_get (dds_pending (db_state b)) (ac_delivery_id c) = Some pd \<and> pd_consumer_id pd = ac_consumer_id c \<and>
          StateLog_append (env_events E) sio
            (MessageAcked (ac_delivery_id c) (ac_consumer_id c) (mr_topic (pd_message_ref pd))
               (mr_partition_id (pd_message_ref pd)) (mr_offset (pd_message_ref pd)) (pd_consumer_group_id pd)
               (ac_timestamp c)) (db_state_log b) fs = (Ok (), fs') \<and>
          b' = b\<lparr>db_state := apply_ack (ac_delivery_id c) pd (db_state b)\<rparr>)) \<and>
    (\<forall>e. r = Err e \<longrightarrow> b' = b \<and>
       (fs' = fs \<or> (\<exists>ev. StateLog_append (env_events E) sio ev (db_state_log b) fs = (Err e, fs'))))"
proof (cases "bt_get (dds_pending (db_state b)) (ac_delivery_id c)")
  case None
  then show ?thesis using run wf by (auto simp: db_ack_def dds_pending_for_command_def)
next
  case (Some pd)
  show ?thesis
  proof (cases "pd_consumer_id pd = ac_consumer_id c")
    case False
    then show ?thesis using run wf Some by (auto simp: db_ack_def dds_pending_for_command_def)
  next
    case True
    let ?ev = "MessageAcked (ac_delivery_id c) (ac_consumer_id c) (mr_topic (pd_message_ref pd))
       (mr_partition_id (pd_message_ref pd)) (mr_offset (pd_message_ref pd)) (pd_consumer_group_id pd) (ac_timestamp c)"
    obtain ra fs1 where ap: "StateLog_append (env_events E) sio ?ev (db_state_log b) fs = (ra, fs1)" by (metis surj_pair)
    note wf1 = db_wf_state_append[OF wf ap]
    have m: "ack c (db_mem M b) = (Ok (), db_mem M (b\<lparr>db_state := apply_ack (ac_delivery_id c) pd (db_state b)\<rparr>))"
    proof -
      have "db_mem M (b\<lparr>db_state := apply_ack (ac_delivery_id c) pd (db_state b)\<rparr>) =
          settle (ack_update (pd_offset pd)) (ac_delivery_id c) pd (db_mem M b)"
        unfolding db_mem_state apply_ack_def ack_update_def[symmetric] mem_settle db_mem_eq[of M b, symmetric] ..
      then show ?thesis using Some True by (simp add: ack_eq pending_for_command_cases)
    qed
    show ?thesis
    proof (cases ra)
      case (Ok u)
      then have "r = Ok () \<and> fs' = fs1 \<and> b' = b\<lparr>db_state := apply_ack (ac_delivery_id c) pd (db_state b)\<rparr>"
        using run Some True ap by (simp add: db_ack_def dds_pending_for_command_def Let_def)
      then show ?thesis using Some True ap Ok wf1 m by simp
    next
      case (Err e)
      then have "r = Err e \<and> fs' = fs1 \<and> b' = b"
        using run Some True ap by (simp add: db_ack_def dds_pending_for_command_def Let_def)
      then show ?thesis using ap Err wf1 by auto
    qed (use ap in simp)
  qed
qed

lemma db_nack_cases:
  assumes wf: "db_wf E b fs M" and inv: "broker_inv (db_mem M b)" and run: "db_nack E sio c b fs = (r, b', fs')"
  shows "db_wf E b' fs' M \<and> r \<noteq> Panicked \<and>
    (r = Ok () \<longrightarrow> nack c (bc_retry_policy (dbc_broker_config (db_config b))) (db_mem M b) = (Ok (), db_mem M b') \<and>
       (\<exists>pd co reason s'. bt_get (dds_pending (db_state b)) (nc_delivery_id c) = Some pd \<and> pd_consumer_id pd = nc_consumer_id c \<and>
          compute_pending_outcome E pd (bc_retry_policy (dbc_broker_config (db_config b))) (nc_timestamp c) reason b fs = Ok co \<and>
          StateLog_append (env_events E) sio
            (MessageNacked (nc_delivery_id c) (nc_consumer_id c) (mr_topic (pd_message_ref pd))
               (mr_partition_id (pd_message_ref pd)) (mr_offset (pd_message_ref pd)) (pd_consumer_group_id pd)
               (pd_attempt_number pd) (nc_timestamp c) reason (co_outcome co)) (db_state_log b) fs = (Ok (), fs') \<and>
          apply_pending_outcome (nc_delivery_id c) pd (co_outcome co) (co_dead_letter co) (db_state b) = (Ok (), s') \<and>
          b' = b\<lparr>db_state := s'\<rparr>)) \<and>
    (\<forall>e. r = Err e \<longrightarrow> b' = b \<and>
       (fs' = fs \<or> (\<exists>ev. StateLog_append (env_events E) sio ev (db_state_log b) fs = (Err e, fs'))))"
proof (cases "bt_get (dds_pending (db_state b)) (nc_delivery_id c)")
  case None
  then show ?thesis using run wf by (auto simp: db_nack_def dds_pending_for_command_def)
next
  case (Some pd)
  let ?policy = "bc_retry_policy (dbc_broker_config (db_config b))"
  let ?reason = "Manual (case nc_reason c of None \<Rightarrow> str ''nack'' | Some reason \<Rightarrow> reason)"
  show ?thesis
  proof (cases "pd_consumer_id pd = nc_consumer_id c")
    case False
    then show ?thesis using run wf Some by (auto simp: db_nack_def dds_pending_for_command_def)
  next
    case own: True
    show ?thesis
    proof (cases "compute_pending_outcome E pd ?policy (nc_timestamp c) ?reason b fs")
      case (Err e)
      then show ?thesis using run wf Some own by (auto simp: db_nack_def dds_pending_for_command_def Let_def)
    next
      case co: (Ok co)
      let ?ev = "MessageNacked (nc_delivery_id c) (nc_consumer_id c) (mr_topic (pd_message_ref pd))
         (mr_partition_id (pd_message_ref pd)) (mr_offset (pd_message_ref pd)) (pd_consumer_group_id pd)
         (pd_attempt_number pd) (nc_timestamp c) ?reason (co_outcome co)"
      obtain ra fs1 where ap: "StateLog_append (env_events E) sio ?ev (db_state_log b) fs = (ra, fs1)" by (metis surj_pair)
      note wf1 = db_wf_state_append[OF wf ap]
      have inv': "broker_inv (mem_state (bs_topics (db_mem M b)) (db_state b) (db_idempotency_index b))"
        using inv by (simp only: db_mem_eq[symmetric])
      obtain s' where s': "apply_pending_outcome (nc_delivery_id c) pd (co_outcome co) (co_dead_letter co) (db_state b) = (Ok (), s')"
        and sch: "schedule_pending_retry_or_dlq pd ?policy (nc_timestamp c) ?reason
          ((db_mem M b)\<lparr>bs_pending := bt_remove (nc_delivery_id c) (bs_pending (db_mem M b))\<rparr>) =
          (Ok (), db_mem M (b\<lparr>db_state := s'\<rparr>))"
        using one_outcome[OF inv' Some co] envelope_for_held[OF wf]
        unfolding db_mem_eq[of M b, symmetric] db_mem_state by auto
      have m: "nack c ?policy (db_mem M b) = (Ok (), db_mem M (b\<lparr>db_state := s'\<rparr>))"
        using Some own sch by (simp add: nack_eq pending_for_command_cases)
      show ?thesis
      proof (cases ra)
        case (Ok u)
        then have "r = Ok () \<and> fs' = fs1 \<and> b' = b\<lparr>db_state := s'\<rparr>"
          using run Some own ap co s' by (simp add: db_nack_def dds_pending_for_command_def Let_def)
        then show ?thesis using Some own ap Ok wf1 m co s' by auto
      next
        case (Err e)
        then have "r = Err e \<and> fs' = fs1 \<and> b' = b"
          using run Some own ap co by (simp add: db_nack_def dds_pending_for_command_def Let_def)
        then show ?thesis using ap Err wf1 by auto
      qed (use ap in simp)
    qed simp
  qed
qed

end
