(* ===== verification/Durable_Retry.thy ===== *)
theory Durable_Retry
  imports Durable_Settle
begin

text \<open>
  \<^verbatim>\<open>retry_ready\<close> of the durable broker against the in-memory one. The durable broker computes all
  outcomes and all releases first and logs them in one event; the in-memory broker expires the
  leases and then looks for the retries that are due. Both release the same set of retries, in
  different orders, and the order does not matter.
\<close>

section \<open>Releasing a set of retries\<close>

definition release_set :: "(consumer_group_id \<times> message_ref) set \<Rightarrow> broker_state \<Rightarrow> broker_state" where
  "release_set L s =
     s\<lparr>bs_groups := bt_map (\<lambda>g gs. gs\<lparr>gs_partitions := bt_map (\<lambda>(t, p) ps.
         ps\<lparr>gp_retry_by_offset := filter (\<lambda>(off, e). (g, \<lparr>mr_topic = t, mr_partition_id = p, mr_offset = off\<rparr>) \<notin> L)
              (gp_retry_by_offset ps)\<rparr>) (gs_partitions gs)\<rparr>) (bs_groups s)\<rparr>"

lemma bt_insert_existing:
  assumes "bt_sorted m" "bt_get m k = Some u"
  shows "bt_insert k v m = bt_map (\<lambda>k' w. if k' = k then v else w) m"
  using assms
proof (induction m)
  case (Cons kv m)
  obtain k' w where kv: "kv = (k', w)" by (metis surj_pair)
  have s: "bt_sorted m" and lt: "\<forall>x\<in>fst ` set m. k' < x" using Cons.prems(1) by (auto simp: bt_sorted_def kv)
  show ?case
  proof (cases "k = k'")
    case True
    then have "map (\<lambda>(k'', w). (k'', if k'' = k then v else w)) m = m" using lt by (intro map_idI) auto
    then show ?thesis using True by (simp add: kv bt_map_def)
  next
    case False
    then have g: "bt_get m k = Some u" using Cons.prems(2) by (simp add: kv bt_get_def)
    then have "k' < k" using lt bt_get_in_set[OF g] by force
    then show ?thesis using Cons.IH[OF s g] False by (auto simp: kv bt_map_def)
  qed
qed simp

lemma bt_map_id [simp]: "bt_map (\<lambda>k v. v) m = m"
  by (simp add: bt_map_def)

lemma bt_map_map: "bt_map f (bt_map h m) = bt_map (\<lambda>k v. f k (h k v)) m"
  by (simp add: bt_map_def case_prod_unfold)

lemma filter_all_pairs: "(\<And>off e. (off, e) \<in> set m \<Longrightarrow> P off e) \<Longrightarrow> filter (\<lambda>(off, e). P off e) m = m"
  by (auto simp: filter_id_conv)

lemma release_set_comp: "release_set L (release_set L' s) = release_set (L' \<union> L) s"
  by (simp add: release_set_def bt_map_map case_prod_unfold conj_commute)

lemma release_set_empty: "release_set {} s = s"
  by (simp add: release_set_def case_prod_unfold)

text \<open>Releasing one retry that exists.\<close>

lemma release_set_one:
  assumes inv: "broker_inv s" and at: "retry_at s g r = Some e"
  shows "group_partition_state_mut g (mr_topic r) (mr_partition_id r) (gp_mark_retry_available (mr_offset r)) s =
    release_set {(g, r)} s"
proof -
  obtain t p off where r: "r = \<lparr>mr_topic = t, mr_partition_id = p, mr_offset = off\<rparr>" by (cases r) auto
  obtain gs where gs: "bt_get (bs_groups s) g = Some gs"
    using at by (cases "bt_get (bs_groups s) g")
      (auto simp: retry_at_def gps_at_def gps_of_def bt_entry_or_def GroupState_default_def GroupPartitionState_default_def)
  then obtain ps where ps: "bt_get (gs_partitions gs) (t, p) = Some ps"
    using at by (cases "bt_get (gs_partitions gs) (t, p)")
      (auto simp: r retry_at_def gps_at_def gps_of_def bt_entry_or_def GroupPartitionState_default_def)
  have srt: "bt_sorted (bs_groups s)" "bt_sorted (gs_partitions gs)"
    using inv gs by (auto simp: broker_inv_def groups_ok_def)
  have upd: "gp_mark_retry_available off ps =
      ps\<lparr>gp_retry_by_offset := filter (\<lambda>(off', e). (g, \<lparr>mr_topic = t, mr_partition_id = p, mr_offset = off'\<rparr>) \<notin> {(g, r)})
           (gp_retry_by_offset ps)\<rparr>"
    by (simp add: gp_mark_retry_available_def bt_remove_def r case_prod_unfold)
  have keep: "q\<lparr>gp_retry_by_offset := filter (\<lambda>(off', e). (g', \<lparr>mr_topic = t', mr_partition_id = p', mr_offset = off'\<rparr>) \<notin> {(g, r)})
           (gp_retry_by_offset q)\<rparr> = q" if "g' \<noteq> g \<or> t' \<noteq> t \<or> p' \<noteq> p" for g' t' p' q
  proof -
    have "filter (\<lambda>(off', e). (g', \<lparr>mr_topic = t', mr_partition_id = p', mr_offset = off'\<rparr>) \<notin> {(g, r)})
        (gp_retry_by_offset q) = gp_retry_by_offset q"
      using that by (intro filter_all_pairs) (auto simp: r)
    then show ?thesis by simp
  qed
  have parts: "bt_insert (t, p) (gp_mark_retry_available off ps) (gs_partitions gs) =
      bt_map (\<lambda>(t', p') q. q\<lparr>gp_retry_by_offset :=
         filter (\<lambda>(off', e). (g, \<lparr>mr_topic = t', mr_partition_id = p', mr_offset = off'\<rparr>) \<notin> {(g, r)})
           (gp_retry_by_offset q)\<rparr>) (gs_partitions gs)"
    unfolding bt_insert_existing[OF srt(2) ps]
  proof (rule bt_map_cong[OF srt(2)])
    fix k q assume kq: "bt_get (gs_partitions gs) k = Some q"
    obtain t' p' where k: "k = (t', p')" by (metis surj_pair)
    show "(if k = (t, p) then gp_mark_retry_available off ps else q) =
      (case k of (t', p') \<Rightarrow> \<lambda>q. q\<lparr>gp_retry_by_offset :=
         filter (\<lambda>(off', e). (g, \<lparr>mr_topic = t', mr_partition_id = p', mr_offset = off'\<rparr>) \<notin> {(g, r)})
           (gp_retry_by_offset q)\<rparr>) q"
    proof (cases "k = (t, p)")
      case True
      with kq ps have "q = ps" by simp
      with True upd show ?thesis by simp
    next
      case False
      with keep[of g t' p' q] show ?thesis by (auto simp: k)
    qed
  qed
  have groups: "bt_insert g (gs\<lparr>gs_partitions := bt_insert (t, p) (gp_mark_retry_available off ps) (gs_partitions gs)\<rparr>) (bs_groups s) =
      bt_map (\<lambda>g' gs. gs\<lparr>gs_partitions := bt_map (\<lambda>(t', p') q. q\<lparr>gp_retry_by_offset :=
         filter (\<lambda>(off', e). (g', \<lparr>mr_topic = t', mr_partition_id = p', mr_offset = off'\<rparr>) \<notin> {(g, r)})
           (gp_retry_by_offset q)\<rparr>) (gs_partitions gs)\<rparr>) (bs_groups s)"
    unfolding bt_insert_existing[OF srt(1) gs]
  proof (rule bt_map_cong[OF srt(1)])
    fix k q assume kq: "bt_get (bs_groups s) k = Some q"
    show "(if k = g then gs\<lparr>gs_partitions := bt_insert (t, p) (gp_mark_retry_available off ps) (gs_partitions gs)\<rparr> else q) =
      q\<lparr>gs_partitions := bt_map (\<lambda>(t', p') q. q\<lparr>gp_retry_by_offset :=
         filter (\<lambda>(off', e). (k, \<lparr>mr_topic = t', mr_partition_id = p', mr_offset = off'\<rparr>) \<notin> {(g, r)})
           (gp_retry_by_offset q)\<rparr>) (gs_partitions q)\<rparr>"
    proof (cases "k = g")
      case True
      with kq gs have "q = gs" by simp
      with True parts show ?thesis by simp
    next
      case False
      have "bt_map (\<lambda>(t', p') q. q\<lparr>gp_retry_by_offset :=
         filter (\<lambda>(off', e). (k, \<lparr>mr_topic = t', mr_partition_id = p', mr_offset = off'\<rparr>) \<notin> {(g, r)})
           (gp_retry_by_offset q)\<rparr>) (gs_partitions q) = bt_map (\<lambda>_ q. q) (gs_partitions q)"
        using keep[of k] False by (intro arg_cong[of _ _ "\<lambda>f. bt_map f (gs_partitions q)"]) (auto simp: fun_eq_iff)
      with False show ?thesis by simp
    qed
  qed
  show ?thesis
    using groups gs ps
    by (simp add: group_partition_state_mut_def gs_partition_state_mut_def release_set_def bt_entry_or_def r)
qed

section \<open>The two release loops\<close>

lemma due_release_one:
  "due now (release_one now g r s) g' r' \<longleftrightarrow> due now s g' r' \<and> (g', r') \<noteq> (g, r)"
  by (auto simp: due_def release_one_retry_at)

lemma release_one_set:
  assumes "broker_inv s" "due now s g r"
  shows "release_one now g r s = release_set {(g, r)} s"
  using assms release_set_one[OF assms(1)] by (auto simp: release_one_def due_def)

lemma release_retries_all:
  assumes "broker_inv s" "distinct L" "\<forall>(g, r)\<in>set L. due now s g r"
  shows "release_retries now L n s = (n + length L, release_set (set L) s)"
  using assms
proof (induction L arbitrary: n s)
  case Nil
  then show ?case by (simp add: release_set_empty)
next
  case (Cons x L)
  obtain g r where x: "x = (g, r)" by (metis surj_pair)
  have due: "due now s g r" using Cons.prems(3) by (simp add: x)
  have "\<forall>(g', r')\<in>set L. due now (release_one now g r s) g' r'"
    using Cons.prems(2,3) by (auto simp: due_release_one x)
  then have "release_retries now L (n + 1) (release_one now g r s) =
      (n + 1 + length L, release_set (set L) (release_one now g r s))"
    using Cons.IH[OF release_one_inv(1)[OF Cons.prems(1)]] Cons.prems(2) by simp
  then show ?case
    unfolding x release_retries_step using due release_one_set[OF Cons.prems(1) due] by (simp add: release_set_comp)
qed

definition available_event :: "consumer_group_id \<times> message_ref \<Rightarrow> retry_available_event" where
  "available_event x =
     \<lparr>ra_consumer_group_id = fst x, ra_topic = mr_topic (snd x), ra_partition_id = mr_partition_id (snd x),
      ra_offset = mr_offset (snd x)\<rparr>"

lemma available_event_fields:
  "ra_consumer_group_id (available_event (g, r)) = g" "ra_topic (available_event (g, r)) = mr_topic r"
  "ra_partition_id (available_event (g, r)) = mr_partition_id r" "ra_offset (available_event (g, r)) = mr_offset r"
  by (simp_all add: available_event_def)

lemma apply_retry_available_due:
  assumes "due now (mem_state T s I) g r"
  shows "\<exists>s1. apply_retry_available (available_event (g, r)) now s = (Ok True, s1) \<and>
    mem_state T s1 I = release_one now g r (mem_state T s I)"
proof -
  have ref: "MessageRef_new (mr_topic r) (mr_partition_id r) (mr_offset r) = r" by (simp add: MessageRef_new_def)
  from assms obtain e where e: "retry_at (mem_state T s I) g r = Some e" "re_ready_at e \<le> now" by (auto simp: due_def)
  let ?s0 = "dds_group_partition_state_mut g r id s"
  have "(case dds_partition_state ?s0 g (mr_topic r) (mr_partition_id r) of
      None \<Rightarrow> None | Some ps \<Rightarrow> bt_get (gp_retry_by_offset ps) (mr_offset r)) = Some e"
    using e(1) by (simp add: dds_partition_state_def dds_group_partition_state_mut_def gs_partition_state_def
        gs_partition_state_mut_def retry_at_def gps_at_def gps_of_def)
  then have "apply_retry_available (available_event (g, r)) now s =
      (Ok True, dds_group_partition_state_mut g r (gp_mark_retry_available (mr_offset r)) ?s0)"
    unfolding apply_retry_available_def Let_def available_event_fields ref using e(2) by simp
  moreover have "mem_state T (dds_group_partition_state_mut g r (gp_mark_retry_available (mr_offset r)) ?s0) I =
      release_one now g r (mem_state T s I)"
    using assms by (simp add: mem_group_mut release_one_def)
  ultimately show ?thesis by blast
qed

lemma apply_available_all:
  assumes "broker_inv (mem_state T s I)" "distinct L" "\<forall>(g, r)\<in>set L. due now (mem_state T s I) g r"
  shows "\<exists>s'. apply_available now (map available_event L) n s = (Ok (n + length L), s') \<and>
    mem_state T s' I = release_set (set L) (mem_state T s I)"
  using assms
proof (induction L arbitrary: n s)
  case Nil
  then show ?case by (simp add: release_set_empty)
next
  case (Cons x L)
  obtain g r where x: "x = (g, r)" by (metis surj_pair)
  have due: "due now (mem_state T s I) g r" using Cons.prems(3) by (simp add: x)
  obtain s1 where s1: "apply_retry_available (available_event (g, r)) now s = (Ok True, s1)"
    "mem_state T s1 I = release_one now g r (mem_state T s I)"
    using apply_retry_available_due[OF due] by blast
  have "\<forall>(g', r')\<in>set L. due now (mem_state T s1 I) g' r'"
    unfolding s1(2) using Cons.prems(2,3) by (auto simp: due_release_one x)
  moreover have "broker_inv (mem_state T s1 I)" unfolding s1(2) by (rule release_one_inv(1)[OF Cons.prems(1)])
  ultimately obtain s' where "apply_available now (map available_event L) (n + 1) s1 = (Ok (n + 1 + length L), s')"
    "mem_state T s' I = release_set (set L) (mem_state T s1 I)"
    using Cons.IH[of s1 "n + 1"] Cons.prems(2) by auto
  then show ?case
    using s1 release_one_set[OF Cons.prems(1) due] by (intro exI[of _ s']) (simp add: x release_set_comp)
qed

section \<open>The retries that are due, each once\<close>

definition partition_due ::
  "message_timestamp \<Rightarrow> consumer_group_id \<Rightarrow> (topic_name \<times> partition_id) \<times> group_partition_state
     \<Rightarrow> (consumer_group_id \<times> message_ref) list" where
  "partition_due now g x =
     map (\<lambda>(off, entry). (g, re_message_ref entry))
       (filter (\<lambda>(off, entry). re_ready_at entry \<le> now) (gp_retry_by_offset (snd x)))"

definition group_due ::
  "message_timestamp \<Rightarrow> consumer_group_id \<times> group_state \<Rightarrow> (consumer_group_id \<times> message_ref) list" where
  "group_due now x = concat (map (partition_due now (fst x)) (gs_partitions (snd x)))"

lemma ready_retry_entries_groups: "ready_retry_entries now s = concat (map (group_due now) (bs_groups s))"
  by (simp add: ready_retry_entries_def group_due_def[abs_def] partition_due_def[abs_def] case_prod_unfold)

lemma in_partition_due:
  "y \<in> set (partition_due now g x) \<longleftrightarrow>
     (\<exists>off e. (off, e) \<in> set (gp_retry_by_offset (snd x)) \<and> re_ready_at e \<le> now \<and> y = (g, re_message_ref e))"
  unfolding partition_due_def by (auto simp: image_iff)

lemma distinct_concat_by_key:
  assumes "distinct (map fst kvs)" "\<And>kv. kv \<in> set kvs \<Longrightarrow> distinct (f kv)"
    "\<And>kv x. kv \<in> set kvs \<Longrightarrow> x \<in> set (f kv) \<Longrightarrow> key x = fst kv"
  shows "distinct (concat (map f kvs))"
  using assms
proof (induction kvs)
  case (Cons kv kvs)
  have "x \<notin> set (f kv')" if "x \<in> set (f kv)" "kv' \<in> set kvs" for x kv'
    using Cons.prems(3)[of kv x] Cons.prems(3)[of kv' x] Cons.prems(1) that by auto
  moreover have "distinct (concat (map f kvs))" using Cons by simp
  ultimately show ?case using Cons.prems(2)[of kv] by auto
qed simp

text \<open>What the invariant says of a partition state met in the walk over the groups.\<close>

lemma walk_partition:
  assumes inv: "broker_inv s" and g: "(g, gs) \<in> set (bs_groups s)" and ps: "((t, p), ps) \<in> set (gs_partitions gs)"
  shows "gps_of s g t p = ps" "bt_sorted (gp_retry_by_offset ps)" "distinct (map fst (gs_partitions gs))"
    "(off, e) \<in> set (gp_retry_by_offset ps) \<Longrightarrow> bt_get (gp_retry_by_offset ps) off = Some e"
    "(off, e) \<in> set (gp_retry_by_offset ps) \<Longrightarrow> re_message_ref e = \<lparr>mr_topic = t, mr_partition_id = p, mr_offset = off\<rparr>"
proof -
  have srtg: "bt_sorted (bs_groups s)" using inv by (simp add: broker_inv_def groups_ok_def)
  have g': "bt_get (bs_groups s) g = Some gs" using g by (simp add: bt_mem_iff[OF srtg])
  have "groups_ok s" using inv by (simp add: broker_inv_def)
  then have srt: "bt_sorted (gs_partitions gs)" using g' unfolding groups_ok_def by blast
  have p: "bt_get (gs_partitions gs) (t, p) = Some ps" using ps by (simp add: bt_mem_iff[OF srt])
  show "distinct (map fst (gs_partitions gs))" by (rule bt_sorted_distinct[OF srt])
  show of: "gps_of s g t p = ps" using g' p by (simp add: gps_of_def bt_entry_or_def)
  have ok: "gps_ok t p ps" using inv of by (metis broker_inv_def groups_ok_def)
  then show rs: "bt_sorted (gp_retry_by_offset ps)" by (simp add: gps_ok_def)
  show "bt_get (gp_retry_by_offset ps) off = Some e" if "(off, e) \<in> set (gp_retry_by_offset ps)" for off e
    using that by (simp add: bt_mem_iff[OF rs])
  with ok show "re_message_ref e = \<lparr>mr_topic = t, mr_partition_id = p, mr_offset = off\<rparr>"
    if "(off, e) \<in> set (gp_retry_by_offset ps)" for off e
    using that by (simp add: gps_ok_def)
qed

lemma ready_retry_entries_due:
  assumes inv: "broker_inv s"
  shows "(g, r) \<in> set (ready_retry_entries now s) \<longleftrightarrow> due now s g r"
proof
  assume "(g, r) \<in> set (ready_retry_entries now s)"
  then obtain x where x: "x \<in> set (bs_groups s)" "(g, r) \<in> set (group_due now x)"
    by (auto simp: ready_retry_entries_groups)
  then obtain y where y: "y \<in> set (gs_partitions (snd x))" "(g, r) \<in> set (partition_due now (fst x) y)"
    by (auto simp: group_due_def)
  obtain h gs where xe: "x = (h, gs)" by (metis surj_pair)
  obtain t p ps where ye: "y = ((t, p), ps)" by (metis surj_pair)
  from y(2) obtain off e where e: "(off, e) \<in> set (gp_retry_by_offset ps)" "re_ready_at e \<le> now"
    "g = h" "r = re_message_ref e" by (auto simp: in_partition_due xe ye)
  note w = walk_partition[OF inv x(1)[unfolded xe e(3)[symmetric]] y(1)[unfolded xe ye snd_conv]]
  show "due now s g r" using w(1) w(4,5)[OF e(1)] e(2,4) by (simp add: due_def retry_at_def gps_at_def)
qed (rule ready_retry_entries_complete[OF inv])

lemma distinct_partition_due:
  assumes inv: "broker_inv s" and g: "(g, gs) \<in> set (bs_groups s)" and ps: "((t, p), ps) \<in> set (gs_partitions gs)"
  shows "distinct (partition_due now g ((t, p), ps))"
proof -
  note w = walk_partition[OF inv g ps]
  have "distinct (gp_retry_by_offset ps)" using bt_sorted_distinct[OF w(2)] by (simp add: distinct_map)
  moreover have "inj_on (\<lambda>(off, entry). (g, re_message_ref entry))
      {x \<in> set (gp_retry_by_offset ps). case x of (off, entry) \<Rightarrow> re_ready_at entry \<le> now}"
  proof (rule inj_onI)
    fix x y
    assume x: "x \<in> {x \<in> set (gp_retry_by_offset ps). case x of (off, entry) \<Rightarrow> re_ready_at entry \<le> now}"
      and y: "y \<in> {x \<in> set (gp_retry_by_offset ps). case x of (off, entry) \<Rightarrow> re_ready_at entry \<le> now}"
      and eq: "(case x of (off, entry) \<Rightarrow> (g, re_message_ref entry)) = (case y of (off, entry) \<Rightarrow> (g, re_message_ref entry))"
    obtain o1 e1 o2 e2 where xy: "x = (o1, e1)" "y = (o2, e2)" by (metis surj_pair)
    have m: "(o1, e1) \<in> set (gp_retry_by_offset ps)" "(o2, e2) \<in> set (gp_retry_by_offset ps)" using x y by (simp_all add: xy)
    have "o1 = o2" using eq w(5)[OF m(1)] w(5)[OF m(2)] by (simp add: xy)
    with w(4)[OF m(1)] w(4)[OF m(2)] show "x = y" by (simp add: xy)
  qed
  ultimately show ?thesis by (simp add: partition_due_def distinct_map)
qed

lemma distinct_ready_retry_entries:
  assumes inv: "broker_inv s"
  shows "distinct (ready_retry_entries now s)"
  unfolding ready_retry_entries_groups
proof (rule distinct_concat_by_key[where key = fst])
  have "bt_sorted (bs_groups s)" using inv by (simp add: broker_inv_def groups_ok_def)
  then show "distinct (map fst (bs_groups s))" by (rule bt_sorted_distinct)
next
  fix x assume x: "x \<in> set (bs_groups s)"
  obtain g gs where xe: "x = (g, gs)" by (metis surj_pair)
  note x' = x[unfolded xe]
  show "distinct (group_due now x)"
    unfolding group_due_def xe fst_conv snd_conv
  proof (rule distinct_concat_by_key[where key = "\<lambda>y. (mr_topic (snd y), mr_partition_id (snd y))"])
    show "distinct (map fst (gs_partitions gs))"
    proof (cases "gs_partitions gs")
      case (Cons y ys)
      obtain t p ps where "y = ((t, p), ps)" by (metis surj_pair)
      with Cons have "((t, p), ps) \<in> set (gs_partitions gs)" by simp
      then show ?thesis by (rule walk_partition(3)[OF inv x'])
    qed simp
  next
    fix y assume y: "y \<in> set (gs_partitions gs)"
    obtain t p ps where ye: "y = ((t, p), ps)" by (metis surj_pair)
    note y' = y[unfolded ye]
    show "distinct (partition_due now g y)" unfolding ye by (rule distinct_partition_due[OF inv x' y'])
    show "(mr_topic (snd z), mr_partition_id (snd z)) = fst y" if z: "z \<in> set (partition_due now g y)" for z
    proof -
      from z obtain off e where "(off, e) \<in> set (gp_retry_by_offset ps)" "z = (g, re_message_ref e)"
        by (auto simp: in_partition_due ye)
      with walk_partition(5)[OF inv x' y'] show ?thesis by (simp add: ye)
    qed
  qed
  show "fst y = fst x" if "y \<in> set (group_due now x)" for y
    using that by (auto simp: group_due_def xe in_partition_due)
qed

end
