(* ===== verification/Durable_Maintenance.thy ===== *)
theory Durable_Maintenance
  imports Durable_Retry
begin

text \<open>
  \<^verbatim>\<open>retry_ready\<close> of the durable broker, second part: the outcomes of the expired deliveries, applied
  one after the other, and the whole operation against the in-memory one.
\<close>

section \<open>What the computation collects\<close>

type_synonym computed = "delivery_id \<times> pending_delivery \<times> computed_outcome"

definition expired_outcome :: "message_timestamp \<Rightarrow> computed \<Rightarrow> expired_delivery_outcome" where
  "expired_outcome now x =
     (case x of (did, pd, co) \<Rightarrow>
      \<lparr>eo_delivery_id = did, eo_consumer_id = pd_consumer_id pd, eo_topic = mr_topic (pd_message_ref pd),
       eo_partition_id = mr_partition_id (pd_message_ref pd), eo_offset = mr_offset (pd_message_ref pd),
       eo_consumer_group_id = pd_consumer_group_id pd, eo_attempt_number = pd_attempt_number pd,
       eo_timestamp = now, eo_reason = Expired, eo_outcome = co_outcome co\<rparr>)"

definition ready_now :: "message_timestamp \<Rightarrow> computed \<Rightarrow> bool" where
  "ready_now now x =
     (case co_outcome (snd (snd x)) of OutcomeRetryScheduled ready_at \<Rightarrow> ready_at \<le> now | _ \<Rightarrow> False)"

definition is_dead :: "computed \<Rightarrow> bool" where
  "is_dead x = (case co_outcome (snd (snd x)) of OutcomeDeadLettered reason n \<Rightarrow> True | _ \<Rightarrow> False)"

definition computed_loc :: "computed \<Rightarrow> consumer_group_id \<times> message_ref" where
  "computed_loc x = pd_loc (fst (snd x))"

definition newly_due :: "message_timestamp \<Rightarrow> computed list \<Rightarrow> (consumer_group_id \<times> message_ref) list" where
  "newly_due now cs = map computed_loc (filter (ready_now now) cs)"

text \<open>The outcomes \<^verbatim>\<open>cs\<close> are those computed for the pending deliveries of \<^verbatim>\<open>s\<close>.\<close>

definition outcomes_for ::
  "durable_env \<Rightarrow> message_timestamp \<Rightarrow> retry_policy \<Rightarrow> durable_broker \<Rightarrow> fs \<Rightarrow> durable_delivery_state
     \<Rightarrow> computed list \<Rightarrow> bool" where
  "outcomes_for E now policy b fs s cs \<longleftrightarrow>
     distinct (map fst cs) \<and>
     (\<forall>(did, pd, co)\<in>set cs. bt_get (dds_pending s) did = Some pd \<and>
        compute_pending_outcome E pd policy now Expired b fs = Ok co)"

lemma outcomes_for_rest:
  assumes "outcomes_for E now policy b fs s ((did, pd, co) # cs)" "(d, p, c) \<in> set cs"
  shows "d \<noteq> did" "bt_get (dds_pending s) d = Some p" "compute_pending_outcome E p policy now Expired b fs = Ok c"
proof -
  have "d \<in> fst ` set cs" using imageI[OF assms(2), of fst] by simp
  moreover have "did \<notin> fst ` set cs" using assms(1) by (simp add: outcomes_for_def)
  ultimately show "d \<noteq> did" by metis
  show "bt_get (dds_pending s) d = Some p" "compute_pending_outcome E p policy now Expired b fs = Ok c"
    using assms by (auto simp: outcomes_for_def)
qed

lemma compute_expired_Ok:
  "compute_expired E now b fs ps w = Ok w' \<Longrightarrow>
   \<exists>cs. map (\<lambda>(did, pd, co). (did, pd)) cs = ps \<and>
     (\<forall>(did, pd, co)\<in>set cs. compute_pending_outcome E pd (bc_retry_policy (dbc_broker_config (db_config b))) now Expired b fs = Ok co) \<and>
     rw_expired_outcomes w' = rw_expired_outcomes w @ map (expired_outcome now) cs \<and>
     rw_computed_outcomes w' = rw_computed_outcomes w @ cs \<and>
     rw_made_available w' = rw_made_available w @ map available_event (newly_due now cs) \<and>
     rw_dead_lettered w' = rw_dead_lettered w + length (filter is_dead cs)"
proof (induction ps arbitrary: w)
  case Nil
  then show ?case by (simp add: newly_due_def)
next
  case (Cons p ps)
  obtain did pd where p: "p = (did, pd)" by (metis surj_pair)
  let ?out = "compute_pending_outcome E pd (bc_retry_policy (dbc_broker_config (db_config b))) now Expired b fs"
  from Cons.prems obtain co where co: "?out = Ok co"
    and rest: "compute_expired E now b fs ps (add_expired now did pd co w) = Ok w'"
    by (auto simp: p rbind_eq_Ok)
  from Cons.IH[OF rest] obtain cs where cs: "map (\<lambda>(did, pd, co). (did, pd)) cs = ps"
    "\<forall>(did, pd, co)\<in>set cs. compute_pending_outcome E pd (bc_retry_policy (dbc_broker_config (db_config b))) now Expired b fs = Ok co"
    "rw_expired_outcomes w' = rw_expired_outcomes (add_expired now did pd co w) @ map (expired_outcome now) cs"
    "rw_computed_outcomes w' = rw_computed_outcomes (add_expired now did pd co w) @ cs"
    "rw_made_available w' = rw_made_available (add_expired now did pd co w) @ map available_event (newly_due now cs)"
    "rw_dead_lettered w' = rw_dead_lettered (add_expired now did pd co w) + length (filter is_dead cs)"
    by blast
  have step: "rw_expired_outcomes (add_expired now did pd co w) = rw_expired_outcomes w @ [expired_outcome now (did, pd, co)]"
    "rw_computed_outcomes (add_expired now did pd co w) = rw_computed_outcomes w @ [(did, pd, co)]"
    "rw_made_available (add_expired now did pd co w) @ map available_event (newly_due now cs) =
      rw_made_available w @ map available_event (newly_due now ((did, pd, co) # cs))"
    "rw_dead_lettered (add_expired now did pd co w) + length (filter is_dead cs) =
      rw_dead_lettered w + length (filter is_dead ((did, pd, co) # cs))"
    by (simp_all add: add_expired_def Let_def expired_outcome_def newly_due_def ready_now_def is_dead_def
        computed_loc_def pd_loc_def available_event_def split: delivery_outcome.split)
  show ?case
    using cs(1,2) co by (intro exI[of _ "(did, pd, co) # cs"]) (simp add: p cs(3-6) step)
qed

lemma compute_expired_not_Panicked: "compute_expired E now b fs ps w \<noteq> Panicked"
  by (induction ps arbitrary: w) (auto simp: rbind_eq_Panicked)

section \<open>Applying the outcomes\<close>

definition status_after ::
  "computed list \<Rightarrow> (consumer_group_id \<Rightarrow> message_ref \<Rightarrow> offset_status) \<Rightarrow> consumer_group_id \<Rightarrow> message_ref \<Rightarrow> offset_status" where
  "status_after cs st g r =
     (case find (\<lambda>x. computed_loc x = (g, r)) cs of
        None \<Rightarrow> st g r | Some x \<Rightarrow> outcome_status r (co_outcome (snd (snd x))))"

lemma find_in_set: "find P xs = Some x \<Longrightarrow> x \<in> set xs \<and> P x"
  by (induction xs) (auto split: if_splits)

lemma find_not_None: "find P xs \<noteq> None \<Longrightarrow> \<exists>x. x \<in> set xs \<and> P x"
  using find_in_set by fastforce

lemma pd_loc_distinct:
  assumes "broker_inv s" "bt_get (bs_pending s) d = Some pd" "bt_get (bs_pending s) d' = Some pd'" "d \<noteq> d'"
  shows "pd_loc pd \<noteq> pd_loc pd'"
  using in_flight_status[OF assms(1,2)] in_flight_status[OF assms(1,3)] assms(4) by (auto simp: pd_loc_def)

lemma length_outcome_dead:
  assumes "compute_pending_outcome E pd policy now reason b fs = Ok co"
  shows "length (outcome_dead co) = (if is_dead (did, pd, co) then 1 else 0)"
  using assms by (auto simp: compute_pending_outcome_Ok outcome_dead_def is_dead_def split: if_splits)

lemma apply_outcomes_all:
  assumes "broker_inv (mem_state T s I)" "outcomes_for E now policy b fs s cs"
    and env: "\<And>r env. message_at (mem_state T s I) r = Some env \<Longrightarrow> durable_envelope_for E r b fs = Ok env"
  shows "\<exists>s'. apply_outcomes cs s = (Ok (), s') \<and>
    expire_deliveries now policy (map fst cs) n (mem_state T s I) =
      (Ok (n + length (filter is_dead cs)), mem_state T s' I) \<and>
    broker_inv (mem_state T s' I) \<and>
    status_of_ref (mem_state T s' I) = status_after cs (status_of_ref (mem_state T s I))"
  using assms
proof (induction cs arbitrary: s n)
  case Nil
  then show ?case by (simp add: status_after_def[abs_def])
next
  case (Cons c cs)
  obtain did pd co where c: "c = (did, pd, co)" by (metis surj_pair)
  let ?m = "mem_state T s I"
  from Cons.prems(2) have pd: "bt_get (dds_pending s) did = Some pd"
    and co: "compute_pending_outcome E pd policy now Expired b fs = Ok co" by (auto simp: outcomes_for_def c)
  have pd': "bt_get (bs_pending ?m) did = Some pd" using pd by simp
  from one_outcome[OF Cons.prems(1) pd co Cons.prems(3)] obtain s1 where
    s1: "apply_pending_outcome did pd (co_outcome co) (co_dead_letter co) s = (Ok (), s1)"
    and sch: "schedule_pending_retry_or_dlq pd policy now Expired (?m\<lparr>bs_pending := bt_remove did (bs_pending ?m)\<rparr>) =
      (Ok (), mem_state T s1 I)"
    and st: "settled_status ?m (mem_state T s1 I) pd (outcome_status (pd_message_ref pd) (co_outcome co))"
    and pend: "dds_pending s1 = bt_remove did (dds_pending s)"
    and dead: "dds_dead_letters s1 = dds_dead_letters s @ outcome_dead co" by auto
  note si = schedule_inv[OF Cons.prems(1) pd' sch]
  have msg: "message_at (mem_state T s1 I) = message_at ?m" by (simp add: message_at_def fun_eq_iff log_of_def)
  have for1: "outcomes_for E now policy b fs s1 cs"
    unfolding outcomes_for_def
  proof (intro conjI ballI)
    show "distinct (map fst cs)" using Cons.prems(2) by (simp add: outcomes_for_def)
    fix x assume x: "x \<in> set cs"
    obtain d2 p2 c2 where xe: "x = (d2, p2, c2)" by (metis surj_pair)
    show "case x of (did, pd, co) \<Rightarrow> bt_get (dds_pending s1) did = Some pd \<and>
        compute_pending_outcome E pd policy now Expired b fs = Ok co"
      using outcomes_for_rest[OF Cons.prems(2)[unfolded c] x[unfolded xe]] by (simp add: xe pend)
  qed
  from Cons.IH[OF si(1) for1 Cons.prems(3)[folded msg]] obtain s' where
    s': "apply_outcomes cs s1 = (Ok (), s')"
    and ex: "expire_deliveries now policy (map fst cs) (n + length (outcome_dead co)) (mem_state T s1 I) =
      (Ok (n + length (outcome_dead co) + length (filter is_dead cs)), mem_state T s' I)"
    and inv': "broker_inv (mem_state T s' I)"
    and st': "status_of_ref (mem_state T s' I) = status_after cs (status_of_ref (mem_state T s1 I))" by blast
  have "expire_deliveries now policy (map fst (c # cs)) n ?m =
      (Ok (n + length (filter is_dead (c # cs))), mem_state T s' I)"
    using expire_deliveries_step[OF pd' sch, of "map fst cs" n] ex length_outcome_dead[OF co, of did]
    by (simp add: c dead)
  moreover have "status_of_ref (mem_state T s' I) g r = status_after (c # cs) (status_of_ref ?m) g r" for g r
  proof (cases "computed_loc c = (g, r)")
    case True
    then have loc: "(g, r) = pd_loc pd" by (simp add: computed_loc_def c)
    have "find (\<lambda>x. computed_loc x = (g, r)) cs = None"
    proof (rule ccontr)
      assume "find (\<lambda>x. computed_loc x = (g, r)) cs \<noteq> None"
      from find_not_None[OF this] obtain x where x: "x \<in> set cs" "computed_loc x = (g, r)" by blast
      obtain d2 p2 c2 where xe: "x = (d2, p2, c2)" by (metis surj_pair)
      have "bt_get (bs_pending ?m) d2 = Some p2" "d2 \<noteq> did"
        using outcomes_for_rest[OF Cons.prems(2)[unfolded c] x(1)[unfolded xe]] by simp_all
      from pd_loc_distinct[OF Cons.prems(1) this(1) pd' this(2)] x(2) loc show False
        by (simp add: computed_loc_def xe)
    qed
    with st loc show ?thesis by (simp add: st' status_after_def settled_status_def c computed_loc_def pd_loc_def)
  next
    case False
    then have "(g, r) \<noteq> pd_loc pd" by (auto simp: computed_loc_def c)
    with st have "status_of_ref (mem_state T s1 I) g r = status_of_ref ?m g r" by (simp add: settled_status_def)
    with False show ?thesis by (simp add: st' status_after_def split: option.split)
  qed
  ultimately show ?case using s1 s' inv' by (intro exI[of _ s']) (simp add: c fun_eq_iff)
qed

section \<open>The retries due afterwards\<close>

lemma due_status:
  "broker_inv s \<Longrightarrow> due now s g r \<longleftrightarrow> (\<exists>e. status_of_ref s g r = AwaitingRetry e \<and> re_ready_at e \<le> now)"
  by (simp add: due_def retry_at_status)

lemma find_computed:
  assumes "broker_inv s" "distinct (map fst cs)" "\<forall>(did, pd, co)\<in>set cs. bt_get (bs_pending s) did = Some pd"
    "x \<in> set cs" "y \<in> set cs" "computed_loc x = computed_loc y"
  shows "x = y"
proof (rule ccontr)
  assume "x \<noteq> y"
  moreover obtain d p c d' p' c' where xy: "x = (d, p, c)" "y = (d', p', c')" by (metis surj_pair)
  ultimately have "d \<noteq> d'" using assms(2,4,5) inj_onD[of fst "set cs" x y] by (auto simp: distinct_map)
  moreover have "bt_get (bs_pending s) d = Some p" "bt_get (bs_pending s) d' = Some p'" using assms(3-5) by (auto simp: xy)
  ultimately show False using pd_loc_distinct[OF assms(1)] assms(6) by (simp add: computed_loc_def xy)
qed

lemma distinct_computed_loc:
  assumes "broker_inv s" "distinct (map fst cs)" "\<forall>(did, pd, co)\<in>set cs. bt_get (bs_pending s) did = Some pd"
  shows "distinct (map computed_loc cs)"
  using find_computed[OF assms] assms(2) by (auto simp: distinct_map inj_on_def)

lemma due_after:
  assumes inv: "broker_inv (mem_state T s I)" "broker_inv (mem_state T s' I)"
    and for_s: "outcomes_for E now policy b fs s cs"
    and st: "status_of_ref (mem_state T s' I) = status_after cs (status_of_ref (mem_state T s I))"
  shows "due now (mem_state T s' I) g r \<longleftrightarrow> due now (mem_state T s I) g r \<or> (g, r) \<in> set (newly_due now cs)"
    and "due now (mem_state T s I) g r \<Longrightarrow> (g, r) \<notin> set (newly_due now cs)"
proof -
  let ?m = "mem_state T s I"
  have d: "distinct (map fst cs)" and p: "\<forall>(did, pd, co)\<in>set cs. bt_get (bs_pending ?m) did = Some pd"
    using for_s by (auto simp: outcomes_for_def)
  have flight: "\<exists>d. status_of_ref ?m g r = InFlight d" if x: "x \<in> set cs" "computed_loc x = (g, r)" for x
  proof -
    obtain did pd co where xe: "x = (did, pd, co)" by (metis surj_pair)
    have "bt_get (bs_pending ?m) did = Some pd" using p x(1) by (auto simp: xe)
    from in_flight_status[OF inv(1) this] x(2) show ?thesis by (auto simp: computed_loc_def pd_loc_def xe)
  qed
  show "due now ?m g r \<Longrightarrow> (g, r) \<notin> set (newly_due now cs)"
  proof
    assume "due now ?m g r" "(g, r) \<in> set (newly_due now cs)"
    then obtain x where "x \<in> set cs" "computed_loc x = (g, r)" by (auto simp: newly_due_def)
    from flight[OF this] \<open>due now ?m g r\<close> show False by (auto simp: due_status[OF inv(1)])
  qed
  show "due now (mem_state T s' I) g r \<longleftrightarrow> due now ?m g r \<or> (g, r) \<in> set (newly_due now cs)"
  proof (cases "find (\<lambda>x. computed_loc x = (g, r)) cs")
    case None
    then have "(g, r) \<notin> computed_loc ` set cs" unfolding find_None_iff by (metis imageE)
    then have "(g, r) \<notin> set (newly_due now cs)" by (auto simp: newly_due_def)
    then show ?thesis by (simp add: due_status[OF inv(1)] due_status[OF inv(2)] st status_after_def None)
  next
    case (Some x)
    from find_in_set[OF this] have x: "x \<in> set cs" "computed_loc x = (g, r)" by blast+
    from flight[OF x] have nd: "\<not> due now ?m g r" by (auto simp: due_status[OF inv(1)])
    have "(g, r) \<in> set (newly_due now cs) \<longleftrightarrow> ready_now now x"
    proof
      assume "(g, r) \<in> set (newly_due now cs)"
      then obtain y where y: "y \<in> set cs" "ready_now now y" "computed_loc y = (g, r)" by (auto simp: newly_due_def)
      with find_computed[OF inv(1) d p x(1), of y] x(2) show "ready_now now x" by simp
    next
      assume "ready_now now x"
      then have "computed_loc x \<in> set (newly_due now cs)" using x(1) unfolding newly_due_def by simp
      then show "(g, r) \<in> set (newly_due now cs)" using x(2) by simp
    qed
    then show ?thesis using nd
      by (simp add: due_status[OF inv(2)] st status_after_def Some ready_now_def split: delivery_outcome.split)
  qed
qed

section \<open>The whole operation\<close>

lemma dds_ready_mem: "dds_ready_retry_entries now s = ready_retry_entries now (mem_state T s I)"
  by (simp add: dds_ready_retry_entries_def ready_retry_entries_def)

lemma already_ready_events:
  "map (\<lambda>(g, r). \<lparr>ra_consumer_group_id = g, ra_topic = mr_topic r, ra_partition_id = mr_partition_id r,
      ra_offset = mr_offset r\<rparr>) L = map available_event L"
  by (simp add: available_event_def case_prod_unfold)

lemma maintenance_applied:
  assumes inv: "broker_inv (mem_state T s I)" and for_s: "outcomes_for E now policy b fs s cs"
    and ids: "map fst cs = expired_delivery_ids now (mem_state T s I)"
    and env: "\<And>r env. message_at (mem_state T s I) r = Some env \<Longrightarrow> durable_envelope_for E r b fs = Ok env"
  defines "L \<equiv> ready_retry_entries now (mem_state T s I) @ newly_due now cs"
  shows "\<exists>s1 s2. apply_outcomes cs s = (Ok (), s1) \<and>
    apply_available now (map available_event L) 0 s1 = (Ok (length L), s2) \<and>
    retry_ready now policy (mem_state T s I) =
      (Ok \<lparr>rs_retry_scheduled = length L, rs_lease_expired = length cs, rs_made_available = length L,
           rs_dead_lettered = length (filter is_dead cs)\<rparr>, mem_state T s2 I)"
proof -
  let ?m = "mem_state T s I"
  from apply_outcomes_all[OF inv for_s env, of "0"] obtain s1 where
    s1: "apply_outcomes cs s = (Ok (), s1)"
    and ex: "expire_deliveries now policy (map fst cs) 0 ?m = (Ok (length (filter is_dead cs)), mem_state T s1 I)"
    and inv1: "broker_inv (mem_state T s1 I)"
    and st: "status_of_ref (mem_state T s1 I) = status_after cs (status_of_ref ?m)" by auto
  note da = due_after[OF inv inv1 for_s st]
  have d: "distinct (map fst cs)" "\<forall>(did, pd, co)\<in>set cs. bt_get (bs_pending ?m) did = Some pd"
    using for_s by (auto simp: outcomes_for_def)
  have "distinct (newly_due now cs)"
    using distinct_computed_loc[OF inv d] by (simp add: newly_due_def distinct_map_filter)
  then have dL: "distinct L"
    using distinct_ready_retry_entries[OF inv] da(2) by (auto simp: L_def ready_retry_entries_due[OF inv])
  have setL: "(g, r) \<in> set L \<longleftrightarrow> due now (mem_state T s1 I) g r" for g r
    by (simp add: L_def ready_retry_entries_due[OF inv] da(1))
  obtain s2 where s2: "apply_available now (map available_event L) 0 s1 = (Ok (length L), s2)"
    "mem_state T s2 I = release_set (set L) (mem_state T s1 I)"
    using apply_available_all[OF inv1 dL, of now 0] setL by auto
  let ?L = "ready_retry_entries now (mem_state T s1 I)"
  have dL': "distinct ?L" by (rule distinct_ready_retry_entries[OF inv1])
  have same: "set ?L = set L" using setL ready_retry_entries_due[OF inv1] by auto
  then have len: "length ?L = length L" using distinct_card[OF dL] distinct_card[OF dL'] by simp
  have rel: "release_retries now ?L 0 (mem_state T s1 I) = (length L, mem_state T s2 I)"
    using release_retries_all[OF inv1 dL', of now 0] ready_retry_entries_due[OF inv1] same len s2(2) by auto
  have "retry_ready now policy ?m =
      (Ok \<lparr>rs_retry_scheduled = length L, rs_lease_expired = length cs, rs_made_available = length L,
           rs_dead_lettered = length (filter is_dead cs)\<rparr>, mem_state T s2 I)"
    using ex rel len arg_cong[OF ids, of length] by (simp add: retry_ready_def ids[symmetric])
  with s1 s2(1) show ?thesis by blast
qed

text \<open>\<^verbatim>\<open>retry_ready\<close> on every branch. After the event is logged nothing can fail.\<close>

lemma db_retry_ready_cases:
  assumes wf: "db_wf E b fs M" and inv: "broker_inv (db_mem M b)" and run: "db_retry_ready E sio now b fs = (r, b', fs')"
  shows "db_wf E b' fs' M \<and> r \<noteq> Panicked \<and>
    (\<forall>sm. r = Ok sm \<longrightarrow>
       retry_ready now (bc_retry_policy (dbc_broker_config (db_config b))) (db_mem M b) = (Ok sm, db_mem M b') \<and>
       (\<exists>cs s1 s2. outcomes_for E now (bc_retry_policy (dbc_broker_config (db_config b))) b fs (db_state b) cs \<and>
          (let L = ready_retry_entries now (db_mem M b) @ newly_due now cs in
           StateLog_append (env_events E) sio
             (RetryMaintenanceApplied now (map (expired_outcome now) cs) (map available_event L)) (db_state_log b) fs = (Ok (), fs') \<and>
           apply_outcomes cs (db_state b) = (Ok (), s1) \<and>
           apply_available now (map available_event L) 0 s1 = (Ok (length L), s2) \<and>
           b' = b\<lparr>db_state := s2\<rparr>))) \<and>
    (\<forall>e. r = Err e \<longrightarrow> b' = b \<and>
       (fs' = fs \<or> (\<exists>ev. StateLog_append (env_events E) sio ev (db_state_log b) fs = (Err e, fs'))))"
proof -
  let ?policy = "bc_retry_policy (dbc_broker_config (db_config b))"
  let ?ps = "filter (\<lambda>(did, pending). pd_lease_expires_at pending \<le> now) (dds_pending (db_state b))"
  let ?w0 = "\<lparr>rw_expired_outcomes = [], rw_computed_outcomes = [],
     rw_made_available = map available_event (dds_ready_retry_entries now (db_state b)), rw_dead_lettered = 0\<rparr>"
  let ?m = "mem_state (bs_topics (db_mem M b)) (db_state b) (db_idempotency_index b)"
  have inv': "broker_inv ?m" using inv by (simp only: db_mem_eq[symmetric])
  show ?thesis
  proof (cases "compute_expired E now b fs ?ps ?w0")
    case (Err e)
    then show ?thesis using run wf by (auto simp: db_retry_ready_def already_ready_events)
  next
    case Panicked
    then show ?thesis by (simp add: compute_expired_not_Panicked)
  next
    case (Ok w)
    from compute_expired_Ok[OF Ok] obtain cs where cs: "map (\<lambda>(did, pd, co). (did, pd)) cs = ?ps"
      "\<forall>(did, pd, co)\<in>set cs. compute_pending_outcome E pd ?policy now Expired b fs = Ok co"
      "rw_expired_outcomes w = map (expired_outcome now) cs" "rw_computed_outcomes w = cs"
      "rw_made_available w = map available_event (dds_ready_retry_entries now (db_state b) @ newly_due now cs)"
      "rw_dead_lettered w = length (filter is_dead cs)" by auto
    let ?L = "ready_retry_entries now ?m @ newly_due now cs"
    have avail: "rw_made_available w = map available_event ?L" using cs(5) unfolding dds_ready_mem[of now "db_state b" "bs_topics (db_mem M b)" "db_idempotency_index b"] .
    have ids: "map fst cs = expired_delivery_ids now ?m"
      using arg_cong[OF cs(1), of "map fst"] by (simp add: expired_delivery_ids_def case_prod_unfold comp_def)
    have srt: "bt_sorted (dds_pending (db_state b))" using inv' by (simp add: broker_inv_def pending_ok_def)
    have "bt_get (dds_pending (db_state b)) did = Some pd" if "(did, pd, co) \<in> set cs" for did pd co
    proof -
      have "(did, pd) \<in> set (map (\<lambda>(did, pd, co). (did, pd)) cs)" using that by force
      then show ?thesis using bt_mem_iff[OF srt] by (simp add: cs(1))
    qed
    moreover have "distinct (map fst cs)" unfolding ids by (rule expired_delivery_ids_distinct[OF inv'])
    ultimately have for_s: "outcomes_for E now ?policy b fs (db_state b) cs" using cs(2) by (auto simp: outcomes_for_def)
    have env: "durable_envelope_for E r b fs = Ok env" if "message_at ?m r = Some env" for r env
      using envelope_for_held[OF wf] that by (simp only: db_mem_eq[symmetric])
    from maintenance_applied[OF inv' for_s ids env] obtain s1 s2 where
      s12: "apply_outcomes cs (db_state b) = (Ok (), s1)"
        "apply_available now (map available_event ?L) 0 s1 = (Ok (length ?L), s2)"
      and m: "retry_ready now ?policy ?m =
        (Ok \<lparr>rs_retry_scheduled = length ?L, rs_lease_expired = length cs, rs_made_available = length ?L,
             rs_dead_lettered = length (filter is_dead cs)\<rparr>,
         mem_state (bs_topics (db_mem M b)) s2 (db_idempotency_index b))" by blast
    let ?ev = "RetryMaintenanceApplied now (map (expired_outcome now) cs) (map available_event ?L)"
    obtain ra fs1 where ap: "StateLog_append (env_events E) sio ?ev (db_state_log b) fs = (ra, fs1)" by (metis surj_pair)
    note wf1 = db_wf_state_append[OF wf ap]
    have len: "length ?ps = length cs" using arg_cong[OF cs(1), of length] by simp
    show ?thesis
    proof (cases ra)
      case (Err e)
      then have "r = Err e" "b' = b" "fs' = fs1"
        using run Ok ap by (auto simp: db_retry_ready_def already_ready_events cs(3) avail)
      then show ?thesis using wf1 ap Err by auto
    next
      case (Ok u)
      have "r = Ok \<lparr>rs_retry_scheduled = length ?L, rs_lease_expired = length cs, rs_made_available = length ?L,
             rs_dead_lettered = length (filter is_dead cs)\<rparr>" "b' = b\<lparr>db_state := s2\<rparr>" "fs' = fs1"
        using run \<open>compute_expired E now b fs ?ps ?w0 = _\<close> ap Ok s12 len
        by (simp_all add: db_retry_ready_def already_ready_events cs(3,4,6) avail del: map_append)
      then show ?thesis using wf1 ap Ok s12 m for_s
        unfolding Let_def db_mem_eq[of M b, symmetric] by (auto simp: db_mem_state)
    qed (use ap in simp)
  qed
qed

end
