(* ===== verification/Durable_Publish.thy ===== *)
theory Durable_Publish
  imports Durable_Maintenance
begin

text \<open>
  \<^verbatim>\<open>create_topic\<close> and \<^verbatim>\<open>publish\<close> of the durable broker against the in-memory one. They are the two
  operations that change the topics; \<^verbatim>\<open>same_shape\<close> says that only the logs' own bookkeeping differs.
\<close>

section \<open>Opening the logs of a topic\<close>

lemma open_at:
  assumes "codec_ok (env_records E)" "log_at E config fs t p l es"
  shows "StorageLog_open (env_records E) (storage_log_config config) t p fs = (Ok l, fs)"
  using reopen_same[OF assms(1), of fs l es] assms(2) by (simp add: log_at_def reopen_def)

definition fresh_log :: "durable_broker_config \<Rightarrow> topic_name \<Rightarrow> partition_id \<Rightarrow> storage_log" where
  "fresh_log config t p =
     \<lparr>sl_config = storage_log_config config, sl_topic = t, sl_partition = p, sl_partition_dir = log_dir config t p,
      sl_segments = [], sl_next_offset = Offset 0\<rparr>"

lemma fresh_log_at:
  assumes "bt_sorted fs" "dbc_max_segment_bytes config \<noteq> 0" "log_files fs (log_dir config t p) = {}"
  shows "log_at E config fs t p (fresh_log config t p) []"
  using assms
  by (simp add: log_at_def log_holds_def fresh_log_def opens_at_def log_dir_def storage_log_config_def seg_offsets_def)

lemma open_partitions_at:
  assumes ok: "codec_ok (env_records E)" and at: "\<forall>p\<in>set ps. log_at E config fs t p (L p) (es p)"
  shows "open_partitions E (storage_log_config config) t ps acc fs = (Ok (fold (\<lambda>p. bt_insert p (L p)) ps acc), fs)"
  using at
proof (induction ps arbitrary: acc)
  case (Cons p ps)
  then have "log_at E config fs t p (L p) (es p)" by simp
  from open_at[OF ok this] have "StorageLog_open (env_records E) (storage_log_config config) t p fs = (Ok (L p), fs)" .
  with Cons show ?case by simp
qed simp

lemma DurableTopic_open_at:
  assumes "codec_ok (env_records E)"
    "\<forall>p\<in>set (topic_partition_ids topic). log_at E config fs (topic_name topic) p (L p) (es p)"
  shows "DurableTopic_open E (storage_log_config config) topic fs =
    (Ok \<lparr>dt_topic = topic, dt_partitions = fold (\<lambda>p. bt_insert p (L p)) (topic_partition_ids topic) [],
         dt_next_round_robin_partition = 0\<rparr>, fs)"
  using open_partitions_at[OF assms, of "[]"] by (simp add: DurableTopic_open_def)

lemma bt_map_fold_insert:
  "bt_map f (fold (\<lambda>p. bt_insert p (L p)) ps m) = fold (\<lambda>p. bt_insert p (f p (L p))) ps (bt_map f m)"
  by (induction ps arbitrary: m) (simp_all add: bt_map_insert)

lemma bt_map_Nil [simp]: "bt_map f [] = []"
  by (simp add: bt_map_def)

section \<open>Creating a topic\<close>

lemma db_create_topic_cases:
  assumes wf: "db_wf E b fs M" and run: "db_create_topic E sio c b fs = (r, b', fs')"
  shows "db_wf E b' fs' M \<and> r \<noteq> Panicked \<and>
    (\<forall>topic. r = Ok topic \<longrightarrow> create_topic c (db_mem M b) = (Ok topic, db_mem M b') \<and>
       topic = Topic_new (ctc_name c) (ctc_config c) \<and> \<not> bt_contains (db_topics b) (topic_name topic) \<and>
       StateLog_append (env_events E) sio (TopicCreated topic) (db_state_log b) fs = (Ok (), fs') \<and>
       b' = b\<lparr>db_topics := bt_insert (topic_name topic)
         \<lparr>dt_topic = topic, dt_partitions = fold (\<lambda>p. bt_insert p (fresh_log (db_config b) (topic_name topic) p))
            (topic_partition_ids topic) [], dt_next_round_robin_partition = 0\<rparr> (db_topics b)\<rparr>) \<and>
    (\<forall>e. r = Err e \<longrightarrow> b' = b \<and>
       (fs' = fs \<or> (\<exists>ev. StateLog_append (env_events E) sio ev (db_state_log b) fs = (Err e, fs'))))"
proof -
  let ?topic = "Topic_new (ctc_name c) (ctc_config c)"
  let ?n = "ctc_name c"
  let ?L = "fresh_log (db_config b) ?n"
  let ?dt = "\<lparr>dt_topic = ?topic, dt_partitions = fold (\<lambda>p. bt_insert p (?L p)) (topic_partition_ids ?topic) [],
     dt_next_round_robin_partition = 0\<rparr>"
  show ?thesis
  proof (cases "bt_contains (db_topics b) ?n")
    case True
    then show ?thesis using run wf by (auto simp: db_create_topic_def Let_def)
  next
    case new: False
    have ok: "codec_ok (env_records E)" using wf by (simp add: db_wf_def)
    have empty: "log_files fs (log_dir (db_config b) ?n p) = {}" "M ?n p = []" for p
      using wf new by (auto simp: db_wf_def)
    have at: "log_at E (db_config b) fs ?n p (?L p) []" for p
      using wf by (intro fresh_log_at empty) (simp_all add: db_wf_def)
    have op: "DurableTopic_open E (storage_log_config (db_config b)) ?topic fs = (Ok ?dt, fs)"
      using DurableTopic_open_at[OF ok, of ?topic "db_config b" fs ?L "\<lambda>p. []"] at by simp
    obtain ra fs1 where ap: "StateLog_append (env_events E) sio (TopicCreated ?topic) (db_state_log b) fs = (ra, fs1)"
      by (metis surj_pair)
    note wf1 = db_wf_state_append[OF wf ap]
    let ?b = "b\<lparr>db_topics := bt_insert ?n ?dt (db_topics b)\<rparr>"
    have get: "bt_get (dt_partitions ?dt) p = Some l \<Longrightarrow> l = ?L p" for p l
    proof -
      have "bt_get (fold (\<lambda>p. bt_insert p (?L p)) ps m) p = (if p \<in> set ps then Some (?L p) else bt_get m p)" for ps m
        by (induction ps arbitrary: m) auto
      then show "bt_get (dt_partitions ?dt) p = Some l \<Longrightarrow> l = ?L p" by (simp split: if_splits)
    qed
    have at1: "log_at E (db_config b) fs1 ?n p (?L p) []" for p
      using wf1 new by (intro fresh_log_at) (auto simp: db_wf_def)
    have wf2: "db_wf E ?b fs1 M"
      using wf1 at1 get empty(2) unfolding db_wf_def by (auto simp: bt_sorted_insert split: if_splits)
    have mt: "mem_topic (M ?n) ?dt = StoredTopic_new ?topic"
      by (simp add: mem_topic_def StoredTopic_new_def bt_map_fold_insert empty PartitionLog_default_def)
    have mem: "create_topic c (db_mem M b) = (Ok ?topic, db_mem M ?b)"
      using new mt by (simp add: create_topic_def Let_def) (simp add: db_mem_def mem_state_def bt_map_insert mt)
    show ?thesis
    proof (cases ra)
      case (Ok u)
      then have "r = Ok ?topic" "b' = ?b" "fs' = fs1" using run new op ap by (simp_all add: db_create_topic_def Let_def)
      then show ?thesis using wf2 mem new ap Ok by auto
    next
      case (Err e)
      then have "r = Err e" "b' = b" "fs' = fs1" using run new op ap by (auto simp: db_create_topic_def Let_def)
      then show ?thesis using wf1 ap Err by auto
    qed (use ap in simp)
  qed
qed

section \<open>Publishing\<close>

text \<open>The write calls of an append either succeed or are rolled back.\<close>

definition io_recovers :: "io_outcome \<Rightarrow> bool" where
  "io_recovers io \<longleftrightarrow> io_failed_after io = None \<or> io_set_len_ok io"

definition db_room :: "contents \<Rightarrow> durable_broker \<Rightarrow> bool" where
  "db_room M b \<longleftrightarrow>
     (\<forall>t dt. bt_get (db_topics b) t = Some dt \<longrightarrow>
        sum_list (map (\<lambda>p. length (M t p)) (dt_partition_ids dt)) + 1 < 2 ^ 64)"

definition topic_shape :: "topic_name \<Rightarrow> durable_topic \<Rightarrow> topic \<times> partition_id list" where
  "topic_shape t dt = (dt_topic dt, dt_partition_ids dt)"

definition same_shape :: "durable_broker \<Rightarrow> durable_broker \<Rightarrow> bool" where
  "same_shape b b' \<longleftrightarrow> db_config b' = db_config b \<and> db_state b' = db_state b \<and> db_state_log b' = db_state_log b \<and>
     bt_map topic_shape (db_topics b') = bt_map topic_shape (db_topics b)"

lemma same_shape_refl [simp]: "same_shape b b"
  by (simp add: same_shape_def)

lemma db_room_partition:
  assumes "db_room M b" "bt_get (db_topics b) t = Some dt" "dt_partition_log dt p = Some l"
  shows "length (M t p) + 1 < 2 ^ 64"
proof -
  have "p \<in> set (dt_partition_ids dt)"
    using assms(3) bt_get_None_iff[of "dt_partitions dt" p] by (auto simp: dt_partition_ids_def dt_partition_log_def)
  then have "length (M t p) \<le> sum_list (map (\<lambda>p. length (M t p)) (dt_partition_ids dt))"
    by (intro member_le_sum_list) auto
  moreover have "sum_list (map (\<lambda>p. length (M t p)) (dt_partition_ids dt)) + 1 < 2 ^ 64"
    using assms(1,2) by (simp add: db_room_def)
  ultimately show ?thesis by simp
qed

lemma select_durable_partition_mem: "select_durable_partition dt e = select_partition (mem_topic m dt) e"
  by (simp add: select_durable_partition_def select_partition_def split: option.split)

definition grown :: "contents \<Rightarrow> topic_name \<Rightarrow> partition_id \<Rightarrow> message_envelope \<Rightarrow> contents" where
  "grown M t p e = M(t := (M t)(p := M t p @ [e]))"

text \<open>The topic with one log replaced and its counter advanced.\<close>

definition appended_topic ::
  "partition_id \<Rightarrow> storage_log \<Rightarrow> message_envelope \<Rightarrow> durable_topic \<Rightarrow> durable_topic" where
  "appended_topic p l e dt =
     (let dt1 = dt\<lparr>dt_partitions := bt_insert p l (dt_partitions dt)\<rparr> in
      if env_partition_key e = None then dt_advance_round_robin_partition dt1 else dt1)"

lemma dt_partition_ids_insert:
  "bt_sorted (dt_partitions dt) \<Longrightarrow> dt_partition_log dt p = Some l0 \<Longrightarrow>
   dt_partition_ids (dt\<lparr>dt_partitions := bt_insert p l (dt_partitions dt)\<rparr>) = dt_partition_ids dt"
  by (simp add: dt_partition_ids_def dt_partition_log_def bt_insert_existing)

lemma appended_topic_fields [simp]:
  "dt_topic (appended_topic p l e dt) = dt_topic dt"
  "dt_partitions (appended_topic p l e dt) = bt_insert p l (dt_partitions dt)"
  by (simp_all add: appended_topic_def Let_def dt_advance_round_robin_partition_def)

lemma mem_topic_appended:
  assumes srt: "bt_sorted (dt_partitions dt)" and l0: "dt_partition_log dt p = Some l0" and p: "p = select_durable_partition dt e"
  shows "mem_topic (grown M t p e t) (appended_topic p l e dt) = published_topic e (mem_topic (M t) dt) \<lparr>pl_entries = M t p\<rparr>"
proof -
  have "bt_map (\<lambda>p' l. \<lparr>pl_entries = grown M t p e t p'\<rparr>) (bt_insert p l (dt_partitions dt)) =
      bt_insert p \<lparr>pl_entries = M t p @ [e]\<rparr> (bt_map (\<lambda>p' l. \<lparr>pl_entries = M t p'\<rparr>) (dt_partitions dt))"
  proof -
    have g: "bt_get (bt_map (\<lambda>p' l. \<lparr>pl_entries = M t p'\<rparr>) (dt_partitions dt)) p = Some \<lparr>pl_entries = M t p\<rparr>"
      using l0 by (simp add: dt_partition_log_def)
    have "bt_insert p l (dt_partitions dt) = bt_map (\<lambda>k' w. if k' = p then l else w) (dt_partitions dt)"
      using bt_insert_existing[OF srt] l0 by (simp add: dt_partition_log_def)
    then show ?thesis
      using srt by (subst bt_insert_existing[OF _ g]) (auto simp: bt_map_map grown_def intro!: bt_map_cong[OF srt])
  qed
  moreover have "dt_partition_count (dt\<lparr>dt_partitions := x\<rparr>) = dt_partition_count dt" for x
    by (simp add: dt_partition_count_def)
  ultimately show ?thesis
    unfolding published_topic_def Let_def select_durable_partition_mem[of dt e "M t", symmetric] p[symmetric]
    by (simp add: mem_topic_def appended_topic_def Let_def dt_advance_round_robin_partition_def
        st_advance_round_robin_partition_def st_set_partition_log_def PartitionLog_append_def
        st_partition_count_def dt_partition_count_def)
qed

text \<open>Replacing one log.\<close>

lemma db_wf_set_log:
  assumes wf: "db_wf E b fs M" and dt: "bt_get (db_topics b) t = Some dt"
    and o: "outside (log_dir (db_config b) t p) fs fs'" and s: "bt_sorted fs'"
    and at: "log_at E (db_config b) fs' t p l es" and d: "dt_partitions d = bt_insert p l (dt_partitions dt)"
  shows "db_wf E (b\<lparr>db_topics := bt_insert t d (db_topics b)\<rparr>) fs' (M(t := (M t)(p := es)))"
proof -
  let ?M = "M(t := (M t)(p := es))"
  have logs: "log_at E (db_config b) fs' t' p' l' (?M t' p')"
    if "bt_get (bt_insert t d (db_topics b)) t' = Some dt'" "bt_get (dt_partitions dt') p' = Some l'" for t' dt' p' l'
  proof (cases "t' = t \<and> p' = p")
    case True
    with that d at show ?thesis by simp
  next
    case False
    have "\<exists>dt0. bt_get (db_topics b) t' = Some dt0 \<and> bt_get (dt_partitions dt0) p' = Some l'"
      using that dt d False by (cases "t' = t") (auto split: if_splits)
    then obtain dt0 where "bt_get (db_topics b) t' = Some dt0" "bt_get (dt_partitions dt0) p' = Some l'" by blast
    then have "log_at E (db_config b) fs t' p' l' (M t' p')" using wf by (simp add: db_wf_def)
    from log_at_outside[OF this o _ s] False show ?thesis by auto
  qed
  have "log_files fs' (log_dir (db_config b) t' p') = {} \<and> ?M t' p' = []"
    if "\<not> bt_contains (bt_insert t d (db_topics b)) t'" for t' p'
  proof -
    from that have "t' \<noteq> t" "\<not> bt_contains (db_topics b) t'" by auto
    then show ?thesis using wf log_files_outside[OF o, of "log_dir (db_config b) t' p'"] by (auto simp: db_wf_def)
  qed
  then show ?thesis using wf s logs unfolding db_wf_def by (simp add: bt_sorted_insert)
qed

lemma db_mem_set_log:
  assumes srt: "bt_sorted (db_topics b)" "bt_sorted (dt_partitions dt)"
    and dt: "bt_get (db_topics b) t = Some dt" and l0: "dt_partition_log dt p = Some l0"
    and d: "d = dt\<lparr>dt_partitions := bt_insert p l (dt_partitions dt)\<rparr>"
  shows "db_mem M (b\<lparr>db_topics := bt_insert t d (db_topics b)\<rparr>) = db_mem M b"
proof -
  have "bt_insert p \<lparr>pl_entries = M t p\<rparr> (bt_map (\<lambda>p l. \<lparr>pl_entries = M t p\<rparr>) (dt_partitions dt)) =
      bt_map (\<lambda>p l. \<lparr>pl_entries = M t p\<rparr>) (dt_partitions dt)"
    using srt(2) l0 by (intro bt_insert_same) (simp_all add: dt_partition_log_def)
  then have "mem_topic (M t) d = mem_topic (M t) dt" by (simp add: mem_topic_def d bt_map_insert)
  moreover have "bt_insert t (mem_topic (M t) dt) (bt_map (\<lambda>t. mem_topic (M t)) (db_topics b)) =
      bt_map (\<lambda>t. mem_topic (M t)) (db_topics b)"
    using srt(1) dt by (intro bt_insert_same) simp_all
  ultimately show ?thesis by (simp add: db_mem_def mem_state_def bt_map_insert)
qed

lemma same_shape_set_log:
  assumes srt: "bt_sorted (db_topics b)" "bt_sorted (dt_partitions dt)"
    and dt: "bt_get (db_topics b) t = Some dt" and l0: "dt_partition_log dt p = Some l0"
    and d: "dt_topic d = dt_topic dt" "dt_partitions d = bt_insert p l (dt_partitions dt)"
  shows "same_shape b (b\<lparr>db_topics := bt_insert t d (db_topics b)\<rparr>)"
proof -
  have "topic_shape t d = topic_shape t dt"
    using srt(2) l0 d by (simp add: topic_shape_def dt_partition_ids_def bt_insert_existing dt_partition_log_def)
  moreover have "bt_insert t (topic_shape t dt) (bt_map topic_shape (db_topics b)) = bt_map topic_shape (db_topics b)"
    using srt(1) dt by (intro bt_insert_same) simp_all
  ultimately show ?thesis by (simp add: same_shape_def bt_map_insert)
qed

lemma db_mem_sorted:
  assumes "broker_inv (db_mem M b)"
  shows "bt_get (db_topics b) t = Some dt \<Longrightarrow> bt_sorted (dt_partitions dt)"
    "bt_get (db_topics b) t = Some dt \<Longrightarrow> \<exists>l. dt_partition_log dt (select_durable_partition dt e) = Some l"
    "bt_get (db_topics b) t = Some dt \<Longrightarrow> stored_topic_ok t (mem_topic (M t) dt)"
proof -
  have t: "topics_ok (db_mem M b)" using assms by (simp add: broker_inv_def)
  then show ok: "stored_topic_ok t (mem_topic (M t) dt)" if "bt_get (db_topics b) t = Some dt"
    using that by (simp add: topics_ok_def)
  show "bt_sorted (dt_partitions dt)" if "bt_get (db_topics b) t = Some dt"
    using ok[OF that] by (simp add: stored_topic_ok_def)
  show "\<exists>l. dt_partition_log dt (select_durable_partition dt e) = Some l" if "bt_get (db_topics b) t = Some dt"
    using select_partition_log[OF assms, of t "mem_topic (M t) dt" e] that
    by (auto simp: select_durable_partition_mem[of dt e "M t"])
qed

lemma io_recovers_append:
  assumes h: "log_holds c fs l es" and fit: "length es + 1 < 2 ^ 64" and io: "io_recovers io"
    and run: "StorageLog_append c io e l fs = (r, l', fs')"
  shows "same_log l l' \<and> outside (sl_partition_dir l) fs fs' \<and>
    (r = Ok (Offset (of_nat (length es))) \<and> log_holds c fs' l' (es @ [e]) \<or> (\<exists>err. r = Err err) \<and> log_holds c fs' l' es)"
  using append_outcome[OF h fit run] io by (auto simp: io_recovers_def)

lemma db_append_cases:
  assumes wf: "db_wf E b fs M" and inv: "broker_inv (db_mem M b)" and room: "db_room M b" and io: "io_recovers io"
    and dt: "bt_get (db_topics b) t = Some dt" and run: "db_append_to_topic E io t e b fs = (r, b', fs')"
  defines "p \<equiv> select_durable_partition dt e"
  shows "same_shape b b' \<and> db_idempotency_index b' = db_idempotency_index b \<and>
    bt_get fs' (state_path (db_config b)) = bt_get fs (state_path (db_config b)) \<and>
    (r = Ok (PublishedMessage_new t p (Offset (of_nat (length (M t p)))) (env_id e)) \<and>
       db_wf E b' fs' (grown M t p e) \<and>
       (\<exists>l. b' = b\<lparr>db_topics := bt_insert t (appended_topic p l e dt) (db_topics b)\<rparr>) \<and>
       append_to_topic t e (db_mem M b) =
         (Ok (PublishedMessage_new t p (Offset (of_nat (length (M t p)))) (env_id e)), db_mem (grown M t p e) b') \<or>
     (\<exists>x. r = Err (DStorage x)) \<and> db_wf E b' fs' M \<and> db_mem M b' = db_mem M b)"
proof -
  have srt: "bt_sorted (db_topics b)" "bt_sorted (dt_partitions dt)"
    using wf db_mem_sorted(1)[OF inv dt] by (simp_all add: db_wf_def)
  from db_mem_sorted(2)[OF inv dt, of e] obtain l0 where l0: "dt_partition_log dt p = Some l0" by (auto simp: p_def)
  have at: "log_at E (db_config b) fs t p l0 (M t p)" by (rule db_wf_log[OF wf dt l0])
  obtain ra l fs1 where ap: "StorageLog_append (env_records E) io e l0 fs = (ra, l, fs1)" by (metis prod_cases3)
  have A: "same_log l0 l" "outside (log_dir (db_config b) t p) fs fs1"
    "ra = Ok (Offset (of_nat (length (M t p)))) \<and> log_holds (env_records E) fs1 l (M t p @ [e]) \<or>
     (\<exists>err. ra = Err err) \<and> log_holds (env_records E) fs1 l (M t p)"
    using io_recovers_append[OF _ db_room_partition[OF room dt l0] io ap] at log_at_dir[OF at] by (auto simp: log_at_def)
  have srt1: "bt_sorted fs1" using A(3) by (auto simp: log_holds_def)
  have keep: "bt_get fs1 (state_path (db_config b)) = bt_get fs (state_path (db_config b))"
    using A(2) state_path_outside unfolding outside_def by blast
  have at1: "log_holds (env_records E) fs1 l es \<Longrightarrow> log_at E (db_config b) fs1 t p l es" for es
    using at A(1) opens_at_same[OF A(1)] by (auto simp: log_at_def same_log_def)
  let ?d = "dt\<lparr>dt_partitions := bt_insert p l (dt_partitions dt)\<rparr>"
  let ?pm = "PublishedMessage_new t p (Offset (of_nat (length (M t p)))) (env_id e)"
  from A(3) show ?thesis
  proof (elim disjE conjE exE)
    assume r: "ra = Ok (Offset (of_nat (length (M t p))))" and h: "log_holds (env_records E) fs1 l (M t p @ [e])"
    let ?b = "b\<lparr>db_topics := bt_insert t (appended_topic p l e dt) (db_topics b)\<rparr>"
    have b': "r = Ok ?pm" "b' = ?b" "fs' = fs1"
      using run dt l0 ap r by (simp_all add: db_append_to_topic_def p_def[symmetric] Let_def appended_topic_def)
    have wf': "db_wf E ?b fs1 (grown M t p e)"
      unfolding grown_def by (rule db_wf_set_log[OF wf dt A(2) srt1 at1[OF h]]) simp
    have mt: "mem_topic (grown M t p e t) (appended_topic p l e dt) = published_topic e (mem_topic (M t) dt) \<lparr>pl_entries = M t p\<rparr>"
      by (rule mem_topic_appended[OF srt(2) l0]) (simp add: p_def)
    have "bt_map (\<lambda>t'. mem_topic (grown M t p e t')) (bt_insert t (appended_topic p l e dt) (db_topics b)) =
        bt_insert t (published_topic e (mem_topic (M t) dt) \<lparr>pl_entries = M t p\<rparr>) (bt_map (\<lambda>t. mem_topic (M t)) (db_topics b))"
    proof -
      have g: "bt_get (bt_map (\<lambda>t. mem_topic (M t)) (db_topics b)) t = Some (mem_topic (M t) dt)" using dt by simp
      show ?thesis
        unfolding bt_insert_existing[OF srt(1) dt]
        using srt(1) mt by (subst bt_insert_existing[OF _ g]) (auto simp: bt_map_map grown_def intro!: bt_map_cong[OF srt(1)])
    qed
    then have m: "db_mem (grown M t p e) ?b = (db_mem M b)
        \<lparr>bs_topics := bt_insert t (published_topic e (mem_topic (M t) dt) \<lparr>pl_entries = M t p\<rparr>) (bs_topics (db_mem M b))\<rparr>"
      by (simp add: db_mem_def mem_state_def)
    have sp: "p = select_partition (mem_topic (M t) dt) e" by (simp add: p_def select_durable_partition_mem[of dt e "M t"])
    have "append_to_topic t e (db_mem M b) = (Ok ?pm, db_mem (grown M t p e) ?b)"
      using append_to_topic_eq[of "db_mem M b" t "mem_topic (M t) dt" e "\<lparr>pl_entries = M t p\<rparr>"] dt l0 m
      by (simp add: sp[symmetric])
    moreover have "same_shape b ?b" by (rule same_shape_set_log[OF srt dt l0]) simp_all
    ultimately show ?thesis using wf' keep unfolding b' by auto
  next
    fix err assume r: "ra = Err err" and h: "log_holds (env_records E) fs1 l (M t p)"
    let ?b = "b\<lparr>db_topics := bt_insert t ?d (db_topics b)\<rparr>"
    have b': "r = Err (DStorage err)" "b' = ?b" "fs' = fs1"
      using run dt l0 ap r by (simp_all add: db_append_to_topic_def p_def[symmetric] Let_def)
    have "db_wf E ?b fs1 (M(t := (M t)(p := M t p)))"
      by (rule db_wf_set_log[OF wf dt A(2) srt1 at1[OF h]]) simp
    then have "db_wf E ?b fs1 M" by simp
    moreover have "db_mem M ?b = db_mem M b" by (rule db_mem_set_log[OF srt dt l0 refl])
    moreover have "same_shape b ?b" by (rule same_shape_set_log[OF srt dt l0]) simp_all
    ultimately show ?thesis using b' keep by simp
  qed
qed

text \<open>\<^verbatim>\<open>publish\<close> on every branch.\<close>

lemma same_shape_index: "same_shape b b' \<Longrightarrow> same_shape b (b'\<lparr>db_idempotency_index := i\<rparr>)"
  by (simp add: same_shape_def)

lemma db_mem_index: "db_mem M (b\<lparr>db_idempotency_index := i\<rparr>) = (db_mem M b)\<lparr>bs_idempotency_index := i\<rparr>"
  by (simp add: db_mem_def mem_state_def)

lemma db_publish_cases:
  assumes wf: "db_wf E b fs M" and inv: "broker_inv (db_mem M b)" and room: "db_room M b" and io: "io_recovers io"
    and run: "db_publish E io c b fs = (r, b', fs')"
  shows "same_shape b b' \<and> bt_get fs' (state_path (db_config b)) = bt_get fs (state_path (db_config b)) \<and>
    ((\<exists>pm M'. r = Ok pm \<and> db_wf E b' fs' M' \<and>
        publish (env_sha E) (pc_topic c) (pc_envelope c) (db_mem M b) = (Ok pm, db_mem M' b') \<and>
        (M' = M \<or> (\<exists>p. M' = grown M (pc_topic c) p (pc_envelope c)))) \<or>
     (\<exists>e. r = Err e \<and> db_wf E b' fs' M \<and> db_mem M b' = db_mem M b \<and>
        (\<forall>be. e = DBroker be \<longrightarrow> publish (env_sha E) (pc_topic c) (pc_envelope c) (db_mem M b) = (Err be, db_mem M b))))"
proof (cases "bt_get (db_topics b) (pc_topic c)")
  case None
  then show ?thesis using run wf by (auto simp: db_publish_def publish_def bt_contains_def)
next
  case (Some dt)
  let ?t = "pc_topic c" and ?e = "pc_envelope c"
  let ?p = "select_durable_partition dt ?e"
  have ct: "bt_contains (db_topics b) ?t" using Some by (simp add: bt_contains_def)
  obtain ra b1 fs1 where ap: "db_append_to_topic E io ?t ?e b fs = (ra, b1, fs1)" by (metis prod_cases3)
  note A = db_append_cases[OF wf inv room io Some ap]
  show ?thesis
  proof (cases "check_idempotency (env_sha E) ?t ?e (db_idempotency_index b)")
    case (Err be)
    then show ?thesis using run wf ct by (auto simp: db_publish_def publish_def Let_def)
  next
    case (Ok chk)
    show ?thesis
    proof (cases chk)
      case (Replay existing)
      then show ?thesis using run wf ct Ok by (auto simp: db_publish_def publish_def Let_def)
    next
      case Untracked
      then have "r = ra" "b' = b1" "fs' = fs1" using run ct Ok ap by (simp_all add: db_publish_def Let_def)
      then show ?thesis using A Untracked Ok ct by (auto simp: publish_def Let_def)
    next
      case (New key fp)
      show ?thesis
      proof (cases ra)
        case (Ok pm)
        let ?M = "grown M ?t ?p ?e"
        let ?idx = "bt_insert (?t, key) \<lparr>ir_fingerprint = fp, ir_partition_id = pm_partition_id pm,
          ir_offset = pm_offset pm, ir_message_id = pm_message_id pm\<rparr> (db_idempotency_index b)"
        from A Ok have sh: "same_shape b b1" and keep: "bt_get fs1 (state_path (db_config b)) = bt_get fs (state_path (db_config b))"
          and idx: "db_idempotency_index b1 = db_idempotency_index b"
          and wf1: "db_wf E b1 fs1 ?M" and app: "append_to_topic ?t ?e (db_mem M b) = (Ok pm, db_mem ?M b1)" by auto
        have b': "r = Ok pm" "b' = b1\<lparr>db_idempotency_index := ?idx\<rparr>" "fs' = fs1"
          using run ct ap Ok New idx \<open>check_idempotency _ _ _ _ = Ok chk\<close> by (simp_all add: db_publish_def Let_def)
        have "publish (env_sha E) ?t ?e (db_mem M b) = (Ok pm, db_mem ?M b')"
          using ct app New idx \<open>check_idempotency _ _ _ _ = Ok chk\<close> by (simp add: publish_def Let_def b' db_mem_index)
        moreover have "db_wf E b' fs' ?M" using wf1 by (simp add: b')
        moreover have "same_shape b b'" using sh by (simp add: b' same_shape_index)
        ultimately show ?thesis using b'(1,3) keep by blast
      next
        case (Err x)
        then show ?thesis
          using A New run ct ap \<open>check_idempotency _ _ _ _ = Ok chk\<close> by (auto simp: db_publish_def Let_def)
      qed (use A in auto)
    qed
  qed simp
qed

end
