(* ===== verification/Memory_PublishState.thy ===== *)
theory Memory_PublishState
  imports Memory_Reachable
begin

text \<open>
  What the logs determine. On a reachable broker the idempotency index holds the record of every
  logged message that has a key, and the round-robin counter of a topic is the number of its
  messages without a partition key, modulo the number of partitions. This is why the durable
  broker can rebuild both from the message logs alone.
\<close>

section \<open>The invariants\<close>

definition record_of ::
  "(bytes \<Rightarrow> bytes) \<Rightarrow> topic_name \<Rightarrow> partition_id \<Rightarrow> offset \<Rightarrow> message_envelope \<Rightarrow> idempotency_record" where
  "record_of sha t p off env =
     \<lparr>ir_fingerprint = PublishFingerprint_compute sha t env, ir_partition_id = p, ir_offset = off,
      ir_message_id = env_id env\<rparr>"

definition index_complete :: "(bytes \<Rightarrow> bytes) \<Rightarrow> broker_state \<Rightarrow> bool" where
  "index_complete sha s \<longleftrightarrow>
     bt_sorted (bs_idempotency_index s) \<and>
     (\<forall>r env k. message_at s r = Some env \<longrightarrow> env_idempotency_key env = Some k \<longrightarrow>
        bt_get (bs_idempotency_index s) (mr_topic r, k) =
          Some (record_of sha (mr_topic r) (mr_partition_id r) (mr_offset r) env))"

definition unkeyed :: "message_envelope list \<Rightarrow> nat" where
  "unkeyed es = length (filter (\<lambda>e. env_partition_key e = None) es)"

definition topic_unkeyed :: "stored_topic \<Rightarrow> nat" where
  "topic_unkeyed st = sum_list (map (\<lambda>(p, l). unkeyed (pl_entries l)) (st_partitions st))"

definition counters_ok :: "broker_state \<Rightarrow> bool" where
  "counters_ok s \<longleftrightarrow> bt_sorted (bs_topics s) \<and>
     (\<forall>t st. bt_get (bs_topics s) t = Some st \<longrightarrow>
        unat (st_next_round_robin_partition st) = topic_unkeyed st mod unat (st_partition_count st))"

definition publish_state_ok :: "(bytes \<Rightarrow> bytes) \<Rightarrow> broker_state \<Rightarrow> bool" where
  "publish_state_ok sha s \<longleftrightarrow> index_complete sha s \<and> counters_ok s"

lemma publish_state_ok_default: "publish_state_ok sha BrokerState_default"
  by (simp add: publish_state_ok_def index_complete_def counters_ok_def BrokerState_default_def message_at_def log_of_def)

lemma publish_state_ok_same:
  assumes "publish_state_ok sha s" "bs_topics s' = bs_topics s" "bs_idempotency_index s' = bs_idempotency_index s"
  shows "publish_state_ok sha s'"
  using assms by (simp add: publish_state_ok_def index_complete_def counters_ok_def message_at_def log_of_def)

section \<open>The append\<close>

lemma sum_list_bt_insert:
  fixes f :: "'k::linorder \<times> 'v \<Rightarrow> nat"
  shows "bt_sorted m \<Longrightarrow> bt_get m k = Some u \<Longrightarrow> f (k, v) = f (k, u) + d \<Longrightarrow>
    sum_list (map f (bt_insert k v m)) = sum_list (map f m) + d"
proof (induction m)
  case (Cons kv m)
  obtain k' w where kv: "kv = (k', w)" by (metis surj_pair)
  show ?case
  proof (cases "k = k'")
    case False
    then have g: "bt_get m k = Some u" using Cons.prems(2) by (simp add: kv bt_get_def)
    then have "k' < k" using Cons.prems(1) bt_get_in_set[OF g] by (force simp: bt_sorted_def kv)
    then show ?thesis using Cons g by (auto simp: kv bt_sorted_def)
  qed (use Cons.prems in \<open>simp add: kv bt_get_def\<close>)
qed simp

lemma unkeyed_append: "unkeyed (es @ [e]) = unkeyed es + (if env_partition_key e = None then 1 else 0)"
  by (simp add: unkeyed_def)

lemma topic_unkeyed_published:
  assumes "stored_topic_ok t st" "st_partition_log st (select_partition st e) = Some log"
  shows "topic_unkeyed (published_topic e st log) = topic_unkeyed st + (if env_partition_key e = None then 1 else 0)"
proof -
  have "st_partitions (published_topic e st log) =
      bt_insert (select_partition st e) (snd (PartitionLog_append e log)) (st_partitions st)"
    by (simp add: published_topic_def Let_def) (simp add: st_set_partition_log_def)
  moreover have "sum_list (map (\<lambda>(p, l). unkeyed (pl_entries l))
      (bt_insert (select_partition st e) (snd (PartitionLog_append e log)) (st_partitions st))) =
    topic_unkeyed st + (if env_partition_key e = None then 1 else 0)"
    unfolding topic_unkeyed_def using assms
    by (intro sum_list_bt_insert) (simp_all add: stored_topic_ok_def st_partition_log_def PartitionLog_append_def unkeyed_append)
  ultimately show ?thesis by (simp add: topic_unkeyed_def)
qed

lemma published_counter:
  assumes ok: "stored_topic_ok t st" and log: "st_partition_log st (select_partition st e) = Some log"
    and c: "unat (st_next_round_robin_partition st) = topic_unkeyed st mod unat (st_partition_count st)"
  shows "unat (st_next_round_robin_partition (published_topic e st log)) =
    topic_unkeyed (published_topic e st log) mod unat (st_partition_count (published_topic e st log))"
proof -
  have n: "st_partition_count (published_topic e st log) = st_partition_count st" by (simp add: published_topic_def Let_def)
  have lt: "st_next_round_robin_partition st < st_partition_count st" using ok by (simp add: stored_topic_ok_def)
  show ?thesis
  proof (cases "env_partition_key e")
    case None
    then have "unat (st_next_round_robin_partition (published_topic e st log)) =
        (unat (st_next_round_robin_partition st) + 1) mod unat (st_partition_count st)"
      using advance_round_robin_unat[OF lt]
      by (simp add: published_topic_def Let_def st_advance_round_robin_partition_def)
    then show ?thesis using None by (simp add: n topic_unkeyed_published[OF ok log] c mod_Suc_eq)
  next
    case (Some k)
    then have "st_next_round_robin_partition (published_topic e st log) = st_next_round_robin_partition st"
      by (simp add: published_topic_def Let_def)
    with Some show ?thesis by (simp add: n topic_unkeyed_published[OF ok log] c)
  qed
qed

lemma message_at_append_iff:
  assumes st: "bt_get (bs_topics s) t = Some st" and log: "st_partition_log st (select_partition st e) = Some log"
    and fit: "logs_fit s"
  shows "message_at (s\<lparr>bs_topics := bt_insert t (published_topic e st log) (bs_topics s)\<rparr>) r =
    (if r = \<lparr>mr_topic = t, mr_partition_id = select_partition st e, mr_offset = Offset (of_nat (length (pl_entries log)))\<rparr>
     then Some e else message_at s r)"
proof (cases "mr_topic r = t \<and> mr_partition_id r = select_partition st e")
  case True
  have "length (pl_entries log) < 2 ^ LENGTH(64)" using logs_fitD[OF fit st log] by simp
  note len = unat_of_nat_small[OF this]
  have l: "log_of s t (select_partition st e) = Some log" using st log by (simp add: log_of_def)
  have "r = \<lparr>mr_topic = t, mr_partition_id = select_partition st e, mr_offset = Offset (of_nat (length (pl_entries log)))\<rparr> \<longleftrightarrow>
      unat (offset_value (mr_offset r)) = length (pl_entries log)"
  proof
    assume "unat (offset_value (mr_offset r)) = length (pl_entries log)"
    then have "offset_value (mr_offset r) = of_nat (length (pl_entries log))" by (metis of_nat_unat_eq)
    then have "mr_offset r = Offset (of_nat (length (pl_entries log)))" by (metis offset.collapse)
    with True show "r = \<lparr>mr_topic = t, mr_partition_id = select_partition st e, mr_offset = Offset (of_nat (length (pl_entries log)))\<rparr>"
      by (cases r) simp
  qed (simp add: len)
  then show ?thesis
    using True l by (auto simp: len message_at_def log_of_append[OF st] PartitionLog_append_def PartitionLog_get_def nth_append)
next
  case False
  then have "message_at (s\<lparr>bs_topics := bt_insert t (published_topic e st log) (bs_topics s)\<rparr>) r = message_at s r"
    by (auto simp: message_at_def log_of_append[OF st])
  with False show ?thesis by auto
qed

section \<open>Preservation\<close>

lemma counters_ok_publish:
  assumes inv: "broker_inv s" and ok: "counters_ok s" and eq: "publish sha t e s = (res, s')"
  shows "counters_ok s'"
  using inv
proof (cases rule: publish_cases[where s = s and t = t and sha = sha and e = e])
  case (untracked st log)
  have "stored_topic_ok t st" using inv untracked(1) by (simp add: broker_inv_def topics_ok_def)
  with eq untracked ok show ?thesis by (auto simp: counters_ok_def bt_sorted_insert published_counter split: if_splits)
next
  case (new k st log)
  have "stored_topic_ok t st" using inv new(1) by (simp add: broker_inv_def topics_ok_def)
  with eq new ok show ?thesis by (auto simp: counters_ok_def bt_sorted_insert published_counter split: if_splits)
qed (use eq ok in simp_all)

lemma index_complete_publish:
  assumes inv: "broker_inv s" and ok: "index_complete sha s" and fit: "logs_fit s" and eq: "publish sha t e s = (res, s')"
  shows "index_complete sha s'"
  using inv
proof (cases rule: publish_cases[where s = s and t = t and sha = sha and e = e])
  case (untracked st log)
  with eq ok show ?thesis by (auto simp: index_complete_def message_at_append_iff[OF untracked(1,2) fit] split: if_splits)
next
  case (new k st log)
  let ?a = "s\<lparr>bs_topics := bt_insert t (published_topic e st log) (bs_topics s)\<rparr>"
  let ?loc = "\<lparr>mr_topic = t, mr_partition_id = select_partition st e, mr_offset = Offset (of_nat (length (pl_entries log)))\<rparr>"
  have s': "s' = ?a\<lparr>bs_idempotency_index := bt_insert (t, k)
      (record_of sha t (select_partition st e) (Offset (of_nat (length (pl_entries log)))) e) (bs_idempotency_index s)\<rparr>"
    using eq new(5) by (simp add: record_of_def)
  have m: "message_at s' r = (if r = ?loc then Some e else message_at s r)" for r
    unfolding s' message_at_frame(4) by (rule message_at_append_iff[OF new(1,2) fit])
  have "bt_get (bs_idempotency_index s') (mr_topic r, j) = Some (record_of sha (mr_topic r) (mr_partition_id r) (mr_offset r) env)"
    if r: "message_at s' r = Some env" and j: "env_idempotency_key env = Some j" for r env j
  proof (cases "r = ?loc")
    case True
    with r j new(3) m show ?thesis by (simp add: s')
  next
    case False
    then have old: "bt_get (bs_idempotency_index s) (mr_topic r, j) =
        Some (record_of sha (mr_topic r) (mr_partition_id r) (mr_offset r) env)"
      using r j m ok by (simp add: index_complete_def)
    with new(4) show ?thesis by (auto simp: s')
  qed
  moreover have "bt_sorted (bs_idempotency_index s')" using ok by (simp add: s' index_complete_def bt_sorted_insert)
  ultimately show ?thesis by (simp add: index_complete_def)
qed (use eq ok in simp_all)

lemma publish_state_ok_create:
  assumes "publish_state_ok sha s"
  shows "publish_state_ok sha (snd (create_topic c s))"
proof (cases "bt_contains (bs_topics s) (ctc_name c)")
  case False
  let ?st = "StoredTopic_new (Topic_new (ctc_name c) (ctc_config c))"
  have none: "bt_get (bs_topics s) (ctc_name c) = None" using False by (simp add: bt_contains_def)
  have "message_at (snd (create_topic c s)) = message_at s"
    using none by (auto simp: create_topic_eq False message_at_def log_of_def StoredTopic_new_log PartitionLog_get_def
        PartitionLog_default_def fun_eq_iff split: option.split)
  moreover have "topic_unkeyed ?st = 0"
  proof -
    have "sum_list (map (\<lambda>(p, l). unkeyed (pl_entries l)) (fold (\<lambda>p m. bt_insert p PartitionLog_default m) ps m)) = 0"
      if "\<forall>(p, l)\<in>set m. pl_entries l = []" for ps m
      using that
    proof (induction ps arbitrary: m)
      case Nil
      then show ?case by (auto simp: unkeyed_def)
    next
      case (Cons p ps)
      have "set (bt_insert p PartitionLog_default m) \<subseteq> insert (p, PartitionLog_default) (set m)"
        by (induction p "PartitionLog_default" m rule: bt_insert.induct) auto
      then have "\<forall>(p, l)\<in>set (bt_insert p PartitionLog_default m). pl_entries l = []"
        using Cons.prems by (auto simp: PartitionLog_default_def)
      from Cons.IH[OF this] show ?case by simp
    qed
    from this[of "[]" "topic_partition_ids (Topic_new (ctc_name c) (ctc_config c))"] show ?thesis
      unfolding topic_unkeyed_def StoredTopic_new_def by simp
  qed
  moreover have "st_next_round_robin_partition ?st = 0" by (simp add: StoredTopic_new_def)
  ultimately show ?thesis
    using assms by (auto simp: publish_state_ok_def index_complete_def counters_ok_def create_topic_eq False bt_sorted_insert)
qed (use assms in \<open>simp add: create_topic_eq\<close>)

section \<open>Along every run\<close>

lemma svc_apply_same_logs:
  assumes inv: "svc_inv sha config b" and fit: "logs_fit (svc_state b)"
    and x: "case x of SvcCreateTopic c \<Rightarrow> False | SvcPublish c \<Rightarrow> False | _ \<Rightarrow> True"
  shows "bs_topics (svc_state (svc_apply sha x b)) = bs_topics (svc_state b) \<and>
    bs_idempotency_index (svc_state (svc_apply sha x b)) = bs_idempotency_index (svc_state b)"
proof -
  let ?s = "svc_state b"
  have i: "broker_inv ?s" using inv by (simp add: svc_inv_def)
  show ?thesis
  proof (cases x)
    case (SvcConsume cmd)
    obtain r s' where eq: "consume cmd (fst (svc_lease b cmd)) (snd (svc_lease b cmd)) ?s = (r, s')" by fastforce
    from consume_inv(5,6)[OF i fit eq] show ?thesis by (simp add: SvcConsume svc_apply_def svc_ops eq)
  next
    case (SvcAck cmd)
    then show ?thesis by (simp add: svc_apply_def svc_ops ack_eq pending_for_command_cases split: option.split)
  next
    case (SvcNack cmd)
    obtain r s' where eq: "nack cmd (bc_retry_policy (svc_config b)) ?s = (r, s')" by fastforce
    then have "bs_topics s' = bs_topics ?s \<and> bs_idempotency_index s' = bs_idempotency_index ?s"
      using schedule_inv(7,8)[OF i] by (auto simp: nack_eq pending_for_command_cases split: option.splits if_splits)
    then show ?thesis by (simp add: SvcNack svc_apply_def svc_ops eq)
  next
    case (SvcRetryReady now)
    obtain r s' where eq: "retry_ready now (bc_retry_policy (svc_config b)) ?s = (r, s')" by fastforce
    from retry_ready_cases(7,8)[OF i eq] show ?thesis by (simp add: SvcRetryReady svc_apply_def svc_ops eq)
  qed (use x in simp_all)
qed

lemma svc_apply_publish_state:
  assumes inv: "svc_inv sha config b" and fit: "logs_fit (svc_state b)" and ok: "publish_state_ok sha (svc_state b)"
  shows "publish_state_ok sha (svc_state (svc_apply sha x b))"
proof (cases x)
  case (SvcCreateTopic c)
  then show ?thesis using publish_state_ok_create[OF ok] by (simp add: svc_apply_def svc_ops)
next
  case (SvcPublish c)
  have i: "broker_inv (svc_state b)" using inv by (simp add: svc_inv_def)
  obtain r s' where eq: "publish sha (pc_topic c) (pc_envelope c) (svc_state b) = (r, s')" by fastforce
  with SvcPublish show ?thesis
    using index_complete_publish[OF i _ fit eq] counters_ok_publish[OF i _ eq] ok
    by (simp add: svc_apply_def svc_ops publish_state_ok_def)
qed (use publish_state_ok_same[OF ok] svc_apply_same_logs[OF inv fit, of x] in simp_all)

lemma svc_reachable_publish_state:
  assumes "svc_reachable sha config b"
  shows "publish_state_ok sha (svc_state b)"
proof -
  have "publish_state_ok sha (svc_state b)" if "svc_steps sha b0 b" "svc_inv sha config b0" "publish_state_ok sha (svc_state b0)" for b0
    using that
  proof (induction rule: svc_steps.induct)
    case (step b b' x)
    from svc_steps_inv[OF step(1,5)] have inv: "svc_inv sha config b'" by blast
    from svc_apply_publish_state[OF inv step(3)] step(4)[OF step(5,6)] show ?case .
  qed
  from this[OF _ svc_inv_new] assms show ?thesis
    by (simp add: svc_reachable_def BrokerService_new_def publish_state_ok_default)
qed

end
