(* ===== verification/Durable_Sessions.thy ===== *)
theory Durable_Sessions
  imports Durable_Publish Memory_PublishState
begin

text \<open>
  Runs of the durable broker: an operation with the outcome of its write calls as one step. Every
  step of the durable broker is a step of the in-memory broker or changes nothing visible, so the
  state reached is one the in-memory broker reaches as well.
\<close>

section \<open>Operations as data\<close>

datatype db_op =
    DbCreateTopic state_io create_topic_command
  | DbPublish io_outcome publish_command
  | DbConsume state_io consume_command
  | DbAck state_io ack_command
  | DbNack state_io nack_command
  | DbRetryReady state_io message_timestamp

fun db_apply :: "durable_env \<Rightarrow> db_op \<Rightarrow> durable_broker \<times> fs \<Rightarrow> durable_broker \<times> fs" where
  "db_apply E (DbCreateTopic sio c) (b, fs) = snd (db_create_topic E sio c b fs)"
| "db_apply E (DbPublish io c) (b, fs) = snd (db_publish E io c b fs)"
| "db_apply E (DbConsume sio c) (b, fs) = snd (db_consume E sio c b fs)"
| "db_apply E (DbAck sio c) (b, fs) = snd (db_ack E sio c b fs)"
| "db_apply E (DbNack sio c) (b, fs) = snd (db_nack E sio c b fs)"
| "db_apply E (DbRetryReady sio now) (b, fs) = snd (db_retry_ready E sio now b fs)"

fun db_outcome :: "durable_env \<Rightarrow> db_op \<Rightarrow> durable_broker \<times> fs \<Rightarrow> unit durable_result" where
  "db_outcome E (DbCreateTopic sio c) (b, fs) = map_ok (\<lambda>_. ()) (fst (db_create_topic E sio c b fs))"
| "db_outcome E (DbPublish io c) (b, fs) = map_ok (\<lambda>_. ()) (fst (db_publish E io c b fs))"
| "db_outcome E (DbConsume sio c) (b, fs) = map_ok (\<lambda>_. ()) (fst (db_consume E sio c b fs))"
| "db_outcome E (DbAck sio c) (b, fs) = fst (db_ack E sio c b fs)"
| "db_outcome E (DbNack sio c) (b, fs) = fst (db_nack E sio c b fs)"
| "db_outcome E (DbRetryReady sio now) (b, fs) = map_ok (\<lambda>_. ()) (fst (db_retry_ready E sio now b fs))"

text \<open>The operation of the in-memory broker.\<close>

fun svc_op_of :: "db_op \<Rightarrow> svc_op" where
  "svc_op_of (DbCreateTopic sio c) = SvcCreateTopic c"
| "svc_op_of (DbPublish io c) = SvcPublish c"
| "svc_op_of (DbConsume sio c) = SvcConsume c"
| "svc_op_of (DbAck sio c) = SvcAck c"
| "svc_op_of (DbNack sio c) = SvcNack c"
| "svc_op_of (DbRetryReady sio now) = SvcRetryReady now"

text \<open>The type \<^verbatim>\<open>TopicConfig\<close> rules out zero partitions; a failed append can be rolled back.\<close>

fun db_op_ok :: "db_op \<Rightarrow> bool" where
  "db_op_ok (DbCreateTopic sio c) \<longleftrightarrow> tc_partition_count (ctc_config c) \<noteq> 0"
| "db_op_ok (DbPublish io c) \<longleftrightarrow> io_recovers io"
| "db_op_ok x \<longleftrightarrow> True"

text \<open>No topic holds anywhere near \<^verbatim>\<open>u64::MAX\<close> messages.\<close>

definition db_has_room :: "durable_broker \<Rightarrow> bool" where
  "db_has_room b \<longleftrightarrow>
     list_all (\<lambda>(t, dt). sum_list (map (\<lambda>(p, l). unat (offset_value (sl_next_offset l))) (dt_partitions dt)) + 1 < 2 ^ 64)
       (db_topics b)"

section \<open>The in-memory service that a durable broker implements\<close>

definition db_svc :: "contents \<Rightarrow> durable_broker \<Rightarrow> broker_service" where
  "db_svc M b = \<lparr>svc_config = dbc_broker_config (db_config b), svc_state = db_mem M b\<rparr>"

lemma db_svc_fields [simp]:
  "svc_config (db_svc M b) = dbc_broker_config (db_config b)" "svc_state (db_svc M b) = db_mem M b"
  by (simp_all add: db_svc_def)

lemma svc_lift_db: "svc_lift f (db_svc M b) = (case f (db_mem M b) of (r, s) \<Rightarrow> (r, (db_svc M b)\<lparr>svc_state := s\<rparr>))"
  by (simp add: svc_lift_def)

lemma db_svc_update: "db_config b' = db_config b \<Longrightarrow> (db_svc M b)\<lparr>svc_state := db_mem M' b'\<rparr> = db_svc M' b'"
  by (simp add: db_svc_def)

lemma svc_lease_db: "svc_lease (db_svc M b) c = consume_lease b c"
  by (simp add: svc_lease_def consume_lease_def split: option.split)

lemma next_offset_held:
  assumes "log_at E config fs t p l es"
  shows "unat (offset_value (sl_next_offset l)) = length es"
proof -
  have n: "length es < 2 ^ LENGTH(64)" and nx: "sl_next_offset l = Offset (of_nat (length es))"
    using assms by (simp_all add: log_at_def log_holds_def)
  show ?thesis using unat_of_nat_small[OF n] by (simp add: nx)
qed

lemma db_room_of:
  assumes wf: "db_wf E b fs M" and inv: "broker_inv (db_mem M b)" and room: "db_has_room b"
  shows "db_room M b"
  unfolding db_room_def
proof (intro allI impI)
  fix t dt assume dt: "bt_get (db_topics b) t = Some dt"
  then have mem: "(t, dt) \<in> set (db_topics b)" using wf bt_mem_iff[of "db_topics b"] by (simp add: db_wf_def)
  have "map (\<lambda>p. length (M t p)) (dt_partition_ids dt) =
      map (\<lambda>(p, l). unat (offset_value (sl_next_offset l))) (dt_partitions dt)"
    unfolding dt_partition_ids_def map_map comp_def
  proof (rule map_cong[OF refl])
    fix x assume x: "x \<in> set (dt_partitions dt)"
    obtain p l where xe: "x = (p, l)" by (metis surj_pair)
    have "bt_get (dt_partitions dt) p = Some l" using x bt_mem_iff[OF db_mem_sorted(1)[OF inv dt]] by (simp add: xe)
    then have "log_at E (db_config b) fs t p l (M t p)" using db_wf_log[OF wf dt, of p l] by (simp add: dt_partition_log_def)
    from next_offset_held[OF this]
    show "length (M t (fst x)) = (case x of (p, l) \<Rightarrow> unat (offset_value (sl_next_offset l)))" by (simp add: xe)
  qed
  then show "sum_list (map (\<lambda>p. length (M t p)) (dt_partition_ids dt)) + 1 < 2 ^ 64"
    using room mem by (auto simp: db_has_room_def list_all_iff)
qed

lemma db_logs_fit: "db_wf E b fs M \<Longrightarrow> logs_fit (db_mem M b)"
  by (auto simp: logs_fit_def log_of_db_mem log_at_def log_holds_def dest: db_wf_log split: option.splits)

section \<open>One step\<close>

definition grows :: "contents \<Rightarrow> contents \<Rightarrow> bool" where
  "grows M M' \<longleftrightarrow> (\<forall>t p. \<exists>es. M' t p = M t p @ es)"

lemma grows_refl [simp]: "grows M M"
  by (auto simp: grows_def)

lemma grows_grown: "grows M (grown M t p e)"
  by (auto simp: grows_def grown_def)

lemma grows_trans: "grows M M' \<Longrightarrow> grows M' M'' \<Longrightarrow> grows M M''"
  unfolding grows_def by (metis append.assoc)

text \<open>
  A successful operation is the in-memory operation; any other outcome is an error, and it leaves
  the in-memory view as it was. The broker itself is unchanged unless a publish failed.
\<close>

definition step_refines ::
  "durable_env \<Rightarrow> db_op \<Rightarrow> contents \<Rightarrow> durable_broker \<Rightarrow> fs \<Rightarrow> contents \<Rightarrow> durable_broker \<Rightarrow> fs \<Rightarrow> bool" where
  "step_refines E x M b fs M' b' fs' \<longleftrightarrow>
     db_wf E b' fs' M' \<and> db_config b' = db_config b \<and> grows M M' \<and> (M' = M \<or> (\<exists>io c. x = DbPublish io c)) \<and>
     (case db_outcome E x (b, fs) of
        Ok u \<Rightarrow> db_svc M' b' = svc_apply (env_sha E) (svc_op_of x) (db_svc M b)
      | Err e \<Rightarrow> M' = M \<and> db_svc M' b' = db_svc M b
      | Panicked \<Rightarrow> False)"

lemma db_apply_refines:
  assumes wf: "db_wf E b fs M" and inv: "broker_inv (db_mem M b)" and room: "db_room M b" and ok: "db_op_ok x"
    and run: "db_apply E x (b, fs) = (b', fs')"
  shows "\<exists>M'. step_refines E x M b fs M' b' fs'"
proof (cases x)
  case (DbCreateTopic sio c)
  obtain r where r: "db_create_topic E sio c b fs = (r, b', fs')"
    using run by (cases "db_create_topic E sio c b fs") (simp add: DbCreateTopic)
  note C = db_create_topic_cases[OF wf r]
  have "step_refines E x M b fs M b' fs'"
  proof (cases r)
    case (Ok topic)
    from C Ok have b': "create_topic c (db_mem M b) = (Ok topic, db_mem M b')" "db_config b' = db_config b" by auto
    from C have "db_wf E b' fs' M" by blast
    with Ok b' show ?thesis
      by (simp add: step_refines_def DbCreateTopic r svc_apply_def svc_ops svc_lift_db db_svc_update)
  qed (use C in \<open>auto simp: step_refines_def DbCreateTopic r\<close>)
  then show ?thesis by blast
next
  case (DbPublish io c)
  obtain r where r: "db_publish E io c b fs = (r, b', fs')"
    using run by (cases "db_publish E io c b fs") (simp add: DbPublish)
  have io: "io_recovers io" using ok by (simp add: DbPublish)
  from db_publish_cases[OF wf inv room io r] have sh: "same_shape b b'"
    and P: "(\<exists>pm M'. r = Ok pm \<and> db_wf E b' fs' M' \<and>
        publish (env_sha E) (pc_topic c) (pc_envelope c) (db_mem M b) = (Ok pm, db_mem M' b') \<and>
        (M' = M \<or> (\<exists>p. M' = grown M (pc_topic c) p (pc_envelope c)))) \<or>
     (\<exists>e. r = Err e \<and> db_wf E b' fs' M \<and> db_mem M b' = db_mem M b)" by auto
  have cfg: "db_config b' = db_config b" using sh by (simp add: same_shape_def)
  from P consider (done_) pm M' where "r = Ok pm" "db_wf E b' fs' M'"
      "publish (env_sha E) (pc_topic c) (pc_envelope c) (db_mem M b) = (Ok pm, db_mem M' b')"
      "M' = M \<or> (\<exists>p. M' = grown M (pc_topic c) p (pc_envelope c))"
    | (failed) e where "r = Err e" "db_wf E b' fs' M" "db_mem M b' = db_mem M b" by blast
  then show ?thesis
  proof cases
    case done_
    then have "grows M M'" using grows_grown by auto
    with done_ cfg have "step_refines E x M b fs M' b' fs'"
      by (simp add: step_refines_def DbPublish r svc_apply_def svc_ops svc_lift_db db_svc_update)
    then show ?thesis by blast
  next
    case failed
    then have "step_refines E x M b fs M b' fs'" using cfg by (simp add: step_refines_def DbPublish r db_svc_def)
    then show ?thesis by blast
  qed
next
  case (DbConsume sio c)
  obtain r where r: "db_consume E sio c b fs = (r, b', fs')"
    using run by (cases "db_consume E sio c b fs") (simp add: DbConsume)
  note C = db_consume_cases[OF wf inv db_logs_fit[OF wf] r]
  have "step_refines E x M b fs M b' fs'"
  proof (cases r)
    case (Ok ms)
    from C Ok have b': "consume c (fst (consume_lease b c)) (snd (consume_lease b c)) (db_mem M b) = (Ok ms, db_mem M b')"
      "db_config b' = db_config b" by auto
    from C Ok b' show ?thesis
      by (simp add: step_refines_def DbConsume r svc_apply_def svc_ops svc_lease_db svc_lift_db db_svc_update)
  qed (use C in \<open>auto simp: step_refines_def DbConsume r\<close>)
  then show ?thesis by blast
next
  case (DbAck sio c)
  obtain r where r: "db_ack E sio c b fs = (r, b', fs')"
    using run by (cases "db_ack E sio c b fs") (simp add: DbAck)
  note C = db_ack_cases[OF wf r]
  have "step_refines E x M b fs M b' fs'"
  proof (cases r)
    case (Ok u)
    from C Ok have b': "ack c (db_mem M b) = (Ok (), db_mem M b')" "db_config b' = db_config b" by auto
    from C Ok b' show ?thesis
      by (simp add: step_refines_def DbAck r svc_apply_def svc_ops svc_lift_db db_svc_update)
  qed (use C in \<open>auto simp: step_refines_def DbAck r\<close>)
  then show ?thesis by blast
next
  case (DbNack sio c)
  obtain r where r: "db_nack E sio c b fs = (r, b', fs')"
    using run by (cases "db_nack E sio c b fs") (simp add: DbNack)
  note C = db_nack_cases[OF wf inv r]
  have "step_refines E x M b fs M b' fs'"
  proof (cases r)
    case (Ok u)
    from C Ok have b': "nack c (bc_retry_policy (dbc_broker_config (db_config b))) (db_mem M b) = (Ok (), db_mem M b')"
      "db_config b' = db_config b" by auto
    from C Ok b' show ?thesis
      by (simp add: step_refines_def DbNack r svc_apply_def svc_ops svc_lift_db db_svc_update)
  qed (use C in \<open>auto simp: step_refines_def DbNack r\<close>)
  then show ?thesis by blast
next
  case (DbRetryReady sio now)
  obtain r where r: "db_retry_ready E sio now b fs = (r, b', fs')"
    using run by (cases "db_retry_ready E sio now b fs") (simp add: DbRetryReady)
  note C = db_retry_ready_cases[OF wf inv r]
  have "step_refines E x M b fs M b' fs'"
  proof (cases r)
    case (Ok sm)
    from C Ok have b': "retry_ready now (bc_retry_policy (dbc_broker_config (db_config b))) (db_mem M b) = (Ok sm, db_mem M b')"
      "db_config b' = db_config b" by (auto simp: Let_def)
    from C Ok b' show ?thesis
      by (simp add: step_refines_def DbRetryReady r svc_apply_def svc_ops svc_lift_db db_svc_update)
  qed (use C in \<open>auto simp: step_refines_def DbRetryReady r\<close>)
  then show ?thesis by blast
qed

section \<open>Runs\<close>

text \<open>A directory the broker has never been opened in.\<close>

definition fresh_fs :: "durable_broker_config \<Rightarrow> fs \<Rightarrow> bool" where
  "fresh_fs config fs \<longleftrightarrow> bt_sorted fs \<and> \<not> bt_contains fs (state_path config) \<and>
     (\<forall>t p. log_files fs (log_dir config t p) = {})"

lemma open_fresh:
  assumes fresh: "fresh_fs config fs" and max: "dbc_max_segment_bytes config \<noteq> 0" and ok: "codec_ok (env_records E)"
  defines "b \<equiv> DurableBroker_new config (state_path config)" and "fs' \<equiv> bt_insert (state_path config) [] fs"
  shows "DurableBroker_open E config fs = (Ok b, fs')" "db_wf E b fs' (\<lambda>_ _. [])"
    "db_svc (\<lambda>_ _. []) b = BrokerService_new (dbc_broker_config config)"
proof -
  have none: "bt_get fs (state_path config) = None" using fresh by (simp add: fresh_fs_def bt_contains_def)
  show "DurableBroker_open E config fs = (Ok b, fs')"
    by (simp add: DurableBroker_open_def recover_state_events_def none StateLog_open_def bt_contains_def fs'_def b_def
        recover_publish_state_def DurableBroker_new_def release_recovered_pending_def dds_release_pending_def
        DurableDeliveryState_default_def)
  have "outside (butlast (state_path config)) fs fs'" unfolding fs'_def by (rule outside_insert) simp
  then have "log_files fs' (log_dir config t p) = {}" for t p
    using log_files_outside[of "butlast (state_path config)" fs fs' "log_dir config t p"] fresh state_path_outside[of config t p]
    by (simp add: fresh_fs_def)
  then show "db_wf E b fs' (\<lambda>_ _. [])"
    using fresh max ok by (simp add: db_wf_def b_def DurableBroker_new_def fs'_def bt_sorted_insert fresh_fs_def)
  show "db_svc (\<lambda>_ _. []) b = BrokerService_new (dbc_broker_config config)"
    by (simp add: db_svc_def db_mem_def mem_state_def b_def DurableBroker_new_def BrokerService_new_def
        DurableDeliveryState_default_def BrokerState_default_def)
qed

text \<open>\<^verbatim>\<open>P\<close> restricts the operations, and the outcomes of their write calls, that a run may contain.\<close>

inductive db_run ::
  "durable_env \<Rightarrow> durable_broker_config \<Rightarrow> (db_op \<Rightarrow> durable_broker \<times> fs \<Rightarrow> bool) \<Rightarrow> durable_broker \<times> fs \<Rightarrow> bool"
  for E config P where
  opened: "fresh_fs config fs \<Longrightarrow> DurableBroker_open E config fs = (Ok b, fs') \<Longrightarrow> db_run E config P (b, fs')"
| operation: "db_run E config P s \<Longrightarrow> db_op_ok x \<Longrightarrow> db_has_room (fst s) \<Longrightarrow> P x s \<Longrightarrow> db_run E config P (db_apply E x s)"

abbreviation any_step :: "db_op \<Rightarrow> durable_broker \<times> fs \<Rightarrow> bool" where
  "any_step x s \<equiv> True"

lemma db_run_weaken:
  assumes "db_run E config P s" "\<And>x s. P x s \<Longrightarrow> Q x s"
  shows "db_run E config Q s"
  using assms by (induction rule: db_run.induct) (auto intro: db_run.intros)

definition env_ok :: "durable_env \<Rightarrow> durable_broker_config \<Rightarrow> bool" where
  "env_ok E config \<longleftrightarrow> codec_ok (env_records E) \<and> dbc_max_segment_bytes config \<noteq> 0"

lemma step_reachable:
  assumes r: "svc_reachable sha config (db_svc M b)" and wf: "db_wf E b fs M" and ok: "db_op_ok x"
  shows "svc_reachable sha config (svc_apply sha (svc_op_of x) (db_svc M b))"
proof -
  have "svc_op_ok (svc_op_of x)" using ok by (cases x) (simp_all add: svc_op_ok_def)
  moreover have "logs_fit (svc_state (db_svc M b))" using db_logs_fit[OF wf] by simp
  ultimately show ?thesis using r unfolding svc_reachable_def by (blast intro: svc_steps.step)
qed

lemma db_run_refines:
  assumes "db_run E config P s" "env_ok E config"
  shows "\<exists>M. db_wf E (fst s) (snd s) M \<and> db_config (fst s) = config \<and>
    svc_reachable (env_sha E) (dbc_broker_config config) (db_svc M (fst s))"
  using assms
proof (induction rule: db_run.induct)
  case (opened fs b fs')
  note o = open_fresh[OF opened(1), of E]
  from opened o have b: "b = DurableBroker_new config (state_path config)" "fs' = bt_insert (state_path config) [] fs"
    by (simp_all add: env_ok_def)
  have "svc_reachable (env_sha E) (dbc_broker_config config) (db_svc (\<lambda>_ _. []) b)"
    using o(3) opened(3) by (simp add: b env_ok_def svc_reachable_def svc_steps.start)
  moreover have "db_wf E b fs' (\<lambda>_ _. [])" using o(2) opened(3) by (simp add: b env_ok_def)
  ultimately show ?case by (auto simp: b DurableBroker_new_def)
next
  case (operation s x)
  obtain b fs where s: "s = (b, fs)" by (metis surj_pair)
  from operation(5,6) obtain M where M: "db_wf E b fs M" "db_config b = config"
    "svc_reachable (env_sha E) (dbc_broker_config config) (db_svc M b)" by (auto simp: s)
  have inv: "broker_inv (db_mem M b)" using svc_reachable_broker_inv[OF M(3)] by simp
  obtain b' fs' where run: "db_apply E x (b, fs) = (b', fs')" by (metis surj_pair)
  have room: "db_room M b" using db_room_of[OF M(1) inv] operation(3) by (simp add: s)
  from db_apply_refines[OF M(1) inv room operation(2) run] obtain M' where R: "step_refines E x M b fs M' b' fs'" ..
  then have "svc_reachable (env_sha E) (dbc_broker_config config) (db_svc M' b')"
    using step_reachable[OF M(3,1) operation(2)] M(3) by (auto simp: step_refines_def split: rres.splits)
  with R M(2) show ?case by (auto simp: s run step_refines_def)
qed

end
