(* ===== verification/Durable_StateLog.thy ===== *)
theory Durable_StateLog
  imports Durable_Sessions
begin

text \<open>
  The state log file: what is written comes back, an incomplete last line is cut, and the file after
  an append. The laws of the event codec are those of one line of JSON: not empty, without a
  newline, and read back as the event that was written.
\<close>

definition event_codec_ok :: "event_codec \<Rightarrow> bool" where
  "event_codec_ok ec \<longleftrightarrow>
     (\<forall>e line. ev_to_vec ec e = Some line \<longrightarrow> line \<noteq> [] \<and> 10 \<notin> set line \<and> ev_from_slice ec line = Inr e)"

definition state_holds :: "event_codec \<Rightarrow> broker_state_event list \<Rightarrow> bytes \<Rightarrow> bool" where
  "state_holds ec evs bs \<longleftrightarrow>
     (\<exists>ls. list_all2 (\<lambda>e l. ev_to_vec ec e = Some l) evs ls \<and> bs = concat (map (\<lambda>l. l @ [10]) ls))"

lemma state_holds_Nil [simp]: "state_holds ec [] bs \<longleftrightarrow> bs = []"
  by (auto simp: state_holds_def)

lemma state_holds_snoc:
  assumes "state_holds ec evs bs" "ev_to_vec ec e = Some line"
  shows "state_holds ec (evs @ [e]) (bs @ line @ [10])"
proof -
  from assms(1) obtain ls where "list_all2 (\<lambda>e l. ev_to_vec ec e = Some l) evs ls" "bs = concat (map (\<lambda>l. l @ [10]) ls)"
    by (auto simp: state_holds_def)
  with assms(2) show ?thesis
    unfolding state_holds_def by (intro exI[of _ "ls @ [line]"]) (simp add: list_all2_appendI)
qed

lemma split_newlines_line: "10 \<notin> set l \<Longrightarrow> split_newlines (l @ 10 # rest) = l # split_newlines rest"
  by (induction l) auto

lemma split_newlines_tail: "10 \<notin> set l \<Longrightarrow> split_newlines l = [l]"
  by (induction l) auto

lemma split_newlines_lines:
  "\<forall>l\<in>set ls. 10 \<notin> set l \<Longrightarrow> split_newlines (concat (map (\<lambda>l. l @ [10]) ls) @ rest) = ls @ split_newlines rest"
  by (induction ls) (simp_all add: split_newlines_line)

lemma parse_lines_append:
  assumes ok: "event_codec_ok ec"
  shows "list_all2 (\<lambda>e l. ev_to_vec ec e = Some l) evs ls \<Longrightarrow>
    parse_lines ec path i (ls @ rest) = map_ok (\<lambda>es. evs @ es) (parse_lines ec path (i + length ls) rest)"
proof (induction evs ls arbitrary: i rule: list_all2_induct)
  case Nil
  then show ?case by (cases "parse_lines ec path i rest") simp_all
next
  case (Cons e evs l ls)
  from ok Cons(1) have "l \<noteq> []" "ev_from_slice ec l = Inr e" by (auto simp: event_codec_ok_def)
  then show ?case using Cons.IH[of "i + 1"] by (cases "parse_lines ec path (Suc (i + length ls)) rest") simp_all
qed

lemma lines_no_newline:
  assumes ok: "event_codec_ok ec" and ls: "list_all2 (\<lambda>e l. ev_to_vec ec e = Some l) evs ls"
  shows "\<forall>l\<in>set ls. 10 \<notin> set l"
  using ls
proof (induction rule: list_all2_induct)
  case (Cons e evs l ls)
  with ok show ?case by (auto simp: event_codec_ok_def)
qed simp

lemma state_holds_ends:
  "state_holds ec evs bs \<Longrightarrow> bs = [] \<or> last bs = 10"
  unfolding state_holds_def
proof (elim exE conjE)
  fix ls :: "bytes list" assume "bs = concat (map (\<lambda>l. l @ [10]) ls)"
  then show ?thesis by (cases ls rule: rev_cases) simp_all
qed

lemma complete_len_tail:
  assumes "bs = [] \<or> last bs = 10" "10 \<notin> set tail"
  shows "complete_len (bs @ tail) = length bs"
proof (cases "tail = []")
  case True
  with assms(1) show ?thesis by (auto simp: complete_len_def)
next
  case False
  then have "last tail \<in> set tail" by simp
  with False assms(2) have "last (bs @ tail) \<noteq> 10" by (metis last_appendR)
  moreover have "dropWhile (\<lambda>b. b \<noteq> 10) (rev (bs @ tail)) = rev bs"
  proof -
    have "dropWhile (\<lambda>b. b \<noteq> 10) (rev (bs @ tail)) = dropWhile (\<lambda>b. b \<noteq> 10) (rev bs)"
      using assms(2) by (simp add: dropWhile_append)
    then show ?thesis using assms(1) by (cases "rev bs") (auto simp: last_rev hd_rev dest: arg_cong[of _ _ rev])
  qed
  ultimately show ?thesis by (simp add: complete_len_def)
qed

text \<open>An incomplete last line is cut and everything before it is read back.\<close>

lemma recover_state_events_held:
  assumes ok: "event_codec_ok ec" and h: "state_holds ec evs bs" and tail: "10 \<notin> set tail"
    and get: "bt_get fs path = Some (bs @ tail)" and srt: "bt_sorted fs"
  shows "recover_state_events ec path fs = (Ok evs, bt_insert path bs fs)"
proof -
  from h obtain ls where ls: "list_all2 (\<lambda>e l. ev_to_vec ec e = Some l) evs ls" "bs = concat (map (\<lambda>l. l @ [10]) ls)"
    by (auto simp: state_holds_def)
  have n: "complete_len (bs @ tail) = length bs" by (rule complete_len_tail[OF state_holds_ends[OF h] tail])
  have "split_newlines bs = ls @ [[]]"
    using split_newlines_lines[OF lines_no_newline[OF ok ls(1)], of "[]"] by (simp add: ls(2))
  then have p: "parse_lines ec path 0 (split_newlines bs) = Ok evs"
    using parse_lines_append[OF ok ls(1), of path 0 "[[]]"] by simp
  have "tail = [] \<Longrightarrow> bt_insert path bs fs = fs" using bt_insert_same[OF srt] get by simp
  then show ?thesis using get n p by (simp add: recover_state_events_def Let_def)
qed

section \<open>Appending an event\<close>

lemma StateLog_append_cases:
  assumes h: "bt_get fs path = Some content" and run: "StateLog_append ec sio ev path fs = (r, fs')"
  obtains (serde) "ev_to_vec ec ev = None" "r = Err DSerde" "fs' = fs"
  | (written) line where "ev_to_vec ec ev = Some line" "sio_failed_after sio = None" "r = Ok ()"
      "fs' = bt_insert path (content @ line @ [10]) fs"
  | (partial) line n where "ev_to_vec ec ev = Some line" "sio_failed_after sio = Some n" "r = Err (DIo (sio_text sio))"
      "fs' = bt_insert path (content @ take n (line @ [10])) fs"
  using run h by (auto simp: StateLog_append_def Let_def split: option.splits)

end
