(* ===== verification/Durable_Replay.thy ===== *)
theory Durable_Replay
  imports Durable_StateLog
begin

text \<open>
  Replaying an event has the effect the operation had. Between the operation and the replay the
  message logs may have grown, so the statements quantify over every file system whose logs extend
  the ones at the time. \<^verbatim>\<open>recovered\<close> is the broker that the replay ends in: the delivery state of the
  original, its topics with the logs as they open, and the publish state not yet rebuilt.
\<close>

section \<open>The logs on disk\<close>

definition disk_log :: "durable_env \<Rightarrow> durable_broker_config \<Rightarrow> fs \<Rightarrow> topic_name \<Rightarrow> partition_id \<Rightarrow> storage_log" where
  "disk_log E config fs t p =
     (case fst (StorageLog_open (env_records E) (storage_log_config config) t p fs) of
        Ok l \<Rightarrow> l | _ \<Rightarrow> fresh_log config t p)"

definition has_log :: "durable_broker \<Rightarrow> topic_name \<Rightarrow> partition_id \<Rightarrow> bool" where
  "has_log b t p \<longleftrightarrow> (\<exists>dt. bt_get (db_topics b) t = Some dt \<and> p \<in> set (dt_partition_ids dt))"

lemma has_log_shape:
  "has_log b t p \<longleftrightarrow>
     (case bt_get (bt_map topic_shape (db_topics b)) t of None \<Rightarrow> False | Some sh \<Rightarrow> p \<in> set (snd sh))"
  by (auto simp: has_log_def topic_shape_def split: option.split)

definition on_disk :: "durable_env \<Rightarrow> durable_broker \<Rightarrow> fs \<Rightarrow> contents \<Rightarrow> bool" where
  "on_disk E b fs M \<longleftrightarrow> bt_sorted fs \<and> codec_ok (env_records E) \<and>
     (\<forall>t p. has_log b t p \<longrightarrow> (\<exists>l. log_at E (db_config b) fs t p l (M t p)))"

definition shape_topic ::
  "durable_env \<Rightarrow> durable_broker_config \<Rightarrow> fs \<Rightarrow> topic_name \<Rightarrow> topic \<times> partition_id list \<Rightarrow> durable_topic" where
  "shape_topic E config fs t sh =
     \<lparr>dt_topic = fst sh, dt_partitions = map (\<lambda>p. (p, disk_log E config fs t p)) (snd sh),
      dt_next_round_robin_partition = 0\<rparr>"

definition recovered :: "durable_env \<Rightarrow> fs \<Rightarrow> durable_broker \<Rightarrow> durable_broker" where
  "recovered E fs b =
     b\<lparr>db_topics := bt_map (shape_topic E (db_config b) fs) (bt_map topic_shape (db_topics b)),
       db_idempotency_index := []\<rparr>"

lemma recovered_fields [simp]:
  "db_config (recovered E fs b) = db_config b" "db_state (recovered E fs b) = db_state b"
  "db_state_log (recovered E fs b) = db_state_log b" "db_idempotency_index (recovered E fs b) = []"
  "db_topics (recovered E fs b) = bt_map (shape_topic E (db_config b) fs) (bt_map topic_shape (db_topics b))"
  by (simp_all add: recovered_def)

lemma recovered_state [simp]: "recovered E fs (b\<lparr>db_state := s\<rparr>) = (recovered E fs b)\<lparr>db_state := s\<rparr>"
  by (simp add: recovered_def)

lemma on_disk_state [simp]: "on_disk E (b\<lparr>db_state := s\<rparr>) fs M = on_disk E b fs M"
  by (simp add: on_disk_def has_log_def)

lemma recovered_shape: "same_shape b b' \<Longrightarrow> recovered E fs b' = recovered E fs b"
  by (cases b; cases b') (simp add: recovered_def same_shape_def)

lemma on_disk_shape: "same_shape b b' \<Longrightarrow> on_disk E b' fs M = on_disk E b fs M"
  by (simp add: on_disk_def has_log_shape same_shape_def)

lemma disk_log_at:
  assumes "codec_ok (env_records E)" "log_at E config fs t p l es"
  shows "disk_log E config fs t p = l"
  using open_at[OF assms] by (simp add: disk_log_def)

lemma on_disk_at:
  assumes d: "on_disk E b fs M" and dt: "bt_get (db_topics b) t = Some dt" and p: "p \<in> set (dt_partition_ids dt)"
  shows "log_at E (db_config b) fs t p (disk_log E (db_config b) fs t p) (M t p)"
proof -
  have "has_log b t p" using dt p by (auto simp: has_log_def)
  then obtain l where l: "log_at E (db_config b) fs t p l (M t p)" using d unfolding on_disk_def by blast
  moreover have "codec_ok (env_records E)" using d by (simp add: on_disk_def)
  ultimately show ?thesis using disk_log_at by metis
qed

lemma map_of_keys: "map_of (map (\<lambda>p. (p, f p)) ps) p = (if p \<in> set ps then Some (f p) else None)"
  by (induction ps) auto

lemma shape_topic_log:
  "dt_partition_log (shape_topic E config fs t (topic_shape t dt)) p =
     (if p \<in> set (dt_partition_ids dt) then Some (disk_log E config fs t p) else None)"
  by (simp add: dt_partition_log_def shape_topic_def topic_shape_def bt_get_def map_of_keys)

lemma dt_partition_ids_iff: "p \<in> set (dt_partition_ids dt) \<longleftrightarrow> (\<exists>l. dt_partition_log dt p = Some l)"
  using bt_get_None_iff[of "dt_partitions dt" p] by (auto simp: dt_partition_ids_def dt_partition_log_def)

lemma on_disk_logs:
  assumes d: "on_disk E b fs M"
  shows "db_logs E (recovered E fs b) fs M"
  unfolding db_logs_def
proof (intro conjI allI impI)
  fix t dt' p l
  assume "bt_get (db_topics (recovered E fs b)) t = Some dt'" and l: "dt_partition_log dt' p = Some l"
  then obtain dt where dt: "bt_get (db_topics b) t = Some dt" "dt' = shape_topic E (db_config b) fs t (topic_shape t dt)"
    by auto
  have "p \<in> set (dt_partition_ids dt)" "l = disk_log E (db_config b) fs t p"
    using l by (simp_all add: dt(2) shape_topic_log split: if_splits)
  with on_disk_at[OF d dt(1)] show "log_at E (db_config (recovered E fs b)) fs t p l (M t p)" by simp
qed (use d in \<open>simp_all add: on_disk_def\<close>)

lemma db_wf_on_disk:
  assumes wf: "db_wf E b fs M"
  shows "on_disk E b fs M"
  unfolding on_disk_def
proof (intro conjI allI impI)
  fix t p assume "has_log b t p"
  then obtain dt l where "bt_get (db_topics b) t = Some dt" "dt_partition_log dt p = Some l"
    by (auto simp: has_log_def dt_partition_ids_iff)
  from db_wf_log[OF wf this] show "\<exists>l. log_at E (db_config b) fs t p l (M t p)" ..
qed (use wf in \<open>simp_all add: db_wf_def\<close>)

text \<open>A map whose values are given by its keys.\<close>

lemma keyed_values: "\<forall>(k, v)\<in>set m. v = f k \<Longrightarrow> m = map (\<lambda>k. (k, f k)) (map fst m)"
  by (induction m) auto

lemma fold_insert_keys:
  "map fst (fold (\<lambda>p. bt_insert p (f p)) ps []) = map fst (fold (\<lambda>p. bt_insert p (g p)) ps [])"
proof -
  have "bt_map (\<lambda>_ _. ()) (fold (\<lambda>p. bt_insert p (f p)) ps []) = bt_map (\<lambda>_ _. ()) (fold (\<lambda>p. bt_insert p (g p)) ps [])"
    by (simp add: bt_map_fold_insert)
  from arg_cong[OF this, of "map fst"] show ?thesis by simp
qed

lemma fold_insert_set: "fst ` set (fold (\<lambda>p. bt_insert p (f p)) ps m) = fst ` set m \<union> set ps"
  by (induction ps arbitrary: m) (simp_all add: fst_set_bt_insert)

lemma fold_insert_values:
  "\<forall>(p, l)\<in>set m. l = f p \<Longrightarrow> \<forall>(p, l)\<in>set (fold (\<lambda>p. bt_insert p (f p)) ps m). l = f p"
proof (induction ps arbitrary: m)
  case (Cons p ps)
  have "set (bt_insert p (f p) m) \<subseteq> insert (p, f p) (set m)"
    by (induction p "f p" m rule: bt_insert.induct) auto
  with Cons.prems have "\<forall>(p, l)\<in>set (bt_insert p (f p) m). l = f p" by blast
  from Cons.IH[OF this] show ?case by simp
qed simp

section \<open>What an event refers to is still there\<close>

lemma message_recovered:
  assumes d: "on_disk E b fs M'" and g: "grows M M'" and m: "message_at (db_mem M b) r = Some env"
  shows "message_at (db_mem M' (recovered E fs b)) r = Some env"
proof -
  let ?t = "mr_topic r" and ?p = "mr_partition_id r" and ?k = "unat (offset_value (mr_offset r))"
  from m obtain dt l where dt: "bt_get (db_topics b) ?t = Some dt" and l: "dt_partition_log dt ?p = Some l"
    and k: "?k < length (M ?t ?p)" "M ?t ?p ! ?k = env"
    by (auto simp: message_at_def log_of_db_mem PartitionLog_get_def split: option.splits if_splits)
  from g obtain es where es: "M' ?t ?p = M ?t ?p @ es" by (auto simp: grows_def)
  have "?p \<in> set (dt_partition_ids dt)" using l by (auto simp: dt_partition_ids_iff)
  then show ?thesis
    using dt k by (simp add: message_at_def log_of_db_mem shape_topic_log PartitionLog_get_def es nth_append)
qed

lemma ensure_message_state [simp]: "ensure_message_exists t p off (b\<lparr>db_state := s\<rparr>) = ensure_message_exists t p off b"
  by (simp add: ensure_message_exists_def)

lemma envelope_for_state [simp]: "durable_envelope_for E r (b\<lparr>db_state := s\<rparr>) fs = durable_envelope_for E r b fs"
  by (simp add: durable_envelope_for_def)

lemma ensure_message_held:
  assumes logs: "db_logs E b fs M" and m: "message_at (db_mem M b) r = Some env"
  shows "ensure_message_exists (mr_topic r) (mr_partition_id r) (mr_offset r) b = Ok ()"
proof -
  let ?t = "mr_topic r" and ?p = "mr_partition_id r" and ?k = "unat (offset_value (mr_offset r))"
  from m obtain dt l where dt: "bt_get (db_topics b) ?t = Some dt" and l: "dt_partition_log dt ?p = Some l"
    and k: "?k < length (M ?t ?p)"
    by (auto simp: message_at_def log_of_db_mem PartitionLog_get_def split: option.splits if_splits)
  have "unat (offset_value (sl_next_offset l)) = length (M ?t ?p)"
    by (rule next_offset_held[OF db_logs_log[OF logs dt l]])
  then have "\<not> sl_next_offset l \<le> mr_offset r" using k by (simp add: less_eq_offset_def word_le_nat_alt)
  then show ?thesis by (simp add: ensure_message_exists_def dt l)
qed

section \<open>One event\<close>

text \<open>The event \<^verbatim>\<open>ev\<close> takes the recovered \<^verbatim>\<open>b\<close> to the recovered \<^verbatim>\<open>b'\<close>, and the events \<^verbatim>\<open>evs\<close> lead to \<^verbatim>\<open>b\<close>.\<close>

definition event_applies :: "durable_env \<Rightarrow> contents \<Rightarrow> durable_broker \<Rightarrow> broker_state_event \<Rightarrow> durable_broker \<Rightarrow> bool" where
  "event_applies E M b ev b' \<longleftrightarrow> db_config b' = db_config b \<and> db_state_log b' = db_state_log b \<and>
     (\<forall>fs M'. on_disk E b' fs M' \<longrightarrow> grows M M' \<longrightarrow> on_disk E b fs M' \<and>
        apply_recovered_event E ev (recovered E fs b) fs = (Ok (), recovered E fs b', fs))"

definition replays :: "durable_env \<Rightarrow> durable_broker \<Rightarrow> broker_state_event list \<Rightarrow> contents \<Rightarrow> bool" where
  "replays E b evs M \<longleftrightarrow>
     (\<forall>fs M'. on_disk E b fs M' \<longrightarrow> grows M M' \<longrightarrow>
        replay_events E evs (DurableBroker_new (db_config b) (db_state_log b)) fs = (Ok (), recovered E fs b, fs))"

lemma replay_events_snoc:
  "replay_events E (evs @ [ev]) b fs =
     (case replay_events E evs b fs of
        (Ok u, b1, fs1) \<Rightarrow> apply_recovered_event E ev b1 fs1
      | (Err er, b1, fs1) \<Rightarrow> (Err er, b1, fs1)
      | (Panicked, b1, fs1) \<Rightarrow> (Panicked, b1, fs1))"
  by (induction evs arbitrary: b fs) (auto split: rres.splits prod.splits)

lemma replay_events_snoc_Ok:
  "replay_events E evs b fs = (Ok u, b1, fs1) \<Longrightarrow>
   replay_events E (evs @ [ev]) b fs = apply_recovered_event E ev b1 fs1"
  by (simp add: replay_events_snoc)

lemma replays_step:
  assumes "replays E b evs M" "event_applies E M b ev b'"
  shows "replays E b' (evs @ [ev]) M"
  unfolding replays_def
proof (intro allI impI)
  fix fs M' assume d: "on_disk E b' fs M'" and g: "grows M M'"
  from assms(2) have cfg: "db_config b' = db_config b" "db_state_log b' = db_state_log b"
    and ap: "on_disk E b fs M'" "apply_recovered_event E ev (recovered E fs b) fs = (Ok (), recovered E fs b', fs)"
    using d g unfolding event_applies_def by blast+
  from assms(1) have "replay_events E evs (DurableBroker_new (db_config b) (db_state_log b)) fs = (Ok (), recovered E fs b, fs)"
    using ap(1) g unfolding replays_def by blast
  from replay_events_snoc_Ok[OF this] show "replay_events E (evs @ [ev]) (DurableBroker_new (db_config b') (db_state_log b')) fs =
      (Ok (), recovered E fs b', fs)"
    unfolding cfg by (simp only: ap(2))
qed

lemma replays_same:
  assumes "replays E b evs M" "same_shape b b'" "grows M M'"
  shows "replays E b' evs M'"
  using assms(1) grows_trans[OF assms(3)] on_disk_shape[OF assms(2)] recovered_shape[OF assms(2)] assms(2)
  unfolding replays_def by (auto simp: same_shape_def)

text \<open>An event that changes the delivery state only.\<close>

lemma state_event_applies:
  assumes "\<And>fs M'. on_disk E b fs M' \<Longrightarrow> grows M M' \<Longrightarrow>
      apply_recovered_event E ev (recovered E fs b) fs = (Ok (), (recovered E fs b)\<lparr>db_state := s'\<rparr>, fs)"
  shows "event_applies E M b ev (b\<lparr>db_state := s'\<rparr>)"
  using assms by (simp add: event_applies_def)

section \<open>Topics\<close>

lemma topic_created_applies:
  assumes new: "\<not> bt_contains (db_topics b) (topic_name topic)"
    and dt: "dt_topic dt = topic" "dt_partition_ids dt = map fst (fold (\<lambda>p. bt_insert p (L p)) (topic_partition_ids topic) [])"
    and b': "b' = b\<lparr>db_topics := bt_insert (topic_name topic) dt (db_topics b)\<rparr>"
  shows "event_applies E M b (TopicCreated topic) b'"
proof -
  let ?n = "topic_name topic" and ?c = "db_config b"
  have on: "on_disk E b fs M' \<and> apply_recovered_event E (TopicCreated topic) (recovered E fs b) fs = (Ok (), recovered E fs b', fs)"
    if d: "on_disk E b' fs M'" for fs M'
  proof
    show "on_disk E b fs M'"
      unfolding on_disk_def
    proof (intro conjI allI impI)
      fix t p assume h: "has_log b t p"
      with new have "t \<noteq> ?n" by (auto simp: bt_contains_def has_log_def)
      then have "has_log b' t p" using h by (simp add: b' has_log_def)
      with d show "\<exists>l. log_at E ?c fs t p l (M' t p)" by (simp add: on_disk_def b')
    qed (use d in \<open>simp_all add: on_disk_def\<close>)
    have ids: "set (dt_partition_ids dt) = set (topic_partition_ids topic)"
      using dt(2) fold_insert_set[of L "topic_partition_ids topic" "[]"] by simp
    have at: "\<forall>p\<in>set (topic_partition_ids topic). log_at E ?c fs ?n p (disk_log E ?c fs ?n p) (M' ?n p)"
      using on_disk_at[OF d, of ?n dt] ids by (simp add: b')
    have ok: "codec_ok (env_records E)" using d by (simp add: on_disk_def)
    let ?ps = "fold (\<lambda>p. bt_insert p (disk_log E ?c fs ?n p)) (topic_partition_ids topic) []"
    have opn: "DurableTopic_open E (storage_log_config ?c) topic fs =
        (Ok \<lparr>dt_topic = topic, dt_partitions = ?ps, dt_next_round_robin_partition = 0\<rparr>, fs)"
      by (rule DurableTopic_open_at[OF ok at])
    have "?ps = map (\<lambda>p. (p, disk_log E ?c fs ?n p)) (map fst ?ps)"
      by (rule keyed_values) (rule fold_insert_values, simp)
    moreover have "map fst ?ps = dt_partition_ids dt" unfolding dt(2) by (rule fold_insert_keys)
    ultimately have shape: "shape_topic E ?c fs ?n (topic_shape ?n dt) =
        \<lparr>dt_topic = topic, dt_partitions = ?ps, dt_next_round_robin_partition = 0\<rparr>"
      by (simp add: shape_topic_def topic_shape_def dt(1))
    have "recovered E fs b' = (recovered E fs b)\<lparr>db_topics := bt_insert ?n
        \<lparr>dt_topic = topic, dt_partitions = ?ps, dt_next_round_robin_partition = 0\<rparr> (db_topics (recovered E fs b))\<rparr>"
      by (simp add: recovered_def b' bt_map_insert shape)
    then show "apply_recovered_event E (TopicCreated topic) (recovered E fs b) fs = (Ok (), recovered E fs b', fs)"
      using new opn by (simp add: replay_topic_created_def)
  qed
  then show ?thesis by (simp add: event_applies_def b')
qed

section \<open>Deliveries\<close>

lemma event_at_later:
  fixes expires
  assumes inv: "broker_inv (mem_state T s I)" and av: "status_of_ref (mem_state T s I) (cc_consumer_group_id c) (ref_of c x) = Available"
    and env: "message_at (mem_state T s I) (ref_of c x) = Some env" and ne: "y \<noteq> x"
  defines "s1 \<equiv> apply_consumed_delivery (event_at (mem_state T s I) c expires x) s"
  shows "event_at (mem_state T s1 I) c expires y = event_at (mem_state T s I) c expires y"
    "delivery_id_at (mem_state T s1 I) c y = delivery_id_at (mem_state T s I) c y"
proof -
  have "next_attempt (mem_state T s1 I) (cc_consumer_group_id c) (ref_of c y) =
      next_attempt (mem_state T s I) (cc_consumer_group_id c) (ref_of c y)"
    unfolding s1_def mem_apply_consumed using delivered_state_inv(3)[OF inv av env, where le = expires] ne by simp
  then show "event_at (mem_state T s1 I) c expires y = event_at (mem_state T s I) c expires y"
    "delivery_id_at (mem_state T s1 I) c y = delivery_id_at (mem_state T s I) c y"
    by (simp_all add: event_at_def delivery_id_at_def)
qed

lemma event_at_fields [simp]:
  "de_topic (event_at s c expires x) = cc_topic c" "de_partition_id (event_at s c expires x) = fst x"
  "de_offset (event_at s c expires x) = snd x" "de_consumer_group_id (event_at s c expires x) = cc_consumer_group_id c"
  "de_delivery_id (event_at s c expires x) = delivery_id_at s c x"
  by (simp_all add: event_at_def)

lemma pending_after_consumed:
  "dds_pending (apply_consumed_delivery d s) = bt_insert (de_delivery_id d)
     \<lparr>pd_message_ref = MessageRef_new (de_topic d) (de_partition_id d) (de_offset d),
      pd_consumer_group_id = de_consumer_group_id d, pd_consumer_id = de_consumer_id d,
      pd_attempt_number = de_attempt_number d, pd_lease_expires_at = de_lease_expires_at d\<rparr> (dds_pending s)"
  by (simp add: apply_consumed_delivery_def Let_def)

lemma replay_consumed_all:
  assumes "broker_inv (mem_state T s I)" "selection_ok (mem_state T s I) c xs"
    "\<forall>x\<in>set xs. \<not> bt_contains (dds_pending s) (delivery_id_at (mem_state T s I) c x)"
    "\<forall>x\<in>set xs. ensure_message_exists (cc_topic c) (fst x) (snd x) b0 = Ok ()"
  shows "replay_consumed (map (event_at (mem_state T s I) c expires) xs) (b0\<lparr>db_state := s\<rparr>) =
    (Ok (), b0\<lparr>db_state := fold apply_consumed_delivery (map (event_at (mem_state T s I) c expires) xs) s\<rparr>)"
  using assms
proof (induction xs arbitrary: s)
  case Nil
  then show ?case by simp
next
  case (Cons x xs)
  let ?m = "mem_state T s I" and ?g = "cc_consumer_group_id c"
  let ?s1 = "apply_consumed_delivery (event_at ?m c expires x) s"
  have m1: "mem_state T ?s1 I = delivered_state ?m c expires x" by (rule mem_apply_consumed)
  from Cons.prems(2) obtain env where av: "status_of_ref ?m ?g (ref_of c x) = Available"
    and env: "message_at ?m (ref_of c x) = Some env" and ok: "selection_ok ?m c xs" and nx: "x \<notin> set xs"
    by (auto simp: selection_ok_def)
  note one = delivered_state_inv[OF Cons.prems(1) av env, where le = expires]
  have later: "event_at (mem_state T ?s1 I) c expires y = event_at ?m c expires y"
    "delivery_id_at (mem_state T ?s1 I) c y = delivery_id_at ?m c y" if "y \<in> set xs" for y
    using event_at_later[OF Cons.prems(1) av env, of y expires] that nx by auto
  have ok1: "selection_ok (mem_state T ?s1 I) c xs"
    unfolding m1 using ok nx by (auto simp: selection_ok_def one(2))
  have fresh1: "\<forall>y\<in>set xs. \<not> bt_contains (dds_pending ?s1) (delivery_id_at (mem_state T ?s1 I) c y)"
  proof
    fix y assume y: "y \<in> set xs"
    then have "delivery_id_at ?m c y \<noteq> delivery_id_at ?m c x" using nx delivery_id_at_inject by metis
    then show "\<not> bt_contains (dds_pending ?s1) (delivery_id_at (mem_state T ?s1 I) c y)"
      using Cons.prems(3) y by (simp add: later(2)[OF y] pending_after_consumed)
  qed
  have "(case dds_partition_state s ?g (cc_topic c) (fst x) of None \<Rightarrow> True | Some ps \<Rightarrow> gp_is_available ps (snd x))"
  proof -
    have "status ?m ?g (cc_topic c) (fst x) (snd x) = Available"
      using av by (cases x) (simp add: status_of_ref_def ref_of_def)
    then show ?thesis unfolding mem_partition_state[where T = T and I = I] offset_available_iff .
  qed
  then have step: "replay_consumed_delivery (event_at ?m c expires x) (b0\<lparr>db_state := s\<rparr>) = (Ok (), b0\<lparr>db_state := ?s1\<rparr>)"
    using Cons.prems(3,4) by (simp add: replay_consumed_delivery_def split: option.splits)
  have maps: "map (event_at (mem_state T ?s1 I) c expires) xs = map (event_at ?m c expires) xs" using later(1) by simp
  have "\<forall>x\<in>set xs. ensure_message_exists (cc_topic c) (fst x) (snd x) b0 = Ok ()" using Cons.prems(4) by simp
  from Cons.IH[OF one(1)[folded m1] ok1 fresh1 this] show ?case
    unfolding maps by (simp add: step)
qed

lemma consumed_applies:
  fixes expires
  assumes inv: "broker_inv (db_mem M b)" and sel: "selection_ok (db_mem M b) c xs"
    and fresh: "\<forall>x\<in>set xs. \<not> bt_contains (dds_pending (db_state b)) (delivery_id_at (db_mem M b) c x)"
  defines "evs \<equiv> map (event_at (db_mem M b) c expires) xs"
  shows "event_applies E M b (MessagesConsumed evs) (b\<lparr>db_state := fold apply_consumed_delivery evs (db_state b)\<rparr>)"
proof (rule state_event_applies)
  fix fs M' assume d: "on_disk E b fs M'" and g: "grows M M'"
  let ?T = "bs_topics (db_mem M b)" and ?I = "db_idempotency_index b"
  have ens: "\<forall>x\<in>set xs. ensure_message_exists (cc_topic c) (fst x) (snd x) (recovered E fs b) = Ok ()"
  proof
    fix x assume "x \<in> set xs"
    then obtain env where "message_at (db_mem M b) (ref_of c x) = Some env" using sel by (auto simp: selection_ok_def)
    from ensure_message_held[OF on_disk_logs[OF d] message_recovered[OF d g this]]
    show "ensure_message_exists (cc_topic c) (fst x) (snd x) (recovered E fs b) = Ok ()"
      by (cases x) (simp add: ref_of_def)
  qed
  have same: "(recovered E fs b)\<lparr>db_state := db_state b\<rparr> = recovered E fs b" by (simp add: recovered_def)
  show "apply_recovered_event E (MessagesConsumed evs) (recovered E fs b) fs =
      (Ok (), (recovered E fs b)\<lparr>db_state := fold apply_consumed_delivery evs (db_state b)\<rparr>, fs)"
    using replay_consumed_all[of ?T "db_state b" ?I c xs "recovered E fs b" expires, folded db_mem_eq[of M b], unfolded same,
        OF inv sel fresh ens]
    by (simp add: evs_def)
qed

section \<open>Settled deliveries\<close>

lemma MessageRef_new_ref [simp]: "MessageRef_new (mr_topic r) (mr_partition_id r) (mr_offset r) = r"
  by (simp add: MessageRef_new_def)

lemma pending_for_replay_own:
  "bt_get (dds_pending s) did = Some pd \<Longrightarrow> n = None \<or> n = Some (pd_attempt_number pd) \<Longrightarrow>
   pending_for_replay did (pd_consumer_id pd) (pd_consumer_group_id pd) (pd_message_ref pd) n s = Ok pd"
  by (auto simp: pending_for_replay_def split: option.split)

lemma acked_applies:
  assumes pd: "bt_get (dds_pending (db_state b)) did = Some pd"
  shows "event_applies E M b
    (MessageAcked did (pd_consumer_id pd) (mr_topic (pd_message_ref pd)) (mr_partition_id (pd_message_ref pd))
       (mr_offset (pd_message_ref pd)) (pd_consumer_group_id pd) ts)
    (b\<lparr>db_state := apply_ack did pd (db_state b)\<rparr>)"
  by (rule state_event_applies) (simp add: pending_for_replay_own[OF pd])

text \<open>An outcome that was computed is computed again from the event.\<close>

lemma replay_outcome_computed:
  assumes pd: "bt_get (dds_pending (db_state b1)) did = Some pd"
    and co: "compute_pending_outcome E pd policy ts reason b fs0 = Ok co"
    and env: "\<And>env. durable_envelope_for E (pd_message_ref pd) b fs0 = Ok env \<Longrightarrow>
      durable_envelope_for E (pd_message_ref pd) b1 fs = Ok env"
  shows "replay_outcome E did (pd_consumer_id pd) (pd_consumer_group_id pd) (pd_message_ref pd) (pd_attempt_number pd) ts
      (co_outcome co) b1 fs =
    (case apply_pending_outcome did pd (co_outcome co) (co_dead_letter co) (db_state b1) of
       (res, s1) \<Rightarrow> (res, b1\<lparr>db_state := s1\<rparr>))"
proof -
  have "dead_letter_for_outcome E pd (co_outcome co) ts b1 fs = Ok (co_dead_letter co)"
    using co env by (auto simp: compute_pending_outcome_Ok dead_letter_for_outcome_def build_dead_letter_entry_def
        dead_letter_of_def Let_def split: if_splits)
  then show ?thesis using pending_for_replay_own[OF pd, of "Some (pd_attempt_number pd)"] by (simp add: replay_outcome_def)
qed

text \<open>The envelope of a pending message can be read at any later time.\<close>

lemma envelope_later:
  assumes wf: "db_wf E b fs0 M" and inv: "broker_inv (db_mem M b)" and d: "on_disk E b fs M'" and g: "grows M M'"
    and pd: "bt_get (dds_pending (db_state b)) did = Some pd"
    and env: "durable_envelope_for E (pd_message_ref pd) b fs0 = Ok env"
  shows "durable_envelope_for E (pd_message_ref pd) (recovered E fs b) fs = Ok env"
proof -
  have "bt_get (bs_pending (db_mem M b)) did = Some pd" using pd by simp
  from pending_in_flight(4)[OF inv this] obtain e0 where e0: "message_at (db_mem M b) (pd_message_ref pd) = Some e0" by blast
  from envelope_for_held[OF wf e0] env have "env = e0" by simp
  with envelope_for_logs[OF on_disk_logs[OF d] message_recovered[OF d g e0]] show ?thesis by simp
qed

lemma nacked_applies:
  assumes wf: "db_wf E b fs0 M" and inv: "broker_inv (db_mem M b)" and pd: "bt_get (dds_pending (db_state b)) did = Some pd"
    and co: "compute_pending_outcome E pd policy ts reason b fs0 = Ok co"
    and ap: "apply_pending_outcome did pd (co_outcome co) (co_dead_letter co) (db_state b) = (Ok (), s')"
  shows "event_applies E M b
    (MessageNacked did (pd_consumer_id pd) (mr_topic (pd_message_ref pd)) (mr_partition_id (pd_message_ref pd))
       (mr_offset (pd_message_ref pd)) (pd_consumer_group_id pd) (pd_attempt_number pd) ts reason' (co_outcome co))
    (b\<lparr>db_state := s'\<rparr>)"
proof (rule state_event_applies)
  fix fs M' assume d: "on_disk E b fs M'" and g: "grows M M'"
  have pd': "bt_get (dds_pending (db_state (recovered E fs b))) did = Some pd" using pd by simp
  from replay_outcome_computed[OF pd' co envelope_later[OF wf inv d g pd]] ap
  show "apply_recovered_event E (MessageNacked did (pd_consumer_id pd) (mr_topic (pd_message_ref pd))
       (mr_partition_id (pd_message_ref pd)) (mr_offset (pd_message_ref pd)) (pd_consumer_group_id pd) (pd_attempt_number pd)
       ts reason' (co_outcome co)) (recovered E fs b) fs = (Ok (), (recovered E fs b)\<lparr>db_state := s'\<rparr>, fs)" by simp
qed

section \<open>Maintenance\<close>

lemma apply_pending_outcome_pending:
  "dds_pending (snd (apply_pending_outcome did pd outcome dl s)) = bt_remove did (dds_pending s)"
  by (simp add: apply_pending_outcome_def Let_def split: delivery_outcome.split option.split)

lemma replay_expired_all:
  assumes "outcomes_for E now policy b fs0 s cs" "apply_outcomes cs s = (Ok (), s')"
    "\<And>did pd co env. (did, pd, co) \<in> set cs \<Longrightarrow> durable_envelope_for E (pd_message_ref pd) b fs0 = Ok env \<Longrightarrow>
      durable_envelope_for E (pd_message_ref pd) b1 fs = Ok env"
  shows "replay_expired E (map (expired_outcome now) cs) (b1\<lparr>db_state := s\<rparr>) fs = (Ok (), b1\<lparr>db_state := s'\<rparr>)"
  using assms
proof (induction cs arbitrary: s)
  case Nil
  then show ?case by simp
next
  case (Cons c cs)
  obtain did pd co where c: "c = (did, pd, co)" by (metis prod_cases3)
  from Cons.prems(1) have pd: "bt_get (dds_pending s) did = Some pd"
    and co: "compute_pending_outcome E pd policy now Expired b fs0 = Ok co" by (auto simp: outcomes_for_def c)
  obtain s1 where s1: "apply_pending_outcome did pd (co_outcome co) (co_dead_letter co) s = (Ok (), s1)"
    and rest: "apply_outcomes cs s1 = (Ok (), s')"
    using Cons.prems(2) by (auto simp: c split: rres.splits prod.splits)
  have "bt_get (dds_pending (db_state (b1\<lparr>db_state := s\<rparr>))) did = Some pd" using pd by simp
  from replay_outcome_computed[OF this co] Cons.prems(3)[of did pd co] s1
  have step: "replay_expired_outcome E (expired_outcome now c) (b1\<lparr>db_state := s\<rparr>) fs = (Ok (), b1\<lparr>db_state := s1\<rparr>)"
    by (simp add: replay_expired_outcome_def expired_outcome_def c)
  have "outcomes_for E now policy b fs0 s1 cs"
    unfolding outcomes_for_def
  proof (intro conjI ballI)
    show "distinct (map fst cs)" using Cons.prems(1) by (simp add: outcomes_for_def)
    fix x assume x: "x \<in> set cs"
    obtain d2 p2 c2 where xe: "x = (d2, p2, c2)" by (metis prod_cases3)
    show "case x of (did, pd, co) \<Rightarrow> bt_get (dds_pending s1) did = Some pd \<and>
        compute_pending_outcome E pd policy now Expired b fs0 = Ok co"
      using outcomes_for_rest[OF Cons.prems(1)[unfolded c] x[unfolded xe]]
        apply_pending_outcome_pending[of did pd "co_outcome co" "co_dead_letter co" s]
      by (simp add: xe s1)
  qed
  moreover have "durable_envelope_for E (pd_message_ref p) b1 fs = Ok env"
    if "(d, p, o') \<in> set cs" "durable_envelope_for E (pd_message_ref p) b fs0 = Ok env" for d p o' env
    using Cons.prems(3)[of d p o' env] that by simp
  ultimately show ?case using Cons.IH[OF _ rest] step by simp
qed

lemma maintenance_applies:
  assumes wf: "db_wf E b fs0 M" and inv: "broker_inv (db_mem M b)"
    and for_s: "outcomes_for E now policy b fs0 (db_state b) cs"
    and ap: "apply_outcomes cs (db_state b) = (Ok (), s1)" "apply_available now evs 0 s1 = (Ok n, s2)"
  shows "event_applies E M b (RetryMaintenanceApplied now (map (expired_outcome now) cs) evs) (b\<lparr>db_state := s2\<rparr>)"
proof (rule state_event_applies)
  fix fs M' assume d: "on_disk E b fs M'" and g: "grows M M'"
  have same: "(recovered E fs b)\<lparr>db_state := db_state b\<rparr> = recovered E fs b" by (simp add: recovered_def)
  have "bt_get (dds_pending (db_state b)) did = Some pd" if "(did, pd, co) \<in> set cs" for did pd co
    using for_s that by (auto simp: outcomes_for_def)
  from replay_expired_all[OF for_s ap(1) envelope_later[OF wf inv d g this]]
  have "replay_expired E (map (expired_outcome now) cs) (recovered E fs b) fs = (Ok (), (recovered E fs b)\<lparr>db_state := s1\<rparr>)"
    by (simp only: same)
  with ap(2) show "apply_recovered_event E (RetryMaintenanceApplied now (map (expired_outcome now) cs) evs) (recovered E fs b) fs =
      (Ok (), (recovered E fs b)\<lparr>db_state := s2\<rparr>, fs)" by simp
qed

end
