(* ===== verification/Durable_Rebuild.thy ===== *)
theory Durable_Rebuild
  imports Durable_Replay
begin

text \<open>
  Rebuilding the publish state: the scan over the message logs gives back the idempotency index and
  the round-robin counters, so that the recovered broker is the original one. It rests on what the
  logs determine (\<^verbatim>\<open>publish_state_ok\<close>) and on every index record naming a logged message.
\<close>

section \<open>Parts of an index\<close>

definition sub_index :: "idempotency_index \<Rightarrow> idempotency_index \<Rightarrow> bool" where
  "sub_index I J \<longleftrightarrow> (\<forall>x r. bt_get I x = Some r \<longrightarrow> bt_get J x = Some r)"

lemma sub_index_refl [simp]: "sub_index I I"
  by (simp add: sub_index_def)

lemma sub_index_trans: "sub_index I J \<Longrightarrow> sub_index J K \<Longrightarrow> sub_index I K"
  by (simp add: sub_index_def)

section \<open>One partition\<close>

text \<open>The index \<^verbatim>\<open>F\<close> has the record of every keyed message of the log.\<close>

definition indexed ::
  "(bytes \<Rightarrow> bytes) \<Rightarrow> idempotency_index \<Rightarrow> topic_name \<Rightarrow> partition_id \<Rightarrow> nat \<Rightarrow> message_envelope list \<Rightarrow> bool" where
  "indexed sha F t p j es \<longleftrightarrow>
     (\<forall>i k. i < length es \<longrightarrow> env_idempotency_key (es ! i) = Some k \<longrightarrow>
        bt_get F (t, k) = Some (record_of sha t p (Offset (of_nat (j + i))) (es ! i)))"

definition keys_in :: "idempotency_index \<Rightarrow> topic_name \<Rightarrow> message_envelope list \<Rightarrow> bool" where
  "keys_in I t es \<longleftrightarrow> (\<forall>e\<in>set es. \<forall>k. env_idempotency_key e = Some k \<longrightarrow> bt_contains I (t, k))"

lemma keys_in_sub: "keys_in I t es \<Longrightarrow> sub_index I J \<Longrightarrow> keys_in J t es"
  unfolding keys_in_def sub_index_def bt_contains_iff by blast

lemma indexed_Cons:
  "indexed sha F t p j (e # es) \<longleftrightarrow>
     (\<forall>k. env_idempotency_key e = Some k \<longrightarrow> bt_get F (t, k) = Some (record_of sha t p (Offset (of_nat j)) e)) \<and>
     indexed sha F t p (Suc j) es"
proof
  assume h: "indexed sha F t p j (e # es)"
  then have "indexed sha F t p (Suc j) es"
    unfolding indexed_def by (metis Suc_less_eq add_Suc_shift length_Cons nth_Cons_Suc)
  moreover have "\<forall>k. env_idempotency_key e = Some k \<longrightarrow> bt_get F (t, k) = Some (record_of sha t p (Offset (of_nat j)) e)"
    using h unfolding indexed_def by (metis add_0_right length_greater_0_conv list.distinct(1) nth_Cons_0)
  ultimately show "(\<forall>k. env_idempotency_key e = Some k \<longrightarrow> bt_get F (t, k) = Some (record_of sha t p (Offset (of_nat j)) e)) \<and>
     indexed sha F t p (Suc j) es" by blast
next
  assume h: "(\<forall>k. env_idempotency_key e = Some k \<longrightarrow> bt_get F (t, k) = Some (record_of sha t p (Offset (of_nat j)) e)) \<and>
     indexed sha F t p (Suc j) es"
  show "indexed sha F t p j (e # es)"
    unfolding indexed_def
  proof (intro allI impI)
    fix i k assume i: "i < length (e # es)" and k: "env_idempotency_key ((e # es) ! i) = Some k"
    show "bt_get F (t, k) = Some (record_of sha t p (Offset (of_nat (j + i))) ((e # es) ! i))"
    proof (cases i)
      case 0
      with h k show ?thesis by simp
    next
      case (Suc n)
      with h i k have "bt_get F (t, k) = Some (record_of sha t p (Offset (of_nat (Suc j + n))) (es ! n))"
        unfolding indexed_def by simp
      with Suc show ?thesis by simp
    qed
  qed
qed

lemma checked_add_one:
  "unat (c :: u64) + 1 < 2 ^ 64 \<Longrightarrow> checked_add c 1 = Some (c + 1)"
  by (simp add: checked_add_def)

lemma recover_records_ok:
  assumes "indexed (env_sha E) F t p j es" "sub_index I F" "bt_sorted I" "unat c + unkeyed es < 2 ^ 64"
  shows "\<exists>I'. recover_records E t p (stored_records t p j es) c I = Ok (c + of_nat (unkeyed es), I') \<and>
    sub_index I I' \<and> sub_index I' F \<and> bt_sorted I' \<and> keys_in I' t es"
  using assms
proof (induction es arbitrary: j c I)
  case Nil
  then show ?case by (simp add: unkeyed_def keys_in_def)
next
  case (Cons e es)
  let ?rec = "record_of (env_sha E) t p (Offset (of_nat j)) e"
  let ?c = "if env_partition_key e = None then c + 1 else c"
  from Cons.prems(1) have key: "\<And>k. env_idempotency_key e = Some k \<Longrightarrow> bt_get F (t, k) = Some ?rec"
    and rest: "indexed (env_sha E) F t p (Suc j) es" by (auto simp: indexed_Cons)
  have u: "unkeyed (e # es) = (if env_partition_key e = None then 1 else 0) + unkeyed es" by (simp add: unkeyed_def)
  have cnt: "(if env_partition_key e = None
      then ok_or (checked_add c 1) (Corruption (str ''unkeyed message count overflow during recovery'')) else Ok c) = Ok ?c"
    using Cons.prems(4) u checked_add_one[of c] by (cases "env_partition_key e = None") auto
  have c: "unat ?c + unkeyed es < 2 ^ 64" "?c + of_nat (unkeyed es) = c + of_nat (unkeyed (e # es))"
  proof -
    have "unat (c + 1) = unat c + 1" if "env_partition_key e = None"
      using Cons.prems(4) u that by (simp add: unat_word_ariths)
    then show "unat ?c + unkeyed es < 2 ^ 64" using Cons.prems(4) u by auto
    show "?c + of_nat (unkeyed es) = c + of_nat (unkeyed (e # es))" by (simp add: u add_ac)
  qed
  define J where "J = (case env_idempotency_key e of None \<Rightarrow> I
    | Some k \<Rightarrow> if bt_get I (t, k) = None then bt_insert (t, k) ?rec I else I)"
  have J: "sub_index I J" "sub_index J F" "bt_sorted J" "keys_in J t [e]"
    using Cons.prems(2,3) key
    by (auto simp: J_def sub_index_def keys_in_def bt_sorted_insert bt_contains_def split: option.split)
  have step: "recover_records E t p (stored_records t p j (e # es)) c I =
      recover_records E t p (stored_records t p (Suc j) es) ?c J"
  proof (cases "env_idempotency_key e")
    case None
    then show ?thesis using cnt by (simp add: J_def stored_record_def)
  next
    case (Some k)
    show ?thesis
    proof (cases "bt_get I (t, k)")
      case None
      then show ?thesis using cnt Some by (simp add: J_def stored_record_def Let_def record_of_def)
    next
      case (Some r)
      then have "bt_get F (t, k) = Some r" using Cons.prems(2) by (simp add: sub_index_def)
      then have "r = ?rec" using key \<open>env_idempotency_key e = Some k\<close> by simp
      then show ?thesis using cnt Some \<open>env_idempotency_key e = Some k\<close>
        by (simp add: J_def stored_record_def Let_def) (simp add: record_of_def)
    qed
  qed
  from Cons.IH[OF rest J(2,3) c(1)] obtain I' where I':
    "recover_records E t p (stored_records t p (Suc j) es) ?c J = Ok (?c + of_nat (unkeyed es), I')"
    "sub_index J I'" "sub_index I' F" "bt_sorted I'" "keys_in I' t es" by blast
  have "keys_in I' t (e # es)" using keys_in_sub[OF J(4) I'(2)] I'(5) by (simp add: keys_in_def)
  with I' sub_index_trans[OF J(1) I'(2)] c(2) show ?case unfolding step by auto
qed

section \<open>One topic\<close>

definition partition_ready ::
  "durable_env \<Rightarrow> durable_broker_config \<Rightarrow> fs \<Rightarrow> contents \<Rightarrow> idempotency_index \<Rightarrow> topic_name \<Rightarrow> durable_topic
     \<Rightarrow> partition_id \<Rightarrow> bool" where
  "partition_ready E config fs M F t dt p \<longleftrightarrow>
     (\<exists>l. dt_partition_log dt p = Some l \<and> log_at E config fs t p l (M t p)) \<and> indexed (env_sha E) F t p 0 (M t p)"

definition unkeyed_sum :: "(partition_id \<Rightarrow> message_envelope list) \<Rightarrow> partition_id list \<Rightarrow> nat" where
  "unkeyed_sum m ps = sum_list (map (\<lambda>p. unkeyed (m p)) ps)"

lemma recover_partitions_ok:
  assumes "codec_ok (env_records E)" "\<forall>p\<in>set ps. partition_ready E config fs M F t dt p"
    "sub_index I F" "bt_sorted I" "unat c + unkeyed_sum (M t) ps < 2 ^ 64"
  shows "\<exists>I'. recover_partitions E t dt ps c I fs = Ok (c + of_nat (unkeyed_sum (M t) ps), I') \<and>
    sub_index I I' \<and> sub_index I' F \<and> bt_sorted I' \<and> (\<forall>p\<in>set ps. keys_in I' t (M t p))"
  using assms(2-)
proof (induction ps arbitrary: c I)
  case Nil
  then show ?case by (simp add: unkeyed_sum_def)
next
  case (Cons p ps)
  let ?n = "unkeyed (M t p)"
  have sum: "unkeyed_sum (M t) (p # ps) = ?n + unkeyed_sum (M t) ps" by (simp add: unkeyed_sum_def)
  from Cons.prems(1) obtain l where l: "dt_partition_log dt p = Some l" "log_at E config fs t p l (M t p)"
    and ix: "indexed (env_sha E) F t p 0 (M t p)" by (auto simp: partition_ready_def)
  have fit: "unat c + ?n < 2 ^ 64" using Cons.prems(4) sum by simp
  from recover_records_ok[OF ix Cons.prems(2,3) fit] obtain J where
    J: "recover_records E t p (stored_records t p 0 (M t p)) c I = Ok (c + of_nat ?n, J)"
    "sub_index I J" "sub_index J F" "bt_sorted J" "keys_in J t (M t p)" by blast
  have "unat (of_nat ?n :: u64) = ?n" using fit by (intro unat_of_nat_small) simp
  then have "unat (c + of_nat ?n) = unat c + ?n" using fit by (simp add: unat_word_ariths)
  then have "unat (c + of_nat ?n) + unkeyed_sum (M t) ps < 2 ^ 64" using Cons.prems(4) sum by simp
  from Cons.IH[OF _ J(3,4) this] Cons.prems(1) obtain I' where
    I': "recover_partitions E t dt ps (c + of_nat ?n) J fs = Ok (c + of_nat ?n + of_nat (unkeyed_sum (M t) ps), I')"
    "sub_index J I'" "sub_index I' F" "bt_sorted I'" "\<forall>p\<in>set ps. keys_in I' t (M t p)" by auto
  have "recover_partitions E t dt (p # ps) c I fs = Ok (c + of_nat (unkeyed_sum (M t) (p # ps)), I')"
    using l(1) read_all_held[OF assms(1) l(2)] J(1) I'(1) by (simp add: sum add.assoc)
  with I' sub_index_trans[OF J(2) I'(2)] keys_in_sub[OF J(5) I'(2)] show ?case by auto
qed

lemma round_robin_of_count:
  fixes n :: u32
  assumes "n \<noteq> 0" "s < 2 ^ 64"
  shows "unat ((ucast ((of_nat s :: u64) mod ucast n) :: u32) mod n) = s mod unat n"
proof -
  have s: "unat (of_nat s :: u64) = s" using assms(2) by (intro unat_of_nat_small) simp
  have "unat n < 2 ^ 64" using unsigned_less[of n, where ?'a = nat] by simp
  then have n: "unat (ucast n :: u64) = unat n" by (simp add: unsigned_ucast_eq take_bit_nat_eq_self)
  have m: "unat ((of_nat s :: u64) mod ucast n) = s mod unat n" by (simp add: unat_mod_distrib s n)
  have lt: "s mod unat n < unat n" using assms(1) by (simp add: unat_gt_0)
  also have "unat n < 2 ^ 32" using unsigned_less[of n, where ?'a = nat] by simp
  finally have "unat (ucast ((of_nat s :: u64) mod ucast n) :: u32) = s mod unat n"
    by (simp add: unsigned_ucast_eq m take_bit_nat_eq_self)
  then show ?thesis by (simp add: unat_mod_distrib)
qed

section \<open>All topics\<close>

definition with_counter :: "contents \<Rightarrow> topic_name \<times> durable_topic \<Rightarrow> topic_name \<times> durable_topic" where
  "with_counter M = (\<lambda>(t, dt). (t, dt\<lparr>dt_next_round_robin_partition :=
     of_nat (unkeyed_sum (M t) (dt_partition_ids dt) mod unat (dt_partition_count dt))\<rparr>))"

definition topic_ready ::
  "durable_env \<Rightarrow> durable_broker_config \<Rightarrow> fs \<Rightarrow> contents \<Rightarrow> idempotency_index \<Rightarrow> topic_name \<times> durable_topic \<Rightarrow> bool" where
  "topic_ready E config fs M F = (\<lambda>(t, dt). dt_partition_count dt \<noteq> 0 \<and>
     unkeyed_sum (M t) (dt_partition_ids dt) < 2 ^ 64 \<and>
     (\<forall>p\<in>set (dt_partition_ids dt). partition_ready E config fs M F t dt p))"

lemma recover_topics_ok:
  assumes "codec_ok (env_records E)" "\<forall>x\<in>set ts. topic_ready E config fs M F x" "sub_index I F" "bt_sorted I"
  shows "\<exists>I'. recover_topics E ts I fs = Ok (map (with_counter M) ts, I') \<and> sub_index I I' \<and> sub_index I' F \<and> bt_sorted I' \<and>
    (\<forall>(t, dt)\<in>set ts. \<forall>p\<in>set (dt_partition_ids dt). keys_in I' t (M t p))"
  using assms(2-)
proof (induction ts arbitrary: I)
  case Nil
  then show ?case by simp
next
  case (Cons x ts)
  obtain t dt where x: "x = (t, dt)" by (metis surj_pair)
  let ?s = "unkeyed_sum (M t) (dt_partition_ids dt)" and ?n = "dt_partition_count dt"
  from Cons.prems(1) have n: "?n \<noteq> 0" and s: "?s < 2 ^ 64"
    and parts: "\<forall>p\<in>set (dt_partition_ids dt). partition_ready E config fs M F t dt p" by (auto simp: topic_ready_def x)
  have "unat (0 :: u64) + ?s < 2 ^ 64" using s by simp
  from recover_partitions_ok[OF assms(1) parts Cons.prems(2,3) this] obtain J where
    J: "recover_partitions E t dt (dt_partition_ids dt) 0 I fs = Ok (of_nat ?s, J)"
    "sub_index I J" "sub_index J F" "bt_sorted J" "\<forall>p\<in>set (dt_partition_ids dt). keys_in J t (M t p)" by auto
  from Cons.IH[OF _ J(3,4)] Cons.prems(1) obtain I' where
    I': "recover_topics E ts J fs = Ok (map (with_counter M) ts, I')" "sub_index J I'" "sub_index I' F" "bt_sorted I'"
    "\<forall>(t, dt)\<in>set ts. \<forall>p\<in>set (dt_partition_ids dt). keys_in I' t (M t p)" by auto
  have "(ucast ((of_nat ?s :: u64) mod ucast ?n) :: u32) mod ?n = of_nat (?s mod unat ?n)"
    using round_robin_of_count[OF n s] by (metis of_nat_unat_eq)
  then have "recover_topics E (x # ts) I fs = Ok (map (with_counter M) (x # ts), I')"
    using J(1) I'(1) n by (simp add: x with_counter_def Let_def dt_set_next_round_robin_partition_def)
  moreover have "\<forall>(t, dt)\<in>set (x # ts). \<forall>p\<in>set (dt_partition_ids dt). keys_in I' t (M t p)"
    using I'(5) J(5) keys_in_sub[OF _ I'(2)] by (simp add: x)
  ultimately show ?case using I'(3,4) sub_index_trans[OF J(2) I'(2)] by blast
qed

section \<open>The whole publish state\<close>

text \<open>On the file system the broker itself runs on, its topics come back up to the counters.\<close>

lemma recovered_topics:
  assumes wf: "db_wf E b fs M" and inv: "broker_inv (db_mem M b)"
  shows "db_topics (recovered E fs b) = map (\<lambda>(t, dt). (t, dt\<lparr>dt_next_round_robin_partition := 0\<rparr>)) (db_topics b)"
proof -
  have ok: "codec_ok (env_records E)" using wf by (simp add: db_wf_def)
  have "shape_topic E (db_config b) fs t (topic_shape t dt) = dt\<lparr>dt_next_round_robin_partition := 0\<rparr>"
    if "(t, dt) \<in> set (db_topics b)" for t dt
  proof -
    have dt: "bt_get (db_topics b) t = Some dt" using that wf bt_mem_iff[of "db_topics b"] by (simp add: db_wf_def)
    have "\<forall>(p, l)\<in>set (dt_partitions dt). l = disk_log E (db_config b) fs t p"
    proof (intro ballI, clarify)
      fix p l assume "(p, l) \<in> set (dt_partitions dt)"
      then have "bt_get (dt_partitions dt) p = Some l" using bt_mem_iff[OF db_mem_sorted(1)[OF inv dt]] by simp
      then have "log_at E (db_config b) fs t p l (M t p)" using db_wf_log[OF wf dt, of p l] by (simp add: dt_partition_log_def)
      from disk_log_at[OF ok this] show "l = disk_log E (db_config b) fs t p" by simp
    qed
    from keyed_values[OF this] show ?thesis
      by (cases dt) (simp add: shape_topic_def topic_shape_def dt_partition_ids_def)
  qed
  then show ?thesis by (auto simp: bt_map_def)
qed

lemma mem_topic_unkeyed: "topic_unkeyed (mem_topic m dt) = unkeyed_sum m (dt_partition_ids dt)"
  unfolding topic_unkeyed_def unkeyed_sum_def mem_topic_def bt_map_def dt_partition_ids_def
  by (simp add: comp_def case_prod_beta)

lemma indexed_of_complete:
  assumes ix: "index_complete sha (db_mem M b)" and dt: "bt_get (db_topics b) t = Some dt"
    and l: "dt_partition_log dt p = Some l" and fit: "length (M t p) < 2 ^ 64"
  shows "indexed sha (db_idempotency_index b) t p 0 (M t p)"
  unfolding indexed_def
proof (intro allI impI)
  fix i k assume i: "i < length (M t p)" and k: "env_idempotency_key (M t p ! i) = Some k"
  have "unat (of_nat i :: u64) = i" using i fit by (intro unat_of_nat_small) simp
  then have "message_at (db_mem M b) \<lparr>mr_topic = t, mr_partition_id = p, mr_offset = Offset (of_nat i)\<rparr> = Some (M t p ! i)"
    using i by (simp add: message_at_def log_of_db_mem dt l PartitionLog_get_def)
  with ix k show "bt_get (db_idempotency_index b) (t, k) = Some (record_of sha t p (Offset (of_nat (0 + i))) (M t p ! i))"
    by (fastforce simp: index_complete_def)
qed

lemma index_from_logs:
  assumes idem: "idempotency_ok sha (db_mem M b)" and J: "sub_index J (db_idempotency_index b)"
    and keys: "\<And>t dt p. bt_get (db_topics b) t = Some dt \<Longrightarrow> p \<in> set (dt_partition_ids dt) \<Longrightarrow> keys_in J t (M t p)"
  shows "bt_get J x = bt_get (db_idempotency_index b) x"
proof (cases "bt_get (db_idempotency_index b) x")
  case None
  then show ?thesis using J by (metis not_Some_eq sub_index_def)
next
  case (Some r)
  obtain t k where x: "x = (t, k)" by (metis surj_pair)
  have rt: "bt_get (bs_idempotency_index (db_mem M b)) (t, k) = Some r" using Some by (simp add: x)
  from idem[unfolded idempotency_ok_def, rule_format, OF rt] obtain env where
    m: "message_at (db_mem M b) \<lparr>mr_topic = t, mr_partition_id = ir_partition_id r, mr_offset = ir_offset r\<rparr> = Some env"
    and k: "env_idempotency_key env = Some k" by blast
  from m obtain dt l where dt: "bt_get (db_topics b) t = Some dt" and l: "dt_partition_log dt (ir_partition_id r) = Some l"
    and i: "unat (offset_value (ir_offset r)) < length (M t (ir_partition_id r))"
      "M t (ir_partition_id r) ! unat (offset_value (ir_offset r)) = env"
    by (auto simp: message_at_def log_of_db_mem PartitionLog_get_def split: option.splits if_splits)
  have "ir_partition_id r \<in> set (dt_partition_ids dt)" using l by (auto simp: dt_partition_ids_iff)
  from keys[OF dt this] have "bt_contains J (t, k)" using k nth_mem[OF i(1)] i(2) by (auto simp: keys_in_def)
  then obtain r' where "bt_get J (t, k) = Some r'" by (auto simp: bt_contains_iff)
  moreover from this J have "bt_get (db_idempotency_index b) (t, k) = Some r'" by (simp add: sub_index_def)
  ultimately show ?thesis using Some by (simp add: x)
qed

lemma recover_publish_state_ok:
  assumes wf: "db_wf E b fs M" and inv: "broker_inv (db_mem M b)" and room: "db_room M b"
    and idem: "idempotency_ok (env_sha E) (db_mem M b)" and pub: "publish_state_ok (env_sha E) (db_mem M b)"
  shows "recover_publish_state E (recovered E fs b) fs = Ok b"
proof -
  let ?F = "db_idempotency_index b"
  let ?z = "\<lambda>(t, dt). (t, dt\<lparr>dt_next_round_robin_partition := 0\<rparr>)"
  have ok: "codec_ok (env_records E)" and srt: "bt_sorted (db_topics b)" using wf by (simp_all add: db_wf_def)
  have F: "bt_sorted ?F" and ix: "index_complete (env_sha E) (db_mem M b)"
    using pub by (simp_all add: publish_state_ok_def index_complete_def)
  have get: "bt_get (db_topics b) t = Some dt" if "(t, dt) \<in> set (db_topics b)" for t dt
    using that bt_mem_iff[OF srt] by simp
  have small: "unkeyed_sum (M t) (dt_partition_ids dt) < 2 ^ 64" if "bt_get (db_topics b) t = Some dt" for t dt
  proof -
    have "unkeyed_sum (M t) ps \<le> sum_list (map (\<lambda>p. length (M t p)) ps)" for ps
      unfolding unkeyed_sum_def by (rule sum_list_mono) (simp add: unkeyed_def)
    moreover have "sum_list (map (\<lambda>p. length (M t p)) (dt_partition_ids dt)) + 1 < 2 ^ 64"
      using room that by (simp add: db_room_def)
    ultimately show ?thesis by (meson add_lessD1 le_less_trans)
  qed
  have cnt: "dt_partition_count dt \<noteq> 0" if "bt_get (db_topics b) t = Some dt" for t dt
    using db_mem_sorted(3)[OF inv that] by (simp add: stored_topic_ok_def)
  have "topic_ready E (db_config b) fs M ?F (?z (t, dt))" if m: "(t, dt) \<in> set (db_topics b)" for t dt
  proof -
    note dt = get[OF m]
    have "partition_ready E (db_config b) fs M ?F t (dt\<lparr>dt_next_round_robin_partition := 0\<rparr>) p"
      if p: "p \<in> set (dt_partition_ids dt)" for p
    proof -
      from p obtain l where l: "dt_partition_log dt p = Some l" by (auto simp: dt_partition_ids_iff)
      have at: "log_at E (db_config b) fs t p l (M t p)" by (rule db_wf_log[OF wf dt l])
      then have "length (M t p) < 2 ^ 64" by (simp add: log_at_def log_holds_def)
      from indexed_of_complete[OF ix dt l this] l at show ?thesis by (simp add: partition_ready_def dt_partition_log_def)
    qed
    then show ?thesis using small[OF dt] cnt[OF dt] by (simp add: topic_ready_def dt_partition_ids_def dt_partition_count_def)
  qed
  then have ready: "\<forall>x\<in>set (map ?z (db_topics b)). topic_ready E (db_config b) fs M ?F x" by auto
  from recover_topics_ok[OF ok ready, of "[]"] obtain J where
    J: "recover_topics E (map ?z (db_topics b)) [] fs = Ok (map (with_counter M) (map ?z (db_topics b)), J)"
    "sub_index J ?F" "bt_sorted J"
    and keys: "\<forall>(t, dt)\<in>set (map ?z (db_topics b)). \<forall>p\<in>set (dt_partition_ids dt). keys_in J t (M t p)"
    by (auto simp: sub_index_def)
  have "J = ?F"
  proof (rule bt_ext[OF J(3) F index_from_logs[OF idem J(2)]])
    fix t dt p assume dt: "bt_get (db_topics b) t = Some dt" and p: "p \<in> set (dt_partition_ids dt)"
    from bt_get_in_set[OF dt] have "(t, dt\<lparr>dt_next_round_robin_partition := 0\<rparr>) \<in> set (map ?z (db_topics b))" by force
    from bspec[OF keys this] p show "keys_in J t (M t p)" by (auto simp: dt_partition_ids_def)
  qed
  moreover have "map (with_counter M) (map ?z (db_topics b)) = db_topics b"
  proof -
    have "with_counter M (?z (t, dt)) = (t, dt)" if "(t, dt) \<in> set (db_topics b)" for t dt
    proof -
      note dt = get[OF that]
      have "bt_get (bs_topics (db_mem M b)) t = Some (mem_topic (M t) dt)" using dt by simp
      then have "unat (dt_next_round_robin_partition dt) =
          unkeyed_sum (M t) (dt_partition_ids dt) mod unat (dt_partition_count dt)"
        using pub unfolding publish_state_ok_def counters_ok_def
        by (metis mem_topic_unkeyed mem_topic_simps(2,3))
      then have "dt_next_round_robin_partition dt =
          of_nat (unkeyed_sum (M t) (dt_partition_ids dt) mod unat (dt_partition_count dt))" by (metis of_nat_unat_eq)
      then show ?thesis by (simp add: with_counter_def dt_partition_ids_def dt_partition_count_def)
    qed
    then show ?thesis by (simp add: map_idI case_prod_beta)
  qed
  ultimately have "recover_topics E (db_topics (recovered E fs b)) [] fs = Ok (db_topics b, ?F)"
    using J(1) recovered_topics[OF wf inv] by metis
  then show ?thesis by (simp add: recover_publish_state_def del: recovered_fields(5))
qed

end
