(* ===== verification/Durable_Restart.thy ===== *)
theory Durable_Restart
  imports Durable_Rebuild
begin

text \<open>
  Reopening after a run. \<^verbatim>\<open>logged\<close> says that the state log holds events whose replay leads to the
  broker; every clean step keeps it, so that opening the directory again gives the broker with its
  pending deliveries released, also when the crash left part of one more line in the state log.
\<close>

section \<open>Clean steps\<close>

fun op_state_io :: "db_op \<Rightarrow> state_io option" where
  "op_state_io (DbCreateTopic sio c) = Some sio"
| "op_state_io (DbPublish io c) = None"
| "op_state_io (DbConsume sio c) = Some sio"
| "op_state_io (DbAck sio c) = Some sio"
| "op_state_io (DbNack sio c) = Some sio"
| "op_state_io (DbRetryReady sio now) = Some sio"

text \<open>
  A clean step writes its state event in full or not at all, and hands out delivery identifiers
  that no pending delivery has. The identifiers are hashes, so the second condition is not a law.
\<close>

definition all_or_nothing :: "db_op \<Rightarrow> bool" where
  "all_or_nothing x \<longleftrightarrow>
     (case op_state_io x of None \<Rightarrow> True
      | Some sio \<Rightarrow> sio_failed_after sio = None \<or> sio_failed_after sio = Some 0)"

fun new_delivery_ids :: "durable_env \<Rightarrow> db_op \<Rightarrow> durable_broker \<times> fs \<Rightarrow> bool" where
  "new_delivery_ids E (DbConsume sio c) (b, fs) \<longleftrightarrow>
     (case fst (db_consume E sio c b fs) of
        Ok ms \<Rightarrow> list_all (\<lambda>m. \<not> bt_contains (dds_pending (db_state b)) (cm_delivery_id m)) ms
      | _ \<Rightarrow> True)"
| "new_delivery_ids E x (b, fs) \<longleftrightarrow> True"

definition clean_step :: "durable_env \<Rightarrow> db_op \<Rightarrow> durable_broker \<times> fs \<Rightarrow> bool" where
  "clean_step E x s \<longleftrightarrow> all_or_nothing x \<and> new_delivery_ids E x s"

section \<open>The state log of a running broker\<close>

definition logged :: "durable_env \<Rightarrow> durable_broker \<Rightarrow> fs \<Rightarrow> contents \<Rightarrow> bool" where
  "logged E b fs M \<longleftrightarrow>
     (\<exists>evs bs. bt_get fs (db_state_log b) = Some bs \<and> state_holds (env_events E) evs bs \<and> replays E b evs M)"

lemma logged_event:
  assumes l: "logged E b fs M" and ap: "StateLog_append (env_events E) sio ev (db_state_log b) fs = (Ok (), fs')"
    and ev: "event_applies E M b ev b'"
  shows "logged E b' fs' M"
proof -
  from l obtain evs bs where bs: "bt_get fs (db_state_log b) = Some bs" "state_holds (env_events E) evs bs" "replays E b evs M"
    by (auto simp: logged_def)
  have path: "db_state_log b' = db_state_log b" using ev by (simp add: event_applies_def)
  show ?thesis
    using bs(1) ap
  proof (cases rule: StateLog_append_cases)
    case (written line)
    have "bt_get fs' (db_state_log b') = Some (bs @ line @ [10])" by (simp add: written(4) path)
    with state_holds_snoc[OF bs(2) written(1)] replays_step[OF bs(3) ev] show ?thesis unfolding logged_def by blast
  qed simp_all
qed

text \<open>An event that was not written leaves the state log alone.\<close>

lemma logged_failed:
  assumes l: "logged E b fs M" and srt: "bt_sorted fs" and io: "sio_failed_after sio = None \<or> sio_failed_after sio = Some 0"
    and ap: "StateLog_append (env_events E) sio ev (db_state_log b) fs = (Err e, fs')"
  shows "logged E b fs' M"
proof -
  from l obtain bs where bs: "bt_get fs (db_state_log b) = Some bs" by (auto simp: logged_def)
  have "fs' = fs"
    using bs ap
  proof (cases rule: StateLog_append_cases)
    case (partial line n)
    with io have "fs' = bt_insert (db_state_log b) bs fs" by simp
    with bt_insert_same[OF srt bs] show ?thesis by simp
  qed simp_all
  with l show ?thesis by simp
qed

lemma logged_outcome:
  assumes l: "logged E b fs M" and wf: "db_wf E b fs M" and clean: "all_or_nothing x" "op_state_io x = Some sio"
    and same: "b' = b" and fs': "fs' = fs \<or> (\<exists>ev e. StateLog_append (env_events E) sio ev (db_state_log b) fs = (Err e, fs'))"
  shows "logged E b' fs' M"
proof -
  have srt: "bt_sorted fs" using wf by (simp add: db_wf_def)
  have "sio_failed_after sio = None \<or> sio_failed_after sio = Some 0" using clean by (simp add: all_or_nothing_def)
  from logged_failed[OF l srt this] fs' l same show ?thesis by blast
qed

section \<open>Clean steps are logged\<close>

lemma create_topic_logged:
  assumes wf: "db_wf E b fs M" and l: "logged E b fs M" and clean: "all_or_nothing (DbCreateTopic sio c)"
    and run: "db_create_topic E sio c b fs = (r, b', fs')"
  shows "logged E b' fs' M"
proof (cases r)
  case (Ok topic)
  let ?n = "topic_name topic"
  from db_create_topic_cases[OF wf run] Ok have new: "\<not> bt_contains (db_topics b) ?n"
    and ap: "StateLog_append (env_events E) sio (TopicCreated topic) (db_state_log b) fs = (Ok (), fs')"
    and b': "b' = b\<lparr>db_topics := bt_insert ?n
         \<lparr>dt_topic = topic, dt_partitions = fold (\<lambda>p. bt_insert p (fresh_log (db_config b) ?n p))
            (topic_partition_ids topic) [], dt_next_round_robin_partition = 0\<rparr> (db_topics b)\<rparr>" by blast+
  show ?thesis by (rule logged_event[OF l ap topic_created_applies[OF new _ _ b']]) (simp_all add: dt_partition_ids_def)
next
  case (Err e)
  with db_create_topic_cases[OF wf run] show ?thesis by (intro logged_outcome[OF l wf clean]) auto
qed (use db_create_topic_cases[OF wf run] in simp)

lemma consume_logged:
  assumes wf: "db_wf E b fs M" and inv: "broker_inv (db_mem M b)" and l: "logged E b fs M"
    and clean: "clean_step E (DbConsume sio c) (b, fs)" and run: "db_consume E sio c b fs = (r, b', fs')"
  shows "logged E b' fs' M"
proof -
  note fit = db_logs_fit[OF wf]
  note C = db_consume_cases[OF wf inv fit run]
  have aon: "all_or_nothing (DbConsume sio c)" using clean by (simp add: clean_step_def)
  show ?thesis
  proof (cases r)
    case (Ok ms)
    with C consider "b' = b \<and> fs' = fs \<and> ms = []"
      | evs expires dt where "StateLog_append (env_events E) sio (MessagesConsumed evs) (db_state_log b) fs = (Ok (), fs')"
        "bt_get (db_topics b) (cc_topic c) = Some dt"
        "evs = map (event_at (db_mem M b) c expires) (selection (db_mem M b) c (mem_topic (M (cc_topic c)) dt))"
        "ms = map (consumed_at (db_mem M b) c expires) (selection (db_mem M b) c (mem_topic (M (cc_topic c)) dt))"
        "b' = b\<lparr>db_state := fold apply_consumed_delivery evs (db_state b)\<rparr>" by blast
    then show ?thesis
    proof cases
      case 1
      with l show ?thesis by simp
    next
      case (2 evs expires dt)
      let ?sel = "selection (db_mem M b) c (mem_topic (M (cc_topic c)) dt)"
      have st: "bt_get (bs_topics (db_mem M b)) (cc_topic c) = Some (mem_topic (M (cc_topic c)) dt)" using 2(2) by simp
      have "new_delivery_ids E (DbConsume sio c) (b, fs)" using clean by (simp add: clean_step_def)
      then have "\<forall>x\<in>set ?sel. \<not> bt_contains (dds_pending (db_state b)) (delivery_id_at (db_mem M b) c x)"
        using run Ok 2(4) by (auto simp: list_all_iff consumed_at_def)
      from consumed_applies[OF inv selection_selection_ok[OF inv fit st] this, of E expires]
      show ?thesis using logged_event[OF l 2(1)] 2(3,5) by simp
    qed
  next
    case (Err e)
    with C show ?thesis by (intro logged_outcome[OF l wf aon]) auto
  qed (use C in simp)
qed

lemma ack_logged:
  assumes wf: "db_wf E b fs M" and l: "logged E b fs M" and clean: "all_or_nothing (DbAck sio c)"
    and run: "db_ack E sio c b fs = (r, b', fs')"
  shows "logged E b' fs' M"
proof (cases r)
  case (Ok u)
  with db_ack_cases[OF wf run] obtain pd where pd: "bt_get (dds_pending (db_state b)) (ac_delivery_id c) = Some pd"
    and own: "pd_consumer_id pd = ac_consumer_id c"
    and ap: "StateLog_append (env_events E) sio
      (MessageAcked (ac_delivery_id c) (ac_consumer_id c) (mr_topic (pd_message_ref pd))
         (mr_partition_id (pd_message_ref pd)) (mr_offset (pd_message_ref pd)) (pd_consumer_group_id pd)
         (ac_timestamp c)) (db_state_log b) fs = (Ok (), fs')"
    and b': "b' = b\<lparr>db_state := apply_ack (ac_delivery_id c) pd (db_state b)\<rparr>" by auto
  show ?thesis using logged_event[OF l ap[folded own] acked_applies[OF pd]] by (simp add: b')
next
  case (Err e)
  with db_ack_cases[OF wf run] show ?thesis by (intro logged_outcome[OF l wf clean]) auto
qed (use db_ack_cases[OF wf run] in simp)

lemma nack_logged:
  assumes wf: "db_wf E b fs M" and inv: "broker_inv (db_mem M b)" and l: "logged E b fs M"
    and clean: "all_or_nothing (DbNack sio c)" and run: "db_nack E sio c b fs = (r, b', fs')"
  shows "logged E b' fs' M"
proof -
  note C = db_nack_cases[OF wf inv run]
  show ?thesis
  proof (cases r)
    case (Ok u)
    with C obtain pd co reason s' where pd: "bt_get (dds_pending (db_state b)) (nc_delivery_id c) = Some pd"
      and own: "pd_consumer_id pd = nc_consumer_id c"
      and co: "compute_pending_outcome E pd (bc_retry_policy (dbc_broker_config (db_config b))) (nc_timestamp c) reason b fs = Ok co"
      and ap: "StateLog_append (env_events E) sio
            (MessageNacked (nc_delivery_id c) (nc_consumer_id c) (mr_topic (pd_message_ref pd))
               (mr_partition_id (pd_message_ref pd)) (mr_offset (pd_message_ref pd)) (pd_consumer_group_id pd)
               (pd_attempt_number pd) (nc_timestamp c) reason (co_outcome co)) (db_state_log b) fs = (Ok (), fs')"
      and out: "apply_pending_outcome (nc_delivery_id c) pd (co_outcome co) (co_dead_letter co) (db_state b) = (Ok (), s')"
      and b': "b' = b\<lparr>db_state := s'\<rparr>" by auto
    show ?thesis using logged_event[OF l ap[folded own] nacked_applies[OF wf inv pd co out]] by (simp add: b')
  next
    case (Err e)
    with C show ?thesis by (intro logged_outcome[OF l wf clean]) auto
  qed (use C in simp)
qed

lemma retry_ready_logged:
  assumes wf: "db_wf E b fs M" and inv: "broker_inv (db_mem M b)" and l: "logged E b fs M"
    and clean: "all_or_nothing (DbRetryReady sio now)" and run: "db_retry_ready E sio now b fs = (r, b', fs')"
  shows "logged E b' fs' M"
proof -
  note C = db_retry_ready_cases[OF wf inv run]
  show ?thesis
  proof (cases r)
    case (Ok sm)
    with C obtain cs s1 s2 where
      cs: "outcomes_for E now (bc_retry_policy (dbc_broker_config (db_config b))) b fs (db_state b) cs"
      and ap: "StateLog_append (env_events E) sio
           (RetryMaintenanceApplied now (map (expired_outcome now) cs)
             (map available_event (ready_retry_entries now (db_mem M b) @ newly_due now cs))) (db_state_log b) fs = (Ok (), fs')"
      and s1: "apply_outcomes cs (db_state b) = (Ok (), s1)"
      and s2: "apply_available now (map available_event (ready_retry_entries now (db_mem M b) @ newly_due now cs)) 0 s1 =
        (Ok (length (ready_retry_entries now (db_mem M b) @ newly_due now cs)), s2)"
      and b': "b' = b\<lparr>db_state := s2\<rparr>" unfolding Let_def by blast
    show ?thesis using logged_event[OF l ap maintenance_applies[OF wf inv cs s1 s2]] by (simp only: b')
  next
    case (Err e)
    with C show ?thesis by (intro logged_outcome[OF l wf clean]) auto
  qed (use C in simp)
qed

lemma publish_logged:
  assumes wf: "db_wf E b fs M" and inv: "broker_inv (db_mem M b)" and room: "db_room M b" and io: "io_recovers io"
    and l: "logged E b fs M" and g: "grows M M'" and run: "db_publish E io c b fs = (r, b', fs')"
  shows "logged E b' fs' M'"
proof -
  from db_publish_cases[OF wf inv room io run] have sh: "same_shape b b'"
    and kept: "bt_get fs' (state_path (db_config b)) = bt_get fs (state_path (db_config b))" by auto
  have path: "db_state_log b = state_path (db_config b)" "db_state_log b' = db_state_log b"
    using wf sh by (simp_all add: db_wf_def same_shape_def)
  from l obtain evs bs where "bt_get fs (db_state_log b) = Some bs" "state_holds (env_events E) evs bs" "replays E b evs M"
    by (auto simp: logged_def)
  then have "bt_get fs' (db_state_log b') = Some bs" "state_holds (env_events E) evs bs" "replays E b' evs M'"
    using kept path replays_same[OF _ sh g] by simp_all
  then show ?thesis unfolding logged_def by blast
qed

lemma clean_step_logged:
  assumes wf: "db_wf E b fs M" and inv: "broker_inv (db_mem M b)" and room: "db_room M b" and ok: "db_op_ok x"
    and clean: "clean_step E x (b, fs)" and l: "logged E b fs M"
    and run: "db_apply E x (b, fs) = (b', fs')" and R: "step_refines E x M b fs M' b' fs'"
  shows "logged E b' fs' M'"
proof -
  have aon: "all_or_nothing x" using clean by (simp add: clean_step_def)
  have M': "M' = M" if "\<nexists>io c. x = DbPublish io c" using R that by (auto simp: step_refines_def)
  show ?thesis
  proof (cases x)
    case (DbCreateTopic sio c)
    obtain r where r: "db_create_topic E sio c b fs = (r, b', fs')"
      using run by (cases "db_create_topic E sio c b fs") (simp add: DbCreateTopic)
    from create_topic_logged[OF wf l aon[unfolded DbCreateTopic] r] M' show ?thesis by (simp add: DbCreateTopic)
  next
    case (DbPublish io c)
    obtain r where r: "db_publish E io c b fs = (r, b', fs')"
      using run by (cases "db_publish E io c b fs") (simp add: DbPublish)
    have "io_recovers io" "grows M M'" using ok R by (simp_all add: DbPublish step_refines_def)
    from publish_logged[OF wf inv room this(1) l this(2) r] show ?thesis .
  next
    case (DbConsume sio c)
    obtain r where r: "db_consume E sio c b fs = (r, b', fs')"
      using run by (cases "db_consume E sio c b fs") (simp add: DbConsume)
    from consume_logged[OF wf inv l clean[unfolded DbConsume] r] M' show ?thesis by (simp add: DbConsume)
  next
    case (DbAck sio c)
    obtain r where r: "db_ack E sio c b fs = (r, b', fs')"
      using run by (cases "db_ack E sio c b fs") (simp add: DbAck)
    from ack_logged[OF wf l aon[unfolded DbAck] r] M' show ?thesis by (simp add: DbAck)
  next
    case (DbNack sio c)
    obtain r where r: "db_nack E sio c b fs = (r, b', fs')"
      using run by (cases "db_nack E sio c b fs") (simp add: DbNack)
    from nack_logged[OF wf inv l aon[unfolded DbNack] r] M' show ?thesis by (simp add: DbNack)
  next
    case (DbRetryReady sio now)
    obtain r where r: "db_retry_ready E sio now b fs = (r, b', fs')"
      using run by (cases "db_retry_ready E sio now b fs") (simp add: DbRetryReady)
    from retry_ready_logged[OF wf inv l aon[unfolded DbRetryReady] r] M' show ?thesis by (simp add: DbRetryReady)
  qed
qed

section \<open>Runs of clean steps\<close>

lemma db_run_logged:
  assumes "db_run E config (clean_step E) s" "env_ok E config"
  shows "\<exists>M. db_wf E (fst s) (snd s) M \<and> db_config (fst s) = config \<and>
    svc_reachable (env_sha E) (dbc_broker_config config) (db_svc M (fst s)) \<and> logged E (fst s) (snd s) M"
  using assms
proof (induction rule: db_run.induct)
  case (opened fs b fs')
  note o = open_fresh[OF opened(1), of E]
  from opened o have b: "b = DurableBroker_new config (state_path config)" "fs' = bt_insert (state_path config) [] fs"
    by (simp_all add: env_ok_def)
  have "svc_reachable (env_sha E) (dbc_broker_config config) (db_svc (\<lambda>_ _. []) b)"
    using o(3) opened(3) by (simp add: b env_ok_def svc_reachable_def svc_steps.start)
  moreover have "db_wf E b fs' (\<lambda>_ _. [])" using o(2) opened(3) by (simp add: b env_ok_def)
  moreover have "replays E b [] M" for M
    by (simp add: replays_def b recovered_def DurableBroker_new_def bt_map_def)
  then have "logged E b fs' (\<lambda>_ _. [])"
    unfolding logged_def by (intro exI[of _ "[]"] exI[of _ "[]"]) (simp add: b DurableBroker_new_def)
  ultimately show ?case by (intro exI[of _ "\<lambda>_ _. []"]) (simp add: b DurableBroker_new_def)
next
  case (operation s x)
  obtain b fs where s: "s = (b, fs)" by (metis surj_pair)
  from operation(5,6) obtain M where M: "db_wf E b fs M" "db_config b = config"
    "svc_reachable (env_sha E) (dbc_broker_config config) (db_svc M b)" "logged E b fs M" by (auto simp: s)
  have inv: "broker_inv (db_mem M b)" using svc_reachable_broker_inv[OF M(3)] by simp
  obtain b' fs' where run: "db_apply E x (b, fs) = (b', fs')" by (metis surj_pair)
  have room: "db_room M b" using db_room_of[OF M(1) inv] operation(3) by (simp add: s)
  from db_apply_refines[OF M(1) inv room operation(2) run] obtain M' where R: "step_refines E x M b fs M' b' fs'" ..
  then have "svc_reachable (env_sha E) (dbc_broker_config config) (db_svc M' b')"
    using step_reachable[OF M(3,1) operation(2)] M(3) by (auto simp: step_refines_def split: rres.splits)
  moreover have "logged E b' fs' M'"
    using clean_step_logged[OF M(1) inv room operation(2) _ M(4) run R] operation(4) by (simp add: s)
  ultimately show ?case using R M(2) by (auto simp: s run step_refines_def)
qed

section \<open>Opening again\<close>

text \<open>The directory after a crash that left \<^verbatim>\<open>tail\<close>, part of a line, at the end of the state log.\<close>

definition torn_state_log :: "durable_broker_config \<Rightarrow> bytes \<Rightarrow> fs \<Rightarrow> fs" where
  "torn_state_log config tail fs =
     (case bt_get fs (state_path config) of None \<Rightarrow> fs
      | Some bs \<Rightarrow> bt_insert (state_path config) (bs @ tail) fs)"

lemma reopen_logged:
  assumes wf: "db_wf E b fs M" and ec: "event_codec_ok (env_events E)"
    and reach: "svc_reachable (env_sha E) (dbc_broker_config (db_config b)) (db_svc M b)"
    and room: "db_room M b" and l: "logged E b fs M" and tail: "10 \<notin> set tail"
  shows "DurableBroker_open E (db_config b) (torn_state_log (db_config b) tail fs) = (Ok (release_recovered_pending b), fs)"
proof -
  let ?p = "state_path (db_config b)"
  have srt: "bt_sorted fs" and path: "db_state_log b = ?p" using wf by (simp_all add: db_wf_def)
  have inv: "broker_inv (db_mem M b)" and idem: "idempotency_ok (env_sha E) (db_mem M b)"
    and pub: "publish_state_ok (env_sha E) (db_mem M b)"
    using svc_reachable_broker_inv[OF reach] svc_reachable_inv[OF reach] svc_reachable_publish_state[OF reach]
    by (simp_all add: svc_inv_def)
  from l obtain evs bs where bs: "bt_get fs ?p = Some bs" "state_holds (env_events E) evs bs" "replays E b evs M"
    by (auto simp: logged_def path)
  let ?fs1 = "bt_insert ?p (bs @ tail) fs"
  have torn: "torn_state_log (db_config b) tail fs = ?fs1" using bs(1) by (simp add: torn_state_log_def)
  have "bt_insert ?p bs ?fs1 = fs"
    by (rule bt_ext) (use srt bs(1) in \<open>simp_all add: bt_sorted_insert\<close>)
  then have ev: "recover_state_events (env_events E) ?p ?fs1 = (Ok evs, fs)"
    using recover_state_events_held[OF ec bs(2) tail, of ?fs1 ?p] srt by (simp add: bt_sorted_insert)
  have "replay_events E evs (DurableBroker_new (db_config b) ?p) fs = (Ok (), recovered E fs b, fs)"
    using bs(3) db_wf_on_disk[OF wf] by (simp add: replays_def path)
  moreover have "StateLog_open ?p fs = (?p, fs)" using bs(1) by (simp add: StateLog_open_def bt_contains_def)
  ultimately show ?thesis
    using recover_publish_state_ok[OF wf inv room idem pub] by (simp add: torn DurableBroker_open_def ev)
qed

lemma release_nothing: "dds_pending (db_state b) = [] \<Longrightarrow> release_recovered_pending b = b"
  by (simp add: release_recovered_pending_def dds_release_pending_def)

end
