(* ===== verification/Durable_Release.thy ===== *)
theory Durable_Release
  imports Durable_Restart
begin

text \<open>
  What releasing the recovered pending deliveries does: each message they were for becomes available
  to its group again, and nothing else changes. Releasing is not logged: the deliveries handed out
  afterwards for these messages make the state log one that does not replay.
\<close>

section \<open>Removing one pending delivery\<close>

lemma status_remove_pending:
  assumes "gp_disjoint ps"
  shows "status_in (gp_remove_pending off ps) x =
    (if x = off \<and> (\<exists>d. status_in ps off = InFlight d) then Available else status_in ps x)"
proof (cases "\<exists>d. status_in ps off = InFlight d")
  case True
  then show ?thesis using status_drop[OF assms] by auto
next
  case False
  then have "bt_get (gp_pending_by_offset ps) off = None"
    using status_InFlight_iff[OF assms] by (metis not_None_eq)
  then show ?thesis using False by (auto simp: status_in_def gp_ops split: option.split)
qed

definition releases :: "(delivery_id \<times> pending_delivery) list \<Rightarrow> broker_state \<Rightarrow> broker_state \<Rightarrow> bool" where
  "releases ps s s' \<longleftrightarrow> broker_inv s' \<and> message_at s' = message_at s \<and>
     (\<forall>g r. status_of_ref s' g r =
        (if (g, r) \<in> pd_loc ` snd ` set ps \<and> (\<exists>d. status_of_ref s g r = InFlight d) then Available
         else status_of_ref s g r)) \<and>
     (\<forall>g r. gp_attempt_counts (gps_at s' g r) = gp_attempt_counts (gps_at s g r))"

lemma release_one:
  assumes inv: "broker_inv s" and none: "bs_pending s = []" and msg: "message_at s (pd_message_ref pd) \<noteq> None"
  shows "releases [(did, pd)] s (group_partition_state_mut (pd_consumer_group_id pd) (mr_topic (pd_message_ref pd))
    (mr_partition_id (pd_message_ref pd)) (gp_remove_pending (mr_offset (pd_message_ref pd))) s)" (is "releases _ s ?s")
proof -
  let ?g = "pd_consumer_group_id pd" and ?r = "pd_message_ref pd"
  let ?f = "gp_remove_pending (mr_offset ?r)"
  have ok: "gps_ok (mr_topic ?r) (mr_partition_id ?r) (gps_at s ?g ?r)" by (rule inv_gps_ok[OF inv])
  note st = status_remove_pending[OF gps_okD[OF ok], of "mr_offset ?r"]
  have "broker_inv ((group_partition_state_mut ?g (mr_topic ?r) (mr_partition_id ?r) ?f s)\<lparr>bs_pending := []\<rparr>)"
    by (rule broker_inv_update[where f = ?f and g = ?g and r = ?r, OF inv gps_ok_drop[OF ok] _ _ msg])
      (simp_all add: st, simp_all add: gp_ops)
  moreover have "(group_partition_state_mut ?g (mr_topic ?r) (mr_partition_id ?r) ?f s)\<lparr>bs_pending := []\<rparr> = ?s"
    using none by (cases s) (simp add: group_partition_state_mut_def)
  moreover have "status_of_ref ?s g r = (if (g, r) = pd_loc pd \<and> (\<exists>d. status_of_ref s g r = InFlight d) then Available
      else status_of_ref s g r)" for g r
  proof (cases "g = ?g \<and> mr_topic r = mr_topic ?r \<and> mr_partition_id r = mr_partition_id ?r")
    case True
    moreover have "(r = ?r) = (mr_offset r = mr_offset ?r)" using True by (cases r; cases ?r) auto
    ultimately show ?thesis using st[of "mr_offset r"]
      by (auto simp: status_of_ref_def status_mut status_def gps_at_def pd_loc_def)
  next
    case False
    then show ?thesis by (auto simp: status_of_ref_def status_mut pd_loc_def)
  qed
  moreover have "gp_attempt_counts (gps_at ?s g r) = gp_attempt_counts (gps_at s g r)" for g r
    by (simp add: gp_ops) (auto simp: gps_at_def)
  ultimately show ?thesis by (simp add: releases_def)
qed

lemma releases_trans:
  assumes "releases [x] s s1" "releases ps s1 s2"
  shows "releases (x # ps) s s2"
  using assms by (auto simp: releases_def)

lemma release_fold:
  assumes "broker_inv (mem_state T s I)" "dds_pending s = []"
    "\<forall>(did, pd)\<in>set ps. message_at (mem_state T s I) (pd_message_ref pd) \<noteq> None"
  shows "releases ps (mem_state T s I) (mem_state T (fold (\<lambda>(did, pending).
             dds_group_partition_state_mut (pd_consumer_group_id pending) (pd_message_ref pending)
               (gp_remove_pending (mr_offset (pd_message_ref pending)))) ps s) I)"
  using assms
proof (induction ps arbitrary: s)
  case Nil
  then show ?case by (simp add: releases_def)
next
  case (Cons x ps)
  obtain did pd where x: "x = (did, pd)" by (metis surj_pair)
  let ?s1 = "dds_group_partition_state_mut (pd_consumer_group_id pd) (pd_message_ref pd)
    (gp_remove_pending (mr_offset (pd_message_ref pd))) s"
  have one: "releases [x] (mem_state T s I) (mem_state T ?s1 I)"
    unfolding mem_group_mut x using Cons.prems by (intro release_one) (auto simp: x)
  then have "broker_inv (mem_state T ?s1 I)" "message_at (mem_state T ?s1 I) = message_at (mem_state T s I)"
    by (simp_all add: releases_def)
  with Cons.IH[of ?s1] Cons.prems have "releases ps (mem_state T ?s1 I) (mem_state T (fold (\<lambda>(did, pending).
             dds_group_partition_state_mut (pd_consumer_group_id pending) (pd_message_ref pending)
               (gp_remove_pending (mr_offset (pd_message_ref pending)))) ps ?s1) I)" by simp
  from releases_trans[OF one this] show ?case by (simp add: x)
qed

lemma fold_release_frame:
  "dds_dead_letters (fold (\<lambda>(did, pending).
     dds_group_partition_state_mut (pd_consumer_group_id pending) (pd_message_ref pending)
       (gp_remove_pending (mr_offset (pd_message_ref pending)))) ps s) = dds_dead_letters s"
  "dds_pending (fold (\<lambda>(did, pending).
     dds_group_partition_state_mut (pd_consumer_group_id pending) (pd_message_ref pending)
       (gp_remove_pending (mr_offset (pd_message_ref pending)))) ps s) = dds_pending s"
  by (induction ps arbitrary: s) auto

lemma release_frame [simp]:
  "dds_dead_letters (dds_release_pending s) = dds_dead_letters s" "dds_pending (dds_release_pending s) = []"
  by (simp_all add: dds_release_pending_def fold_release_frame)

section \<open>Releasing all of them\<close>

lemma release_pending_releases:
  assumes inv: "broker_inv (db_mem M b)"
  shows "releases (dds_pending (db_state b)) (db_mem M b) (db_mem M (release_recovered_pending b))"
proof -
  let ?T = "bs_topics (db_mem M b)" and ?I = "db_idempotency_index b" and ?ps = "dds_pending (db_state b)"
  let ?s0 = "(db_state b)\<lparr>dds_pending := []\<rparr>"
  have m0: "mem_state ?T ?s0 ?I = (db_mem M b)\<lparr>bs_pending := []\<rparr>" by (simp add: db_mem_def mem_state_def)
  have inv0: "broker_inv (mem_state ?T ?s0 ?I)"
    using inv unfolding m0 by (simp add: broker_inv_def pending_ok_def range_ok_def)
  have "\<forall>(did, pd)\<in>set ?ps. message_at (mem_state ?T ?s0 ?I) (pd_message_ref pd) \<noteq> None"
  proof (intro ballI, split prod.split, intro allI impI)
    fix x did pd assume "x \<in> set ?ps" "x = (did, pd)"
    then have "bt_get (bs_pending (db_mem M b)) did = Some pd"
      using inv bt_mem_iff[of ?ps] by (simp add: broker_inv_def pending_ok_def)
    from pending_in_flight(4)[OF inv this] show "message_at (mem_state ?T ?s0 ?I) (pd_message_ref pd) \<noteq> None"
      by (auto simp: m0)
  qed
  from release_fold[OF inv0 _ this]
  have "releases ?ps (mem_state ?T ?s0 ?I) (mem_state ?T (dds_release_pending (db_state b)) ?I)"
    by (simp add: dds_release_pending_def)
  moreover have "mem_state ?T (dds_release_pending (db_state b)) ?I = db_mem M (release_recovered_pending b)"
    by (simp add: release_recovered_pending_def db_mem_state)
  ultimately show ?thesis unfolding m0 by (simp add: releases_def cong: if_cong)
qed

section \<open>Deliveries after the release do not replay\<close>

definition dds_available :: "durable_delivery_state \<Rightarrow> delivery_event \<Rightarrow> bool" where
  "dds_available s d \<longleftrightarrow>
     (case dds_partition_state s (de_consumer_group_id d) (de_topic d) (de_partition_id d) of
        None \<Rightarrow> True | Some ps \<Rightarrow> gp_is_available ps (de_offset d))"

lemma dds_available_mem:
  "dds_available s d \<longleftrightarrow>
     status_of_ref (mem_state T s I) (de_consumer_group_id d)
       (MessageRef_new (de_topic d) (de_partition_id d) (de_offset d)) = Available"
  by (simp add: dds_available_def mem_partition_state[where T = T and I = I] offset_available_iff status_of_ref_def
      MessageRef_new_def)

text \<open>A consumed delivery makes no other offset available.\<close>

lemma unavailable_after_consumed:
  assumes "\<not> dds_available s x"
  shows "\<not> dds_available (apply_consumed_delivery d s) x"
proof -
  let ?g = "de_consumer_group_id d" and ?t = "de_topic d" and ?p = "de_partition_id d"
  let ?m = "mem_state [] s []"
  have "mem_state [] (apply_consumed_delivery d s) [] =
      (group_partition_state_mut ?g ?t ?p (\<lambda>ps. gp_mark_pending (de_offset d) (de_delivery_id d)
         (ps\<lparr>gp_attempt_counts := bt_insert (de_offset d) (de_attempt_number d) (gp_attempt_counts ps)\<rparr>)) ?m)
        \<lparr>bs_pending := dds_pending (apply_consumed_delivery d s)\<rparr>"
    by (simp add: apply_consumed_delivery_def Let_def mem_updates MessageRef_new_def gp_mark_pending_def)
  moreover have "status_in (gp_mark_pending off did ps) y \<noteq> Available" if "status_in ps y \<noteq> Available" for ps off did y
    using that by (auto simp: status_in_def gp_ops split: option.splits if_splits)
  ultimately show ?thesis
    using assms by (auto simp: dds_available_mem[where T = "[]" and I = "[]"] status_of_ref_def status_mut status_def
        MessageRef_new_def)
qed

lemma replay_consumed_unavailable:
  assumes "\<exists>d\<in>set ds. \<not> dds_available (db_state b) d"
  shows "\<exists>reason b'. replay_consumed ds b = (Err (Corruption reason), b')"
  using assms
proof (induction ds arbitrary: b)
  case (Cons d ds)
  show ?case
  proof (cases "\<exists>reason. replay_consumed_delivery d b = (Err (Corruption reason), b)")
    case False
    have "ensure_message_exists (de_topic d) (de_partition_id d) (de_offset d) b \<noteq> Panicked \<and>
        (\<forall>e. ensure_message_exists (de_topic d) (de_partition_id d) (de_offset d) b = Err e \<longrightarrow> (\<exists>reason. e = Corruption reason))"
      by (simp add: ensure_message_exists_def split: option.split)
    with False have ok: "dds_available (db_state b) d"
      "replay_consumed_delivery d b = (Ok (), b\<lparr>db_state := apply_consumed_delivery d (db_state b)\<rparr>)"
      by (auto simp: replay_consumed_delivery_def dds_available_def split: rres.splits if_splits)
    let ?b1 = "b\<lparr>db_state := apply_consumed_delivery d (db_state b)\<rparr>"
    from Cons.prems ok(1) obtain x where "x \<in> set ds" "\<not> dds_available (db_state b) x" by auto
    then have "\<exists>x\<in>set ds. \<not> dds_available (db_state ?b1) x" using unavailable_after_consumed by auto
    from Cons.IH[OF this] ok(2) show ?thesis by simp
  qed auto
qed simp

lemma event_unavailable:
  assumes "bt_get (dds_pending (db_state b)) did = Some pd" "broker_inv (db_mem M b)"
    "pd_consumer_group_id pd = de_consumer_group_id d"
    "pd_message_ref pd = MessageRef_new (de_topic d) (de_partition_id d) (de_offset d)"
  shows "\<not> dds_available (db_state b) d"
proof -
  have "bt_get (bs_pending (db_mem M b)) did = Some pd" using assms(1) by simp
  then have "status_of_ref (db_mem M b) (de_consumer_group_id d)
      (MessageRef_new (de_topic d) (de_partition_id d) (de_offset d)) = InFlight did"
    using assms(2) unfolding assms(3,4)[symmetric] by (auto simp: broker_inv_def pending_ok_def)
  then show ?thesis unfolding dds_available_mem[of _ _ "bs_topics (db_mem M b)" "db_idempotency_index b"]
    by (simp add: db_mem_eq[of M b, symmetric])
qed

text \<open>The state log after one more event, and what opening the directory then does with it.\<close>

lemma open_with_event:
  assumes wf: "db_wf E b fs M" and ec: "event_codec_ok (env_events E)" and l: "logged E b fs M"
    and ap: "StateLog_append (env_events E) sio ev (db_state_log b) fs = (Ok (), fs')"
    and bad: "\<And>fs. \<exists>b'. apply_recovered_event E ev (recovered E fs b) fs = (Err (Corruption (reason fs)), b', fs)"
  shows "DurableBroker_open E (db_config b) fs' = (Err (Corruption (reason fs')), fs')"
proof -
  let ?p = "state_path (db_config b)"
  have path: "db_state_log b = ?p" using wf by (simp add: db_wf_def)
  have wf': "db_wf E b fs' M" by (rule db_wf_state_append[OF wf ap])
  then have srt: "bt_sorted fs'" by (simp add: db_wf_def)
  from l obtain evs bs where bs: "bt_get fs ?p = Some bs" "state_holds (env_events E) evs bs" "replays E b evs M"
    by (auto simp: logged_def path)
  obtain line where line: "ev_to_vec (env_events E) ev = Some line" "bt_get fs' ?p = Some (bs @ line @ [10])"
    using bs(1) ap unfolding path by (cases rule: StateLog_append_cases) auto
  note h = state_holds_snoc[OF bs(2) line(1)]
  have "bt_insert ?p (bs @ line @ [10]) fs' = fs'" by (rule bt_insert_same[OF srt line(2)])
  then have ev: "recover_state_events (env_events E) ?p fs' = (Ok (evs @ [ev]), fs')"
    using recover_state_events_held[OF ec h, of "[]" fs' ?p] line(2) srt by simp
  have "replay_events E evs (DurableBroker_new (db_config b) ?p) fs' = (Ok (), recovered E fs' b, fs')"
    using bs(3) db_wf_on_disk[OF wf'] by (simp add: replays_def path)
  from replay_events_snoc_Ok[OF this] bad[of fs'] obtain b' where
    "replay_events E (evs @ [ev]) (DurableBroker_new (db_config b) ?p) fs' = (Err (Corruption (reason fs')), b', fs')" by auto
  moreover have "StateLog_open ?p fs' = (?p, fs')" using line(2) by (simp add: StateLog_open_def bt_contains_def)
  ultimately show ?thesis by (simp add: DurableBroker_open_def ev)
qed

lemma redelivery_not_replayed:
  assumes wf: "db_wf E b fs M" and inv: "broker_inv (db_mem M b)" and ec: "event_codec_ok (env_events E)" and l: "logged E b fs M"
    and run: "db_consume E sio c (release_recovered_pending b) fs = (Ok ms, b', fs')" and m: "m \<in> set ms"
    and pd: "bt_get (dds_pending (db_state b)) did = Some pd" "pd_consumer_group_id pd = cm_consumer_group_id m"
      "pd_message_ref pd = MessageRef_new (cm_topic m) (cm_partition_id m) (cm_offset m)"
  shows "\<exists>reason. DurableBroker_open E (db_config b) fs' = (Err (Corruption reason), fs')"
proof -
  let ?b1 = "release_recovered_pending b"
  have wf1: "db_wf E ?b1 fs M" using wf by (simp add: release_recovered_pending_def)
  have inv1: "broker_inv (db_mem M ?b1)" using release_pending_releases[OF inv] by (simp add: releases_def)
  have log1: "db_state_log ?b1 = db_state_log b" by (simp add: release_recovered_pending_def)
  from db_consume_cases[OF wf1 inv1 db_logs_fit[OF wf1] run] m obtain evs expires dt where
    ap: "StateLog_append (env_events E) sio (MessagesConsumed evs) (db_state_log b) fs = (Ok (), fs')"
    and evs: "evs = map (event_at (db_mem M ?b1) c expires) (selection (db_mem M ?b1) c (mem_topic (M (cc_topic c)) dt))"
    and ms: "ms = map (consumed_at (db_mem M ?b1) c expires) (selection (db_mem M ?b1) c (mem_topic (M (cc_topic c)) dt))"
    unfolding log1 by auto
  from m ms obtain x where x: "event_at (db_mem M ?b1) c expires x \<in> set evs"
    "m = consumed_at (db_mem M ?b1) c expires x" by (auto simp: evs)
  have "\<not> dds_available (db_state b) (event_at (db_mem M ?b1) c expires x)"
    by (rule event_unavailable[OF pd(1) inv]) (use pd(2,3) x(2) in \<open>simp_all add: consumed_at_def\<close>)
  with x(1) have "\<exists>reason b'. replay_consumed evs (recovered E fs b) = (Err (Corruption reason), b')" for fs
    by (intro replay_consumed_unavailable) auto
  then obtain reason where "\<And>fs. \<exists>b'. replay_consumed evs (recovered E fs b) = (Err (Corruption (reason fs)), b')" by metis
  then have "\<exists>b'. apply_recovered_event E (MessagesConsumed evs) (recovered E fs b) fs = (Err (Corruption (reason fs)), b', fs)" for fs
    by (metis (no_types, lifting) apply_recovered_event.simps(2) case_prod_conv)
  from open_with_event[OF wf ec l ap this] show ?thesis by blast
qed

section \<open>A line that was cut and then continued\<close>

lemma continued_line_rejected:
  assumes ec: "event_codec_ok ec" and h: "state_holds ec evs bs" and get: "bt_get fs path = Some bs"
    and l1: "ev_to_vec ec ev1 = Some line1" "n \<le> length line1" and io1: "sio_failed_after sio1 = Some n"
    and io2: "sio_failed_after sio2 = None" and l2: "ev_to_vec ec ev2 = Some line2"
    and bad: "ev_from_slice ec (take n line1 @ line2) = Inl reason"
    and ap1: "StateLog_append ec sio1 ev1 path fs = (r1, fs1)" and ap2: "StateLog_append ec sio2 ev2 path fs1 = (r2, fs2)"
  shows "r1 = Err (DIo (sio_text sio1))" "r2 = Ok ()"
    "recover_state_events ec path fs2 = (Err (StateCorruption path (Suc (length evs)) reason), fs2)"
proof -
  let ?line = "take n line1 @ line2"
  have fs1: "fs1 = bt_insert path (bs @ take n line1) fs" "r1 = Err (DIo (sio_text sio1))"
    using ap1 get l1 io1 by (simp_all add: StateLog_append_def Let_def)
  have fs2: "fs2 = bt_insert path (bs @ ?line @ [10]) fs1" "r2 = Ok ()"
    using ap2 l2 io2 by (simp_all add: StateLog_append_def Let_def fs1(1))
  show "r1 = Err (DIo (sio_text sio1))" "r2 = Ok ()" by (rule fs1(2), rule fs2(2))
  from h obtain ls where ls: "list_all2 (\<lambda>e l. ev_to_vec ec e = Some l) evs ls" "bs = concat (map (\<lambda>l. l @ [10]) ls)"
    by (auto simp: state_holds_def)
  from ec l1(1) l2 have "10 \<notin> set line1" "10 \<notin> set line2" and ne: "line2 \<noteq> []" by (auto simp: event_codec_ok_def)
  then have nl: "10 \<notin> set ?line" using set_take_subset[of n line1] by auto
  have "split_newlines (bs @ ?line @ [10]) = ls @ [?line, []]"
    using split_newlines_lines[OF lines_no_newline[OF ec ls(1)], of "?line @ [10]"] split_newlines_line[OF nl, of "[]"]
    by (simp add: ls(2))
  moreover have "parse_lines ec path 0 (ls @ [?line, []]) = Err (StateCorruption path (Suc (length evs)) reason)"
    using parse_lines_append[OF ec ls(1), of path 0 "[?line, []]"] bad ne list_all2_lengthD[OF ls(1)] by simp
  moreover have "complete_len (bs @ ?line @ [10]) = length (bs @ ?line @ [10])" by (simp add: complete_len_def)
  moreover have "bt_get fs2 path = Some (bs @ ?line @ [10])" by (simp add: fs2(1))
  ultimately show "recover_state_events ec path fs2 = (Err (StateCorruption path (Suc (length evs)) reason), fs2)"
    unfolding recover_state_events_def Let_def by (simp only: option.case take_all le_refl if_False simp_thms)
qed

section \<open>After a run\<close>

lemma run_state:
  assumes "db_run E config (clean_step E) (b, fs)" "env_ok E config"
  obtains M where "db_wf E b fs M" "db_config b = config" "broker_inv (db_mem M b)"
    "svc_reachable (env_sha E) (dbc_broker_config config) (db_svc M b)" "logged E b fs M"
  using db_run_logged[OF assms] svc_reachable_broker_inv by fastforce

lemma open_after_run:
  assumes "db_run E config (clean_step E) (b, fs)" "env_ok E config" "event_codec_ok (env_events E)"
    "db_has_room b" "10 \<notin> set tail"
  shows "DurableBroker_open E config (torn_state_log config tail fs) = (Ok (release_recovered_pending b), fs)"
proof -
  from run_state[OF assms(1,2)] obtain M where M: "db_wf E b fs M" "db_config b = config" "broker_inv (db_mem M b)"
    "svc_reachable (env_sha E) (dbc_broker_config config) (db_svc M b)" "logged E b fs M" .
  from reopen_logged[OF M(1) assms(3) _ db_room_of[OF M(1,3) assms(4)] M(5) assms(5)] M(2,4) show ?thesis by simp
qed

lemma run_released:
  assumes "db_run E config (clean_step E) (b, fs)" "env_ok E config" "event_codec_ok (env_events E)" "db_has_room b"
  shows "\<exists>M. db_wf E b fs M \<and> broker_inv (db_mem M b) \<and>
    DurableBroker_open E config fs = (Ok (release_recovered_pending b), fs) \<and> db_wf E (release_recovered_pending b) fs M \<and>
    releases (dds_pending (db_state b)) (db_mem M b) (db_mem M (release_recovered_pending b)) \<and> logged E b fs M"
proof -
  from run_state[OF assms(1,2)] obtain M where M: "db_wf E b fs M" "db_config b = config" "broker_inv (db_mem M b)"
    "svc_reachable (env_sha E) (dbc_broker_config config) (db_svc M b)" "logged E b fs M" .
  have "torn_state_log config [] fs = fs"
  proof -
    from M(1,2,5) obtain bs where bs: "bt_get fs (state_path config) = Some bs" "bt_sorted fs"
      by (auto simp: logged_def db_wf_def)
    then show ?thesis using bt_insert_same[OF bs(2,1)] by (simp add: torn_state_log_def)
  qed
  with open_after_run[OF assms, of "[]"] have "DurableBroker_open E config fs = (Ok (release_recovered_pending b), fs)" by simp
  moreover have "db_wf E (release_recovered_pending b) fs M" using M(1) by (simp add: release_recovered_pending_def)
  ultimately show ?thesis using M release_pending_releases[OF M(3)] by blast
qed

lemma pending_location:
  assumes "broker_inv (db_mem M b)"
  shows "bt_get (dds_pending (db_state b)) did = Some pd \<Longrightarrow>
      status_of_ref (db_mem M b) (pd_consumer_group_id pd) (pd_message_ref pd) = InFlight did"
    "(g, r) \<in> pd_loc ` snd ` set (dds_pending (db_state b)) \<longleftrightarrow>
      (\<exists>did pd. bt_get (dds_pending (db_state b)) did = Some pd \<and> pd_loc pd = (g, r))"
proof -
  have srt: "bt_sorted (dds_pending (db_state b))" using assms by (simp add: broker_inv_def pending_ok_def)
  show "(g, r) \<in> pd_loc ` snd ` set (dds_pending (db_state b)) \<longleftrightarrow>
      (\<exists>did pd. bt_get (dds_pending (db_state b)) did = Some pd \<and> pd_loc pd = (g, r))"
    using bt_mem_iff[OF srt] by (force simp: image_iff)
  show "status_of_ref (db_mem M b) (pd_consumer_group_id pd) (pd_message_ref pd) = InFlight did"
    if "bt_get (dds_pending (db_state b)) did = Some pd"
    using assms that by (auto simp: broker_inv_def pending_ok_def)
qed

lemma released_fields [simp]:
  "db_config (release_recovered_pending b) = db_config b" "db_topics (release_recovered_pending b) = db_topics b"
  "db_state_log (release_recovered_pending b) = db_state_log b"
  "db_idempotency_index (release_recovered_pending b) = db_idempotency_index b"
  "dds_pending (db_state (release_recovered_pending b)) = []"
  "dds_dead_letters (db_state (release_recovered_pending b)) = dds_dead_letters (db_state b)"
  by (simp_all add: release_recovered_pending_def)

end
