(* ===== verification/Durable_Scenario.thy ===== *)
theory Durable_Scenario
  imports Durable_Release Memory_Properties Storage_Properties "HOL-Library.Code_Target_Numeral"
begin

text \<open>
  A scenario of the durable broker on which the witnesses run: codecs given by tables, one topic,
  one message, one consumer. The states are written out and the operations evaluated, writes and
  log files included.
\<close>

section \<open>An environment to run\<close>

definition table_events :: "(broker_state_event \<times> bytes) list \<Rightarrow> event_codec" where
  "table_events tbl =
     \<lparr>ev_to_vec = map_of tbl,
      ev_from_slice = (\<lambda>b. case map_of (map (\<lambda>(e, l). (l, e)) tbl) b of None \<Rightarrow> Inl (str ''bad event'') | Some e \<Rightarrow> Inr e)\<rparr>"

lemma table_events_ok:
  assumes "distinct (map snd tbl)" "\<forall>(e, l)\<in>set tbl. l \<noteq> [] \<and> 10 \<notin> set l"
  shows "event_codec_ok (table_events tbl)"
proof -
  have "map_of (map (\<lambda>(e, l). (l, e)) tbl) l = Some e \<and> l \<noteq> [] \<and> 10 \<notin> set l" if "map_of tbl e = Some l" for e l
  proof -
    have m: "(e, l) \<in> set tbl" by (rule map_of_SomeD[OF that])
    then have "(l, e) \<in> set (map (\<lambda>(e, l). (l, e)) tbl)" by force
    moreover have "distinct (map fst (map (\<lambda>(e, l). (l, e)) tbl))" using assms(1) by (simp add: case_prod_unfold o_def)
    ultimately show ?thesis using map_of_is_SomeI m assms(2) by fastforce
  qed
  then show ?thesis by (simp add: event_codec_ok_def table_events_def)
qed

text \<open>The delivery identifiers of the first and of the second attempt.\<close>

definition dur_id :: "nat \<Rightarrow> delivery_id" where
  "dur_id n = DeliveryId (str (if n = 1 then ''delivery:29f017836bee1716:0:0:1'' else ''delivery:29f016836bee1563:0:0:2''))"

definition dur_delivery :: "nat \<Rightarrow> delivery_event" where
  "dur_delivery n =
     \<lparr>de_delivery_id = dur_id n, de_consumer_id = demo_consumer, de_topic = demo_topic,
      de_partition_id = PartitionId 0, de_offset = Offset 0, de_consumer_group_id = demo_group,
      de_attempt_number = of_nat n, de_delivered_at = MessageTimestamp 100,
      de_lease_expires_at = MessageTimestamp 30100\<rparr>"

definition dur_records :: "(persisted_record \<times> bytes) list" where
  "dur_records = [(record_for demo_topic (PartitionId 0) 0 demo_envelope, [7])]"

definition dur_events :: "(broker_state_event \<times> bytes) list" where
  "dur_events =
     [(TopicCreated (Topic_new demo_topic \<lparr>tc_partition_count = 1\<rparr>), [1]),
      (MessagesConsumed [dur_delivery 1], [2]), (MessagesConsumed [dur_delivery 2], [3])]"

definition dur_env :: durable_env where
  "dur_env = \<lparr>env_sha = demo_sha, env_records = table_codec dur_records, env_events = table_events dur_events\<rparr>"

definition dur_config :: durable_broker_config where
  "dur_config = \<lparr>dbc_root_dir = [str ''data''], dbc_broker_config = demo_config, dbc_max_segment_bytes = 1024\<rparr>"

text \<open>The states of the scenario, written out: opened, topic created, published, consumed.\<close>

definition dur_opened :: "durable_broker \<times> fs" where
  "dur_opened = (DurableBroker_new dur_config (state_path dur_config), [(state_path dur_config, [])])"

definition dur_broker :: "storage_log \<Rightarrow> idempotency_index \<Rightarrow> durable_delivery_state \<Rightarrow> durable_broker" where
  "dur_broker l index s =
     \<lparr>db_config = dur_config,
      db_topics = [(demo_topic, \<lparr>dt_topic = Topic_new demo_topic \<lparr>tc_partition_count = 1\<rparr>,
        dt_partitions = [(PartitionId 0, l)], dt_next_round_robin_partition = 0\<rparr>)],
      db_state = s, db_state_log = state_path dur_config, db_idempotency_index = index\<rparr>"

definition dur_created :: "durable_broker \<times> fs" where
  "dur_created =
     (dur_broker (fresh_log dur_config demo_topic (PartitionId 0)) [] DurableDeliveryState_default,
      [(state_path dur_config, [1, 10])])"

definition dur_segment :: segment_metadata where
  "dur_segment =
     \<lparr>seg_base_offset = Offset 0, seg_next_offset = Offset 1,
      seg_path = segment_path (log_dir dur_config demo_topic (PartitionId 0)) (Offset 0), seg_size_bytes = 9\<rparr>"

definition dur_log :: storage_log where
  "dur_log = (fresh_log dur_config demo_topic (PartitionId 0))\<lparr>sl_segments := [dur_segment], sl_next_offset := Offset 1\<rparr>"

definition dur_index :: idempotency_index where
  "dur_index = [((demo_topic, IdempotencyKey (str ''k1'')), record_of demo_sha demo_topic (PartitionId 0) (Offset 0) demo_envelope)]"

definition dur_files :: "bytes \<Rightarrow> fs" where
  "dur_files state = [(state_path dur_config, state), (seg_path dur_segment, [1, 0, 0, 0, 1, 0, 0, 0, 7])]"

definition dur_published :: "durable_broker \<times> fs" where
  "dur_published = (dur_broker dur_log dur_index DurableDeliveryState_default, dur_files [1, 10])"

definition dur_state :: "nat \<Rightarrow> durable_delivery_state" where
  "dur_state n =
     \<lparr>dds_groups = [(demo_group, \<lparr>gs_partitions = [((demo_topic, PartitionId 0),
        \<lparr>gp_cursor = 0, gp_acked_offsets = [], gp_pending_by_offset = [(Offset 0, dur_id n)], gp_retry_by_offset = [],
         gp_dead_lettered_offsets = [], gp_attempt_counts = [(Offset 0, of_nat n)]\<rparr>)]\<rparr>)],
      dds_pending = [(dur_id n, \<lparr>pd_message_ref = demo_ref, pd_consumer_group_id = demo_group,
        pd_consumer_id = demo_consumer, pd_attempt_number = of_nat n, pd_lease_expires_at = MessageTimestamp 30100\<rparr>)],
      dds_dead_letters = []\<rparr>"

definition dur_consumed :: "durable_broker \<times> fs" where
  "dur_consumed = (dur_broker dur_log dur_index (dur_state 1), dur_files [1, 10, 2, 10])"

definition dur_message :: "nat \<Rightarrow> consumed_message" where
  "dur_message n =
     \<lparr>cm_delivery_id = dur_id n, cm_topic = demo_topic, cm_partition_id = PartitionId 0, cm_offset = Offset 0,
      cm_envelope = demo_envelope, cm_consumer_group_id = demo_group, cm_consumer_id = demo_consumer,
      cm_attempt_number = of_nat n, cm_delivered_at = MessageTimestamp 100, cm_lease_expires_at = MessageTimestamp 30100\<rparr>"

lemma dur_env_ok: "env_ok dur_env dur_config" "event_codec_ok (env_events dur_env)"
proof -
  have "codec_ok (table_codec dur_records)" by (rule table_codec_ok) (simp add: dur_records_def)
  then show "env_ok dur_env dur_config" by (simp add: env_ok_def dur_env_def dur_config_def)
  have "event_codec_ok (table_events dur_events)" by (rule table_events_ok) (simp_all add: dur_events_def)
  then show "event_codec_ok (env_events dur_env)" by (simp add: dur_env_def)
qed

lemma dur_opened_run: "db_run dur_env dur_config P dur_opened"
proof -
  have f: "fresh_fs dur_config []" by (simp add: fresh_fs_def log_files_def)
  have "DurableBroker_open dur_env dur_config [] = (Ok (fst dur_opened), snd dur_opened)"
    using open_fresh(1)[OF f, of dur_env] dur_env_ok(1) by (simp add: env_ok_def dur_opened_def)
  from db_run.opened[OF f this] show ?thesis by simp
qed

lemma io_all_ok_recovers: "io_recovers io_all_ok"
  by (simp add: io_recovers_def io_all_ok_def)

lemma dur_steps:
  "db_apply dur_env (DbCreateTopic state_io_ok demo_create) dur_opened = dur_created"
  "db_apply dur_env (DbPublish io_all_ok demo_publish) dur_created = dur_published"
  by code_simp+

lemma dur_consume:
  "db_consume dur_env state_io_ok demo_consume (fst dur_published) (snd dur_published) =
     (Ok [dur_message 1], fst dur_consumed, snd dur_consumed)"
  by code_simp

text \<open>The message handed out again after a restart.\<close>

lemma dur_redeliver:
  "db_consume dur_env state_io_ok demo_consume (release_recovered_pending (fst dur_consumed)) (dur_files [1, 10, 2, 10]) =
     (Ok [dur_message 2], dur_broker dur_log dur_index (dur_state 2), dur_files [1, 10, 2, 10, 3, 10])"
  by code_simp

lemma dur_consumed_step: "db_apply dur_env (DbConsume state_io_ok demo_consume) dur_published = dur_consumed"
  using dur_consume db_apply.simps(3)[of dur_env state_io_ok demo_consume "fst dur_published" "snd dur_published"] by simp

lemma dur_published_run: "db_run dur_env dur_config (clean_step dur_env) dur_published"
proof -
  have "db_run dur_env dur_config (clean_step dur_env) (db_apply dur_env (DbCreateTopic state_io_ok demo_create) dur_opened)"
    by (rule db_run.operation[OF dur_opened_run]) code_simp+
  then have "db_run dur_env dur_config (clean_step dur_env) dur_created" by (simp only: dur_steps)
  then have "db_run dur_env dur_config (clean_step dur_env) (db_apply dur_env (DbPublish io_all_ok demo_publish) dur_created)"
    by (rule db_run.operation) (simp add: io_all_ok_recovers, code_simp+)
  then show ?thesis by (simp only: dur_steps)
qed

lemma dur_consumed_run: "db_run dur_env dur_config (clean_step dur_env) dur_consumed"
proof -
  have "clean_step dur_env (DbConsume state_io_ok demo_consume) dur_published"
    using dur_consume new_delivery_ids.simps(1)[of dur_env state_io_ok demo_consume "fst dur_published" "snd dur_published"]
    by (simp add: clean_step_def all_or_nothing_def)
      (simp add: dur_published_def dur_broker_def DurableDeliveryState_default_def state_io_ok_def)
  moreover have "db_has_room (fst dur_published)" by code_simp
  ultimately have "db_run dur_env dur_config (clean_step dur_env) (db_apply dur_env (DbConsume state_io_ok demo_consume) dur_published)"
    by (intro db_run.operation[OF dur_published_run]) simp_all
  then show ?thesis by (simp only: dur_consumed_step)
qed

end
