(* ===== verification/Durable_Properties.thy ===== *)
theory Durable_Properties
  imports Durable_Scenario
begin

text \<open>
  The properties of \<^verbatim>\<open>DurableBroker\<close> over its runs: it implements the in-memory broker, opening its
  directory again gives it back, and what it acknowledged is still there. The last two state what
  the code does not do.
\<close>

section \<open>The in-memory broker it implements\<close>






section \<open>Opening the directory again\<close>

text \<open>C3: after any run whose state events were each written in full or not at all, and whose deliveries
  got identifiers that no pending delivery had, opening the directory again gives exactly the broker
  with its pending deliveries released: the same topics, logs, idempotency index, round-robin
  counters, acknowledgements, retries, attempt counts and dead letters. A part of one more line at
  the end of the state log, left by a crash during an append, is cut off and changes nothing.\<close>

theorem durable_reopen:
  assumes "db_run E config (clean_step E) (b, fs)" "env_ok E config" "event_codec_ok (env_events E)"
    "db_has_room b" "10 \<notin> set tail"
  shows "DurableBroker_open E config (torn_state_log config tail fs) = (Ok (release_recovered_pending b), fs)"
  by (rule open_after_run[OF assms])

theorem durable_reopen_witness:
  "DurableBroker_open dur_env dur_config (dur_files [1, 10, 2, 10, 123, 34]) =
     (Ok (release_recovered_pending (fst dur_consumed)), dur_files [1, 10, 2, 10])"
proof -
  have run: "db_run dur_env dur_config (clean_step dur_env) (fst dur_consumed, snd dur_consumed)"
    using dur_consumed_run by simp
  have room: "db_has_room (fst dur_consumed)" by code_simp
  have "torn_state_log dur_config [123, 34] (snd dur_consumed) = dur_files [1, 10, 2, 10, 123, 34]" by code_simp
  with durable_reopen[OF run dur_env_ok room, of "[123, 34]"] show ?thesis by (simp add: dur_consumed_def)
qed

text \<open>C18: what the restart does to deliveries: every message that was pending for a group is available to
  it again, no other message changes its status, no attempt count is lost, and dead letters stay.\<close>

theorem durable_restart_redelivers:
  assumes "db_run E config (clean_step E) (b, fs)" "env_ok E config" "event_codec_ok (env_events E)" "db_has_room b"
  shows "\<exists>M b'. DurableBroker_open E config fs = (Ok b', fs) \<and> db_wf E b fs M \<and> db_wf E b' fs M \<and>
    dds_pending (db_state b') = [] \<and> dds_dead_letters (db_state b') = dds_dead_letters (db_state b) \<and>
    (\<forall>did pd. bt_get (dds_pending (db_state b)) did = Some pd \<longrightarrow>
       status_of_ref (db_mem M b') (pd_consumer_group_id pd) (pd_message_ref pd) = Available) \<and>
    (\<forall>g r. status_of_ref (db_mem M b') g r = status_of_ref (db_mem M b) g r \<or>
       (\<exists>did pd. bt_get (dds_pending (db_state b)) did = Some pd \<and> pd_loc pd = (g, r))) \<and>
    (\<forall>g r. gp_attempt_counts (gps_at (db_mem M b') g r) = gp_attempt_counts (gps_at (db_mem M b) g r))"
proof -
  from run_released[OF assms] obtain M where M: "db_wf E b fs M" "broker_inv (db_mem M b)"
    "DurableBroker_open E config fs = (Ok (release_recovered_pending b), fs)" "db_wf E (release_recovered_pending b) fs M"
    "releases (dds_pending (db_state b)) (db_mem M b) (db_mem M (release_recovered_pending b))" by blast
  note p = pending_location[OF M(2)]
  show ?thesis
    using M p unfolding releases_def
    by (intro exI[of _ M], intro exI[of _ "release_recovered_pending b"]) (auto simp: pd_loc_def)
qed

theorem durable_restart_redelivers_witness:
  "\<exists>M b'. DurableBroker_open dur_env dur_config (snd dur_consumed) = (Ok b', snd dur_consumed) \<and>
    dds_pending (db_state b') = [] \<and> status_of_ref (db_mem M b') demo_group demo_ref = Available"
proof -
  have run: "db_run dur_env dur_config (clean_step dur_env) (fst dur_consumed, snd dur_consumed)"
    using dur_consumed_run by simp
  have room: "db_has_room (fst dur_consumed)" by code_simp
  have pd: "bt_get (dds_pending (db_state (fst dur_consumed))) (dur_id 1) =
      Some \<lparr>pd_message_ref = demo_ref, pd_consumer_group_id = demo_group, pd_consumer_id = demo_consumer,
        pd_attempt_number = 1, pd_lease_expires_at = MessageTimestamp 30100\<rparr>"
    by (simp add: dur_consumed_def dur_broker_def dur_state_def bt_get_def)
  from durable_restart_redelivers[OF run dur_env_ok room] pd show ?thesis
    by (elim exE conjE) (intro exI conjI, assumption+, fastforce)
qed

section \<open>What was published stays published\<close>

text \<open>C16: the scan over the message logs at opening computes what the running broker kept up to date step by
  step: from the topics and logs alone, with counters at zero and an empty index, it gives back the
  round-robin counters and the idempotency index of any broker that a run reaches.\<close>

theorem publish_state_from_logs:
  assumes "db_run E config any_step (b, fs)" "env_ok E config" "db_has_room b"
  shows "recover_publish_state E
      (b\<lparr>db_topics := map (\<lambda>(t, dt). (t, dt\<lparr>dt_next_round_robin_partition := 0\<rparr>)) (db_topics b),
         db_idempotency_index := []\<rparr>) fs = Ok b"
proof -
  from db_run_refines[OF assms(1,2)] obtain M where wf: "db_wf E b fs M"
    and r: "svc_reachable (env_sha E) (dbc_broker_config config) (db_svc M b)" by auto
  have inv: "broker_inv (db_mem M b)" "idempotency_ok (env_sha E) (db_mem M b)" "publish_state_ok (env_sha E) (db_mem M b)"
    using svc_reachable_broker_inv[OF r] svc_reachable_inv[OF r] svc_reachable_publish_state[OF r]
    by (simp_all add: svc_inv_def)
  have "recovered E fs b =
      b\<lparr>db_topics := map (\<lambda>(t, dt). (t, dt\<lparr>dt_next_round_robin_partition := 0\<rparr>)) (db_topics b), db_idempotency_index := []\<rparr>"
    using recovered_topics[OF wf inv(1)] by (simp add: recovered_def)
  with recover_publish_state_ok[OF wf inv(1) db_room_of[OF wf inv(1) assms(3)] inv(2,3)] show ?thesis by simp
qed

theorem publish_state_from_logs_witness:
  "recover_publish_state dur_env (dur_broker dur_log [] DurableDeliveryState_default) (dur_files [1, 10]) =
     Ok (dur_broker dur_log dur_index DurableDeliveryState_default)"
proof -
  have "db_run dur_env dur_config any_step dur_published"
    by (rule db_run_weaken[OF dur_published_run]) simp
  then have run: "db_run dur_env dur_config any_step (dur_broker dur_log dur_index DurableDeliveryState_default, dur_files [1, 10])"
    by (simp add: dur_published_def)
  have "db_has_room (dur_broker dur_log dur_index DurableDeliveryState_default)" by code_simp
  from publish_state_from_logs[OF run dur_env_ok(1) this] show ?thesis by (simp add: dur_broker_def)
qed

lemma read_one_held:
  assumes ok: "codec_ok (env_records E)" and at: "log_at E config fs t p l es"
    and read: "StorageLog_read_from (env_records E) off 1 l fs = Ok [r]"
  shows "unat (offset_value off) < length es \<and> smr_envelope r = es ! unat (offset_value off)"
proof -
  let ?k = "unat (offset_value off)"
  have h: "log_holds (env_records E) fs l es" using at by (simp add: log_at_def)
  have off: "Offset (of_nat ?k) = off" by (cases off) simp
  have "?k < 2 ^ 64" using unat_u64_less[of "offset_value off"] by simp
  from read_from_holds[OF ok h this, of 1] read off
  have r: "take 1 (drop ?k (stored_records (sl_topic l) (sl_partition l) 0 es)) = [r]" by simp
  then have k: "?k < length es" by (cases "?k < length es") simp_all
  with r take1_drop[of ?k "stored_records (sl_topic l) (sl_partition l) 0 es"] show ?thesis
    by (auto simp: stored_records_nth stored_record_def simp del: One_nat_def)
qed

text \<open>C17: a message that can be read from the logs under an idempotency key is published once, restarts
  included: after a crash and a restart, publishing under this key again with the same intent returns
  the location and the id of the logged message, marked as a duplicate, and writes nothing.\<close>

theorem durable_publish_once:
  assumes "db_run E config (clean_step E) (b, fs)" "env_ok E config" "event_codec_ok (env_events E)"
    "db_has_room b" "10 \<notin> set tail"
    "bt_get (db_topics b) t = Some dt" "dt_partition_log dt p = Some l"
    "StorageLog_read_from (env_records E) off 1 l fs = Ok [r]" "env_idempotency_key (smr_envelope r) = Some k"
    "env_idempotency_key e = Some k" "intent_of t e = intent_of t (smr_envelope r)"
  shows "\<exists>b'. DurableBroker_open E config (torn_state_log config tail fs) = (Ok b', fs) \<and>
    db_publish E io \<lparr>pc_topic = t, pc_envelope = e\<rparr> b' fs =
      (Ok (PublishedMessage_replay t p off (env_id (smr_envelope r))), b', fs)"
proof -
  from run_state[OF assms(1,2)] obtain M where M: "db_wf E b fs M"
    "svc_reachable (env_sha E) (dbc_broker_config config) (db_svc M b)" by blast
  let ?i = "unat (offset_value off)"
  have at: "log_at E (db_config b) fs t p l (M t p)" by (rule db_wf_log[OF M(1) assms(6,7)])
  from M(1) have ok: "codec_ok (env_records E)" by (simp add: db_wf_def)
  from read_one_held[OF ok at assms(8)] have r: "?i < length (M t p)" "smr_envelope r = M t p ! ?i" by auto
  have "index_complete (env_sha E) (db_mem M b)"
    using svc_reachable_publish_state[OF M(2)] by (simp add: publish_state_ok_def)
  moreover have "length (M t p) < 2 ^ 64" using at by (simp add: log_at_def log_holds_def)
  ultimately have ix: "indexed (env_sha E) (db_idempotency_index b) t p 0 (M t p)"
    by (rule indexed_of_complete[OF _ assms(6,7)])
  have off: "Offset (of_nat ?i) = off" by (cases off) simp
  have "bt_get (db_idempotency_index b) (t, k) = Some (record_of (env_sha E) t p off (smr_envelope r))"
    using ix r assms(9) off unfolding indexed_def by (metis add_0)
  moreover have "PublishFingerprint_compute (env_sha E) t (smr_envelope r) = PublishFingerprint_compute (env_sha E) t e"
    using fingerprint_input_intent[OF assms(11)] by (simp add: PublishFingerprint_compute_def)
  ultimately have "check_idempotency (env_sha E) t e (db_idempotency_index b) =
      Ok (Replay (record_of (env_sha E) t p off (smr_envelope r)))"
    using assms(10) by (simp add: check_idempotency_Replay_iff record_of_def)
  then have "db_publish E io \<lparr>pc_topic = t, pc_envelope = e\<rparr> (release_recovered_pending b) fs =
      (Ok (PublishedMessage_replay t p off (env_id (smr_envelope r))), release_recovered_pending b, fs)"
    using assms(6) by (simp add: db_publish_def Let_def bt_contains_def record_of_def)
  with open_after_run[OF assms(1-5)] show ?thesis by blast
qed

theorem durable_publish_once_witness:
  "\<exists>b'. DurableBroker_open dur_env dur_config (dur_files [1, 10, 9]) = (Ok b', dur_files [1, 10]) \<and>
    db_publish dur_env io_all_ok \<lparr>pc_topic = demo_topic, pc_envelope = demo_envelope\<lparr>env_id := MessageId (str ''m9'')\<rparr>\<rparr>
      b' (dur_files [1, 10]) =
      (Ok (PublishedMessage_replay demo_topic (PartitionId 0) (Offset 0) (MessageId (str ''m1''))), b', dur_files [1, 10])"
proof -
  let ?b = "dur_broker dur_log dur_index DurableDeliveryState_default" and ?fs = "dur_files [1, 10]"
  let ?dt = "\<lparr>dt_topic = Topic_new demo_topic \<lparr>tc_partition_count = 1\<rparr>, dt_partitions = [(PartitionId 0, dur_log)],
     dt_next_round_robin_partition = 0\<rparr>"
  let ?r = "stored_record demo_topic (PartitionId 0) 0 demo_envelope"
  have run: "db_run dur_env dur_config (clean_step dur_env) (?b, ?fs)"
    using dur_published_run by (simp add: dur_published_def)
  have room: "db_has_room ?b" by code_simp
  have t: "torn_state_log dur_config [9] ?fs = dur_files [1, 10, 9]" by code_simp
  have dt: "bt_get (db_topics ?b) demo_topic = Some ?dt" "dt_partition_log ?dt (PartitionId 0) = Some dur_log"
    by (simp_all add: dur_broker_def bt_get_def dt_partition_log_def)
  have r: "StorageLog_read_from (env_records dur_env) (Offset 0) 1 dur_log ?fs = Ok [?r]" by code_simp
  have k: "env_idempotency_key (smr_envelope ?r) = Some (IdempotencyKey (str ''k1''))"
    "env_idempotency_key (demo_envelope\<lparr>env_id := MessageId (str ''m9'')\<rparr>) = Some (IdempotencyKey (str ''k1''))"
    "intent_of demo_topic (demo_envelope\<lparr>env_id := MessageId (str ''m9'')\<rparr>) = intent_of demo_topic (smr_envelope ?r)"
    by (simp_all add: stored_record_def demo_envelope_def intent_of_def)
  have "env_id (smr_envelope ?r) = MessageId (str ''m1'')" by (simp add: stored_record_def demo_envelope_def)
  with durable_publish_once[OF run dur_env_ok room _ dt r k, of "[9]" io_all_ok] show ?thesis by (simp add: t)
qed

section \<open>The state log file\<close>

text \<open>Appending a list of events, each written in full.\<close>

fun append_events :: "event_codec \<Rightarrow> path \<Rightarrow> broker_state_event list \<Rightarrow> fs \<Rightarrow> unit durable_result \<times> fs" where
  "append_events ec path [] fs = (Ok (), fs)"
| "append_events ec path (e # es) fs =
     (case StateLog_append ec state_io_ok e path fs of
        (Ok u, fs1) \<Rightarrow> append_events ec path es fs1
      | (r, fs1) \<Rightarrow> (r, fs1))"

text \<open>C23: events appended to a state log are read back in order when it is recovered; a part of one more line,
  which a crash can leave, is cut off the file and the events before it are kept.\<close>

theorem state_log_round_trip:
  assumes "event_codec_ok ec" "bt_sorted fs" "bt_get fs path = None"
    "append_events ec path evs (snd (StateLog_open path fs)) = (Ok (), fs')"
    "ev_to_vec ec ev = Some line" "n \<le> length line"
    "StateLog_append ec \<lparr>sio_failed_after = Some n, sio_text = text\<rparr> ev path fs' = (r, fs'')"
  shows "r = Err (DIo text) \<and> recover_state_events ec path fs'' = (Ok evs, fs') \<and>
    recover_state_events ec path fs' = (Ok evs, fs')"
proof -
  have o: "snd (StateLog_open path fs) = bt_insert path [] fs" using assms(3) by (simp add: StateLog_open_def bt_contains_def)
  have gen: "\<exists>bs'. bt_get f' path = Some bs' \<and> state_holds ec (evs0 @ evs) bs' \<and> bt_sorted f'"
    if "bt_get f path = Some bs" "state_holds ec evs0 bs" "bt_sorted f" "append_events ec path evs f = (Ok (), f')" for f f' bs evs0
    using that
  proof (induction evs arbitrary: f bs evs0)
    case (Cons e es)
    obtain f1 where f1: "StateLog_append ec state_io_ok e path f = (Ok (), f1)" "append_events ec path es f1 = (Ok (), f')"
      using Cons.prems(4) by (auto split: prod.splits rres.splits)
    from Cons.prems(1) f1(1) obtain line where "ev_to_vec ec e = Some line" "f1 = bt_insert path (bs @ line @ [10]) f"
      by (cases rule: StateLog_append_cases) auto
    with Cons.IH[of f1 "bs @ line @ [10]" "evs0 @ [e]"] state_holds_snoc[OF Cons.prems(2)] Cons.prems(3) f1(2)
    show ?case by (simp add: bt_sorted_insert)
  qed simp
  from gen[of "bt_insert path [] fs" "[]" "[]" fs'] assms(2,4) o obtain bs where
    bs: "bt_get fs' path = Some bs" "state_holds ec evs bs" "bt_sorted fs'" by (auto simp: bt_sorted_insert)
  have nl: "10 \<notin> set (take n line)" using assms(1,5) set_take_subset[of n line] by (auto simp: event_codec_ok_def)
  have fs'': "fs'' = bt_insert path (bs @ take n line) fs'" "r = Err (DIo text)"
    using assms(5-7) bs(1) by (simp_all add: StateLog_append_def Let_def)
  have same: "bt_insert path bs fs' = fs'" by (rule bt_insert_same[OF bs(3,1)])
  have "bt_insert path bs (bt_insert path (bs @ take n line) fs') = fs'" using same by simp
  then have "recover_state_events ec path fs'' = (Ok evs, fs')"
    using recover_state_events_held[OF assms(1) bs(2) nl, of fs'' path] bs(3) by (simp add: fs''(1) bt_sorted_insert)
  moreover have "recover_state_events ec path fs' = (Ok evs, fs')"
    using recover_state_events_held[OF assms(1) bs(2), of "[]" fs' path] bs(1,3) same by simp
  ultimately show ?thesis using fs''(2) by simp
qed

theorem state_log_round_trip_witness:
  "recover_state_events (table_events dur_events) [str ''f''] [([str ''f''], [1, 10, 2, 10, 3])] =
     (Ok [TopicCreated (Topic_new demo_topic \<lparr>tc_partition_count = 1\<rparr>), MessagesConsumed [dur_delivery 1]],
      [([str ''f''], [1, 10, 2, 10])])"
proof -
  have ec: "event_codec_ok (table_events dur_events)" using dur_env_ok(2) by (simp add: dur_env_def)
  have run: "append_events (table_events dur_events) [str ''f'']
      [TopicCreated (Topic_new demo_topic \<lparr>tc_partition_count = 1\<rparr>), MessagesConsumed [dur_delivery 1]]
      (snd (StateLog_open [str ''f''] [])) = (Ok (), [([str ''f''], [1, 10, 2, 10])])" by code_simp
  have line: "ev_to_vec (table_events dur_events) (MessagesConsumed [dur_delivery 2]) = Some [3]" by code_simp
  have cut: "StateLog_append (table_events dur_events) \<lparr>sio_failed_after = Some 1, sio_text = []\<rparr>
      (MessagesConsumed [dur_delivery 2]) [str ''f''] [([str ''f''], [1, 10, 2, 10])] =
      (Err (DIo []), [([str ''f''], [1, 10, 2, 10, 3])])" by code_simp
  from state_log_round_trip[OF ec _ _ run line _ cut] show ?thesis by (simp add: bt_get_def)
qed

section \<open>What the code does not do\<close>

text \<open>C37: the release of pending deliveries at opening is not written to the state log. When the broker opened
  after a run then hands out a message that was pending at the end of that run, to the same group,
  the directory cannot be opened any more: the recovery rejects its own log as corrupted.\<close>

theorem durable_redelivery_breaks_reopen:
  assumes "db_run E config (clean_step E) (b, fs)" "env_ok E config" "event_codec_ok (env_events E)" "db_has_room b"
    "DurableBroker_open E config fs = (Ok b1, fs1)" "db_consume E sio c b1 fs1 = (Ok ms, b2, fs2)" "m \<in> set ms"
    "bt_get (dds_pending (db_state b)) did = Some pd" "pd_consumer_group_id pd = cm_consumer_group_id m"
    "pd_message_ref pd = MessageRef_new (cm_topic m) (cm_partition_id m) (cm_offset m)"
  shows "\<exists>reason. DurableBroker_open E config fs2 = (Err (Corruption reason), fs2)"
proof -
  from run_released[OF assms(1-4)] obtain M where M: "db_wf E b fs M" "broker_inv (db_mem M b)" "logged E b fs M"
    "DurableBroker_open E config fs = (Ok (release_recovered_pending b), fs)" by blast
  have "db_config b = config" using db_run_refines[OF assms(1,2)] by auto
  moreover have "db_consume E sio c (release_recovered_pending b) fs = (Ok ms, b2, fs2)" using assms(5,6) M(4) by simp
  ultimately show ?thesis using redelivery_not_replayed[OF M(1,2) assms(3) M(3) _ assms(7-10)] by blast
qed

theorem durable_redelivery_breaks_reopen_witness:
  "\<exists>reason. DurableBroker_open dur_env dur_config (dur_files [1, 10, 2, 10, 3, 10]) =
     (Err (Corruption reason), dur_files [1, 10, 2, 10, 3, 10])"
proof -
  have run: "db_run dur_env dur_config (clean_step dur_env) (fst dur_consumed, dur_files [1, 10, 2, 10])"
    using dur_consumed_run by (simp add: dur_consumed_def)
  have room: "db_has_room (fst dur_consumed)" by code_simp
  have fs: "torn_state_log dur_config [] (dur_files [1, 10, 2, 10]) = dur_files [1, 10, 2, 10]" by code_simp
  have opened: "DurableBroker_open dur_env dur_config (dur_files [1, 10, 2, 10]) =
      (Ok (release_recovered_pending (fst dur_consumed)), dur_files [1, 10, 2, 10])"
    using open_after_run[OF run dur_env_ok room, of "[]"] by (simp add: fs)
  have pd: "bt_get (dds_pending (db_state (fst dur_consumed))) (dur_id 1) =
      Some \<lparr>pd_message_ref = demo_ref, pd_consumer_group_id = demo_group, pd_consumer_id = demo_consumer,
        pd_attempt_number = 1, pd_lease_expires_at = MessageTimestamp 30100\<rparr>"
    by (simp add: dur_consumed_def dur_broker_def dur_state_def bt_get_def)
  show ?thesis
    by (rule durable_redelivery_breaks_reopen[OF run dur_env_ok room opened dur_redeliver _ pd, of "dur_message 2"])
      (simp_all add: dur_message_def MessageRef_new_def demo_ref_def)
qed

text \<open>C38: a state event that was written in part stays in the file when its operation fails, and the broker goes
  on. The next event is appended to the partial line, so that it succeeds but can never be read again:
  opening the directory then fails, with everything that was acknowledged after the failure.\<close>

theorem durable_cut_line_breaks_reopen:
  assumes "db_run E config (clean_step E) (b, fs)" "env_ok E config" "event_codec_ok (env_events E)"
    "ev_to_vec (env_events E) ev1 = Some line1" "n \<le> length line1" "ev_to_vec (env_events E) ev2 = Some line2"
    "ev_from_slice (env_events E) (take n line1 @ line2) = Inl reason"
    "StateLog_append (env_events E) \<lparr>sio_failed_after = Some n, sio_text = text\<rparr> ev1 (state_path config) fs = (r1, fs1)"
    "StateLog_append (env_events E) state_io_ok ev2 (state_path config) fs1 = (r2, fs2)"
  shows "r1 = Err (DIo text) \<and> r2 = Ok () \<and>
    (\<exists>line. DurableBroker_open E config fs2 = (Err (StateCorruption (state_path config) line reason), fs2))"
proof -
  from run_state[OF assms(1,2)] obtain M where "db_wf E b fs M" "db_config b = config" "logged E b fs M" .
  then obtain evs bs where "bt_get fs (state_path config) = Some bs" "state_holds (env_events E) evs bs"
    by (auto simp: logged_def db_wf_def)
  from continued_line_rejected[OF assms(3) this(2,1) assms(4,5) _ _ assms(6,7,8,9)]
  have "r1 = Err (DIo text)" "r2 = Ok ()" "recover_state_events (env_events E) (state_path config) fs2 =
      (Err (StateCorruption (state_path config) (Suc (length evs)) reason), fs2)" by (simp_all add: state_io_ok_def)
  then show ?thesis by (auto simp: DurableBroker_open_def)
qed

theorem durable_cut_line_breaks_reopen_witness:
  "\<exists>line. DurableBroker_open dur_env dur_config (dur_files [1, 10, 2, 2, 10]) =
     (Err (StateCorruption (state_path dur_config) line (str ''bad event'')), dur_files [1, 10, 2, 2, 10])"
proof -
  have run: "db_run dur_env dur_config (clean_step dur_env) (fst dur_published, dur_files [1, 10])"
    using dur_published_run by (simp add: dur_published_def)
  have line: "ev_to_vec (env_events dur_env) (MessagesConsumed [dur_delivery 1]) = Some [2]" by code_simp
  have bad: "ev_from_slice (env_events dur_env) (take 1 [2] @ [2]) = Inl (str ''bad event'')" by code_simp
  have a1: "StateLog_append (env_events dur_env) \<lparr>sio_failed_after = Some 1, sio_text = []\<rparr>
      (MessagesConsumed [dur_delivery 1]) (state_path dur_config) (dur_files [1, 10]) = (Err (DIo []), dur_files [1, 10, 2])"
    by code_simp
  have a2: "StateLog_append (env_events dur_env) state_io_ok
      (MessagesConsumed [dur_delivery 1]) (state_path dur_config) (dur_files [1, 10, 2]) = (Ok (), dur_files [1, 10, 2, 2, 10])"
    by code_simp
  from durable_cut_line_breaks_reopen[OF run dur_env_ok line _ line bad a1 a2] show ?thesis by simp
qed

end
