(* ===== verification/Observability.thy ===== *)
theory Observability
  imports Text BTree
begin

text \<open>
  \<^verbatim>\<open>msg-observability/src/lib.rs\<close>: the process-local registry of counters and its Prometheus
  exposition. The registry, a map behind a mutex in the code, is a value that each recording
  function takes and returns; the mutex cannot be poisoned, because nothing panics while it is
  held. The \<^verbatim>\<open>debug_assert!\<close>s of \<^verbatim>\<open>increment_counter\<close> (the counter is declared, its label names are
  among the five allowed ones) are the inductive predicate \<^verbatim>\<open>recorded\<close>, which every recording
  function keeps. The result is that the exposition is lossless: two registries with the same text are
  equal, although label values are free text that is escaped. The start of the tracing subscriber
  (\<^verbatim>\<open>init_tracing_from_env\<close>) is in \<^verbatim>\<open>Daemon\<close>.
\<close>

section \<open>The declared counters\<close>

definition CONTROL_HTTP_REQUESTS_TOTAL :: rstring where
  "CONTROL_HTTP_REQUESTS_TOTAL = str ''ferrumq_control_http_requests_total''"

definition CONTROL_HTTP_ERRORS_TOTAL :: rstring where
  "CONTROL_HTTP_ERRORS_TOTAL = str ''ferrumq_control_http_errors_total''"

definition CONTROL_TOPICS_CREATED_TOTAL :: rstring where
  "CONTROL_TOPICS_CREATED_TOTAL = str ''ferrumq_control_topics_created_total''"

definition DATA_RPC_REQUESTS_TOTAL :: rstring where
  "DATA_RPC_REQUESTS_TOTAL = str ''ferrumq_data_rpc_requests_total''"

definition DATA_RPC_ERRORS_TOTAL :: rstring where
  "DATA_RPC_ERRORS_TOTAL = str ''ferrumq_data_rpc_errors_total''"

definition DATA_PUBLISHES_TOTAL :: rstring where
  "DATA_PUBLISHES_TOTAL = str ''ferrumq_data_publishes_total''"

definition DATA_CONSUMES_TOTAL :: rstring where
  "DATA_CONSUMES_TOTAL = str ''ferrumq_data_consumes_total''"

definition DATA_MESSAGES_DELIVERED_TOTAL :: rstring where
  "DATA_MESSAGES_DELIVERED_TOTAL = str ''ferrumq_data_messages_delivered_total''"

definition DATA_ACKS_TOTAL :: rstring where
  "DATA_ACKS_TOTAL = str ''ferrumq_data_acks_total''"

definition DATA_NACKS_TOTAL :: rstring where
  "DATA_NACKS_TOTAL = str ''ferrumq_data_nacks_total''"

definition BROKER_OPENS_TOTAL :: rstring where
  "BROKER_OPENS_TOTAL = str ''ferrumq_broker_opens_total''"

definition BROKER_RECOVERIES_TOTAL :: rstring where
  "BROKER_RECOVERIES_TOTAL = str ''ferrumq_broker_recoveries_total''"

definition BROKER_TOPICS_CREATED_TOTAL :: rstring where
  "BROKER_TOPICS_CREATED_TOTAL = str ''ferrumq_broker_topics_created_total''"

definition BROKER_MESSAGES_PUBLISHED_TOTAL :: rstring where
  "BROKER_MESSAGES_PUBLISHED_TOTAL = str ''ferrumq_broker_messages_published_total''"

definition BROKER_PUBLISH_DEDUPLICATED_TOTAL :: rstring where
  "BROKER_PUBLISH_DEDUPLICATED_TOTAL = str ''ferrumq_broker_publish_deduplicated_total''"

definition BROKER_PUBLISH_IDEMPOTENCY_CONFLICTS_TOTAL :: rstring where
  "BROKER_PUBLISH_IDEMPOTENCY_CONFLICTS_TOTAL = str ''ferrumq_broker_publish_idempotency_conflicts_total''"

definition BROKER_CONSUMES_TOTAL :: rstring where
  "BROKER_CONSUMES_TOTAL = str ''ferrumq_broker_consumes_total''"

definition BROKER_DELIVERIES_CREATED_TOTAL :: rstring where
  "BROKER_DELIVERIES_CREATED_TOTAL = str ''ferrumq_broker_deliveries_created_total''"

definition BROKER_ACKS_TOTAL :: rstring where
  "BROKER_ACKS_TOTAL = str ''ferrumq_broker_acks_total''"

definition BROKER_NACKS_TOTAL :: rstring where
  "BROKER_NACKS_TOTAL = str ''ferrumq_broker_nacks_total''"

definition BROKER_RETRY_MAINTENANCE_TOTAL :: rstring where
  "BROKER_RETRY_MAINTENANCE_TOTAL = str ''ferrumq_broker_retry_maintenance_total''"

definition BROKER_DLQ_TRANSITIONS_TOTAL :: rstring where
  "BROKER_DLQ_TRANSITIONS_TOTAL = str ''ferrumq_broker_dlq_transitions_total''"

definition STORAGE_PARTITION_LOG_OPENS_TOTAL :: rstring where
  "STORAGE_PARTITION_LOG_OPENS_TOTAL = str ''ferrumq_storage_partition_log_opens_total''"

definition STORAGE_PARTITION_LOG_RECOVERIES_TOTAL :: rstring where
  "STORAGE_PARTITION_LOG_RECOVERIES_TOTAL = str ''ferrumq_storage_partition_log_recoveries_total''"

definition STORAGE_APPENDS_TOTAL :: rstring where
  "STORAGE_APPENDS_TOTAL = str ''ferrumq_storage_appends_total''"

definition STORAGE_TRAILING_REPAIRS_TOTAL :: rstring where
  "STORAGE_TRAILING_REPAIRS_TOTAL = str ''ferrumq_storage_trailing_repairs_total''"

definition STORAGE_ERRORS_TOTAL :: rstring where
  "STORAGE_ERRORS_TOTAL = str ''ferrumq_storage_errors_total''"

record counter_descriptor =
  cd_name :: rstring
  cd_help :: rstring

definition COUNTERS :: "counter_descriptor list" where
  "COUNTERS = [
    \<lparr>cd_name = CONTROL_HTTP_REQUESTS_TOTAL,
     cd_help = str ''HTTP control-plane requests observed by this process.''\<rparr>,
    \<lparr>cd_name = CONTROL_HTTP_ERRORS_TOTAL,
     cd_help = str ''HTTP control-plane error responses observed by this process.''\<rparr>,
    \<lparr>cd_name = CONTROL_TOPICS_CREATED_TOTAL,
     cd_help = str ''Control-plane topic creation attempts by outcome.''\<rparr>,
    \<lparr>cd_name = DATA_RPC_REQUESTS_TOTAL,
     cd_help = str ''Data-plane RPC requests observed by this process.''\<rparr>,
    \<lparr>cd_name = DATA_RPC_ERRORS_TOTAL,
     cd_help = str ''Data-plane RPC error responses observed by this process.''\<rparr>,
    \<lparr>cd_name = DATA_PUBLISHES_TOTAL,
     cd_help = str ''Data-plane publish attempts by outcome.''\<rparr>,
    \<lparr>cd_name = DATA_CONSUMES_TOTAL,
     cd_help = str ''Data-plane consume attempts by outcome.''\<rparr>,
    \<lparr>cd_name = DATA_MESSAGES_DELIVERED_TOTAL,
     cd_help = str ''Messages delivered by data-plane consume responses.''\<rparr>,
    \<lparr>cd_name = DATA_ACKS_TOTAL,
     cd_help = str ''Data-plane ACK attempts by outcome.''\<rparr>,
    \<lparr>cd_name = DATA_NACKS_TOTAL,
     cd_help = str ''Data-plane NACK attempts by outcome.''\<rparr>,
    \<lparr>cd_name = BROKER_OPENS_TOTAL,
     cd_help = str ''Durable broker open attempts by outcome.''\<rparr>,
    \<lparr>cd_name = BROKER_RECOVERIES_TOTAL,
     cd_help = str ''Durable broker recovery passes by outcome.''\<rparr>,
    \<lparr>cd_name = BROKER_TOPICS_CREATED_TOTAL,
     cd_help = str ''Durable broker topic creation attempts by outcome.''\<rparr>,
    \<lparr>cd_name = BROKER_MESSAGES_PUBLISHED_TOTAL,
     cd_help = str ''Durable broker messages actually appended to the log by outcome. Deduplicated retries are not counted here; see ferrumq_broker_publish_deduplicated_total.''\<rparr>,
    \<lparr>cd_name = BROKER_PUBLISH_DEDUPLICATED_TOTAL,
     cd_help = str ''Durable broker publish requests that were deduplicated as equivalent retries of a prior successful publish.''\<rparr>,
    \<lparr>cd_name = BROKER_PUBLISH_IDEMPOTENCY_CONFLICTS_TOTAL,
     cd_help = str ''Durable broker publish requests rejected because the idempotency key was reused with conflicting semantic intent.''\<rparr>,
    \<lparr>cd_name = BROKER_CONSUMES_TOTAL,
     cd_help = str ''Durable broker consume attempts by outcome.''\<rparr>,
    \<lparr>cd_name = BROKER_DELIVERIES_CREATED_TOTAL,
     cd_help = str ''Durable broker delivery records created.''\<rparr>,
    \<lparr>cd_name = BROKER_ACKS_TOTAL,
     cd_help = str ''Durable broker ACK attempts by outcome.''\<rparr>,
    \<lparr>cd_name = BROKER_NACKS_TOTAL,
     cd_help = str ''Durable broker NACK attempts by outcome.''\<rparr>,
    \<lparr>cd_name = BROKER_RETRY_MAINTENANCE_TOTAL,
     cd_help = str ''Durable broker retry maintenance passes by outcome.''\<rparr>,
    \<lparr>cd_name = BROKER_DLQ_TRANSITIONS_TOTAL,
     cd_help = str ''Durable broker dead-letter transitions by kind.''\<rparr>,
    \<lparr>cd_name = STORAGE_PARTITION_LOG_OPENS_TOTAL,
     cd_help = str ''Partition log open attempts by outcome.''\<rparr>,
    \<lparr>cd_name = STORAGE_PARTITION_LOG_RECOVERIES_TOTAL,
     cd_help = str ''Partition log recovery passes by outcome.''\<rparr>,
    \<lparr>cd_name = STORAGE_APPENDS_TOTAL,
     cd_help = str ''Partition log append attempts by outcome.''\<rparr>,
    \<lparr>cd_name = STORAGE_TRAILING_REPAIRS_TOTAL,
     cd_help = str ''Final trailing record repairs by kind.''\<rparr>,
    \<lparr>cd_name = STORAGE_ERRORS_TOTAL,
     cd_help = str ''Storage errors by sanitized kind.''\<rparr>]"

definition PROMETHEUS_CONTENT_TYPE :: string where
  "PROMETHEUS_CONTENT_TYPE = ''text/plain; version=0.0.4; charset=utf-8''"

section \<open>The registry\<close>

datatype counter_key = CounterKey (ck_name: rstring) (ck_labels: "(rstring \<times> rstring) list")

instantiation counter_key :: linorder
begin
definition less_eq_counter_key :: "counter_key \<Rightarrow> counter_key \<Rightarrow> bool" where
  "less_eq_counter_key a b \<longleftrightarrow> (ck_name a, ck_labels a) \<le> (ck_name b, ck_labels b)"
definition less_counter_key :: "counter_key \<Rightarrow> counter_key \<Rightarrow> bool" where
  "less_counter_key a b \<longleftrightarrow> (ck_name a, ck_labels a) < (ck_name b, ck_labels b)"
instance
proof
  fix a b c :: counter_key
  show "(a < b) = (a \<le> b \<and> \<not> b \<le> a)"
    by (simp only: less_eq_counter_key_def less_counter_key_def less_le_not_le)
  show "a \<le> a" by (simp only: less_eq_counter_key_def order.refl)
  show "a \<le> b \<Longrightarrow> b \<le> c \<Longrightarrow> a \<le> c" by (unfold less_eq_counter_key_def) (rule order.trans)
  show "a \<le> b \<Longrightarrow> b \<le> a \<Longrightarrow> a = b"
    by (unfold less_eq_counter_key_def) (drule (1) order.antisym, cases a, cases b, simp)
  show "a \<le> b \<or> b \<le> a" by (simp only: less_eq_counter_key_def linear)
qed
end

type_synonym registry = "(counter_key, u64) btree_map"

definition usize_to_u64 :: "nat \<Rightarrow> u64" where
  "usize_to_u64 value = (if value < 2 ^ 64 then of_nat value else - 1)"

definition increment_counter :: "rstring \<Rightarrow> (rstring \<times> rstring) list \<Rightarrow> u64 \<Rightarrow> registry \<Rightarrow> registry" where
  "increment_counter name labels value r =
     (if value = 0 then r
      else let key = CounterKey name labels in
        bt_insert key (saturating_add (bt_entry_or 0 r key) value) r)"

definition increment_status_counter :: "rstring \<Rightarrow> string \<Rightarrow> registry \<Rightarrow> registry" where
  "increment_status_counter name status r = increment_counter name [(str ''status'', str status)] 1 r"

definition known_counter_name :: "rstring \<Rightarrow> rstring option" where
  "known_counter_name name = map_option cd_name (find (\<lambda>descriptor. cd_name descriptor = name) COUNTERS)"

definition LABEL_NAMES :: "rstring list" where
  "LABEL_NAMES = [str ''method'', str ''route'', str ''status'', str ''code'', str ''kind'']"

fun known_labels :: "(rstring \<times> rstring) list \<Rightarrow> (rstring \<times> rstring) list option" where
  "known_labels [] = Some []"
| "known_labels ((name, value) # labels) =
     (if name \<in> set LABEL_NAMES then map_option ((#) (name, value)) (known_labels labels) else None)"

definition counter_value :: "rstring \<Rightarrow> (rstring \<times> rstring) list \<Rightarrow> registry \<Rightarrow> u64" where
  "counter_value name labels r =
     (case known_counter_name name of
        None \<Rightarrow> 0
      | Some name \<Rightarrow>
          (case known_labels labels of
             None \<Rightarrow> 0
           | Some labels \<Rightarrow> bt_entry_or 0 r (CounterKey name labels)))"

section \<open>What the components record\<close>

definition record_control_http_request :: "string \<Rightarrow> string \<Rightarrow> u16 \<Rightarrow> registry \<Rightarrow> registry" where
  "record_control_http_request method route status r =
     increment_counter CONTROL_HTTP_REQUESTS_TOTAL [(str ''method'', str method), (str ''route'', str route), (str ''status'', dec (unat status))] 1 r"

definition record_control_http_error :: "string \<Rightarrow> string \<Rightarrow> u16 \<Rightarrow> string \<Rightarrow> registry \<Rightarrow> registry" where
  "record_control_http_error method route status code r =
     increment_counter CONTROL_HTTP_ERRORS_TOTAL [(str ''method'', str method), (str ''route'', str route), (str ''status'', dec (unat status)), (str ''code'', str code)] 1 r"

definition record_control_topic_create :: "string \<Rightarrow> registry \<Rightarrow> registry" where
  "record_control_topic_create status r =
     increment_status_counter CONTROL_TOPICS_CREATED_TOTAL status r"

definition record_data_rpc_request :: "string \<Rightarrow> string \<Rightarrow> registry \<Rightarrow> registry" where
  "record_data_rpc_request method status r =
     increment_counter DATA_RPC_REQUESTS_TOTAL [(str ''method'', str method), (str ''status'', str status)] 1 r"

definition record_data_rpc_error :: "string \<Rightarrow> string \<Rightarrow> registry \<Rightarrow> registry" where
  "record_data_rpc_error method code r =
     increment_counter DATA_RPC_ERRORS_TOTAL [(str ''method'', str method), (str ''code'', str code)] 1 r"

definition record_data_publish :: "string \<Rightarrow> registry \<Rightarrow> registry" where
  "record_data_publish status r =
     increment_status_counter DATA_PUBLISHES_TOTAL status r"

definition record_data_consume :: "string \<Rightarrow> registry \<Rightarrow> registry" where
  "record_data_consume status r =
     increment_status_counter DATA_CONSUMES_TOTAL status r"

definition record_data_messages_delivered :: "nat \<Rightarrow> registry \<Rightarrow> registry" where
  "record_data_messages_delivered count r =
     increment_counter DATA_MESSAGES_DELIVERED_TOTAL [] (usize_to_u64 count) r"

definition record_data_ack :: "string \<Rightarrow> registry \<Rightarrow> registry" where
  "record_data_ack status r =
     increment_status_counter DATA_ACKS_TOTAL status r"

definition record_data_nack :: "string \<Rightarrow> registry \<Rightarrow> registry" where
  "record_data_nack status r =
     increment_status_counter DATA_NACKS_TOTAL status r"

definition record_broker_open :: "string \<Rightarrow> registry \<Rightarrow> registry" where
  "record_broker_open status r =
     increment_status_counter BROKER_OPENS_TOTAL status r"

definition record_broker_recovery :: "string \<Rightarrow> registry \<Rightarrow> registry" where
  "record_broker_recovery status r =
     increment_status_counter BROKER_RECOVERIES_TOTAL status r"

definition record_broker_topic_create :: "string \<Rightarrow> registry \<Rightarrow> registry" where
  "record_broker_topic_create status r =
     increment_status_counter BROKER_TOPICS_CREATED_TOTAL status r"

definition record_broker_publish :: "string \<Rightarrow> registry \<Rightarrow> registry" where
  "record_broker_publish status r =
     increment_status_counter BROKER_MESSAGES_PUBLISHED_TOTAL status r"

definition record_broker_publish_deduplicated :: "registry \<Rightarrow> registry" where
  "record_broker_publish_deduplicated r =
     increment_counter BROKER_PUBLISH_DEDUPLICATED_TOTAL [] 1 r"

definition record_broker_publish_idempotency_conflict :: "registry \<Rightarrow> registry" where
  "record_broker_publish_idempotency_conflict r =
     increment_counter BROKER_PUBLISH_IDEMPOTENCY_CONFLICTS_TOTAL [] 1 r"

definition record_broker_consume :: "string \<Rightarrow> registry \<Rightarrow> registry" where
  "record_broker_consume status r =
     increment_status_counter BROKER_CONSUMES_TOTAL status r"

definition record_broker_deliveries_created :: "nat \<Rightarrow> registry \<Rightarrow> registry" where
  "record_broker_deliveries_created count r =
     increment_counter BROKER_DELIVERIES_CREATED_TOTAL [] (usize_to_u64 count) r"

definition record_broker_ack :: "string \<Rightarrow> registry \<Rightarrow> registry" where
  "record_broker_ack status r =
     increment_status_counter BROKER_ACKS_TOTAL status r"

definition record_broker_nack :: "string \<Rightarrow> registry \<Rightarrow> registry" where
  "record_broker_nack status r =
     increment_status_counter BROKER_NACKS_TOTAL status r"

definition record_broker_retry_maintenance :: "string \<Rightarrow> registry \<Rightarrow> registry" where
  "record_broker_retry_maintenance status r =
     increment_status_counter BROKER_RETRY_MAINTENANCE_TOTAL status r"

definition record_broker_dlq_transition :: "string \<Rightarrow> nat \<Rightarrow> registry \<Rightarrow> registry" where
  "record_broker_dlq_transition kind count r =
     increment_counter BROKER_DLQ_TRANSITIONS_TOTAL [(str ''kind'', str kind)] (usize_to_u64 count) r"

definition record_storage_partition_log_open :: "string \<Rightarrow> registry \<Rightarrow> registry" where
  "record_storage_partition_log_open status r =
     increment_status_counter STORAGE_PARTITION_LOG_OPENS_TOTAL status r"

definition record_storage_partition_log_recovery :: "string \<Rightarrow> registry \<Rightarrow> registry" where
  "record_storage_partition_log_recovery status r =
     increment_status_counter STORAGE_PARTITION_LOG_RECOVERIES_TOTAL status r"

definition record_storage_append :: "string \<Rightarrow> registry \<Rightarrow> registry" where
  "record_storage_append status r =
     increment_status_counter STORAGE_APPENDS_TOTAL status r"

definition record_storage_trailing_repair :: "string \<Rightarrow> registry \<Rightarrow> registry" where
  "record_storage_trailing_repair kind r =
     increment_counter STORAGE_TRAILING_REPAIRS_TOTAL [(str ''kind'', str kind)] 1 r"

definition record_storage_error :: "string \<Rightarrow> registry \<Rightarrow> registry" where
  "record_storage_error kind r =
     increment_counter STORAGE_ERRORS_TOTAL [(str ''kind'', str kind)] 1 r"

section \<open>The exposition\<close>

text \<open>Each function returns the text that the code pushes to the output.\<close>

definition render_descriptor :: "counter_descriptor \<Rightarrow> rstring" where
  "render_descriptor descriptor =
     str ''# HELP '' @ cd_name descriptor @ [32] @ cd_help descriptor @ [10] @
     str ''# TYPE '' @ cd_name descriptor @ str '' counter'' @ [10]"

fun escape_char :: "nat \<Rightarrow> rstring" where
  "escape_char c = (if c = 92 then [92, 92] else if c = 34 then [92, 34] else if c = 10 then [92, 110] else [c])"

definition escape_label_value :: "rstring \<Rightarrow> rstring" where
  "escape_label_value value = concat (map escape_char value)"

fun render_labels :: "nat \<Rightarrow> (rstring \<times> rstring) list \<Rightarrow> rstring" where
  "render_labels i [] = []"
| "render_labels i ((label_name, label_value) # labels) =
     (if 0 < i then [44] else []) @ label_name @ [61, 34] @ escape_label_value label_value @ [34] @
     render_labels (i + 1) labels"

definition render_sample :: "counter_key \<Rightarrow> u64 \<Rightarrow> rstring" where
  "render_sample key value =
     ck_name key @
     (if ck_labels key \<noteq> [] then [123] @ render_labels 0 (ck_labels key) @ [125] else []) @
     [32] @ dec (unat value) @ [10]"

definition render_prometheus :: "registry \<Rightarrow> rstring" where
  "render_prometheus r =
     concat (map (\<lambda>descriptor.
       render_descriptor descriptor @
       concat (map (\<lambda>(key, value). render_sample key value)
         (filter (\<lambda>(key, value). ck_name key = cd_name descriptor) r))) COUNTERS)"

section \<open>Recorded registries\<close>

inductive recorded :: "registry \<Rightarrow> bool" where
  recorded_empty: "recorded []"
| recorded_increment:
    "recorded r \<Longrightarrow> name \<in> cd_name ` set COUNTERS \<Longrightarrow> fst ` set labels \<subseteq> set LABEL_NAMES \<Longrightarrow>
     recorded (increment_counter name labels value r)"

definition key_known :: "counter_key \<Rightarrow> bool" where
  "key_known key \<longleftrightarrow> ck_name key \<in> cd_name ` set COUNTERS \<and> fst ` set (ck_labels key) \<subseteq> set LABEL_NAMES"

lemma recorded_sorted: "recorded r \<Longrightarrow> bt_sorted r"
  by (induction rule: recorded.induct) (simp_all add: increment_counter_def Let_def bt_sorted_insert)

lemma recorded_keys: "recorded r \<Longrightarrow> (key, v) \<in> set r \<Longrightarrow> key_known key"
proof (induction arbitrary: key v rule: recorded.induct)
  case recorded_empty
  then show ?case by simp
next
  case (recorded_increment r name labels x)
  have "key \<in> fst ` set (increment_counter name labels x r)"
    using recorded_increment.prems by force
  then have "key = CounterKey name labels \<or> key \<in> fst ` set r"
    by (auto simp: increment_counter_def Let_def fst_set_bt_insert split: if_splits)
  then show ?case
  proof
    assume "key = CounterKey name labels"
    with recorded_increment.hyps show ?thesis by (simp add: key_known_def)
  next
    assume "key \<in> fst ` set r"
    then obtain w where "(key, w) \<in> set r" by force
    then show ?thesis by (rule recorded_increment.IH)
  qed
qed

lemmas metric_name_defs =
  CONTROL_HTTP_REQUESTS_TOTAL_def CONTROL_HTTP_ERRORS_TOTAL_def CONTROL_TOPICS_CREATED_TOTAL_def
  DATA_RPC_REQUESTS_TOTAL_def DATA_RPC_ERRORS_TOTAL_def DATA_PUBLISHES_TOTAL_def
  DATA_CONSUMES_TOTAL_def DATA_MESSAGES_DELIVERED_TOTAL_def DATA_ACKS_TOTAL_def DATA_NACKS_TOTAL_def
  BROKER_OPENS_TOTAL_def BROKER_RECOVERIES_TOTAL_def BROKER_TOPICS_CREATED_TOTAL_def
  BROKER_MESSAGES_PUBLISHED_TOTAL_def BROKER_PUBLISH_DEDUPLICATED_TOTAL_def
  BROKER_PUBLISH_IDEMPOTENCY_CONFLICTS_TOTAL_def BROKER_CONSUMES_TOTAL_def
  BROKER_DELIVERIES_CREATED_TOTAL_def BROKER_ACKS_TOTAL_def BROKER_NACKS_TOTAL_def
  BROKER_RETRY_MAINTENANCE_TOTAL_def BROKER_DLQ_TRANSITIONS_TOTAL_def
  STORAGE_PARTITION_LOG_OPENS_TOTAL_def STORAGE_PARTITION_LOG_RECOVERIES_TOTAL_def
  STORAGE_APPENDS_TOTAL_def STORAGE_TRAILING_REPAIRS_TOTAL_def STORAGE_ERRORS_TOTAL_def

lemma counter_names: "cd_name ` set COUNTERS = {
    CONTROL_HTTP_REQUESTS_TOTAL, CONTROL_HTTP_ERRORS_TOTAL, CONTROL_TOPICS_CREATED_TOTAL,
    DATA_RPC_REQUESTS_TOTAL, DATA_RPC_ERRORS_TOTAL, DATA_PUBLISHES_TOTAL, DATA_CONSUMES_TOTAL,
    DATA_MESSAGES_DELIVERED_TOTAL, DATA_ACKS_TOTAL, DATA_NACKS_TOTAL, BROKER_OPENS_TOTAL,
    BROKER_RECOVERIES_TOTAL, BROKER_TOPICS_CREATED_TOTAL, BROKER_MESSAGES_PUBLISHED_TOTAL,
    BROKER_PUBLISH_DEDUPLICATED_TOTAL, BROKER_PUBLISH_IDEMPOTENCY_CONFLICTS_TOTAL,
    BROKER_CONSUMES_TOTAL, BROKER_DELIVERIES_CREATED_TOTAL, BROKER_ACKS_TOTAL, BROKER_NACKS_TOTAL,
    BROKER_RETRY_MAINTENANCE_TOTAL, BROKER_DLQ_TRANSITIONS_TOTAL, STORAGE_PARTITION_LOG_OPENS_TOTAL,
    STORAGE_PARTITION_LOG_RECOVERIES_TOTAL, STORAGE_APPENDS_TOTAL, STORAGE_TRAILING_REPAIRS_TOTAL,
    STORAGE_ERRORS_TOTAL}"
  by (simp only: COUNTERS_def list.set image_insert image_empty counter_descriptor.simps)

lemma recorded_status: "recorded r \<Longrightarrow> name \<in> cd_name ` set COUNTERS \<Longrightarrow>
    recorded (increment_status_counter name status r)"
  by (simp add: increment_status_counter_def recorded_increment LABEL_NAMES_def)

lemma recorded_intros [intro]:
  shows "recorded r \<Longrightarrow> recorded (record_control_http_request method route st r)"
  and "recorded r \<Longrightarrow> recorded (record_control_http_error method route st code r)"
  and "recorded r \<Longrightarrow> recorded (record_control_topic_create status r)"
  and "recorded r \<Longrightarrow> recorded (record_data_rpc_request method status r)"
  and "recorded r \<Longrightarrow> recorded (record_data_rpc_error method code r)"
  and "recorded r \<Longrightarrow> recorded (record_data_publish status r)"
  and "recorded r \<Longrightarrow> recorded (record_data_consume status r)"
  and "recorded r \<Longrightarrow> recorded (record_data_messages_delivered count r)"
  and "recorded r \<Longrightarrow> recorded (record_data_ack status r)"
  and "recorded r \<Longrightarrow> recorded (record_data_nack status r)"
  and "recorded r \<Longrightarrow> recorded (record_broker_open status r)"
  and "recorded r \<Longrightarrow> recorded (record_broker_recovery status r)"
  and "recorded r \<Longrightarrow> recorded (record_broker_topic_create status r)"
  and "recorded r \<Longrightarrow> recorded (record_broker_publish status r)"
  and "recorded r \<Longrightarrow> recorded (record_broker_publish_deduplicated r)"
  and "recorded r \<Longrightarrow> recorded (record_broker_publish_idempotency_conflict r)"
  and "recorded r \<Longrightarrow> recorded (record_broker_consume status r)"
  and "recorded r \<Longrightarrow> recorded (record_broker_deliveries_created count r)"
  and "recorded r \<Longrightarrow> recorded (record_broker_ack status r)"
  and "recorded r \<Longrightarrow> recorded (record_broker_nack status r)"
  and "recorded r \<Longrightarrow> recorded (record_broker_retry_maintenance status r)"
  and "recorded r \<Longrightarrow> recorded (record_broker_dlq_transition kind count r)"
  and "recorded r \<Longrightarrow> recorded (record_storage_partition_log_open status r)"
  and "recorded r \<Longrightarrow> recorded (record_storage_partition_log_recovery status r)"
  and "recorded r \<Longrightarrow> recorded (record_storage_append status r)"
  and "recorded r \<Longrightarrow> recorded (record_storage_trailing_repair kind r)"
  and "recorded r \<Longrightarrow> recorded (record_storage_error kind r)"
  unfolding
    record_control_http_request_def record_control_http_error_def record_control_topic_create_def
    record_data_rpc_request_def record_data_rpc_error_def record_data_publish_def
    record_data_consume_def record_data_messages_delivered_def record_data_ack_def
    record_data_nack_def record_broker_open_def record_broker_recovery_def
    record_broker_topic_create_def record_broker_publish_def record_broker_publish_deduplicated_def
    record_broker_publish_idempotency_conflict_def record_broker_consume_def
    record_broker_deliveries_created_def record_broker_ack_def record_broker_nack_def
    record_broker_retry_maintenance_def record_broker_dlq_transition_def
    record_storage_partition_log_open_def record_storage_partition_log_recovery_def
    record_storage_append_def record_storage_trailing_repair_def record_storage_error_def
  by (intro recorded_increment recorded_status; simp add: counter_names LABEL_NAMES_def)+

section \<open>The counts\<close>

lemma known_counter_name_iff: "known_counter_name name = Some n \<longleftrightarrow> n = name \<and> name \<in> cd_name ` set COUNTERS"
proof
  assume "known_counter_name name = Some n"
  then show "n = name \<and> name \<in> cd_name ` set COUNTERS"
    by (auto simp: known_counter_name_def find_Some_iff dest: nth_mem)
next
  assume n: "n = name \<and> name \<in> cd_name ` set COUNTERS"
  then have "find (\<lambda>d. cd_name d = name) COUNTERS \<noteq> None" by (auto simp: find_None_iff)
  with n show "known_counter_name name = Some n" by (auto simp: known_counter_name_def find_Some_iff)
qed

lemma known_counter_name_eq: "known_counter_name name = (if name \<in> cd_name ` set COUNTERS then Some name else None)"
  using known_counter_name_iff[of name name] known_counter_name_iff[of name]
  by (cases "known_counter_name name") auto

lemma known_labels_iff: "known_labels labels = (if fst ` set labels \<subseteq> set LABEL_NAMES then Some labels else None)"
  by (induction labels rule: known_labels.induct) auto

lemma increment_counter_value:
  "bt_entry_or 0 (increment_counter name labels value r) key =
     (if key = CounterKey name labels then saturating_add (bt_entry_or 0 r key) value else bt_entry_or 0 r key)"
  using unat_u64_less[of "bt_entry_or 0 r key"]
  by (auto simp: increment_counter_def Let_def saturating_add_def checked_add_def)

lemma counter_value_increment:
  assumes "name \<in> cd_name ` set COUNTERS" "fst ` set labels \<subseteq> set LABEL_NAMES"
  shows "counter_value name' labels' (increment_counter name labels amount r) =
     (if name' = name \<and> labels' = labels then saturating_add (counter_value name labels r) amount
      else counter_value name' labels' r)"
  using assms
  by (auto simp: counter_value_def known_labels_iff increment_counter_value known_counter_name_eq
      simp del: known_labels.simps)

section \<open>Reading the exposition back\<close>

text \<open>The exposition is a list of lines. A sample line is the counter's name, its labels in braces and the
  decimal value; comment lines start with \<^verbatim>\<open>#\<close>.\<close>

interpretation pc_line: prefix_code "\<lambda>l. l @ [10 :: nat]" "\<lambda>l. 10 \<notin> set l"
  by unfold_locales (simp add: append_sep_inject)

definition sample_line :: "counter_key \<Rightarrow> u64 \<Rightarrow> rstring" where
  "sample_line key v =
     ck_name key @ (if ck_labels key \<noteq> [] then 123 # render_labels 0 (ck_labels key) @ [125] else []) @ 32 # dec (unat v)"

definition comment_lines :: "counter_descriptor \<Rightarrow> rstring list" where
  "comment_lines d = [str ''# HELP '' @ cd_name d @ 32 # cd_help d, str ''# TYPE '' @ cd_name d @ str '' counter'']"

definition samples :: "registry \<Rightarrow> (counter_key \<times> u64) list" where
  "samples r = concat (map (\<lambda>d. filter (\<lambda>(key, v). ck_name key = cd_name d) r) COUNTERS)"

definition exposition_lines :: "registry \<Rightarrow> rstring list" where
  "exposition_lines r =
     concat (map (\<lambda>d. comment_lines d @ map (\<lambda>(key, v). sample_line key v)
       (filter (\<lambda>(key, v). ck_name key = cd_name d) r)) COUNTERS)"

lemma concat_concat_map: "concat (map f (concat (map g xs))) = concat (map (\<lambda>x. concat (map f (g x))) xs)"
  by (induction xs) auto

lemma render_lines: "render_prometheus r = concat (map (\<lambda>l. l @ [10]) (exposition_lines r))"
proof -
  have s: "render_sample key v = sample_line key v @ [10]" for key v
    by (simp add: render_sample_def sample_line_def)
  have d: "render_descriptor d = concat (map (\<lambda>l. l @ [10]) (comment_lines d))" for d
    by (simp add: render_descriptor_def comment_lines_def)
  show ?thesis
    by (simp add: render_prometheus_def exposition_lines_def concat_concat_map s d comp_def case_prod_unfold)
qed

lemma descriptors_plain:
  "d \<in> set COUNTERS \<Longrightarrow>
   10 \<notin> set (cd_help d) \<and> set (cd_name d) \<inter> {10, 32, 35, 123} = {} \<and> cd_name d \<noteq> []"
proof -
  have "list_all (\<lambda>d. 10 \<notin> set (cd_help d) \<and> set (cd_name d) \<inter> {10, 32, 35, 123} = {} \<and> cd_name d \<noteq> []) COUNTERS"
    by code_simp
  then show "d \<in> set COUNTERS \<Longrightarrow> ?thesis" by (auto simp: list_all_iff)
qed

lemma label_names_plain: "n \<in> set LABEL_NAMES \<Longrightarrow> set n \<inter> {10, 61} = {}"
proof -
  have "list_all (\<lambda>n. set n \<inter> {10, 61} = {}) LABEL_NAMES" by code_simp
  then show "n \<in> set LABEL_NAMES \<Longrightarrow> ?thesis" by (auto simp: list_all_iff)
qed

lemma escape_split:
  "escape_label_value s @ 34 # u = escape_label_value t @ 34 # v \<longleftrightarrow> s = t \<and> u = v"
proof (induction s arbitrary: t)
  case Nil
  then show ?case by (cases t) (auto simp: escape_label_value_def)
next
  case (Cons c s)
  then show ?case by (cases t) (auto simp: escape_label_value_def)
qed

definition label_text :: "rstring \<times> rstring \<Rightarrow> rstring" where
  "label_text l = fst l @ 61 # 34 # escape_label_value (snd l) @ [34]"

interpretation pc_label: prefix_code label_text "\<lambda>l. fst l \<in> set LABEL_NAMES"
proof unfold_locales
  fix a b :: "rstring \<times> rstring" and u v
  assume "fst a \<in> set LABEL_NAMES" "fst b \<in> set LABEL_NAMES"
  then have "61 \<notin> set (fst a)" "61 \<notin> set (fst b)" using label_names_plain by blast+
  then show "label_text a @ u = label_text b @ v \<longleftrightarrow> a = b \<and> u = v"
    by (simp add: label_text_def append_sep_inject escape_split prod_eq_iff)
qed

lemma render_labels_text:
  "render_labels i ls = (if 0 < i then concat (map (\<lambda>l. 44 # label_text l) ls)
     else case ls of [] \<Rightarrow> [] | l # ls' \<Rightarrow> label_text l @ concat (map (\<lambda>l. 44 # label_text l) ls'))"
  by (induction i ls rule: render_labels.induct) (auto simp: label_text_def split: list.split)

lemma render_labels_split:
  assumes "fst ` set ls \<subseteq> set LABEL_NAMES" "fst ` set ls' \<subseteq> set LABEL_NAMES" "ls \<noteq> []" "ls' \<noteq> []"
  shows "render_labels 0 ls @ 125 # u = render_labels 0 ls' @ 125 # v \<longleftrightarrow> ls = ls' \<and> u = v"
proof -
  obtain l k l' k' where c: "ls = l # k" "ls' = l' # k'" using assms(3,4) by (meson neq_Nil_conv)
  have "list_all (\<lambda>l. fst l \<in> set LABEL_NAMES) k" "list_all (\<lambda>l. fst l \<in> set LABEL_NAMES) k'"
    using assms(1,2) by (auto simp: c list_all_iff)
  from pc_label.terminated_split[OF this, of 44 125 u v] assms(1,2) show ?thesis
    by (simp add: render_labels_text c pc_label.enc_split)
qed

lemma append_mark_inject:
  assumes "c \<notin> set s" "d \<notin> set s" "c \<notin> set t" "d \<notin> set t"
  shows "s @ c # u = t @ d # v \<longleftrightarrow> s = t \<and> c = d \<and> u = v"
  using assms
proof (induction s arbitrary: t)
  case Nil
  then show ?case by (cases t) auto
next
  case (Cons a s)
  then show ?case by (cases t) auto
qed

lemma sample_line_inject:
  assumes "key_known k" "key_known k'"
  shows "sample_line k v = sample_line k' v' \<longleftrightarrow> k = k' \<and> v = v'"
proof -
  have n: "x \<notin> set (ck_name k)" "x \<notin> set (ck_name k')" if "x \<in> {32, 123}" for x
    using assms descriptors_plain that by (fastforce simp: key_known_def)+
  have l: "fst ` set (ck_labels k) \<subseteq> set LABEL_NAMES" "fst ` set (ck_labels k') \<subseteq> set LABEL_NAMES"
    using assms by (auto simp: key_known_def)
  have v: "unat v = unat v' \<longleftrightarrow> v = v'" by (auto dest: unat_eqD)
  show ?thesis
    using render_labels_split[OF l, of "32 # dec (unat v)" "32 # dec (unat v')"]
    by (cases k; cases k'; cases "ck_labels k = []"; cases "ck_labels k' = []")
      (use n in \<open>simp_all add: sample_line_def append_mark_inject v\<close>)
qed

lemma exposition_lines_plain:
  assumes "recorded r"
  shows "list_all (\<lambda>l. 10 \<notin> set l) (exposition_lines r)"
proof -
  have e: "10 \<notin> set (escape_label_value s)" for s
    by (induction s) (auto simp: escape_label_value_def)
  have ls: "10 \<notin> set (render_labels i ls)" if "fst ` set ls \<subseteq> set LABEL_NAMES" for i ls
    using that by (induction i ls rule: render_labels.induct) (use e label_names_plain in auto)
  have "10 \<notin> set (sample_line k v)" if "key_known k" for k v
    using that ls descriptors_plain dec_digits[of "unat v"]
    by (fastforce simp: sample_line_def key_known_def list_all_iff is_ascii_digit_def)
  moreover have "list_all (\<lambda>l. 10 \<notin> set l) (comment_lines d)" if "d \<in> set COUNTERS" for d
  proof -
    have "10 \<notin> set (str ''# HELP '')" "10 \<notin> set (str ''# TYPE '')" "10 \<notin> set (str '' counter'')" by code_simp+
    with descriptors_plain[OF that] show ?thesis by (simp add: comment_lines_def)
  qed
  ultimately show ?thesis
    using recorded_keys[OF assms] by (auto simp: exposition_lines_def list_all_iff)
qed

lemma sample_lines:
  assumes "recorded r"
  shows "filter (\<lambda>l. hd l \<noteq> 35) (exposition_lines r) = map (\<lambda>(key, v). sample_line key v) (samples r)"
proof -
  have c: "filter (\<lambda>l. hd l \<noteq> 35) (comment_lines d) = []" for d
    by (simp add: comment_lines_def str_def)
  have k: "hd (sample_line key v) \<noteq> 35" if "key_known key" for key v
  proof -
    have "ck_name key \<noteq> []" "35 \<notin> set (ck_name key)"
      using that descriptors_plain by (fastforce simp: key_known_def)+
    then show ?thesis by (cases "ck_name key") (auto simp: sample_line_def)
  qed
  have "filter (\<lambda>l. hd l \<noteq> 35) (map (\<lambda>(key, v). sample_line key v) xs) = map (\<lambda>(key, v). sample_line key v) xs"
    if "set xs \<subseteq> set r" for xs
    using that k recorded_keys[OF assms] by (induction xs) auto
  from this[of "filter (\<lambda>(key, v). ck_name key = cd_name d) r" for d :: counter_descriptor] c show ?thesis
    by (simp add: exposition_lines_def samples_def filter_concat map_concat comp_def)
qed

lemma set_samples:
  assumes "recorded r"
  shows "set (samples r) = set r"
  using recorded_keys[OF assms] by (fastforce simp: samples_def key_known_def)

lemma exposition_inject:
  assumes "recorded r" "recorded r'"
  shows "render_prometheus r = render_prometheus r' \<longleftrightarrow> r = r'"
proof
  assume "render_prometheus r = render_prometheus r'"
  then have "exposition_lines r = exposition_lines r'"
    by (simp add: render_lines pc_line.concat_inject exposition_lines_plain assms)
  then have "map (\<lambda>(key, v). sample_line key v) (samples r) = map (\<lambda>(key, v). sample_line key v) (samples r')"
    using sample_lines[OF assms(1)] sample_lines[OF assms(2)] by simp
  moreover have "inj_on (\<lambda>(key, v). sample_line key v) (set (samples r) \<union> set (samples r'))"
    using recorded_keys[OF assms(1)] recorded_keys[OF assms(2)]
    by (auto simp: inj_on_def set_samples assms sample_line_inject)
  ultimately have "samples r = samples r'" by (simp add: inj_on_map_eq_map)
  then have "set r = set r'" by (metis set_samples assms)
  then show "r = r'"
    using bt_mem_iff[OF recorded_sorted[OF assms(1)]] bt_mem_iff[OF recorded_sorted[OF assms(2)]]
    by (intro bt_ext recorded_sorted assms) (metis not_Some_eq)
qed simp

end
