(* ===== verification/Broker_Process.thy ===== *)
theory Broker_Process
  imports Durable_Sessions Observability
begin

text \<open>
  The durable broker inside a process: what both servers share. A process holds one broker behind a
  mutex, the file system, and the registry of counters. An operation run while the lock is held
  takes the process and returns its result and the process; a panic inside it poisons the mutex, and
  every later attempt to lock reports that. The second part of each operation of
  \<^verbatim>\<open>msg-broker/src/durable.rs\<close>, the \<^verbatim>\<open>match\<close> on its result that counts outcomes, is the function
  \<^verbatim>\<open>observe_*\<close>. What the partition logs count (\<^verbatim>\<open>ferrumq_storage_*\<close>) is left out, and so are the log lines.
\<close>

record process =
  proc_broker :: durable_broker
  proc_fs :: fs
  proc_poisoned :: bool
  proc_metrics :: registry

type_synonym ('e, 'a) action = "process \<Rightarrow> ('e, 'a) rres \<times> process"

section \<open>Running under the lock\<close>

text \<open>One step after the other, where the first failure ends the action.\<close>

definition and_then :: "('e, 'a) action \<Rightarrow> ('a \<Rightarrow> ('e, 'b) action) \<Rightarrow> ('e, 'b) action" where
  "and_then m f s =
     (case m s of
        (Ok a, s') \<Rightarrow> f a s'
      | (Err e, s') \<Rightarrow> (Err e, s')
      | (Panicked, s') \<Rightarrow> (Panicked, s'))"

definition pure_action :: "(durable_broker \<Rightarrow> ('e, 'a) rres) \<Rightarrow> ('e, 'a) action" where
  "pure_action f s = (f (proc_broker s), s)"

text \<open>\<^verbatim>\<open>lock()\<close>: \<^verbatim>\<open>unavailable\<close> when a panic has poisoned the mutex.\<close>

definition locked :: "'e \<Rightarrow> ('e, 'a) action \<Rightarrow> ('e, 'a) action" where
  "locked unavailable operation s =
     (if proc_poisoned s then (Err unavailable, s)
      else case operation s of
          (Panicked, s') \<Rightarrow> (Panicked, s'\<lparr>proc_poisoned := True\<rparr>)
        | r \<Rightarrow> r)"

definition map_action :: "(('e, 'a) rres \<Rightarrow> ('f, 'b) rres) \<Rightarrow> ('e, 'a) action \<Rightarrow> ('f, 'b) action" where
  "map_action f m s = (case m s of (r, s') \<Rightarrow> (f r, s'))"

text \<open>A step of a handler that does not touch the broker: the operator \<^verbatim>\<open>?\<close>.\<close>

definition checked :: "('e, 'a) rres \<Rightarrow> ('a \<Rightarrow> ('e, 'b) action) \<Rightarrow> ('e, 'b) action" where
  "checked r f =
     (case r of Ok a \<Rightarrow> f a | Err e \<Rightarrow> (\<lambda>s. (Err e, s)) | Panicked \<Rightarrow> (\<lambda>s. (Panicked, s)))"

text \<open>Counting the result of an action.\<close>

definition observed :: "(('e, 'a) rres \<Rightarrow> registry \<Rightarrow> registry) \<Rightarrow> ('e, 'a) action \<Rightarrow> ('e, 'a) action" where
  "observed tally m s = (case m s of (r, s') \<Rightarrow> (r, s'\<lparr>proc_metrics := tally r (proc_metrics s')\<rparr>))"

section \<open>What the broker counts\<close>

definition observe_open :: "'a durable_result \<Rightarrow> registry \<Rightarrow> registry" where
  "observe_open result r =
     (case result of
        Ok b \<Rightarrow> record_broker_open ''success'' r
      | Err e \<Rightarrow> record_broker_open ''error'' r
      | Panicked \<Rightarrow> r)"

definition observe_recovery :: "'a durable_result \<Rightarrow> registry \<Rightarrow> registry" where
  "observe_recovery result r =
     (case result of
        Ok events \<Rightarrow> record_broker_recovery ''success'' r
      | Err e \<Rightarrow> record_broker_recovery ''error'' r
      | Panicked \<Rightarrow> r)"

definition observe_create_topic :: "'a durable_result \<Rightarrow> registry \<Rightarrow> registry" where
  "observe_create_topic result r =
     (case result of
        Ok topic \<Rightarrow> record_broker_topic_create ''success'' r
      | Err e \<Rightarrow> record_broker_topic_create ''error'' r
      | Panicked \<Rightarrow> r)"

definition observe_publish :: "published_message durable_result \<Rightarrow> registry \<Rightarrow> registry" where
  "observe_publish result r =
     (case result of
        Ok message \<Rightarrow>
          (if pm_deduplicated message then record_broker_publish_deduplicated r
           else record_broker_publish ''success'' r)
      | Err (DBroker (IdempotencyKeyConflict t)) \<Rightarrow> record_broker_publish_idempotency_conflict r
      | Err e \<Rightarrow> record_broker_publish ''error'' r
      | Panicked \<Rightarrow> r)"

definition observe_consume :: "consumed_message list durable_result \<Rightarrow> registry \<Rightarrow> registry" where
  "observe_consume result r =
     (case result of
        Ok messages \<Rightarrow>
          record_broker_deliveries_created (length messages) (record_broker_consume ''success'' r)
      | Err e \<Rightarrow> record_broker_consume ''error'' r
      | Panicked \<Rightarrow> r)"

definition observe_ack :: "unit durable_result \<Rightarrow> registry \<Rightarrow> registry" where
  "observe_ack result r =
     (case result of
        Ok u \<Rightarrow> record_broker_ack ''success'' r
      | Err e \<Rightarrow> record_broker_ack ''error'' r
      | Panicked \<Rightarrow> r)"

text \<open>Whether the outcome that \<^verbatim>\<open>nack\<close> computes for the delivery is a dead letter.\<close>

definition nack_dead_letters :: "durable_env \<Rightarrow> nack_command \<Rightarrow> durable_broker \<Rightarrow> fs \<Rightarrow> bool" where
  "nack_dead_letters E command b fs =
     (case dds_pending_for_command (nc_delivery_id command) (nc_consumer_id command) (db_state b) of
        Ok pending \<Rightarrow>
          (case compute_pending_outcome E pending (bc_retry_policy (dbc_broker_config (db_config b)))
                  (nc_timestamp command)
                  (Manual (case nc_reason command of None \<Rightarrow> str ''nack'' | Some reason \<Rightarrow> reason)) b fs of
             Ok computed \<Rightarrow> co_dead_letter computed \<noteq> None
           | _ \<Rightarrow> False)
      | _ \<Rightarrow> False)"

definition observe_nack :: "bool \<Rightarrow> unit durable_result \<Rightarrow> registry \<Rightarrow> registry" where
  "observe_nack dead_lettered result r =
     (case result of
        Ok u \<Rightarrow>
          (let r1 = record_broker_nack ''success'' r in
           if dead_lettered then record_broker_dlq_transition ''nack'' 1 r1 else r1)
      | Err e \<Rightarrow> record_broker_nack ''error'' r
      | Panicked \<Rightarrow> r)"

definition observe_retry_ready :: "retry_summary durable_result \<Rightarrow> registry \<Rightarrow> registry" where
  "observe_retry_ready result r =
     (case result of
        Ok summary \<Rightarrow>
          record_broker_dlq_transition ''expired'' (rs_dead_lettered summary)
            (record_broker_retry_maintenance ''success'' r)
      | Err e \<Rightarrow> record_broker_retry_maintenance ''error'' r
      | Panicked \<Rightarrow> r)"

section \<open>The operations of the broker, counted\<close>

definition counted ::
  "('a durable_result \<Rightarrow> registry \<Rightarrow> registry) \<Rightarrow> (durable_broker \<Rightarrow> fs \<Rightarrow> 'a durable_result \<times> durable_broker \<times> fs)
     \<Rightarrow> (durable_broker_error, 'a) action" where
  "counted observe operation s =
     (case operation (proc_broker s) (proc_fs s) of
        (result, b, fs) \<Rightarrow>
          (result, s\<lparr>proc_broker := b, proc_fs := fs, proc_metrics := observe result (proc_metrics s)\<rparr>))"

definition broker_create_topic ::
  "durable_env \<Rightarrow> state_io \<Rightarrow> create_topic_command \<Rightarrow> (durable_broker_error, topic) action" where
  "broker_create_topic E sio command = counted observe_create_topic (db_create_topic E sio command)"

definition broker_publish ::
  "durable_env \<Rightarrow> io_outcome \<Rightarrow> publish_command \<Rightarrow> (durable_broker_error, published_message) action" where
  "broker_publish E io command = counted observe_publish (db_publish E io command)"

definition broker_consume ::
  "durable_env \<Rightarrow> state_io \<Rightarrow> consume_command \<Rightarrow> (durable_broker_error, consumed_message list) action" where
  "broker_consume E sio command = counted observe_consume (db_consume E sio command)"

definition broker_ack ::
  "durable_env \<Rightarrow> state_io \<Rightarrow> ack_command \<Rightarrow> (durable_broker_error, unit) action" where
  "broker_ack E sio command = counted observe_ack (db_ack E sio command)"

definition broker_nack ::
  "durable_env \<Rightarrow> state_io \<Rightarrow> nack_command \<Rightarrow> (durable_broker_error, unit) action" where
  "broker_nack E sio command s =
     counted (observe_nack (nack_dead_letters E command (proc_broker s) (proc_fs s))) (db_nack E sio command) s"

definition broker_retry_ready ::
  "durable_env \<Rightarrow> state_io \<Rightarrow> message_timestamp \<Rightarrow> (durable_broker_error, retry_summary) action" where
  "broker_retry_ready E sio now = counted observe_retry_ready (db_retry_ready E sio now)"

text \<open>The start of a process: the registry is empty, and the directory is opened once.\<close>

definition broker_open ::
  "durable_env \<Rightarrow> durable_broker_config \<Rightarrow> fs \<Rightarrow> process durable_result \<times> registry" where
  "broker_open E config fs =
     (let (result, fs') = DurableBroker_open E config fs;
          r = observe_open result
                (observe_recovery (fst (recover_state_events (env_events E) (state_path config) fs)) []) in
      (map_ok (\<lambda>b. \<lparr>proc_broker = b, proc_fs = fs', proc_poisoned = False, proc_metrics = r\<rparr>) result, r))"

section \<open>The interface of the servers\<close>

text \<open>
  What a server may rely on in an action: from a process in good order and with room left the action does
  not panic, and it leaves a process in good order that follows from the one before. \<^verbatim>\<open>steady\<close> actions
  leave the room as it was. The interpretation below reads these words over the runs of the broker.
\<close>

locale process_order =
  fixes good :: "process \<Rightarrow> bool"
    and room :: "process \<Rightarrow> bool"
    and follows :: "process \<Rightarrow> process \<Rightarrow> bool"
  assumes not_poisoned: "good s \<Longrightarrow> \<not> proc_poisoned s"
    and metrics_recorded: "good s \<Longrightarrow> recorded (proc_metrics s)"
    and good_metrics: "good s \<Longrightarrow> recorded r \<Longrightarrow> good (s\<lparr>proc_metrics := r\<rparr>)"
    and follows_metrics: "follows s s' \<Longrightarrow> follows s (s'\<lparr>proc_metrics := r\<rparr>)"
    and follows_refl: "follows s s"
    and follows_trans: "follows s s' \<Longrightarrow> follows s' s'' \<Longrightarrow> follows s s''"
begin

definition orderly :: "('e, 'a) action \<Rightarrow> bool" where
  "orderly m \<longleftrightarrow>
     (\<forall>s r s'. good s \<longrightarrow> room s \<longrightarrow> m s = (r, s') \<longrightarrow> r \<noteq> Panicked \<and> good s' \<and> follows s s')"

definition steady :: "('e, 'a) action \<Rightarrow> bool" where
  "steady m \<longleftrightarrow> (\<forall>s r s'. good s \<longrightarrow> room s \<longrightarrow> m s = (r, s') \<longrightarrow> room s')"

lemma orderlyI:
  "(\<And>s r s'. good s \<Longrightarrow> room s \<Longrightarrow> m s = (r, s') \<Longrightarrow> r \<noteq> Panicked \<and> good s' \<and> follows s s') \<Longrightarrow> orderly m"
  by (simp add: orderly_def)

lemma orderlyD:
  "orderly m \<Longrightarrow> good s \<Longrightarrow> room s \<Longrightarrow> m s = (r, s') \<Longrightarrow> r \<noteq> Panicked \<and> good s' \<and> follows s s'"
  by (simp add: orderly_def)

lemma orderly_and_then:
  assumes "orderly m" "steady m" "\<And>a. orderly (f a)"
  shows "orderly (and_then m f)"
proof (rule orderlyI)
  fix s r s' assume g: "good s" "room s" and run: "and_then m f s = (r, s')"
  obtain r1 s1 where m: "m s = (r1, s1)" by (metis surj_pair)
  note o = orderlyD[OF assms(1) g m]
  show "r \<noteq> Panicked \<and> good s' \<and> follows s s'"
  proof (cases r1)
    case (Ok a)
    have "room s1" using assms(2) g m by (auto simp: steady_def)
    moreover have "f a s1 = (r, s')" using run by (simp add: and_then_def m Ok)
    ultimately show ?thesis using orderlyD[OF assms(3), of s1 a r s'] o follows_trans by blast
  next
    case (Err e)
    then show ?thesis using run o by (auto simp: and_then_def m)
  next
    case Panicked
    then show ?thesis using o by simp
  qed
qed

lemma orderly_then_pure:
  assumes "orderly m" "\<And>a. g a \<noteq> Panicked"
  shows "orderly (and_then m (\<lambda>a s. (g a, s)))"
  by (rule orderlyI) (use assms(2) in \<open>auto simp: and_then_def split: prod.splits rres.splits dest: orderlyD[OF assms(1)]\<close>)

lemma orderly_pure: "(\<And>b. f b \<noteq> Panicked) \<Longrightarrow> orderly (pure_action f)"
  by (auto simp: orderly_def pure_action_def follows_refl)

lemma steady_pure: "steady (pure_action f)"
  by (simp add: steady_def pure_action_def)

lemma orderly_const: "r \<noteq> Panicked \<Longrightarrow> orderly (\<lambda>s. (r, s))"
  by (simp add: orderly_def follows_refl)

lemma orderly_checked: "r \<noteq> Panicked \<Longrightarrow> (\<And>a. orderly (f a)) \<Longrightarrow> orderly (checked r f)"
  by (cases r) (simp_all add: checked_def orderly_const)

lemma orderly_map: "orderly m \<Longrightarrow> (\<And>r. f r = Panicked \<Longrightarrow> r = Panicked) \<Longrightarrow> orderly (map_action f m)"
  by (rule orderlyI) (auto simp: map_action_def split: prod.splits dest: orderlyD)

lemma orderly_locked:
  assumes "orderly m"
  shows "orderly (locked e m)"
proof (rule orderlyI)
  fix s r s' assume g: "good s" "room s" and run: "locked e m s = (r, s')"
  obtain r1 s1 where m: "m s = (r1, s1)" by (metis surj_pair)
  from orderlyD[OF assms g m] have "r1 \<noteq> Panicked" by simp
  then have "locked e m s = (r1, s1)" using not_poisoned[OF g(1)] m by (simp add: locked_def split: rres.split)
  with run orderlyD[OF assms g m] show "r \<noteq> Panicked \<and> good s' \<and> follows s s'" by simp
qed

lemma orderly_observed:
  assumes "orderly m" "\<And>x r. recorded r \<Longrightarrow> recorded (g x r)"
  shows "orderly (observed g m)"
proof (rule orderlyI)
  fix s r s' assume g: "good s" "room s"
    and run: "observed g m s = (r, s')"
  obtain r1 s1 where m: "m s = (r1, s1)" by (metis surj_pair)
  note o = orderlyD[OF assms(1) g m]
  then have "good (s1\<lparr>proc_metrics := g r1 (proc_metrics s1)\<rparr>)"
    using good_metrics assms(2) metrics_recorded by blast
  with o run show "r \<noteq> Panicked \<and> good s' \<and> follows s s'" by (auto simp: observed_def m follows_metrics)
qed

end

lemma observed_recorded [intro]:
  shows "recorded r \<Longrightarrow> recorded (observe_open x1 r)"
  and "recorded r \<Longrightarrow> recorded (observe_recovery x2 r)"
  and "recorded r \<Longrightarrow> recorded (observe_create_topic x3 r)"
  and "recorded r \<Longrightarrow> recorded (observe_publish x4 r)"
  and "recorded r \<Longrightarrow> recorded (observe_consume x5 r)"
  and "recorded r \<Longrightarrow> recorded (observe_ack x6 r)"
  and "recorded r \<Longrightarrow> recorded (observe_nack d x7 r)"
  and "recorded r \<Longrightarrow> recorded (observe_retry_ready x8 r)"
  unfolding observe_open_def observe_recovery_def observe_create_topic_def observe_publish_def
    observe_consume_def observe_ack_def observe_nack_def observe_retry_ready_def Let_def
  by (auto split: rres.split durable_broker_error.split broker_error.split)

end
