(* ===== verification/Broker_Runs.thy ===== *)
theory Broker_Runs
  imports Broker_Process
begin

text \<open>
  Processes whose broker has gone through a run. The interpretation \<^verbatim>\<open>proc\<close> of \<^verbatim>\<open>process_order\<close> is on
  these processes, for the operations that \<^verbatim>\<open>P\<close> permits: every counted operation of the broker is orderly,
  so whatever a server composes from them is. \<^verbatim>\<open>implements\<close> carries the in-memory view from one process to the ones that follow it:
  messages stay where they are and topics stay.
\<close>

section \<open>Several operations\<close>

inductive db_steps :: "durable_env \<Rightarrow> durable_broker \<times> fs \<Rightarrow> durable_broker \<times> fs \<Rightarrow> bool" for E s where
  none: "db_steps E s s"
| another: "db_steps E s s' \<Longrightarrow> db_op_ok x \<Longrightarrow> db_has_room (fst s') \<Longrightarrow> db_steps E s (db_apply E x s')"

lemma db_steps_trans: "db_steps E s' s'' \<Longrightarrow> db_steps E s s' \<Longrightarrow> db_steps E s s''"
  by (induction rule: db_steps.induct) (auto intro: db_steps.another)

lemma db_steps_run: "db_steps E s s' \<Longrightarrow> db_run E config any_step s \<Longrightarrow> db_run E config any_step s'"
  by (induction rule: db_steps.induct) (auto intro: db_run.operation)

definition implements ::
  "durable_env \<Rightarrow> durable_broker_config \<Rightarrow> durable_broker \<times> fs \<Rightarrow> contents \<Rightarrow> bool" where
  "implements E config s M \<longleftrightarrow>
     db_wf E (fst s) (snd s) M \<and> db_config (fst s) = config \<and>
     svc_reachable (env_sha E) (dbc_broker_config config) (db_svc M (fst s))"

lemma run_implements:
  assumes "db_run E config any_step s" "env_ok E config"
  obtains M where "implements E config s M"
  using db_run_refines[OF assms] by (auto simp: implements_def)

lemma implements_inv: "implements E config s M \<Longrightarrow> broker_inv (db_mem M (fst s))"
  using svc_reachable_broker_inv by (force simp: implements_def)

lemma implements_fit: "implements E config s M \<Longrightarrow> logs_fit (db_mem M (fst s))"
  using db_logs_fit by (force simp: implements_def)

lemma implements_room: "implements E config s M \<Longrightarrow> db_has_room (fst s) \<Longrightarrow> db_room M (fst s)"
  using db_room_of implements_inv by (force simp: implements_def)

lemma step_implements:
  assumes i: "implements E config s M" and ok: "db_op_ok x" and room: "db_has_room (fst s)"
  obtains M' where "implements E config (db_apply E x s) M'" "db_outcome E x s \<noteq> Panicked"
    "svc_steps (env_sha E) (db_svc M (fst s)) (db_svc M' (fst (db_apply E x s)))"
    "\<And>u. db_outcome E x s = Ok u \<Longrightarrow>
       db_svc M' (fst (db_apply E x s)) = svc_apply (env_sha E) (svc_op_of x) (db_svc M (fst s))"
proof -
  obtain b fs b' fs' where s: "s = (b, fs)" and run: "db_apply E x (b, fs) = (b', fs')" by (metis surj_pair)
  have wf: "db_wf E b fs M" and r: "svc_reachable (env_sha E) (dbc_broker_config config) (db_svc M b)"
    and c: "db_config b = config" using i by (simp_all add: implements_def s)
  have inv: "broker_inv (db_mem M b)" "db_room M b"
    using implements_inv[OF i] implements_room[OF i room] by (simp_all add: s)
  from db_apply_refines[OF wf inv ok run] obtain M' where R: "step_refines E x M b fs M' b' fs'" ..
  have "svc_op_ok (svc_op_of x)" using ok by (cases x) (simp_all add: svc_op_ok_def)
  moreover have "logs_fit (svc_state (db_svc M b))" using db_logs_fit[OF wf] by simp
  ultimately have "svc_steps (env_sha E) (db_svc M b) (svc_apply (env_sha E) (svc_op_of x) (db_svc M b))"
    by (blast intro: svc_steps.intros)
  with R have steps: "svc_steps (env_sha E) (db_svc M b) (db_svc M' b')"
    by (auto simp: step_refines_def svc_steps.start split: rres.splits)
  from svc_reachable_steps[OF steps r] R c steps show ?thesis
    by (intro that[of M']) (auto simp: implements_def s run step_refines_def split: rres.splits)
qed

lemma svc_steps_append: "svc_steps sha b' b'' \<Longrightarrow> svc_steps sha b b' \<Longrightarrow> svc_steps sha b b''"
  by (induction rule: svc_steps.induct) (auto intro: svc_steps.step)

lemma steps_implements:
  assumes "db_steps E s s'" "implements E config s M"
  obtains M' where "implements E config s' M'" "svc_steps (env_sha E) (db_svc M (fst s)) (db_svc M' (fst s'))"
proof -
  have "\<exists>M'. implements E config s' M' \<and> svc_steps (env_sha E) (db_svc M (fst s)) (db_svc M' (fst s'))"
    using assms
  proof (induction rule: db_steps.induct)
    case none
    then show ?case using svc_steps.start by blast
  next
    case (another s' x)
    then obtain M' where M': "implements E config s' M'"
      "svc_steps (env_sha E) (db_svc M (fst s)) (db_svc M' (fst s'))" by blast
    from step_implements[OF M'(1) another.hyps(2,3)] obtain M'' where
      "implements E config (db_apply E x s') M''"
      "svc_steps (env_sha E) (db_svc M' (fst s')) (db_svc M'' (fst (db_apply E x s')))" .
    with svc_steps_append[OF this(2) M'(2)] show ?case by blast
  qed
  with that show ?thesis by blast
qed

lemma steps_message_at:
  assumes "implements E config s M" "svc_steps (env_sha E) (db_svc M (fst s)) (db_svc M' (fst s'))"
    "message_at (db_mem M (fst s)) r = Some e"
  shows "message_at (db_mem M' (fst s')) r = Some e"
proof -
  have "svc_reachable (env_sha E) (dbc_broker_config config) (db_svc M (fst s))"
    using assms(1) by (simp add: implements_def)
  from svc_steps_inv[OF assms(2) svc_reachable_inv[OF this]] show ?thesis
    using message_at_extends[of "db_mem M (fst s)" "db_mem M' (fst s')" r e] assms(3) by simp
qed

section \<open>Topics stay\<close>

definition topics_kept :: "durable_broker \<Rightarrow> durable_broker \<Rightarrow> bool" where
  "topics_kept b b' \<longleftrightarrow>
     (\<forall>t dt. bt_get (db_topics b) t = Some dt \<longrightarrow>
        (\<exists>dt'. bt_get (db_topics b') t = Some dt' \<and> dt_topic dt' = dt_topic dt))"

lemma topics_kept_same [simp]: "db_topics b' = db_topics b \<Longrightarrow> topics_kept b b'"
  by (simp add: topics_kept_def)

lemma topics_kept_trans: "topics_kept b b' \<Longrightarrow> topics_kept b' b'' \<Longrightarrow> topics_kept b b''"
  unfolding topics_kept_def by metis

lemma topics_kept_insert:
  "(\<And>dt. bt_get (db_topics b) t = Some dt \<Longrightarrow> dt_topic d = dt_topic dt) \<Longrightarrow>
   db_topics b' = bt_insert t d (db_topics b) \<Longrightarrow> topics_kept b b'"
  by (simp add: topics_kept_def)

lemma append_topics_kept:
  assumes "db_append_to_topic E io t e b fs = (r, b', fs')"
  shows "topics_kept b b'"
proof (cases "bt_get (db_topics b) t")
  case (Some dt)
  then show ?thesis
    using assms
    by (auto simp: db_append_to_topic_def Let_def dt_advance_round_robin_partition_def
        split: option.splits prod.splits rres.splits if_splits intro!: topics_kept_insert)
qed (use assms in \<open>simp add: db_append_to_topic_def\<close>)

lemma publish_topics_kept:
  assumes "db_publish E io c b fs = (r, b', fs')"
  shows "topics_kept b b'"
  using assms
  by (auto simp: db_publish_def Let_def topics_kept_def dest: append_topics_kept[unfolded topics_kept_def]
      split: if_splits rres.splits idempotency_check.splits prod.splits)

lemma consume_topics: "db_topics (fst (snd (db_consume E sio c b fs))) = db_topics b"
  by (simp add: db_consume_def split: rres.split prod.split)

lemma ack_topics: "db_topics (fst (snd (db_ack E sio c b fs))) = db_topics b"
  by (simp add: db_ack_def Let_def split: rres.split prod.split)

lemma nack_topics: "db_topics (fst (snd (db_nack E sio c b fs))) = db_topics b"
  by (simp add: db_nack_def Let_def split: rres.split prod.split)

lemma retry_ready_topics: "db_topics (fst (snd (db_retry_ready E sio now b fs))) = db_topics b"
  by (simp add: db_retry_ready_def Let_def split: rres.split prod.split)

lemma create_topics_kept:
  assumes "db_create_topic E sio c b fs = (r, b', fs')"
  shows "topics_kept b b'"
  using assms
  by (auto simp: db_create_topic_def Let_def bt_contains_def topics_kept_def
      split: if_splits rres.splits prod.splits)

lemma step_topics_kept: "topics_kept (fst s) (fst (db_apply E x s))"
proof -
  obtain b fs where s: "s = (b, fs)" by (metis surj_pair)
  show ?thesis
  proof (cases x)
    case (DbCreateTopic sio c)
    then show ?thesis using create_topics_kept[of E sio c b fs] by (simp add: s) (metis prod.collapse)
  next
    case (DbPublish io c)
    then show ?thesis using publish_topics_kept[of E io c b fs] by (simp add: s) (metis prod.collapse)
  qed (simp_all add: s consume_topics ack_topics nack_topics retry_ready_topics)
qed

lemma steps_topics_kept: "db_steps E s s' \<Longrightarrow> topics_kept (fst s) (fst s')"
  by (induction rule: db_steps.induct) (auto intro: topics_kept_trans step_topics_kept)

section \<open>Processes in good order\<close>

abbreviation proc_state :: "process \<Rightarrow> durable_broker \<times> fs" where
  "proc_state s \<equiv> (proc_broker s, proc_fs s)"

text \<open>\<^verbatim>\<open>P\<close> restricts the operations of the run, as in \<^verbatim>\<open>db_run\<close>.\<close>

definition proc_good ::
  "durable_env \<Rightarrow> durable_broker_config \<Rightarrow> (db_op \<Rightarrow> durable_broker \<times> fs \<Rightarrow> bool) \<Rightarrow> process \<Rightarrow> bool" where
  "proc_good E config P s \<longleftrightarrow>
     \<not> proc_poisoned s \<and> db_run E config P (proc_state s) \<and> recorded (proc_metrics s)"

lemma proc_good_weaken: "proc_good E config P s \<Longrightarrow> proc_good E config any_step s"
  using db_run_weaken[of E config P "proc_state s" any_step] by (simp add: proc_good_def)

definition proc_room :: "process \<Rightarrow> bool" where
  "proc_room s \<longleftrightarrow> db_has_room (proc_broker s)"

definition proc_follows :: "durable_env \<Rightarrow> process \<Rightarrow> process \<Rightarrow> bool" where
  "proc_follows E s s' \<longleftrightarrow> db_steps E (proc_state s) (proc_state s')"

interpretation proc: process_order "proc_good E config P" proc_room "proc_follows E" for E config P
  by unfold_locales
    (auto simp: proc_good_def proc_follows_def intro: db_steps.none db_steps_trans)

lemma counted_orderly:
  assumes env: "env_ok E config" and ok: "db_op_ok x" and perm: "\<And>s. P x s"
    and op: "\<And>b fs. snd (operation b fs) = db_apply E x (b, fs)"
    and out: "\<And>b fs. fst (operation b fs) = Panicked \<Longrightarrow> db_outcome E x (b, fs) = Panicked"
    and obs: "\<And>a r. recorded r \<Longrightarrow> recorded (observe a r)"
  shows "proc.orderly E config P (counted observe operation)"
proof (rule proc.orderlyI)
  fix s r s' assume g: "proc_good E config P s" and room: "proc_room s" and run: "counted observe operation s = (r, s')"
  obtain b' fs' where o: "operation (proc_broker s) (proc_fs s) = (r, b', fs')"
    and s': "s' = s\<lparr>proc_broker := b', proc_fs := fs', proc_metrics := observe r (proc_metrics s)\<rparr>"
    using run by (auto simp: counted_def split: prod.splits)
  have app: "db_apply E x (proc_state s) = (b', fs')" using op[of "proc_broker s" "proc_fs s"] o by simp
  from g have r: "db_run E config P (proc_state s)" by (simp add: proc_good_def)
  obtain M where M: "implements E config (proc_state s) M" using run_implements[OF db_run_weaken[OF r] env] by blast
  have room': "db_has_room (fst (proc_state s))" using room by (simp add: proc_room_def)
  have np: "r \<noteq> Panicked"
    using step_implements[OF M ok room'] out[of "proc_broker s" "proc_fs s"] o by (metis fst_conv)
  have "db_run E config P (b', fs')" using db_run.operation[OF r ok room' perm] app by simp
  moreover have "db_steps E (proc_state s) (b', fs')"
    using db_steps.another[OF db_steps.none ok room', of E] app by simp
  ultimately show "r \<noteq> Panicked \<and> proc_good E config P s' \<and> proc_follows E s s'"
    using np g obs by (simp add: proc_good_def proc_follows_def s')
qed

lemma broker_orderly [intro]:
  assumes env: "env_ok E config"
  shows "tc_partition_count (ctc_config c1) \<noteq> 0 \<Longrightarrow> (\<And>s. P (DbCreateTopic sio c1) s) \<Longrightarrow> proc.orderly E config P (broker_create_topic E sio c1)"
    and "io_recovers io \<Longrightarrow> (\<And>s. P (DbPublish io c2) s) \<Longrightarrow> proc.orderly E config P (broker_publish E io c2)"
    and "(\<And>s. P (DbConsume sio c3) s) \<Longrightarrow> proc.orderly E config P (broker_consume E sio c3)"
    and "(\<And>s. P (DbAck sio c4) s) \<Longrightarrow> proc.orderly E config P (broker_ack E sio c4)"
    and "(\<And>s. P (DbNack sio c5) s) \<Longrightarrow> proc.orderly E config P (broker_nack E sio c5)"
    and "(\<And>s. P (DbRetryReady sio now) s) \<Longrightarrow> proc.orderly E config P (broker_retry_ready E sio now)"
proof -
  show "tc_partition_count (ctc_config c1) \<noteq> 0 \<Longrightarrow> (\<And>s. P (DbCreateTopic sio c1) s) \<Longrightarrow> proc.orderly E config P (broker_create_topic E sio c1)"
    unfolding broker_create_topic_def
    by (rule counted_orderly[OF env, of "DbCreateTopic sio c1"]) (auto simp: observed_recorded)
  show "io_recovers io \<Longrightarrow> (\<And>s. P (DbPublish io c2) s) \<Longrightarrow> proc.orderly E config P (broker_publish E io c2)"
    unfolding broker_publish_def
    by (rule counted_orderly[OF env, of "DbPublish io c2"]) (auto simp: observed_recorded)
  show "(\<And>s. P (DbConsume sio c3) s) \<Longrightarrow> proc.orderly E config P (broker_consume E sio c3)"
    unfolding broker_consume_def
    by (rule counted_orderly[OF env, of "DbConsume sio c3"]) (auto simp: observed_recorded)
  show "(\<And>s. P (DbAck sio c4) s) \<Longrightarrow> proc.orderly E config P (broker_ack E sio c4)"
    unfolding broker_ack_def
    by (rule counted_orderly[OF env, of "DbAck sio c4"]) (auto simp: observed_recorded)
  show "(\<And>s. P (DbRetryReady sio now) s) \<Longrightarrow> proc.orderly E config P (broker_retry_ready E sio now)"
    unfolding broker_retry_ready_def
    by (rule counted_orderly[OF env, of "DbRetryReady sio now"]) (auto simp: observed_recorded)
  show "proc.orderly E config P (broker_nack E sio c5)" if "\<And>s. P (DbNack sio c5) s"
  proof -
    have "proc.orderly E config P (counted (observe_nack d) (db_nack E sio c5))" for d
      by (rule counted_orderly[OF env, of "DbNack sio c5"]) (auto simp: observed_recorded that)
    then show ?thesis by (simp add: proc.orderly_def broker_nack_def)
  qed
qed

lemma retry_ready_steady: "proc.steady E config P (broker_retry_ready E sio now)"
proof -
  have "db_topics b' = db_topics b" if "db_retry_ready E sio now b fs = (r, b', fs')" for b fs r b' fs'
    using retry_ready_topics[of E sio now b fs] that by simp
  then show ?thesis
    by (auto simp: proc.steady_def broker_retry_ready_def counted_def proc_room_def db_has_room_def split: prod.splits)
qed

end
