(* ===== verification/Data_Plane.thy ===== *)
theory Data_Plane
  imports Broker_Process
begin

text \<open>
  \<^verbatim>\<open>msg-data-plane/src/lib.rs\<close>: the gRPC service in front of the durable broker. The messages of
  \<^verbatim>\<open>dataplane.proto\<close> are records with the fields of the proto file, a \<^verbatim>\<open>tonic::Status\<close> is its code and
  its message. A handler takes the request and the process and returns the response or the status with
  the process it leaves; the outcome of each write and the reading of the system clock are arguments.
\<close>

section \<open>Messages of the protocol\<close>

record publish_request =
  prq_topic :: rstring
  prq_message_id :: rstring
  prq_key :: rstring
  prq_payload :: bytes
  prq_content_type :: rstring
  prq_type :: rstring
  prq_source :: rstring
  prq_subject :: rstring
  prq_idempotency_key :: rstring
  prq_time_unix_ms :: u64

record publish_response =
  prs_topic :: rstring
  prs_partition :: u32
  prs_offset :: u64
  prs_message_id :: rstring
  prs_deduplicated :: bool

record consume_request =
  crq_topic :: rstring
  crq_consumer_group :: rstring
  crq_consumer_id :: rstring
  crq_max_messages :: u32
  crq_lease_ms :: u64
  crq_now_unix_ms :: u64

record proto_consumed_message =
  cms_delivery_id :: rstring
  cms_topic :: rstring
  cms_partition :: u32
  cms_offset :: u64
  cms_message_id :: rstring
  cms_key :: rstring
  cms_payload :: bytes
  cms_content_type :: rstring
  cms_type :: rstring
  cms_source :: rstring
  cms_subject :: rstring
  cms_idempotency_key :: rstring
  cms_time_unix_ms :: u64
  cms_consumer_group :: rstring
  cms_consumer_id :: rstring
  cms_attempt_number :: u32
  cms_delivered_at_unix_ms :: u64
  cms_lease_expires_at_unix_ms :: u64

record consume_response =
  crs_messages :: "proto_consumed_message list"

record ack_request =
  arq_delivery_id :: rstring
  arq_consumer_id :: rstring

record nack_request =
  nrq_delivery_id :: rstring
  nrq_consumer_id :: rstring
  nrq_reason :: rstring

section \<open>Statuses\<close>

datatype code =
    CodeOk | Cancelled | Unknown | InvalidArgument | DeadlineExceeded | NotFound | AlreadyExists
  | PermissionDenied | ResourceExhausted | FailedPrecondition | Aborted | OutOfRange | Unimplemented
  | Internal | Unavailable | DataLoss | Unauthenticated

record status =
  status_code :: code
  status_message :: rstring

type_synonym 'a rpc_result = "(status, 'a) rres"

definition Status_new :: "code \<Rightarrow> rstring \<Rightarrow> status" where
  "Status_new c message = \<lparr>status_code = c, status_message = message\<rparr>"

fun grpc_code :: "code \<Rightarrow> string" where
  "grpc_code CodeOk = ''ok''"
| "grpc_code Cancelled = ''cancelled''"
| "grpc_code Unknown = ''unknown''"
| "grpc_code InvalidArgument = ''invalid_argument''"
| "grpc_code DeadlineExceeded = ''deadline_exceeded''"
| "grpc_code NotFound = ''not_found''"
| "grpc_code AlreadyExists = ''already_exists''"
| "grpc_code PermissionDenied = ''permission_denied''"
| "grpc_code ResourceExhausted = ''resource_exhausted''"
| "grpc_code FailedPrecondition = ''failed_precondition''"
| "grpc_code Aborted = ''aborted''"
| "grpc_code OutOfRange = ''out_of_range''"
| "grpc_code Unimplemented = ''unimplemented''"
| "grpc_code Internal = ''internal''"
| "grpc_code Unavailable = ''unavailable''"
| "grpc_code DataLoss = ''data_loss''"
| "grpc_code Unauthenticated = ''unauthenticated''"

definition invalid_argument :: "domain_error \<Rightarrow> status" where
  "invalid_argument error = Status_new InvalidArgument (domain_error_to_string error)"

fun status_from_broker :: "broker_error \<Rightarrow> status" where
  "status_from_broker (Domain error) = Status_new InvalidArgument (domain_error_to_string error)"
| "status_from_broker (TopicAlreadyExists t) = Status_new AlreadyExists (str ''topic already exists'')"
| "status_from_broker (TopicNotFound t) = Status_new NotFound (str ''topic not found'')"
| "status_from_broker (DeliveryNotFound d) = Status_new NotFound (str ''delivery not found'')"
| "status_from_broker (InvalidConsumer d e a) =
     Status_new FailedPrecondition (str ''invalid delivery ownership'')"
| "status_from_broker (InvalidConfig field reason) =
     Status_new InvalidArgument (str field @ [32] @ str reason)"
| "status_from_broker (IdempotencyKeyConflict t) =
     Status_new AlreadyExists (str ''idempotency key conflict'')"

fun status_from_durable :: "durable_broker_error \<Rightarrow> status" where
  "status_from_durable (DBroker error) = status_from_broker error"
| "status_from_durable (DStorage e) = Status_new Internal (str ''internal broker error'')"
| "status_from_durable (DIo e) = Status_new Internal (str ''internal broker error'')"
| "status_from_durable DSerde = Status_new Internal (str ''internal broker error'')"
| "status_from_durable (StateCorruption p line reason) = Status_new Internal (str ''internal broker error'')"
| "status_from_durable (Corruption reason) = Status_new Internal (str ''internal broker error'')"

section \<open>Validation\<close>

definition rpc_topic_name :: "rstring \<Rightarrow> topic_name rpc_result" where
  "rpc_topic_name v = map_err invalid_argument (TopicName_new v)"

definition rpc_message_id :: "rstring \<Rightarrow> message_id rpc_result" where
  "rpc_message_id v = map_err invalid_argument (MessageId_new v)"

definition rpc_event_source :: "rstring \<Rightarrow> event_source rpc_result" where
  "rpc_event_source v = map_err invalid_argument (EventSource_new v)"

definition rpc_event_type :: "rstring \<Rightarrow> event_type rpc_result" where
  "rpc_event_type v = map_err invalid_argument (EventType_new v)"

definition rpc_content_type :: "rstring \<Rightarrow> content_type rpc_result" where
  "rpc_content_type v = map_err invalid_argument (ContentType_new v)"

definition rpc_consumer_group_id :: "rstring \<Rightarrow> consumer_group_id rpc_result" where
  "rpc_consumer_group_id v = map_err invalid_argument (ConsumerGroupId_new v)"

definition rpc_consumer_id :: "rstring \<Rightarrow> consumer_id rpc_result" where
  "rpc_consumer_id v = map_err invalid_argument (ConsumerId_new v)"

definition rpc_delivery_id :: "rstring \<Rightarrow> delivery_id rpc_result" where
  "rpc_delivery_id v = map_err invalid_argument (DeliveryId_new v)"

definition optional :: "(rstring \<Rightarrow> 'a domain_result) \<Rightarrow> rstring \<Rightarrow> 'a option rpc_result" where
  "optional parse v = (if trim v = [] then Ok None else map_err invalid_argument (map_ok Some (parse v)))"

definition optional_partition_key :: "rstring \<Rightarrow> partition_key option rpc_result" where
  "optional_partition_key v = optional PartitionKey_new v"

definition optional_subject :: "rstring \<Rightarrow> event_subject option rpc_result" where
  "optional_subject v = optional EventSubject_new v"

definition optional_idempotency_key :: "rstring \<Rightarrow> idempotency_key option rpc_result" where
  "optional_idempotency_key v = optional IdempotencyKey_new v"

definition max_messages :: "u32 \<Rightarrow> nat rpc_result" where
  "max_messages v =
     (if v = 0 then Err (Status_new InvalidArgument (str ''max_messages must be greater than zero''))
      else Ok (unat v))"

definition lease_ms :: "u64 \<Rightarrow> u64 rpc_result" where
  "lease_ms v =
     (if v = 0 then Err (Status_new InvalidArgument (str ''lease_ms must be greater than zero'')) else Ok v)"

text \<open>
  The system clock is the number of milliseconds since the epoch, \<^verbatim>\<open>None\<close> when it stands before it.
\<close>

definition current_unix_millis :: "nat option \<Rightarrow> message_timestamp" where
  "current_unix_millis clock =
     MessageTimestamp (case clock of None \<Rightarrow> 0 | Some millis \<Rightarrow> of_nat (min millis (2 ^ 64 - 1)))"

section \<open>Conversions\<close>

definition publish_envelope :: "publish_request \<Rightarrow> message_envelope rpc_result" where
  "publish_envelope request =
     rbind (rpc_message_id (prq_message_id request)) (\<lambda>mid.
     rbind (rpc_event_source (prq_source request)) (\<lambda>source.
     rbind (rpc_event_type (prq_type request)) (\<lambda>event_type.
     rbind (rpc_content_type (prq_content_type request)) (\<lambda>content_type.
     (let timestamp = MessageTimestamp (prq_time_unix_ms request);
          payload = MessagePayload (prq_payload request);
          builder0 = MessageEnvelope_builder mid source event_type content_type timestamp payload in
      rbind (optional_subject (prq_subject request)) (\<lambda>subject.
      let builder1 = (case subject of None \<Rightarrow> builder0 | Some s \<Rightarrow> builder_subject s builder0) in
      rbind (optional_partition_key (prq_key request)) (\<lambda>key.
      let builder2 = (case key of None \<Rightarrow> builder1 | Some k \<Rightarrow> builder_partition_key k builder1) in
      rbind (optional_idempotency_key (prq_idempotency_key request)) (\<lambda>idempotency_key.
      let builder3 = (case idempotency_key of None \<Rightarrow> builder2 | Some k \<Rightarrow> builder_idempotency_key k builder2) in
      Ok (builder_build builder3)))))))))"

definition consumed_message :: "consumed_message \<Rightarrow> proto_consumed_message" where
  "consumed_message message =
     (let envelope = cm_envelope message in
      \<lparr>cms_delivery_id = did_str (cm_delivery_id message),
       cms_topic = tn_str (cm_topic message),
       cms_partition = pid_value (cm_partition_id message),
       cms_offset = offset_value (cm_offset message),
       cms_message_id = mid_str (env_id envelope),
       cms_key = (case env_partition_key envelope of None \<Rightarrow> [] | Some key \<Rightarrow> pk_str key),
       cms_payload = payload_bytes (env_payload envelope),
       cms_content_type = ct_str (env_content_type envelope),
       cms_type = et_str (env_event_type envelope),
       cms_source = es_str (env_source envelope),
       cms_subject = (case env_subject envelope of None \<Rightarrow> [] | Some subject \<Rightarrow> esub_str subject),
       cms_idempotency_key = (case env_idempotency_key envelope of None \<Rightarrow> [] | Some key \<Rightarrow> ik_str key),
       cms_time_unix_ms = as_unix_millis (env_timestamp envelope),
       cms_consumer_group = cg_str (cm_consumer_group_id message),
       cms_consumer_id = ci_str (cm_consumer_id message),
       cms_attempt_number = cm_attempt_number message,
       cms_delivered_at_unix_ms = as_unix_millis (cm_delivered_at message),
       cms_lease_expires_at_unix_ms = as_unix_millis (cm_lease_expires_at message)\<rparr>)"

section \<open>The handlers\<close>

definition rpc_with_broker :: "(durable_broker_error, 'a) action \<Rightarrow> (status, 'a) action" where
  "rpc_with_broker operation =
     locked (Status_new Unavailable (str ''durable broker state is not currently accessible''))
       (map_action (map_err status_from_durable) operation)"

definition publish_inner ::
  "durable_env \<Rightarrow> io_outcome \<Rightarrow> publish_request \<Rightarrow> (status, publish_response) action" where
  "publish_inner E io request =
     checked (rpc_topic_name (prq_topic request)) (\<lambda>topic.
     checked (publish_envelope request) (\<lambda>envelope.
     and_then (rpc_with_broker (broker_publish E io \<lparr>pc_topic = topic, pc_envelope = envelope\<rparr>))
       (\<lambda>published. (\<lambda>s. (Ok \<lparr>prs_topic = tn_str (pm_topic published),
           prs_partition = pid_value (pm_partition_id published),
           prs_offset = offset_value (pm_offset published),
           prs_message_id = mid_str (pm_message_id published),
           prs_deduplicated = pm_deduplicated published\<rparr>, s)))))"

definition consume_inner ::
  "durable_env \<Rightarrow> state_io \<Rightarrow> state_io \<Rightarrow> consume_request \<Rightarrow> (status, consume_response) action" where
  "consume_inner E sio_retry sio_consume request =
     checked (rpc_topic_name (crq_topic request)) (\<lambda>topic.
     checked (rpc_consumer_group_id (crq_consumer_group request)) (\<lambda>group.
     checked (rpc_consumer_id (crq_consumer_id request)) (\<lambda>consumer.
     checked (max_messages (crq_max_messages request)) (\<lambda>maximum.
     checked (lease_ms (crq_lease_ms request)) (\<lambda>lease.
     (let now = MessageTimestamp (crq_now_unix_ms request) in
      checked (map_err status_from_broker
                (ConsumeCommand_with_lease_millis topic group consumer maximum now lease)) (\<lambda>command.
      and_then
        (rpc_with_broker
          (and_then (pure_action (db_get_topic (cc_topic command))) (\<lambda>_.
           and_then (broker_retry_ready E sio_retry now) (\<lambda>_.
           broker_consume E sio_consume command))))
        (\<lambda>messages. (\<lambda>s. (Ok \<lparr>crs_messages = map consumed_message messages\<rparr>, s))))))))))"

definition ack_inner :: "durable_env \<Rightarrow> state_io \<Rightarrow> nat option \<Rightarrow> ack_request \<Rightarrow> (status, unit) action" where
  "ack_inner E sio clock request =
     checked (rpc_delivery_id (arq_delivery_id request)) (\<lambda>did.
     checked (rpc_consumer_id (arq_consumer_id request)) (\<lambda>consumer.
     rpc_with_broker (broker_ack E sio
       \<lparr>ac_delivery_id = did, ac_consumer_id = consumer, ac_timestamp = current_unix_millis clock\<rparr>)))"

definition nack_inner :: "durable_env \<Rightarrow> state_io \<Rightarrow> nat option \<Rightarrow> nack_request \<Rightarrow> (status, unit) action" where
  "nack_inner E sio clock request =
     checked (rpc_delivery_id (nrq_delivery_id request)) (\<lambda>did.
     checked (rpc_consumer_id (nrq_consumer_id request)) (\<lambda>consumer.
     (let timestamp = current_unix_millis clock;
          command = (if trim (nrq_reason request) = [] then NackCommand_new did consumer timestamp
                     else NackCommand_with_reason did consumer (nrq_reason request) timestamp) in
      rpc_with_broker (broker_nack E sio command))))"

definition record_rpc_error :: "string \<Rightarrow> status \<Rightarrow> registry \<Rightarrow> registry" where
  "record_rpc_error method st r =
     (let c = grpc_code (status_code st) in record_data_rpc_error method c (record_data_rpc_request method c r))"

text \<open>What a handler counts once it has its result.\<close>

definition count_rpc ::
  "string \<Rightarrow> ('a \<Rightarrow> registry \<Rightarrow> registry) \<Rightarrow> (string \<Rightarrow> registry \<Rightarrow> registry) \<Rightarrow> 'a rpc_result \<Rightarrow> registry \<Rightarrow> registry" where
  "count_rpc method delivered record_status result r =
     (case result of
        Ok response \<Rightarrow> delivered response (record_status ''success'' (record_data_rpc_request method ''ok'' r))
      | Err st \<Rightarrow> record_status ''error'' (record_rpc_error method st r)
      | Panicked \<Rightarrow> r)"

definition rpc_publish ::
  "durable_env \<Rightarrow> io_outcome \<Rightarrow> publish_request \<Rightarrow> (status, publish_response) action" where
  "rpc_publish E io request =
     observed (count_rpc ''Publish'' (\<lambda>_ r. r) record_data_publish) (publish_inner E io request)"

definition rpc_consume ::
  "durable_env \<Rightarrow> state_io \<Rightarrow> state_io \<Rightarrow> consume_request \<Rightarrow> (status, consume_response) action" where
  "rpc_consume E sio_retry sio_consume request =
     observed (count_rpc ''Consume'' (\<lambda>response. record_data_messages_delivered (length (crs_messages response)))
         record_data_consume)
       (consume_inner E sio_retry sio_consume request)"

definition rpc_ack :: "durable_env \<Rightarrow> state_io \<Rightarrow> nat option \<Rightarrow> ack_request \<Rightarrow> (status, unit) action" where
  "rpc_ack E sio clock request = observed (count_rpc ''Ack'' (\<lambda>_ r. r) record_data_ack) (ack_inner E sio clock request)"

definition rpc_nack :: "durable_env \<Rightarrow> state_io \<Rightarrow> nat option \<Rightarrow> nack_request \<Rightarrow> (status, unit) action" where
  "rpc_nack E sio clock request = observed (count_rpc ''Nack'' (\<lambda>_ r. r) record_data_nack) (nack_inner E sio clock request)"

section \<open>Opening the service\<close>

definition DEFAULT_MAX_SEGMENT_BYTES :: u64 where
  "DEFAULT_MAX_SEGMENT_BYTES = 64 * 1024 * 1024"

datatype data_plane_error = OpenState durable_broker_error

definition open_service :: "durable_env \<Rightarrow> path \<Rightarrow> fs \<Rightarrow> (data_plane_error, process) rres" where
  "open_service E data_dir fs =
     (case BrokerConfig_default of
        Ok broker_config \<Rightarrow>
          map_err OpenState (fst (broker_open E
            \<lparr>dbc_root_dir = data_dir, dbc_broker_config = broker_config,
             dbc_max_segment_bytes = DEFAULT_MAX_SEGMENT_BYTES\<rparr> fs))
      | _ \<Rightarrow> Panicked)"

end
