(* ===== verification/Postgres_Models.thy ===== *)
theory Postgres_Models
  imports Storage Durable_State
begin

text \<open>
  \<^verbatim>\<open>msg-postgres\<close>, first part: the errors (\<^verbatim>\<open>lib.rs\<close>), the connection URL (\<^verbatim>\<open>config.rs\<close>), the rows and
  the search query (\<^verbatim>\<open>models.rs\<close>) and the schema migrations (\<^verbatim>\<open>migrations.rs\<close>).

  A signed column is an \<^verbatim>\<open>int\<close> that a checked conversion keeps in its range, a \<^verbatim>\<open>DateTime\<close> is its
  milliseconds, the \<^verbatim>\<open>f32\<close> rank its bits, an \<^verbatim>\<open>sqlx::Error\<close> its text. Parameters are what lies outside
  the repository: SHA-256 and \<^verbatim>\<open>hex\<close>, the range of \<^verbatim>\<open>chrono\<close>, the Unicode class of
  \<^verbatim>\<open>is_alphanumeric\<close>, URL parsing, JSON, and running an SQL script.
\<close>

section \<open>Errors\<close>

datatype postgres_error =
    MissingDatabaseUrl
  | InvalidDatabaseUrl
  | ConnectionFailed rstring
  | MigrationFailed string rstring
  | InconsistentMigrationMetadata
  | QueryFailed string rstring
  | ProjectionRunNotFound int
  | ProjectionFailed rstring
  | MessageIdConflict rstring
  | ProjectionValueOutOfRange string
  | InvalidProjectionSource
  | EmptySearchQuery
  | InvalidSearchLimit
  | SearchResultSerializationFailed rstring
  | PgIo rstring
  | BrokerRecovery durable_broker_error
  | PgStorage storage_error

type_synonym 'a pg_result = "(postgres_error, 'a) rres"

definition dec_int :: "int \<Rightarrow> rstring" where
  "dec_int n = (if n < 0 then 45 # dec (nat (- n)) else dec (nat n))"

fun postgres_error_to_string :: "postgres_error \<Rightarrow> rstring" where
  "postgres_error_to_string MissingDatabaseUrl =
     str ''missing database URL; set --database-url or FERRUMQ_DATABASE_URL''"
| "postgres_error_to_string InvalidDatabaseUrl = str ''invalid database URL''"
| "postgres_error_to_string (ConnectionFailed source) = str ''database connection failed''"
| "postgres_error_to_string (MigrationFailed operation source) =
     str ''database migration failed during '' @ str operation"
| "postgres_error_to_string InconsistentMigrationMetadata = str ''database migration metadata is inconsistent''"
| "postgres_error_to_string (QueryFailed operation source) =
     str ''database query failed during '' @ str operation"
| "postgres_error_to_string (ProjectionRunNotFound run_id) =
     str ''projection run '' @ dec_int run_id @ str '' does not exist''"
| "postgres_error_to_string (ProjectionFailed reason) = str ''projection failed: '' @ reason"
| "postgres_error_to_string (MessageIdConflict topic) =
     str ''message_id conflict for topic '' @ [39] @ topic @ [39]"
| "postgres_error_to_string (ProjectionValueOutOfRange field) =
     str ''projection data is outside the PostgreSQL range for '' @ str field"
| "postgres_error_to_string InvalidProjectionSource = str ''projection source layout is invalid''"
| "postgres_error_to_string EmptySearchQuery =
     str ''search query must contain at least one alphanumeric character''"
| "postgres_error_to_string InvalidSearchLimit = str ''search limit must be between 1 and 100''"
| "postgres_error_to_string (SearchResultSerializationFailed source) = str ''search result serialization failed''"
| "postgres_error_to_string (PgIo source) = str ''projection source I/O failed''"
| "postgres_error_to_string (BrokerRecovery source) = str ''broker recovery failed while reading projection source''"
| "postgres_error_to_string (PgStorage source) = str ''storage recovery failed while reading projection source''"

section \<open>The connection URL\<close>

record parsed_url =
  url_scheme :: rstring
  url_username :: rstring
  url_password :: "rstring option"
  url_host_str :: "rstring option"
  url_port :: "u16 option"
  url_path :: rstring
  url_query :: "rstring option"

definition PostgresConfig_from_url ::
  "(rstring \<Rightarrow> parsed_url option) \<Rightarrow> rstring option \<Rightarrow> rstring pg_result" where
  "PostgresConfig_from_url parse url =
     (case url of
        None \<Rightarrow> Err MissingDatabaseUrl
      | Some v \<Rightarrow>
          (if trim v = [] then Err MissingDatabaseUrl
           else
             (case parse (trim v) of
                None \<Rightarrow> Err InvalidDatabaseUrl
              | Some parsed \<Rightarrow>
                  (if url_scheme parsed \<noteq> str ''postgres'' \<and> url_scheme parsed \<noteq> str ''postgresql''
                   then Err InvalidDatabaseUrl else Ok (trim v)))))"

definition non_blank :: "rstring option \<Rightarrow> rstring option" where
  "non_blank v = (case v of None \<Rightarrow> None | Some u \<Rightarrow> if trim u = [] then None else Some u)"

definition PostgresConfig_from_env_or_flag ::
  "(rstring \<Rightarrow> parsed_url option) \<Rightarrow> rstring option \<Rightarrow> rstring option \<Rightarrow> rstring pg_result" where
  "PostgresConfig_from_env_or_flag parse env_var cli_url =
     PostgresConfig_from_url parse
       (case non_blank cli_url of Some u \<Rightarrow> Some u | None \<Rightarrow> non_blank env_var)"

definition sanitize_database_url :: "(rstring \<Rightarrow> parsed_url option) \<Rightarrow> rstring \<Rightarrow> rstring" where
  "sanitize_database_url parse url =
     (case parse url of
        None \<Rightarrow> str ''<invalid PostgreSQL target>''
      | Some parsed \<Rightarrow>
          url_scheme parsed @ str ''://'' @
          (if url_username parsed \<noteq> []
           then url_username parsed @ (if url_password parsed \<noteq> None then str '':***'' else []) @ str ''@''
           else []) @
          (case url_host_str parsed of
             None \<Rightarrow> []
           | Some host \<Rightarrow> if 58 \<in> set host then [91] @ host @ [93] else host) @
          (case url_port parsed of None \<Rightarrow> [] | Some port \<Rightarrow> [58] @ dec (unat port)) @
          url_path parsed @ (if url_path parsed = [] then [47] else []))"

section \<open>Rows\<close>

record topic_row =
  tr_name :: rstring
  tr_partitions :: int
  tr_first_seen_at :: int
  tr_last_seen_at :: int

record message_row =
  mrow_topic :: rstring
  mrow_partition_id :: int
  mrow_offset :: int
  mrow_message_id :: rstring
  mrow_idempotency_key :: "rstring option"
  mrow_partition_key :: "rstring option"
  mrow_payload_len :: int
  mrow_payload_sha256 :: rstring
  mrow_content_type :: rstring
  mrow_event_type :: rstring
  mrow_source :: rstring
  mrow_subject :: "rstring option"
  mrow_headers :: "(rstring, rstring) btree_map"
  mrow_time_unix_ms :: int

record projection_result =
  prj_topics_count :: nat
  prj_messages_count :: nat

record search_query =
  sq_query :: rstring
  sq_topic :: "rstring option"
  sq_limit :: u32

record search_result =
  sr_topic :: rstring
  sr_partition_id :: int
  sr_offset :: int
  sr_message_id :: rstring
  sr_event_type :: rstring
  sr_source :: rstring
  sr_subject :: "rstring option"
  sr_content_type :: rstring
  sr_time_unix_ms :: int
  sr_payload_len :: int
  sr_payload_sha256 :: rstring
  sr_rank :: u32

record pg_env =
  pg_sha :: "bytes \<Rightarrow> bytes"
  pg_hex :: "bytes \<Rightarrow> rstring"
  pg_datetime_ok :: "int \<Rightarrow> bool"

definition validate_search_query_text :: "(nat \<Rightarrow> bool) \<Rightarrow> rstring \<Rightarrow> unit pg_result" where
  "validate_search_query_text alphanumeric query =
     (let trimmed = trim query in
      if trimmed = [] then Err EmptySearchQuery
      else if \<not> list_ex alphanumeric trimmed then Err EmptySearchQuery
      else Ok ())"

definition SearchQuery_new ::
  "(nat \<Rightarrow> bool) \<Rightarrow> rstring \<Rightarrow> rstring option \<Rightarrow> u32 \<Rightarrow> search_query pg_result" where
  "SearchQuery_new alphanumeric query topic limit =
     rbind (validate_search_query_text alphanumeric query) (\<lambda>_.
       if \<not> (1 \<le> limit \<and> limit \<le> 100) then Err InvalidSearchLimit
       else Ok \<lparr>sq_query = query, sq_topic = topic, sq_limit = limit\<rparr>)"

definition serialize_search_results_json ::
  "(search_result list \<Rightarrow> (rstring, rstring) rres) \<Rightarrow> search_result list \<Rightarrow> rstring pg_result" where
  "serialize_search_results_json to_string_pretty results =
     map_err SearchResultSerializationFailed (to_string_pretty results)"

definition compute_payload_sha256 :: "pg_env \<Rightarrow> bytes \<Rightarrow> rstring" where
  "compute_payload_sha256 P payload = pg_hex P (pg_sha P payload)"

definition i32_try_from :: "nat \<Rightarrow> int option" where
  "i32_try_from n = (if n < 2 ^ 31 then Some (int n) else None)"

definition i64_try_from :: "nat \<Rightarrow> int option" where
  "i64_try_from n = (if n < 2 ^ 63 then Some (int n) else None)"

definition envelope_headers_to_json :: "message_headers \<Rightarrow> (rstring, rstring) btree_map" where
  "envelope_headers_to_json headers = fold (\<lambda>(name, v). bt_insert (hn_str name) (hv_str v)) headers []"

definition record_to_message_row :: "pg_env \<Rightarrow> stored_message_record \<Rightarrow> message_row pg_result" where
  "record_to_message_row P record =
     (let envelope = smr_envelope record;
          headers = envelope_headers_to_json (env_headers envelope) in
      rbind (ok_or (i32_try_from (unat (pid_value (smr_partition record))))
              (ProjectionValueOutOfRange ''partition_id'')) (\<lambda>partition_id.
      rbind (ok_or (i64_try_from (unat (offset_value (smr_offset record))))
              (ProjectionValueOutOfRange ''message_offset'')) (\<lambda>off.
      rbind (ok_or (i64_try_from (length (payload_bytes (env_payload envelope))))
              (ProjectionValueOutOfRange ''payload_len'')) (\<lambda>payload_len.
      rbind (ok_or (i64_try_from (unat (as_unix_millis (env_timestamp envelope))))
              (ProjectionValueOutOfRange ''time_unix_ms'')) (\<lambda>time_unix_ms.
      Ok \<lparr>mrow_topic = tn_str (smr_topic record), mrow_partition_id = partition_id, mrow_offset = off,
          mrow_message_id = mid_str (env_id envelope),
          mrow_idempotency_key = map_option ik_str (env_idempotency_key envelope),
          mrow_partition_key = map_option pk_str (env_partition_key envelope),
          mrow_payload_len = payload_len,
          mrow_payload_sha256 = compute_payload_sha256 P (payload_bytes (env_payload envelope)),
          mrow_content_type = ct_str (env_content_type envelope),
          mrow_event_type = et_str (env_event_type envelope),
          mrow_source = es_str (env_source envelope),
          mrow_subject = map_option esub_str (env_subject envelope),
          mrow_headers = headers, mrow_time_unix_ms = time_unix_ms\<rparr>)))))"

text \<open>\<^verbatim>\<open>parts.join(" ")\<close>.\<close>

fun join_with :: "rstring \<Rightarrow> rstring list \<Rightarrow> rstring" where
  "join_with sep [] = []"
| "join_with sep [s] = s"
| "join_with sep (s # t # ss) = s @ sep @ join_with sep (t # ss)"

definition compute_search_text :: "message_row \<Rightarrow> rstring" where
  "compute_search_text row =
     join_with [32]
       ([mrow_message_id row, mrow_topic row, mrow_event_type row, mrow_source row] @
        (case mrow_subject row of None \<Rightarrow> [] | Some subject \<Rightarrow> [subject]) @ [mrow_content_type row])"

section \<open>Migrations\<close>

text \<open>
  A failure of a statement other than a script ends the transaction in the same way and is left out.
  The rows of \<^verbatim>\<open>_ferrumq_migrations\<close> in the order of their versions, and whatever the scripts act
  on. A column that cannot be read is \<^verbatim>\<open>None\<close>. Running a script is the parameter \<^verbatim>\<open>run_script\<close>; the rows
  inserted and the effect of the scripts become visible together, when the transaction commits.
\<close>

type_synonym migration_row = "int option \<times> rstring option"

definition MIGRATIONS :: "rstring list" where
  "MIGRATIONS = [str ''001_initial_schema'', str ''002_full_text_search'']"

fun validate_rows_from :: "nat \<Rightarrow> migration_row list \<Rightarrow> unit pg_result" where
  "validate_rows_from i [] = Ok ()"
| "validate_rows_from i ((version, name) # rows) =
     (case i32_try_from (i + 1) of
        None \<Rightarrow> Err InconsistentMigrationMetadata
      | Some expected_version \<Rightarrow>
          (case (version, name) of
             (Some v, Some n) \<Rightarrow>
               (if v \<noteq> expected_version \<or> n \<noteq> MIGRATIONS ! i then Err InconsistentMigrationMetadata
                else validate_rows_from (i + 1) rows)
           | _ \<Rightarrow> Err InconsistentMigrationMetadata))"

definition validate_applied_migrations :: "migration_row list \<Rightarrow> unit pg_result" where
  "validate_applied_migrations rows =
     (if length MIGRATIONS < length rows then Err InconsistentMigrationMetadata else validate_rows_from 0 rows)"

fun apply_migrations ::
  "(rstring \<Rightarrow> 's \<Rightarrow> rstring + 's) \<Rightarrow> nat \<Rightarrow> rstring list \<Rightarrow> migration_row list \<times> 's \<Rightarrow> (migration_row list \<times> 's) pg_result" where
  "apply_migrations run_script i [] (rows, s) = Ok (rows, s)"
| "apply_migrations run_script i (name # names) (rows, s) =
     (case i32_try_from (i + 1) of
        None \<Rightarrow> Err InconsistentMigrationMetadata
      | Some version \<Rightarrow>
          (case run_script name s of
             Inl source \<Rightarrow> Err (MigrationFailed ''migration SQL'' source)
           | Inr s1 \<Rightarrow> apply_migrations run_script (i + 1) names (rows @ [(Some version, Some name)], s1)))"

definition run_migrations ::
  "(rstring \<Rightarrow> 's \<Rightarrow> rstring + 's) \<Rightarrow> migration_row list \<times> 's \<Rightarrow> unit pg_result \<times> migration_row list \<times> 's" where
  "run_migrations run_script db =
     (case rbind (validate_applied_migrations (fst db)) (\<lambda>_.
             apply_migrations run_script (length (fst db)) (drop (length (fst db)) MIGRATIONS) db) of
        Ok db' \<Rightarrow> (Ok (), db')
      | Err e \<Rightarrow> (Err e, db)
      | Panicked \<Rightarrow> (Panicked, db))"

section \<open>Lemmas\<close>

lemma validate_search_query_text_Ok:
  "validate_search_query_text alphanumeric q = Ok () \<longleftrightarrow> (\<exists>c\<in>set (trim q). alphanumeric c)"
  by (auto simp: validate_search_query_text_def Let_def list_ex_iff)

lemma SearchQuery_new_Ok:
  "SearchQuery_new alphanumeric q t limit = Ok sq \<longleftrightarrow>
     validate_search_query_text alphanumeric q = Ok () \<and> 1 \<le> limit \<and> limit \<le> 100 \<and>
     sq = \<lparr>sq_query = q, sq_topic = t, sq_limit = limit\<rparr>"
  by (auto simp: SearchQuery_new_def)

text \<open>A URL with a password is shown as if the password were any other.\<close>

lemma sanitize_hides_secrets:
  assumes "parse u = Some p" "parse u' = Some (p\<lparr>url_password := Some pw, url_query := q\<rparr>)" "url_password p \<noteq> None"
  shows "sanitize_database_url parse u' = sanitize_database_url parse u"
  using assms by (simp add: sanitize_database_url_def)

text \<open>A successful migration ends in the same rows, whatever part of the scripts had run before.\<close>

definition migrated :: "migration_row list" where
  "migrated = [(Some 1, Some (str ''001_initial_schema'')), (Some 2, Some (str ''002_full_text_search''))]"

lemma validate_rows_step:
  "validate_rows_from i ((version, name) # rows) = Ok () \<longleftrightarrow>
     version = Some (int (i + 1)) \<and> name = Some (MIGRATIONS ! i) \<and> i + 1 < 2 ^ 31 \<and>
     validate_rows_from (i + 1) rows = Ok ()"
  by (auto simp: i32_try_from_def split: option.splits)

lemma validate_applied_Ok: "validate_applied_migrations rows = Ok () \<longleftrightarrow> rows = take (length rows) migrated"
proof -
  consider "rows = []" | a where "rows = [a]" | a b where "rows = [a, b]" | a b c rs where "rows = a # b # c # rs"
    by (cases rows; cases "tl rows"; cases "tl (tl rows)") auto
  then show ?thesis
    by cases
      (auto simp: validate_applied_migrations_def validate_rows_step migrated_def MIGRATIONS_def
        simp del: validate_rows_from.simps(2))
qed

lemma run_migrations_rows:
  assumes "run_migrations run_script (rows, s) = (Ok (), rows', s')"
  shows "rows' = migrated"
proof -
  have "validate_applied_migrations rows = Ok ()" and
    ap: "apply_migrations run_script (length rows) (drop (length rows) MIGRATIONS) (rows, s) = Ok (rows', s')"
    using assms by (auto simp: run_migrations_def split: rres.splits)
  then have r: "rows = take (length rows) migrated" by (simp add: validate_applied_Ok)
  have "length (take (length rows) migrated) \<le> 2" by (simp add: migrated_def)
  with r have "length rows \<le> 2" by simp
  then consider "length rows = 0" | "length rows = 1" | "length rows = 2" by linarith
  then show ?thesis
    using ap r
    by cases (auto simp: MIGRATIONS_def migrated_def i32_try_from_def split: sum.splits)
qed

lemma run_migrations_again:
  "run_migrations run_script (migrated, s) = (Ok (), migrated, s)"
  by (simp add: run_migrations_def validate_applied_migrations_def migrated_def MIGRATIONS_def i32_try_from_def)

end
