(* ===== verification/Control_Api.thy ===== *)
theory Control_Api
  imports Broker_Process Postgres_Models
begin

text \<open>
  \<^verbatim>\<open>msg-control-api/src/lib.rs\<close>: the HTTP control plane in front of the same shared broker. A request is
  what the router and its extractors hand to a handler, one constructor per route; the JSON of a
  response is the record that is serialised. The search backend is an optional function, as in
  \<^verbatim>\<open>AppState\<close>; a build without the feature \<^verbatim>\<open>postgres\<close> is one where it is absent. Axum itself, its
  rejections of a query string, and the log lines are left out.
\<close>

section \<open>Requests and responses\<close>

datatype json_rejection =
    JsonSyntaxError | JsonDataError | MissingJsonContentType | BytesRejection | OtherJsonRejection

record create_topic_request =
  ctr_name :: rstring
  ctr_partitions :: u32

record search_messages_request =
  smq_query :: rstring
  smq_topic :: "rstring option"
  smq_limit :: "u32 option"

record topic_response =
  trs_name :: rstring
  trs_partitions :: u32

record broker_status_response =
  bsr_mode :: string
  bsr_data_dir :: rstring
  bsr_topics :: nat
  bsr_dlq_entries :: nat

record dlq_entry_response =
  der_topic :: rstring
  der_partition :: u32
  der_offset :: u64
  der_message_id :: rstring
  der_consumer_group_id :: rstring
  der_reason :: rstring
  der_attempt_count :: u32
  der_timestamp :: u64

record search_message_item =
  smi_topic :: rstring
  smi_partition_id :: int
  smi_offset :: rstring
  smi_message_id :: rstring
  smi_event_type :: rstring
  smi_source :: rstring
  smi_subject :: "rstring option"
  smi_content_type :: rstring
  smi_time_unix_ms :: rstring
  smi_payload_len :: int
  smi_payload_sha256 :: rstring
  smi_rank :: u32

record error_body =
  eb_code :: string
  eb_message :: rstring
  eb_status_code :: u16

datatype http_body =
    StatusBody string
  | BrokerStatusBody broker_status_response
  | TopicBody topic_response
  | TopicListBody "topic_response list"
  | DlqListBody "dlq_entry_response list"
  | SearchBody "search_message_item list"
  | MetricsBody string rstring
  | ErrorEnvelope error_body

record http_response =
  hr_status :: u16
  hr_body :: http_body

datatype http_request =
    GetHealth
  | GetMetrics
  | GetReady
  | GetStatus
  | PostTopics "json_rejection + create_topic_request"
  | GetTopics
  | GetTopic rstring
  | GetDlq "rstring option"
  | PostSearch "json_rejection + search_messages_request"
  | UnmatchedRoute
  | OtherMethod

section \<open>Errors\<close>

datatype api_error =
    InvalidRequest rstring
  | ValidationError rstring
  | ApiTopicAlreadyExists rstring
  | ApiTopicNotFound rstring
  | BrokerUnavailable rstring
  | SearchUnavailable rstring
  | MethodNotAllowed rstring
  | RouteNotFound rstring
  | ApiInternal

fun from_json_rejection :: "json_rejection \<Rightarrow> api_error" where
  "from_json_rejection JsonSyntaxError = InvalidRequest (str ''request body must be valid JSON'')"
| "from_json_rejection JsonDataError =
     InvalidRequest (str ''request JSON must include the required fields with valid types'')"
| "from_json_rejection MissingJsonContentType =
     InvalidRequest (str ''content-type must be application/json for this endpoint'')"
| "from_json_rejection BytesRejection = InvalidRequest (str ''request body could not be read'')"
| "from_json_rejection OtherJsonRejection = InvalidRequest (str ''request body is invalid for this endpoint'')"

definition from_domain :: "domain_error \<Rightarrow> api_error" where
  "from_domain error = ValidationError (domain_error_to_string error)"

fun from_durable :: "durable_broker_error \<Rightarrow> api_error" where
  "from_durable (DBroker (Domain error)) = from_domain error"
| "from_durable (DBroker (TopicAlreadyExists topic)) =
     ApiTopicAlreadyExists (str ''topic already exists: '' @ tn_str topic)"
| "from_durable (DBroker (TopicNotFound topic)) = ApiTopicNotFound (str ''topic not found: '' @ tn_str topic)"
| "from_durable (DBroker (InvalidConfig field reason)) =
     ValidationError (str ''invalid broker config for '' @ str field @ str '': '' @ str reason)"
| "from_durable (DBroker (DeliveryNotFound d)) = ApiInternal"
| "from_durable (DBroker (InvalidConsumer d e a)) = ApiInternal"
| "from_durable (DBroker (IdempotencyKeyConflict t)) = ApiInternal"
| "from_durable (DStorage e) = ApiInternal"
| "from_durable (DIo e) = ApiInternal"
| "from_durable DSerde = ApiInternal"
| "from_durable (StateCorruption p line reason) = ApiInternal"
| "from_durable (Corruption reason) = ApiInternal"

fun api_status_code :: "api_error \<Rightarrow> u16" where
  "api_status_code (InvalidRequest m) = 400"
| "api_status_code (ValidationError m) = 400"
| "api_status_code (ApiTopicAlreadyExists m) = 409"
| "api_status_code (ApiTopicNotFound m) = 404"
| "api_status_code (BrokerUnavailable m) = 503"
| "api_status_code (SearchUnavailable m) = 503"
| "api_status_code (MethodNotAllowed m) = 405"
| "api_status_code (RouteNotFound m) = 404"
| "api_status_code ApiInternal = 500"

fun error_code :: "api_error \<Rightarrow> string" where
  "error_code (InvalidRequest m) = ''INVALID_REQUEST''"
| "error_code (ValidationError m) = ''VALIDATION_ERROR''"
| "error_code (ApiTopicAlreadyExists m) = ''TOPIC_ALREADY_EXISTS''"
| "error_code (ApiTopicNotFound m) = ''TOPIC_NOT_FOUND''"
| "error_code (BrokerUnavailable m) = ''BROKER_UNAVAILABLE''"
| "error_code (SearchUnavailable m) = ''SEARCH_UNAVAILABLE''"
| "error_code (MethodNotAllowed m) = ''METHOD_NOT_ALLOWED''"
| "error_code (RouteNotFound m) = ''NOT_FOUND''"
| "error_code ApiInternal = ''INTERNAL_ERROR''"

fun error_message :: "api_error \<Rightarrow> rstring" where
  "error_message (InvalidRequest m) = m"
| "error_message (ValidationError m) = m"
| "error_message (ApiTopicAlreadyExists m) = m"
| "error_message (ApiTopicNotFound m) = m"
| "error_message (BrokerUnavailable m) = m"
| "error_message (SearchUnavailable m) = m"
| "error_message (MethodNotAllowed m) = m"
| "error_message (RouteNotFound m) = m"
| "error_message ApiInternal = str ''internal server error''"

definition into_response :: "api_error \<Rightarrow> http_response" where
  "into_response e =
     \<lparr>hr_status = api_status_code e,
      hr_body = ErrorEnvelope
        \<lparr>eb_code = error_code e, eb_message = error_message e, eb_status_code = api_status_code e\<rparr>\<rparr>"

section \<open>Counting requests\<close>

definition record_http_success :: "string \<Rightarrow> string \<Rightarrow> u16 \<Rightarrow> registry \<Rightarrow> registry" where
  "record_http_success method route st r = record_control_http_request method route st r"

definition record_http_error :: "string \<Rightarrow> string \<Rightarrow> api_error \<Rightarrow> registry \<Rightarrow> registry" where
  "record_http_error method route error r =
     record_control_http_error method route (api_status_code error) (error_code error)
       (record_control_http_request method route (api_status_code error) r)"

definition observe_http_result ::
  "string \<Rightarrow> string \<Rightarrow> u16 \<Rightarrow> (api_error, 'a) rres \<Rightarrow> registry \<Rightarrow> registry" where
  "observe_http_result method route success_status result r =
     (case result of
        Ok a \<Rightarrow> record_http_success method route success_status r
      | Err error \<Rightarrow> record_http_error method route error r
      | Panicked \<Rightarrow> r)"

section \<open>Handlers\<close>

type_synonym handler = "(api_error, u16 \<times> http_body) action"

definition http_with_broker :: "(api_error, 'a) action \<Rightarrow> (api_error, 'a) action" where
  "http_with_broker operation =
     locked (BrokerUnavailable (str ''durable broker state is not accessible'')) operation"

definition parse_topic_name :: "rstring \<Rightarrow> (api_error, topic_name) rres" where
  "parse_topic_name v = map_err from_domain (TopicName_new v)"

definition topic_response_of :: "topic \<Rightarrow> topic_response" where
  "topic_response_of topic =
     \<lparr>trs_name = tn_str (topic_name topic), trs_partitions = topic_partition_count topic\<rparr>"

fun dead_letter_reason_text :: "dead_letter_reason \<Rightarrow> rstring" where
  "dead_letter_reason_text MaxAttemptsExceeded = str ''max_attempts_exceeded''"
| "dead_letter_reason_text Expired = str ''expired''"
| "dead_letter_reason_text Rejected = str ''rejected''"
| "dead_letter_reason_text Poisoned = str ''poisoned''"
| "dead_letter_reason_text (Manual reason) = reason"

definition http_health :: handler where
  "http_health s =
     (Ok (200, StatusBody ''ok''),
      s\<lparr>proc_metrics := record_http_success ''GET'' ''/health'' 200 (proc_metrics s)\<rparr>)"

definition http_metrics :: handler where
  "http_metrics s =
     (let s1 = s\<lparr>proc_metrics := record_http_success ''GET'' ''/metrics'' 200 (proc_metrics s)\<rparr> in
      (Ok (200, MetricsBody PROMETHEUS_CONTENT_TYPE (render_prometheus (proc_metrics s1))), s1))"

fun ready_error :: "api_error \<Rightarrow> api_error" where
  "ready_error (BrokerUnavailable m) = BrokerUnavailable (str ''durable broker state is not accessible'')"
| "ready_error ApiInternal = BrokerUnavailable (str ''durable broker state is not accessible'')"
| "ready_error other = other"

definition http_ready :: handler where
  "http_ready =
     observed (observe_http_result ''GET'' ''/ready'' 200)
       (map_action (map_err ready_error)
         (http_with_broker (pure_action (\<lambda>broker. Ok (200, StatusBody ''ready'')))))"

definition http_status :: handler where
  "http_status =
     observed (observe_http_result ''GET'' ''/v1/status'' 200)
       (http_with_broker (pure_action (\<lambda>broker.
          let st = db_status broker in
          Ok (200, BrokerStatusBody
            \<lparr>bsr_mode = dst_mode st, bsr_data_dir = join_with [47] (dst_root_dir st),
             bsr_topics = dst_topic_count st, bsr_dlq_entries = dst_dlq_count st\<rparr>))))"

definition create_topic_inner ::
  "durable_env \<Rightarrow> state_io \<Rightarrow> json_rejection + create_topic_request \<Rightarrow> handler" where
  "create_topic_inner E sio request =
     (case request of
        Inl rejection \<Rightarrow> (\<lambda>s. (Err (from_json_rejection rejection), s))
      | Inr request \<Rightarrow>
          checked (parse_topic_name (ctr_name request)) (\<lambda>name.
          checked (map_err from_domain (TopicConfig_new (ctr_partitions request))) (\<lambda>topic_config.
          http_with_broker
            (map_action (map_err from_durable \<circ> map_ok (\<lambda>topic. (201, TopicBody (topic_response_of topic))))
              (broker_create_topic E sio \<lparr>ctc_name = name, ctc_config = topic_config\<rparr>)))))"

definition observe_topic_create :: "(api_error, 'a) rres \<Rightarrow> registry \<Rightarrow> registry" where
  "observe_topic_create result r =
     (case result of
        Panicked \<Rightarrow> r
      | _ \<Rightarrow> record_control_topic_create (if is_ok result then ''success'' else ''error'') r)"

definition http_create_topic ::
  "durable_env \<Rightarrow> state_io \<Rightarrow> json_rejection + create_topic_request \<Rightarrow> handler" where
  "http_create_topic E sio request =
     observed (observe_http_result ''POST'' ''/v1/topics'' 201)
       (observed observe_topic_create (create_topic_inner E sio request))"

definition http_list_topics :: handler where
  "http_list_topics =
     observed (observe_http_result ''GET'' ''/v1/topics'' 200)
       (http_with_broker (pure_action (\<lambda>broker.
          Ok (200, TopicListBody (map topic_response_of (db_list_topics broker))))))"

definition get_topic_inner :: "rstring \<Rightarrow> handler" where
  "get_topic_inner name =
     checked (parse_topic_name name) (\<lambda>t.
       http_with_broker (pure_action (\<lambda>broker.
         map_err from_durable (map_ok (\<lambda>topic. (200, TopicBody (topic_response_of topic))) (db_get_topic t broker)))))"

definition http_get_topic :: "rstring \<Rightarrow> handler" where
  "http_get_topic name =
     observed (observe_http_result ''GET'' ''/v1/topics/{topicName}'' 200) (get_topic_inner name)"

definition dlq_entry_response_of :: "dead_letter_entry \<Rightarrow> dlq_entry_response" where
  "dlq_entry_response_of entry =
     \<lparr>der_topic = tn_str (dl_topic entry), der_partition = pid_value (dl_partition_id entry),
      der_offset = offset_value (dl_offset entry), der_message_id = mid_str (dl_message_id entry),
      der_consumer_group_id = cg_str (dl_consumer_group_id entry),
      der_reason = dead_letter_reason_text (dl_reason entry), der_attempt_count = dl_attempt_count entry,
      der_timestamp = as_unix_millis (dl_timestamp entry)\<rparr>"

definition list_dlq_inner :: "rstring option \<Rightarrow> handler" where
  "list_dlq_inner topic =
     checked (case topic of
                Some t \<Rightarrow> map_ok DlqQuery_for_topic (parse_topic_name t)
              | None \<Rightarrow> Ok DlqQuery_all) (\<lambda>query.
       http_with_broker (pure_action (\<lambda>broker.
         map_err from_durable
           (map_ok (\<lambda>entries. (200, DlqListBody (map dlq_entry_response_of entries))) (db_list_dlq query broker)))))"

definition http_list_dlq :: "rstring option \<Rightarrow> handler" where
  "http_list_dlq topic = observed (observe_http_result ''GET'' ''/v1/dlq'' 200) (list_dlq_inner topic)"

definition http_not_found :: handler where
  "http_not_found s =
     (let error = RouteNotFound (str ''route not found'') in
      (Err error, s\<lparr>proc_metrics := record_http_error ''UNKNOWN'' ''unmatched'' error (proc_metrics s)\<rparr>))"

definition http_method_not_allowed :: handler where
  "http_method_not_allowed s =
     (let error = MethodNotAllowed (str ''method not allowed'') in
      (Err error, s\<lparr>proc_metrics := record_http_error ''UNKNOWN'' ''method_not_allowed'' error (proc_metrics s)\<rparr>))"

section \<open>Search\<close>

text \<open>A backend answers a query with rows or with the text of its error.\<close>

record search_env =
  se_alphanumeric :: "nat \<Rightarrow> bool"
  se_backend :: "(search_query \<Rightarrow> rstring + search_result list) option"

definition SEARCH_DEFAULT_LIMIT :: u32 where
  "SEARCH_DEFAULT_LIMIT = 20"

definition SEARCH_MAX_LIMIT :: u32 where
  "SEARCH_MAX_LIMIT = 100"

definition search_limit_message :: rstring where
  "search_limit_message = str ''search limit must be between 1 and '' @ dec (unat SEARCH_MAX_LIMIT)"

definition search_query_message :: rstring where
  "search_query_message = str ''search query must contain at least one alphanumeric character''"

definition api_validate_search_query_text :: "(nat \<Rightarrow> bool) \<Rightarrow> rstring \<Rightarrow> (api_error, unit) rres" where
  "api_validate_search_query_text alphanumeric query =
     (let trimmed = trim query in
      if trimmed = [] \<or> \<not> list_ex alphanumeric trimmed then Err (ValidationError search_query_message)
      else Ok ())"

definition sanitize_postgres_message :: "rstring \<Rightarrow> rstring" where
  "sanitize_postgres_message message = (if message = [] then str ''search backend is unavailable'' else message)"

text \<open>The error of \<^verbatim>\<open>SearchQuery::new\<close> as an API error.\<close>

definition search_query_error :: "postgres_error \<Rightarrow> api_error" where
  "search_query_error e =
     (case e of
        EmptySearchQuery \<Rightarrow> ValidationError search_query_message
      | InvalidSearchLimit \<Rightarrow> ValidationError search_limit_message
      | other \<Rightarrow> SearchUnavailable (sanitize_postgres_message (postgres_error_to_string other)))"

definition search_message_item_of :: "search_result \<Rightarrow> search_message_item" where
  "search_message_item_of row =
     \<lparr>smi_topic = sr_topic row, smi_partition_id = sr_partition_id row, smi_offset = dec_int (sr_offset row),
      smi_message_id = sr_message_id row, smi_event_type = sr_event_type row, smi_source = sr_source row,
      smi_subject = sr_subject row, smi_content_type = sr_content_type row,
      smi_time_unix_ms = dec_int (sr_time_unix_ms row), smi_payload_len = sr_payload_len row,
      smi_payload_sha256 = sr_payload_sha256 row, smi_rank = sr_rank row\<rparr>"

definition search_messages_inner ::
  "search_env \<Rightarrow> json_rejection + search_messages_request \<Rightarrow> (api_error, u16 \<times> http_body) rres" where
  "search_messages_inner S request =
     (case request of
        Inl rejection \<Rightarrow> Err (from_json_rejection rejection)
      | Inr request \<Rightarrow>
          (let limit = (case smq_limit request of None \<Rightarrow> SEARCH_DEFAULT_LIMIT | Some l \<Rightarrow> l);
               query = smq_query request in
           rbind (api_validate_search_query_text (se_alphanumeric S) query) (\<lambda>_.
           if \<not> (1 \<le> limit \<and> limit \<le> SEARCH_MAX_LIMIT) then Err (ValidationError search_limit_message)
           else
             rbind (case smq_topic request of
                      Some t \<Rightarrow> map_ok (\<lambda>_. ()) (parse_topic_name t)
                    | None \<Rightarrow> Ok ()) (\<lambda>_.
             case se_backend S of
               None \<Rightarrow> Err (SearchUnavailable (str ''search is not configured''))
             | Some search \<Rightarrow>
                 rbind (map_err search_query_error
                          (SearchQuery_new (se_alphanumeric S) query (smq_topic request) limit)) (\<lambda>search_query.
                 case search search_query of
                   Inl message \<Rightarrow> Err (SearchUnavailable (sanitize_postgres_message message))
                 | Inr rows \<Rightarrow> Ok (200, SearchBody (map search_message_item_of rows)))))))"

definition http_search_messages :: "search_env \<Rightarrow> json_rejection + search_messages_request \<Rightarrow> handler" where
  "http_search_messages S request =
     observed (observe_http_result ''POST'' ''/v1/search/messages'' 200)
       (\<lambda>s. (search_messages_inner S request, s))"

section \<open>The router\<close>

fun http_handler :: "durable_env \<Rightarrow> search_env \<Rightarrow> state_io \<Rightarrow> http_request \<Rightarrow> handler" where
  "http_handler E S sio GetHealth = http_health"
| "http_handler E S sio GetMetrics = http_metrics"
| "http_handler E S sio GetReady = http_ready"
| "http_handler E S sio GetStatus = http_status"
| "http_handler E S sio (PostTopics request) = http_create_topic E sio request"
| "http_handler E S sio GetTopics = http_list_topics"
| "http_handler E S sio (GetTopic name) = http_get_topic name"
| "http_handler E S sio (GetDlq topic) = http_list_dlq topic"
| "http_handler E S sio (PostSearch request) = http_search_messages S request"
| "http_handler E S sio UnmatchedRoute = http_not_found"
| "http_handler E S sio OtherMethod = http_method_not_allowed"

text \<open>\<^verbatim>\<open>None\<close> when the handler panicked and nothing is sent.\<close>

definition http_serve ::
  "durable_env \<Rightarrow> search_env \<Rightarrow> state_io \<Rightarrow> http_request \<Rightarrow> process \<Rightarrow> http_response option \<times> process" where
  "http_serve E S sio request s =
     (case http_handler E S sio request s of
        (Ok (st, body), s') \<Rightarrow> (Some \<lparr>hr_status = st, hr_body = body\<rparr>, s')
      | (Err error, s') \<Rightarrow> (Some (into_response error), s')
      | (Panicked, s') \<Rightarrow> (None, s'))"

section \<open>Opening the state\<close>

definition control_max_segment_bytes :: u64 where
  "control_max_segment_bytes = 64 * 1024 * 1024"

datatype control_api_error = ControlOpenState durable_broker_error

definition open_state :: "durable_env \<Rightarrow> path \<Rightarrow> fs \<Rightarrow> (control_api_error, process) rres" where
  "open_state E data_dir fs =
     (case BrokerConfig_default of
        Ok broker_config \<Rightarrow>
          map_err ControlOpenState (fst (broker_open E
            \<lparr>dbc_root_dir = data_dir, dbc_broker_config = broker_config,
             dbc_max_segment_bytes = control_max_segment_bytes\<rparr> fs))
      | _ \<Rightarrow> Panicked)"

end
