(* ===== verification/Servers.thy ===== *)
theory Servers
  imports Broker_Runs Data_Plane Control_Api
begin

text \<open>
  A broker process as \<^verbatim>\<open>brokerd\<close> assembles it: the gRPC service and the HTTP control plane over one
  shared broker (\<^verbatim>\<open>DataPlaneService::from_shared(state.broker())\<close>). Requests of either server are served
  one at a time, because each holds the lock while it uses the broker; what they do outside the lock
  does not touch the state. Every handler is orderly in the sense of \<^verbatim>\<open>process_order\<close>, so a process that
  started from a fresh directory stays in good order whatever it is asked and however its writes end.
\<close>

section \<open>Requests of both servers\<close>

datatype rpc_request =
    RpcPublish io_outcome publish_request
  | RpcConsume state_io state_io consume_request
  | RpcAck state_io "nat option" ack_request
  | RpcNack state_io "nat option" nack_request

datatype rpc_response =
    PublishResponse publish_response
  | ConsumeResponse consume_response
  | AckResponse
  | NackResponse

fun rpc_serve :: "durable_env \<Rightarrow> rpc_request \<Rightarrow> (status, rpc_response) action" where
  "rpc_serve E (RpcPublish io request) = map_action (map_ok PublishResponse) (rpc_publish E io request)"
| "rpc_serve E (RpcConsume sio_retry sio_consume request) =
     map_action (map_ok ConsumeResponse) (rpc_consume E sio_retry sio_consume request)"
| "rpc_serve E (RpcAck sio clock request) = map_action (map_ok (\<lambda>_. AckResponse)) (rpc_ack E sio clock request)"
| "rpc_serve E (RpcNack sio clock request) = map_action (map_ok (\<lambda>_. NackResponse)) (rpc_nack E sio clock request)"

datatype server_request = Rpc rpc_request | Http state_io http_request

datatype server_answer = RpcAnswer "rpc_response rpc_result" | HttpAnswer "http_response option"

fun serve :: "durable_env \<Rightarrow> search_env \<Rightarrow> server_request \<Rightarrow> process \<Rightarrow> server_answer \<times> process" where
  "serve E S (Rpc request) s = (case rpc_serve E request s of (r, s') \<Rightarrow> (RpcAnswer r, s'))"
| "serve E S (Http sio request) s = (case http_serve E S sio request s of (r, s') \<Rightarrow> (HttpAnswer r, s'))"

text \<open>No answer: the handler panicked.\<close>

fun answered :: "server_answer \<Rightarrow> bool" where
  "answered (RpcAnswer r) \<longleftrightarrow> r \<noteq> Panicked"
| "answered (HttpAnswer r) \<longleftrightarrow> r \<noteq> None"

text \<open>The only assumption on a request: an append that fails can be rolled back.\<close>

fun request_ok :: "server_request \<Rightarrow> bool" where
  "request_ok (Rpc (RpcPublish io request)) \<longleftrightarrow> io_recovers io"
| "request_ok request \<longleftrightarrow> True"

inductive server_steps :: "durable_env \<Rightarrow> search_env \<Rightarrow> process \<Rightarrow> process \<Rightarrow> bool" for E S s where
  idle: "server_steps E S s s"
| served: "server_steps E S s s' \<Longrightarrow> request_ok q \<Longrightarrow> proc_room s' \<Longrightarrow> server_steps E S s (snd (serve E S q s'))"

text \<open>A process from its start on a fresh directory.\<close>

definition server_run :: "durable_env \<Rightarrow> search_env \<Rightarrow> durable_broker_config \<Rightarrow> process \<Rightarrow> bool" where
  "server_run E S config s \<longleftrightarrow>
     (\<exists>fs s0. fresh_fs config fs \<and> fst (broker_open E config fs) = Ok s0 \<and> server_steps E S s0 s)"

text \<open>All operations on the broker that a request may lead to are ones that \<^verbatim>\<open>P\<close> permits.\<close>

fun permits :: "(db_op \<Rightarrow> durable_broker \<times> fs \<Rightarrow> bool) \<Rightarrow> server_request \<Rightarrow> bool" where
  "permits P (Rpc (RpcPublish io request)) \<longleftrightarrow> (\<forall>c s. P (DbPublish io c) s)"
| "permits P (Rpc (RpcConsume sio_retry sio_consume request)) \<longleftrightarrow>
     (\<forall>now s. P (DbRetryReady sio_retry now) s) \<and> (\<forall>c s. P (DbConsume sio_consume c) s)"
| "permits P (Rpc (RpcAck sio clock request)) \<longleftrightarrow> (\<forall>c s. P (DbAck sio c) s)"
| "permits P (Rpc (RpcNack sio clock request)) \<longleftrightarrow> (\<forall>c s. P (DbNack sio c) s)"
| "permits P (Http sio (PostTopics request)) \<longleftrightarrow> (\<forall>c s. P (DbCreateTopic sio c) s)"
| "permits P (Http sio request) \<longleftrightarrow> True"

lemma permits_any [simp]: "permits any_step q"
  by (cases "(any_step, q)" rule: permits.cases) simp_all

section \<open>No validator panics\<close>

lemmas new_no_panic = bt_text.new_no_panic tn_text.new_no_panic cg_text.new_no_panic

lemma rpc_validators [simp]:
  shows "rpc_topic_name v \<noteq> Panicked" and "rpc_message_id v \<noteq> Panicked" and "rpc_event_source v \<noteq> Panicked"
  and "rpc_event_type v \<noteq> Panicked" and "rpc_content_type v \<noteq> Panicked" and "rpc_consumer_group_id v \<noteq> Panicked"
  and "rpc_consumer_id v \<noteq> Panicked" and "rpc_delivery_id v \<noteq> Panicked"
  and "optional_partition_key v \<noteq> Panicked" and "optional_subject v \<noteq> Panicked"
  and "optional_idempotency_key v \<noteq> Panicked" and "max_messages m \<noteq> Panicked" and "lease_ms l \<noteq> Panicked"
  and "parse_topic_name v \<noteq> Panicked" and "TopicConfig_new n \<noteq> Panicked"
  and "ConsumeCommand_with_lease_millis t g c k ts lease \<noteq> Panicked"
  by (simp_all add: rpc_topic_name_def rpc_message_id_def rpc_event_source_def rpc_event_type_def rpc_content_type_def
      rpc_consumer_group_id_def rpc_consumer_id_def rpc_delivery_id_def optional_partition_key_def optional_subject_def
      optional_idempotency_key_def optional_def max_messages_def lease_ms_def parse_topic_name_def
      TopicName_new_def MessageId_new_def EventSource_new_def EventType_new_def ContentType_new_def
      ConsumerGroupId_new_def ConsumerId_new_def DeliveryId_new_def PartitionKey_new_def EventSubject_new_def
      IdempotencyKey_new_def TopicConfig_new_def ConsumeCommand_with_lease_millis_def new_no_panic)

lemma publish_envelope_no_panic [simp]: "publish_envelope request \<noteq> Panicked"
  by (simp add: publish_envelope_def rbind_eq_Panicked Let_def)

section \<open>The data plane is orderly\<close>

lemma count_rpc_recorded:
  assumes "\<And>a r. recorded r \<Longrightarrow> recorded (delivered a r)" "\<And>st r. recorded r \<Longrightarrow> recorded (record_status st r)"
    "recorded r"
  shows "recorded (count_rpc method delivered record_status result r)"
  by (cases result) (simp_all add: assms count_rpc_def record_rpc_error_def Let_def recorded_intros)

lemma rpc_with_broker_orderly:
  "proc.orderly E config P m \<Longrightarrow> proc.orderly E config P (rpc_with_broker m)"
  unfolding rpc_with_broker_def by (intro proc.orderly_locked proc.orderly_map) auto

lemma rpc_publish_orderly:
  assumes "env_ok E config" "io_recovers io" "permits P (Rpc (RpcPublish io request))"
  shows "proc.orderly E config P (rpc_publish E io request)"
  unfolding rpc_publish_def publish_inner_def
  by (intro proc.orderly_observed proc.orderly_checked proc.orderly_then_pure rpc_with_broker_orderly
      broker_orderly assms(1,2) count_rpc_recorded recorded_intros; (assumption | insert assms(3); simp del: split_paired_All))

lemma rpc_consume_orderly:
  assumes "env_ok E config" "permits P (Rpc (RpcConsume sio_retry sio_consume request))"
  shows "proc.orderly E config P (rpc_consume E sio_retry sio_consume request)"
  unfolding rpc_consume_def consume_inner_def Let_def
  by (intro proc.orderly_observed proc.orderly_checked proc.orderly_then_pure rpc_with_broker_orderly
      proc.orderly_and_then proc.orderly_pure proc.steady_pure retry_ready_steady
      broker_orderly assms(1) count_rpc_recorded recorded_intros; (assumption | insert assms(2); simp add: db_get_topic_def del: split_paired_All))

lemma rpc_ack_orderly:
  assumes "env_ok E config" "permits P (Rpc (RpcAck sio clock request))"
  shows "proc.orderly E config P (rpc_ack E sio clock request)"
  unfolding rpc_ack_def ack_inner_def
  by (intro proc.orderly_observed proc.orderly_checked rpc_with_broker_orderly
      broker_orderly assms(1) count_rpc_recorded recorded_intros; (assumption | insert assms(2); simp del: split_paired_All))

lemma rpc_nack_orderly:
  assumes "env_ok E config" "permits P (Rpc (RpcNack sio clock request))"
  shows "proc.orderly E config P (rpc_nack E sio clock request)"
  unfolding rpc_nack_def nack_inner_def Let_def
  by (intro proc.orderly_observed proc.orderly_checked rpc_with_broker_orderly
      broker_orderly assms(1) count_rpc_recorded recorded_intros; (assumption | insert assms(2); simp del: split_paired_All))

lemma rpc_serve_orderly:
  assumes "env_ok E config" "request_ok (Rpc request)" "permits P (Rpc request)"
  shows "proc.orderly E config P (rpc_serve E request)"
  using assms(2,3)
  by (cases request)
    (auto intro!: proc.orderly_map rpc_publish_orderly rpc_consume_orderly rpc_ack_orderly rpc_nack_orderly assms(1))

section \<open>The control plane is orderly\<close>

lemma observe_http_recorded:
  "recorded r \<Longrightarrow> recorded (observe_http_result method route st result r)"
  by (cases result) (simp_all add: observe_http_result_def record_http_success_def record_http_error_def recorded_intros)

lemma observe_topic_create_recorded: "recorded r \<Longrightarrow> recorded (observe_topic_create result r)"
  by (cases result) (simp_all add: observe_topic_create_def recorded_intros)

lemma http_with_broker_orderly: "proc.orderly E config P m \<Longrightarrow> proc.orderly E config P (http_with_broker m)"
  unfolding http_with_broker_def by (rule proc.orderly_locked)

lemma orderly_record:
  "(\<And>r. recorded r \<Longrightarrow> recorded (g r)) \<Longrightarrow> (\<And>s. f s \<noteq> Panicked) \<Longrightarrow>
   proc.orderly E config P (\<lambda>s. (f s, s\<lparr>proc_metrics := g (proc_metrics s)\<rparr>))"
  by (rule proc.orderlyI) (auto simp: proc_good_def proc_follows_def db_steps.none)

lemma http_handler_orderly:
  assumes "env_ok E config" "permits P (Http sio request)"
  shows "proc.orderly E config P (http_handler E S sio request)"
proof (cases request)
  case GetHealth
  then show ?thesis
    by (simp add: http_health_def[abs_def] record_http_success_def) (intro orderly_record recorded_intros; simp)
next
  case GetMetrics
  then show ?thesis
    by (simp add: http_metrics_def[abs_def] record_http_success_def Let_def) (intro orderly_record recorded_intros; simp)
next
  case GetReady
  then show ?thesis
    by (simp add: http_ready_def)
      (intro proc.orderly_observed proc.orderly_map http_with_broker_orderly proc.orderly_pure observe_http_recorded; simp)
next
  case GetStatus
  then show ?thesis
    by (simp add: http_status_def)
      (intro proc.orderly_observed http_with_broker_orderly proc.orderly_pure observe_http_recorded; simp add: Let_def)
next
  case (PostTopics r)
  have "proc.orderly E config P (create_topic_inner E sio r)"
  proof (cases r)
    case (Inr req)
    show ?thesis
    proof (cases "TopicConfig_new (ctr_partitions req)")
      case (Ok tc)
      then have n: "tc_partition_count tc \<noteq> 0" by (auto simp: TopicConfig_new_def split: if_splits)
      have c: "checked (map_err from_domain (Ok tc)) f = f tc" for f :: "_ \<Rightarrow> handler" by (simp add: checked_def)
      show ?thesis
        unfolding create_topic_inner_def Inr sum.case Ok c
        using assms(2) PostTopics by (auto simp: n intro!: proc.orderly_checked http_with_broker_orderly proc.orderly_map broker_orderly assms(1))
    next
      case (Err e)
      have c: "checked (map_err from_domain (Err e)) f = (\<lambda>s. (Err (from_domain e), s))"
        for f :: "topic_config \<Rightarrow> handler" by (simp add: checked_def)
      show ?thesis
        unfolding create_topic_inner_def Inr sum.case Err c
        by (auto intro!: proc.orderly_checked proc.orderly_const)
    qed simp
  qed (simp add: create_topic_inner_def proc.orderly_const)
  then show ?thesis using PostTopics
    by (simp add: http_create_topic_def)
      (intro proc.orderly_observed observe_http_recorded observe_topic_create_recorded; assumption)
next
  case GetTopics
  then show ?thesis
    by (simp add: http_list_topics_def)
      (intro proc.orderly_observed http_with_broker_orderly proc.orderly_pure observe_http_recorded; simp)
next
  case (GetTopic name)
  then show ?thesis
    by (simp add: http_get_topic_def get_topic_inner_def)
      (intro proc.orderly_observed proc.orderly_checked http_with_broker_orderly proc.orderly_pure observe_http_recorded;
        simp add: db_get_topic_def)
next
  case (GetDlq topic)
  then show ?thesis
    by (simp add: http_list_dlq_def list_dlq_inner_def)
      (intro proc.orderly_observed proc.orderly_checked http_with_broker_orderly proc.orderly_pure observe_http_recorded;
        simp add: db_list_dlq_def split: option.split)
next
  case (PostSearch r)
  have "search_messages_inner S r \<noteq> Panicked"
    by (auto simp: search_messages_inner_def Let_def rbind_eq_Panicked api_validate_search_query_text_def
        SearchQuery_new_def validate_search_query_text_def split: sum.split option.split)
  then show ?thesis using PostSearch
    by (simp add: http_search_messages_def) (intro proc.orderly_observed proc.orderly_const observe_http_recorded; simp)
next
  case UnmatchedRoute
  then show ?thesis
    by (simp add: http_not_found_def[abs_def] record_http_error_def Let_def) (intro orderly_record recorded_intros; simp)
next
  case OtherMethod
  then show ?thesis
    by (simp add: http_method_not_allowed_def[abs_def] record_http_error_def Let_def)
      (intro orderly_record recorded_intros; simp)
qed

section \<open>Runs of the process\<close>

lemma serve_good:
  assumes "env_ok E config" "request_ok q" "proc_good E config P s" "proc_room s" "serve E S q s = (a, s')"
    and "permits P q"
  shows "answered a \<and> proc_good E config P s' \<and> proc_follows E s s'"
proof (cases q)
  case (Rpc x)
  then obtain r where r: "rpc_serve E x s = (r, s')" "a = RpcAnswer r" using assms(5) by (auto split: prod.splits)
  from proc.orderlyD[OF rpc_serve_orderly[OF assms(1)] assms(3,4) r(1)] assms(2,6) Rpc r(2) show ?thesis by simp
next
  case (Http sio x)
  obtain r s1 where h: "http_handler E S sio x s = (r, s1)" by (metis surj_pair)
  from proc.orderlyD[OF http_handler_orderly[OF assms(1)] assms(3,4) h] assms(5,6) Http h show ?thesis
    by (cases r) (auto simp: http_serve_def)
qed

lemma started_good:
  assumes "fresh_fs config fs" "fst (broker_open E config fs) = Ok s"
  shows "proc_good E config P s"
proof -
  obtain r fs' where o: "DurableBroker_open E config fs = (r, fs')" by (metis surj_pair)
  with assms(2) obtain b where b: "r = Ok b" "proc_broker s = b" "proc_fs s = fs'" "\<not> proc_poisoned s"
    and m: "proc_metrics s = observe_open r (observe_recovery (fst (recover_state_events (env_events E) (state_path config) fs)) [])"
    by (auto simp: broker_open_def Let_def)
  have "recorded (proc_metrics s)"
    unfolding m by (intro observed_recorded recorded.recorded_empty)
  moreover have "db_run E config P (proc_state s)" using db_run.opened[OF assms(1)] o b by simp
  ultimately show ?thesis using b(4) by (simp add: proc_good_def)
qed

lemma server_steps_good:
  assumes "server_steps E S s s'" "env_ok E config" "proc_good E config any_step s"
  shows "proc_good E config any_step s' \<and> proc_follows E s s'"
  using assms
proof (induction rule: server_steps.induct)
  case idle
  then show ?case by (simp add: proc.follows_refl)
next
  case (served s' q)
  obtain a s'' where q: "serve E S q s' = (a, s'')" by (metis surj_pair)
  from served have IH: "proc_good E config any_step s'" "proc_follows E s s'" by blast+
  from serve_good[OF served.prems(1) served.hyps(2) IH(1) served.hyps(3) q permits_any] IH(2) show ?case
    by (auto simp: q intro: proc.follows_trans)
qed

lemma server_run_good:
  assumes "server_run E S config s" "env_ok E config"
  shows "proc_good E config any_step s"
  using assms started_good server_steps_good unfolding server_run_def by blast

end
