(* ===== verification/Server_Messages.thy ===== *)
theory Server_Messages
  imports Servers
begin

text \<open>
  What the servers do with messages and topics, read through the in-memory view: an accepted publish
  stores its envelope at the location of the response, a consumed message is the one stored at its
  location, and a created topic stays.
\<close>

section \<open>What a successful handler did\<close>

lemma and_then_Ok: "and_then m f s = (Ok b, s') \<longleftrightarrow> (\<exists>a s1. m s = (Ok a, s1) \<and> f a s1 = (Ok b, s'))"
  by (auto simp: and_then_def split: prod.splits rres.splits)

lemma checked_Ok: "checked r f s = (Ok b, s') \<longleftrightarrow> (\<exists>a. r = Ok a \<and> f a s = (Ok b, s'))"
  by (cases r) (simp_all add: checked_def)

lemma rpc_with_broker_Ok: "rpc_with_broker m s = (Ok a, s') \<longleftrightarrow> \<not> proc_poisoned s \<and> m s = (Ok a, s')"
  by (auto simp: rpc_with_broker_def locked_def map_action_def split: prod.splits rres.splits)

lemma http_with_broker_Ok: "http_with_broker m s = (Ok a, s') \<longleftrightarrow> \<not> proc_poisoned s \<and> m s = (Ok a, s')"
  by (auto simp: http_with_broker_def locked_def split: prod.splits rres.splits)

lemma observed_Ok: "observed f m s = (Ok a, s') \<Longrightarrow> \<exists>s1. m s = (Ok a, s1) \<and> proc_state s' = proc_state s1"
  by (auto simp: observed_def split: prod.splits)

lemma rpc_publish_Ok:
  assumes "rpc_publish E io q s = (Ok resp, s')"
  obtains t e pm s1 where "publish_envelope q = Ok e"
    "broker_publish E io \<lparr>pc_topic = t, pc_envelope = e\<rparr> s = (Ok pm, s1)" "proc_state s' = proc_state s1"
    "resp = \<lparr>prs_topic = tn_str (pm_topic pm), prs_partition = pid_value (pm_partition_id pm),
       prs_offset = offset_value (pm_offset pm), prs_message_id = mid_str (pm_message_id pm),
       prs_deduplicated = pm_deduplicated pm\<rparr>"
proof -
  from observed_Ok[OF assms[unfolded rpc_publish_def]] obtain s1 where
    s1: "publish_inner E io q s = (Ok resp, s1)" "proc_state s' = proc_state s1" by blast
  from s1(1) show ?thesis
    unfolding publish_inner_def checked_Ok and_then_Ok rpc_with_broker_Ok using that s1(2) by auto
qed

lemma rpc_consume_Ok:
  assumes "rpc_consume E sio_retry sio_consume q s = (Ok resp, s')"
  obtains command summary s1 ms s2 where
    "broker_retry_ready E sio_retry (MessageTimestamp (crq_now_unix_ms q)) s = (Ok summary, s1)"
    "broker_consume E sio_consume command s1 = (Ok ms, s2)"
    "crs_messages resp = map consumed_message ms"
    "TopicName_new (crq_topic q) = Ok (cc_topic command)"
    "ConsumerGroupId_new (crq_consumer_group q) = Ok (cc_consumer_group_id command)"
    "cc_max_messages command = unat (crq_max_messages q)"
    "bt_get (db_topics (proc_broker s)) (cc_topic command) \<noteq> None"
    "proc_state s' = proc_state s2"
proof -
  from observed_Ok[OF assms[unfolded rpc_consume_def]] obtain s1 where
    s1: "consume_inner E sio_retry sio_consume q s = (Ok resp, s1)" "proc_state s' = proc_state s1" by blast
  from s1(1) show ?thesis
    unfolding consume_inner_def checked_Ok and_then_Ok rpc_with_broker_Ok Let_def
    using that s1(2)
    by (auto simp: pure_action_def rpc_topic_name_def rpc_consumer_group_id_def max_messages_def db_get_topic_def
        ConsumeCommand_with_lease_millis_def split: if_splits)
qed

section \<open>An accepted publish is stored\<close>

definition location :: "topic_name \<Rightarrow> partition_id \<Rightarrow> offset \<Rightarrow> message_ref" where
  "location t p off = \<lparr>mr_topic = t, mr_partition_id = p, mr_offset = off\<rparr>"

lemma good_implements:
  assumes "proc_good E config any_step s" "env_ok E config"
  obtains M where "implements E config (proc_state s) M"
  using run_implements assms unfolding proc_good_def by blast

lemma publish_stores:
  assumes inv: "broker_inv m" and fit: "logs_fit m" and pub: "publish sha t e m = (Ok pm, m')" and new: "\<not> pm_deduplicated pm"
  shows "message_at m' (location (pm_topic pm) (pm_partition_id pm) (pm_offset pm)) = Some e"
  using inv
proof (cases rule: publish_cases[where s = m and t = t and sha = sha and e = e])
  case (untracked st log)
  with message_at_append[OF untracked(1,2) fit] pub show ?thesis
    by (auto simp: location_def PublishedMessage_new_def)
next
  case (new k st log)
  have i: "message_at (x\<lparr>bs_idempotency_index := i\<rparr>) = message_at x" for x i
    by (rule ext) (simp add: message_at_def log_of_def)
  have "m' = (m\<lparr>bs_topics := bt_insert t (published_topic e st log) (bs_topics m)\<rparr>)
      \<lparr>bs_idempotency_index := bs_idempotency_index m'\<rparr>" using pub new(5) by auto
  with message_at_append[OF new(1,2) fit] i have
    "message_at m' \<lparr>mr_topic = t, mr_partition_id = select_partition st e,
      mr_offset = Offset (of_nat (length (pl_entries log)))\<rparr> = Some e" by metis
  with pub new(5) show ?thesis by (auto simp: location_def PublishedMessage_new_def)
qed (use pub new in \<open>auto simp: PublishedMessage_replay_def\<close>)

lemma broker_publish_stored:
  assumes good: "proc_good E config any_step s" "env_ok E config" "proc_room s" "io_recovers io"
    and pub: "broker_publish E io c s = (Ok pm, s')" and new: "\<not> pm_deduplicated pm"
  obtains M' where "implements E config (proc_state s') M'"
    "message_at (db_mem M' (proc_broker s')) (location (pm_topic pm) (pm_partition_id pm) (pm_offset pm)) = Some (pc_envelope c)"
proof -
  obtain M where M: "implements E config (proc_state s) M" using good_implements[OF good(1,2)] .
  let ?b = "proc_broker s" and ?fs = "proc_fs s"
  have room: "db_has_room (fst (proc_state s))" using good(3) by (simp add: proc_room_def)
  have inv: "broker_inv (db_mem M ?b)" "logs_fit (db_mem M ?b)" "db_room M ?b" "db_wf E ?b ?fs M"
    using implements_inv[OF M] implements_fit[OF M] implements_room[OF M room] M by (simp_all add: implements_def)
  obtain b' fs' where run: "db_publish E io c ?b ?fs = (Ok pm, b', fs')" "proc_state s' = (b', fs')"
    using pub by (auto simp: broker_publish_def counted_def split: prod.splits)
  from db_publish_cases[OF inv(4,1,3) good(4) run(1)] obtain M1 where
    p: "publish (env_sha E) (pc_topic c) (pc_envelope c) (db_mem M ?b) = (Ok pm, db_mem M1 b')" by auto
  have app: "db_apply E (DbPublish io c) (proc_state s) = (b', fs')"
    "db_outcome E (DbPublish io c) (proc_state s) = Ok ()" using run(1) by simp_all
  obtain M' where M': "implements E config (b', fs') M'"
    "db_svc M' b' = svc_apply (env_sha E) (SvcPublish c) (db_svc M ?b)"
    using step_implements[OF M _ room, of "DbPublish io c"] good(4) app by auto
  have "db_mem M' b' = svc_state (svc_apply (env_sha E) (SvcPublish c) (db_svc M ?b))" by (simp flip: M'(2))
  then have "db_mem M' b' = db_mem M1 b'" using p by (simp add: svc_apply_def svc_publish_def svc_lift_def)
  with publish_stores[OF inv(1,2) p new] M'(1) run(2) show ?thesis by (intro that[of M']) simp_all
qed

section \<open>A consumed message is the stored one\<close>

lemma broker_consume_stored:
  assumes M: "implements E config (proc_state s) M"
    and con: "broker_consume E sio c s = (Ok ms, s')" and m: "m \<in> set ms"
  shows "message_at (db_mem M (proc_broker s)) (location (cm_topic m) (cm_partition_id m) (cm_offset m)) = Some (cm_envelope m)"
proof -
  let ?b = "proc_broker s" and ?fs = "proc_fs s"
  have inv: "broker_inv (db_mem M ?b)" "logs_fit (db_mem M ?b)" "db_wf E ?b ?fs M"
    using implements_inv[OF M] implements_fit[OF M] M by (simp_all add: implements_def)
  obtain b' fs' where run: "db_consume E sio c ?b ?fs = (Ok ms, b', fs')"
    using con by (auto simp: broker_consume_def counted_def split: prod.splits)
  from db_consume_cases[OF inv(3,1,2) run] m obtain expires dt where
    dt: "bt_get (db_topics ?b) (cc_topic c) = Some dt" and
    ms: "ms = map (consumed_at (db_mem M ?b) c expires) (selection (db_mem M ?b) c (mem_topic (M (cc_topic c)) dt))"
    by auto
  have st: "bt_get (bs_topics (db_mem M ?b)) (cc_topic c) = Some (mem_topic (M (cc_topic c)) dt)" using dt by simp
  from m ms obtain x where x: "x \<in> set (selection (db_mem M ?b) c (mem_topic (M (cc_topic c)) dt))"
    "m = consumed_at (db_mem M ?b) c expires x" by auto
  with selection_selection_ok[OF inv(1,2) st] obtain env where "message_at (db_mem M ?b) (ref_of c x) = Some env"
    unfolding selection_ok_def by blast
  with x(2) show ?thesis by (simp add: consumed_at_def location_def ref_of_def)
qed

text \<open>Later processes still have it.\<close>

lemma follows_stored:
  assumes "implements E config (proc_state s) M" "proc_follows E s s'"
    "message_at (db_mem M (proc_broker s)) r = Some e"
  obtains M' where "implements E config (proc_state s') M'" "message_at (db_mem M' (proc_broker s')) r = Some e"
proof -
  obtain M' where M': "implements E config (proc_state s') M'"
    "svc_steps (env_sha E) (db_svc M (fst (proc_state s))) (db_svc M' (fst (proc_state s')))"
    using steps_implements[OF assms(2)[unfolded proc_follows_def] assms(1)] .
  from steps_message_at[OF assms(1) M'(2)] assms(3) M'(1) that show ?thesis by simp
qed

section \<open>The fields of a message\<close>

definition carries :: "proto_consumed_message \<Rightarrow> publish_request \<Rightarrow> bool" where
  "carries m q \<longleftrightarrow>
     cms_message_id m = trim (prq_message_id q) \<and> cms_payload m = prq_payload q \<and>
     cms_source m = trim (prq_source q) \<and> cms_type m = trim (prq_type q) \<and>
     cms_content_type m = trim (prq_content_type q) \<and> cms_subject m = trim (prq_subject q) \<and>
     cms_key m = trim (prq_key q) \<and> cms_idempotency_key m = trim (prq_idempotency_key q) \<and>
     cms_time_unix_ms m = prq_time_unix_ms q"

lemma optional_Ok:
  assumes "optional parse v = Ok x" "\<And>y. parse v = Ok y \<Longrightarrow> str_of y = trim v"
  shows "(case x of None \<Rightarrow> [] | Some y \<Rightarrow> str_of y) = trim v"
  using assms by (auto simp: optional_def split: if_splits)

lemma publish_envelope_fields:
  assumes "publish_envelope q = Ok e" "cm_envelope m = e"
  shows "carries (consumed_message m) q"
proof -
  note news = MessageId_new_def EventSource_new_def EventType_new_def ContentType_new_def EventSubject_new_def
    PartitionKey_new_def IdempotencyKey_new_def bt_text.new_Ok_iff
  from assms(1) obtain sub key idem where o: "optional EventSubject_new (prq_subject q) = Ok sub"
    "optional PartitionKey_new (prq_key q) = Ok key" "optional IdempotencyKey_new (prq_idempotency_key q) = Ok idem"
    and fields: "env_subject e = sub" "env_partition_key e = key" "env_idempotency_key e = idem"
      "mid_str (env_id e) = trim (prq_message_id q)" "es_str (env_source e) = trim (prq_source q)"
      "et_str (env_event_type e) = trim (prq_type q)" "ct_str (env_content_type e) = trim (prq_content_type q)"
      "env_payload e = MessagePayload (prq_payload q)" "env_timestamp e = MessageTimestamp (prq_time_unix_ms q)"
    by (auto simp: publish_envelope_def Let_def builder_build_def builder_subject_def builder_partition_key_def
        builder_idempotency_key_def MessageEnvelope_builder_def rpc_message_id_def rpc_event_source_def
        rpc_event_type_def rpc_content_type_def optional_subject_def optional_partition_key_def
        optional_idempotency_key_def news split: option.splits)
  have "(case sub of None \<Rightarrow> [] | Some y \<Rightarrow> esub_str y) = trim (prq_subject q)"
    by (rule optional_Ok[OF o(1)]) (simp add: news)
  moreover have "(case key of None \<Rightarrow> [] | Some y \<Rightarrow> pk_str y) = trim (prq_key q)"
    by (rule optional_Ok[OF o(2)]) (simp add: news)
  moreover have "(case idem of None \<Rightarrow> [] | Some y \<Rightarrow> ik_str y) = trim (prq_idempotency_key q)"
    by (rule optional_Ok[OF o(3)]) (simp add: news)
  ultimately show ?thesis by (simp add: carries_def consumed_message_def Let_def fields assms(2))
qed

section \<open>A created topic stays\<close>

lemma http_create_topic_201:
  assumes "http_serve E S sio (PostTopics (Inr request)) s = (Some resp, s')" "hr_status resp = 201"
  obtains t tc dt where "TopicName_new (ctr_name request) = Ok t" "TopicConfig_new (ctr_partitions request) = Ok tc"
    "resp = \<lparr>hr_status = 201, hr_body = TopicBody \<lparr>trs_name = tn_str t, trs_partitions = ctr_partitions request\<rparr>\<rparr>"
    "bt_get (db_topics (proc_broker s')) t = Some dt" "dt_topic dt = Topic_new t tc"
proof -
  have "api_status_code e \<noteq> 201" for e by (cases e) simp_all
  then obtain st body where h: "http_create_topic E sio (Inr request) s = (Ok (st, body), s')"
    and resp: "resp = \<lparr>hr_status = st, hr_body = body\<rparr>"
    using assms by (auto simp: http_serve_def into_response_def split: prod.splits rres.splits)
  from observed_Ok[OF h[unfolded http_create_topic_def]] obtain s1 where
    "observed observe_topic_create (create_topic_inner E sio (Inr request)) s = (Ok (st, body), s1)"
    "proc_state s' = proc_state s1" by blast
  with observed_Ok[of observe_topic_create "create_topic_inner E sio (Inr request)"] obtain s2 where
    "create_topic_inner E sio (Inr request) s = (Ok (st, body), s2)" and s2: "proc_state s' = proc_state s2" by metis
  then obtain t tc where t: "TopicName_new (ctr_name request) = Ok t" and tc: "TopicConfig_new (ctr_partitions request) = Ok tc"
    and c: "map_action (map_err from_durable \<circ> map_ok (\<lambda>topic. (201, TopicBody (topic_response_of topic))))
      (broker_create_topic E sio \<lparr>ctc_name = t, ctc_config = tc\<rparr>) s = (Ok (st, body), s2)"
    by (auto simp: create_topic_inner_def checked_Ok http_with_broker_Ok parse_topic_name_def)
  then obtain topic b fs where run: "db_create_topic E sio \<lparr>ctc_name = t, ctc_config = tc\<rparr> (proc_broker s) (proc_fs s) = (Ok topic, b, fs)"
    and st: "st = 201" "body = TopicBody (topic_response_of topic)" and b: "proc_broker s2 = b"
    by (auto simp: map_action_def broker_create_topic_def counted_def split: prod.splits)
  from run obtain dt where "topic = Topic_new t tc" "bt_get (db_topics b) t = Some dt" "dt_topic dt = topic"
    by (auto simp: db_create_topic_def DurableTopic_open_def Let_def Topic_new_def split: if_splits prod.splits rres.splits)
  moreover have "topic_response_of (Topic_new t tc) = \<lparr>trs_name = tn_str t, trs_partitions = ctr_partitions request\<rparr>"
    using tc by (auto simp: topic_response_of_def Topic_new_def TopicConfig_new_def topic_partition_count_def split: if_splits)
  ultimately show ?thesis using that[OF t tc] s2 b st resp by auto
qed

lemma pure_handler:
  assumes "\<not> proc_poisoned s"
  shows "fst (observed f (http_with_broker (pure_action g)) s) = g (proc_broker s)"
  using assms by (cases "g (proc_broker s)") (simp_all add: observed_def http_with_broker_def locked_def pure_action_def)

lemma http_get_topic_200:
  assumes "\<not> proc_poisoned s" "TopicName_new name = Ok t" "bt_get (db_topics (proc_broker s)) t = Some dt"
  shows "fst (http_serve E S sio (GetTopic name) s) =
    Some \<lparr>hr_status = 200, hr_body = TopicBody (topic_response_of (dt_topic dt))\<rparr>"
proof -
  have "fst (http_get_topic name s) = Ok (200, TopicBody (topic_response_of (dt_topic dt)))"
    using assms
    by (simp add: pure_handler http_get_topic_def get_topic_inner_def parse_topic_name_def checked_def db_get_topic_def)
  then show ?thesis by (auto simp: http_serve_def split: prod.split)
qed

lemma http_list_topics_200:
  assumes "\<not> proc_poisoned s"
  shows "fst (http_serve E S sio GetTopics s) =
    Some \<lparr>hr_status = 200, hr_body = TopicListBody (map topic_response_of (db_list_topics (proc_broker s)))\<rparr>"
proof -
  have "fst (http_list_topics s) = Ok (200, TopicListBody (map topic_response_of (db_list_topics (proc_broker s))))"
    using assms by (simp add: pure_handler http_list_topics_def)
  then show ?thesis by (auto simp: http_serve_def split: prod.split)
qed

lemma http_create_topic_409:
  assumes "\<not> proc_poisoned s" "TopicName_new (ctr_name request) = Ok t" "ctr_partitions request \<noteq> 0"
    "bt_contains (db_topics (proc_broker s)) t"
  shows "fst (http_serve E S sio (PostTopics (Inr request)) s) =
      Some (into_response (ApiTopicAlreadyExists (str ''topic already exists: '' @ tn_str t)))"
    and "proc_state (snd (http_serve E S sio (PostTopics (Inr request)) s)) = proc_state s"
proof -
  let ?c = "\<lparr>ctc_name = t, ctc_config = \<lparr>tc_partition_count = ctr_partitions request\<rparr>\<rparr>"
  have "db_create_topic E sio ?c (proc_broker s) (proc_fs s) = (Err (DBroker (TopicAlreadyExists t)), proc_broker s, proc_fs s)"
    using assms(4) by (simp add: db_create_topic_def Topic_new_def)
  then have "\<exists>r. broker_create_topic E sio ?c s = (Err (DBroker (TopicAlreadyExists t)), s\<lparr>proc_metrics := r\<rparr>)"
    by (simp add: broker_create_topic_def counted_def) (metis process.surjective process.update_convs(1,2,4))
  then obtain r where "create_topic_inner E sio (Inr request) s =
      (Err (ApiTopicAlreadyExists (str ''topic already exists: '' @ tn_str t)), s\<lparr>proc_metrics := r\<rparr>)"
    using assms(1-3)
    by (auto simp: create_topic_inner_def parse_topic_name_def TopicConfig_new_def checked_def http_with_broker_def
        locked_def map_action_def)
  then have h: "\<exists>r. http_create_topic E sio (Inr request) s =
      (Err (ApiTopicAlreadyExists (str ''topic already exists: '' @ tn_str t)), s\<lparr>proc_metrics := r\<rparr>)"
    by (simp add: http_create_topic_def observed_def) blast
  then show "fst (http_serve E S sio (PostTopics (Inr request)) s) =
      Some (into_response (ApiTopicAlreadyExists (str ''topic already exists: '' @ tn_str t)))"
    "proc_state (snd (http_serve E S sio (PostTopics (Inr request)) s)) = proc_state s"
    by (auto simp: http_serve_def)
qed

end
