(* ===== verification/Server_Restart.thy ===== *)
theory Server_Restart
  imports Server_Messages Durable_Release
begin

text \<open>
  Crashes of a process that has only taken in topics and messages. Whatever its requests, the state log
  holds whole events up to a possibly partial last line, so that opening the directory again gives the
  very same broker: no delivery was pending, so none is released. A process can therefore crash and be
  started again any number of times, and what was accepted stays.
\<close>

section \<open>Requests of producers\<close>

definition producing_op :: "db_op \<Rightarrow> durable_broker \<times> fs \<Rightarrow> bool" where
  "producing_op x s \<longleftrightarrow>
     (case x of
        DbCreateTopic sio c \<Rightarrow> all_or_nothing x
      | DbPublish io c \<Rightarrow> True
      | _ \<Rightarrow> False)"

text \<open>
  Publishing over gRPC and every route of HTTP; an event is written in full or not at all, and a failed
  append of a message is rolled back.
\<close>

fun producing :: "server_request \<Rightarrow> bool" where
  "producing (Rpc (RpcPublish io request)) \<longleftrightarrow> io_recovers io"
| "producing (Rpc request) \<longleftrightarrow> False"
| "producing (Http sio request) \<longleftrightarrow> sio_failed_after sio = None \<or> sio_failed_after sio = Some 0"

lemma producing_permits: "producing q \<Longrightarrow> permits producing_op q" "producing q \<Longrightarrow> request_ok q"
  by (cases "(producing_op, q)" rule: permits.cases; simp add: producing_op_def all_or_nothing_def)+

lemma producing_clean: "producing_op x s \<Longrightarrow> clean_step E x s"
  by (cases x; cases s) (simp_all add: producing_op_def clean_step_def all_or_nothing_def)

lemma create_topic_state: "db_state (fst (snd (db_create_topic E sio c b fs))) = db_state b"
  by (simp add: db_create_topic_def Let_def split: rres.split prod.split)

lemma append_state: "db_state (fst (snd (db_append_to_topic E io t e b fs))) = db_state b"
  by (simp add: db_append_to_topic_def Let_def split: option.split rres.split prod.split)

lemma publish_state: "db_state (fst (snd (db_publish E io c b fs))) = db_state b"
  using append_state[of E io "pc_topic c" "pc_envelope c" b fs]
  by (auto simp: db_publish_def Let_def split: rres.split prod.split idempotency_check.split)

lemma producing_state:
  assumes "db_run E config producing_op s" "env_ok E config"
  shows "db_state (fst s) = DurableDeliveryState_default"
  using assms(1)
proof (induction rule: db_run.induct)
  case (opened fs b fs')
  then show ?case using open_fresh(1)[OF opened(1), of E] assms(2) by (auto simp: env_ok_def DurableBroker_new_def)
next
  case (operation s x)
  obtain b fs where "s = (b, fs)" by (metis surj_pair)
  with operation show ?case by (cases x) (simp_all add: producing_op_def create_topic_state publish_state)
qed

section \<open>Starting again\<close>

lemma restart_producing:
  assumes good: "proc_good E config producing_op s" and env: "env_ok E config" "event_codec_ok (env_events E)"
    and room: "proc_room s" and tail: "10 \<notin> set tail"
  shows "\<exists>s'. fst (broker_open E config (torn_state_log config tail (proc_fs s))) = Ok s' \<and>
    proc_state s' = proc_state s \<and> proc_good E config producing_op s'"
proof -
  let ?fs = "torn_state_log config tail (proc_fs s)"
  have run: "db_run E config producing_op (proc_state s)" using good by (simp add: proc_good_def)
  have clean: "db_run E config (clean_step E) (proc_broker s, proc_fs s)"
    using db_run_weaken[OF run] producing_clean by blast
  have "release_recovered_pending (proc_broker s) = proc_broker s"
    using producing_state[OF run env(1)]
    by (cases "proc_broker s") (simp add: release_recovered_pending_def dds_release_pending_def DurableDeliveryState_default_def)
  with open_after_run[OF clean env _ tail] room
  have opened: "DurableBroker_open E config ?fs = (Ok (proc_broker s), proc_fs s)" by (simp add: proc_room_def)
  let ?r = "observe_open (Ok (proc_broker s))
    (observe_recovery (fst (recover_state_events (env_events E) (state_path config) ?fs)) [])"
  have "fst (broker_open E config ?fs) =
      Ok \<lparr>proc_broker = proc_broker s, proc_fs = proc_fs s, proc_poisoned = False, proc_metrics = ?r\<rparr>"
    by (simp add: broker_open_def opened Let_def)
  moreover have "recorded ?r" by (intro observed_recorded recorded.recorded_empty)
  ultimately show ?thesis using run by (simp add: proc_good_def)
qed

section \<open>Runs of producers with crashes\<close>

text \<open>
  A crash leaves the files as they are, but for the part \<^verbatim>\<open>tail\<close> of a line of the state log that was being
  written; the process that is started next begins with empty counters.
\<close>

inductive producer_steps ::
  "durable_env \<Rightarrow> search_env \<Rightarrow> durable_broker_config \<Rightarrow> process \<Rightarrow> process \<Rightarrow> bool" for E S config s where
  idle: "producer_steps E S config s s"
| served: "producer_steps E S config s s' \<Longrightarrow> producing q \<Longrightarrow> proc_room s' \<Longrightarrow>
    producer_steps E S config s (snd (serve E S q s'))"
| restarted: "producer_steps E S config s s' \<Longrightarrow> proc_room s' \<Longrightarrow> 10 \<notin> set tail \<Longrightarrow>
    fst (broker_open E config (torn_state_log config tail (proc_fs s'))) = Ok s'' \<Longrightarrow> producer_steps E S config s s''"

definition producer_run :: "durable_env \<Rightarrow> search_env \<Rightarrow> durable_broker_config \<Rightarrow> process \<Rightarrow> bool" where
  "producer_run E S config s \<longleftrightarrow>
     (\<exists>fs s0. fresh_fs config fs \<and> fst (broker_open E config fs) = Ok s0 \<and> producer_steps E S config s0 s)"

lemma producer_steps_good:
  assumes "producer_steps E S config s s'" "env_ok E config" "event_codec_ok (env_events E)"
    and "proc_good E config producing_op s"
  shows "proc_good E config producing_op s' \<and> proc_follows E s s'"
  using assms
proof (induction rule: producer_steps.induct)
  case idle
  then show ?case by (simp add: proc.follows_refl)
next
  case (served s' q)
  obtain a s'' where q: "serve E S q s' = (a, s'')" by (metis surj_pair)
  from served have IH: "proc_good E config producing_op s'" "proc_follows E s s'" by blast+
  from serve_good[OF served.prems(1) _ IH(1) served.hyps(3) q] producing_permits[OF served.hyps(2)] IH(2) show ?case
    by (auto simp: q intro: proc.follows_trans)
next
  case (restarted s' tail s'')
  then have IH: "proc_good E config producing_op s'" "proc_follows E s s'" by blast+
  from restart_producing[OF IH(1) restarted.prems(1,2) restarted.hyps(2,3)] restarted.hyps(4) have
    "proc_state s'' = proc_state s'" "proc_good E config producing_op s''" by auto
  with IH(2) show ?case by (simp add: proc_follows_def)
qed

lemma producer_run_good:
  assumes "producer_run E S config s" "env_ok E config" "event_codec_ok (env_events E)"
  shows "proc_good E config producing_op s"
  using assms started_good producer_steps_good unfolding producer_run_def by blast

end
