(* ===== verification/Server_Delivery.thy ===== *)
theory Server_Delivery
  imports Server_Messages
begin

text \<open>
  From an accepted publish to the batch a consumer gets: the message at the location of the response is
  the published one, and it is there, once, when it waits for the group and the batch has room left.
\<close>

section \<open>What retry maintenance and consuming do to a message\<close>

text \<open>A batch that is not full has every message that waits for the group, each once.\<close>

lemma broker_consume_complete:
  assumes M: "implements E config (proc_state s) M" and con: "broker_consume E sio c s = (Ok ms, s')"
    and dt: "bt_get (db_topics (proc_broker s)) (cc_topic c) \<noteq> None"
    and part: "length ms < cc_max_messages c"
    and at: "message_at (db_mem M (proc_broker s)) (ref_of c x) = Some e"
    and av: "status_of_ref (db_mem M (proc_broker s)) (cc_consumer_group_id c) (ref_of c x) = Available"
  shows "length (filter (\<lambda>m. cm_topic m = cc_topic c \<and> (cm_partition_id m, cm_offset m) = x) ms) = 1"
proof -
  let ?b = "proc_broker s" and ?fs = "proc_fs s" and ?m = "db_mem M (proc_broker s)"
  have inv: "broker_inv ?m" "logs_fit ?m" "db_wf E ?b ?fs M"
    using implements_inv[OF M] implements_fit[OF M] M by (simp_all add: implements_def)
  obtain b' fs' where run: "db_consume E sio c ?b ?fs = (Ok ms, b', fs')"
    using con by (auto simp: broker_consume_def counted_def split: prod.splits)
  obtain dt where dt': "bt_get (db_topics ?b) (cc_topic c) = Some dt" using dt by blast
  let ?st = "mem_topic (M (cc_topic c)) dt"
  have st: "bt_get (bs_topics ?m) (cc_topic c) = Some ?st" using dt' by simp
  from db_consume_cases[OF inv(3,1,2) run] have mem:
    "consume c (fst (consume_lease ?b c)) (snd (consume_lease ?b c)) ?m = (Ok ms, db_mem M b')" by blast
  have sel: "\<exists>expires. ms = map (consumed_at ?m c expires) (selection ?m c ?st)"
    by (rule consume_cases[OF inv(1,2), of c "fst (consume_lease ?b c)" "snd (consume_lease ?b c)"])
      (use mem st in auto)
  then obtain expires where ms: "ms = map (consumed_at ?m c expires) (selection ?m c ?st)" by blast
  let ?av = "available_messages ?m (cc_consumer_group_id c) (cc_topic c) ?st"
  from part ms have all: "selection ?m c ?st = ?av" by (simp add: selection_def)
  have x: "x \<in> set ?av" by (rule in_available_messages[OF st inv(2) at av])
  have d: "distinct ?av" using selection_selection_ok[OF inv(1,2) st] all by (simp add: selection_ok_def)
  have "filter (\<lambda>m. cm_topic m = cc_topic c \<and> (cm_partition_id m, cm_offset m) = x) ms =
      map (consumed_at ?m c expires) (filter (\<lambda>y. y = x) ?av)"
    unfolding ms all by (simp add: filter_map comp_def consumed_at_def)
  with filter_eq_distinct[OF d x] show ?thesis by simp
qed

text \<open>The retry maintenance before every consume keeps what is available.\<close>

lemma broker_retry_ready_keeps:
  assumes M: "implements E config (proc_state s) M" and room: "proc_room s"
    and ret: "broker_retry_ready E sio now s = (Ok summary, s')"
  obtains M' where "implements E config (proc_state s') M'"
    "available_kept (db_mem M (proc_broker s)) (db_mem M' (proc_broker s'))"
    "\<And>r e. message_at (db_mem M (proc_broker s)) r = Some e \<Longrightarrow> message_at (db_mem M' (proc_broker s')) r = Some e"
    "db_topics (proc_broker s') = db_topics (proc_broker s)"
proof -
  let ?b = "proc_broker s" and ?fs = "proc_fs s"
  have inv: "broker_inv (db_mem M ?b)" using implements_inv[OF M] by simp
  have room': "db_has_room (fst (proc_state s))" using room by (simp add: proc_room_def)
  obtain b' fs' where run: "db_retry_ready E sio now ?b ?fs = (Ok summary, b', fs')" "proc_state s' = (b', fs')"
    using ret by (auto simp: broker_retry_ready_def counted_def split: prod.splits)
  have app: "db_apply E (DbRetryReady sio now) (proc_state s) = (b', fs')"
    "db_outcome E (DbRetryReady sio now) (proc_state s) = Ok ()" using run(1) by simp_all
  obtain M' where M': "implements E config (b', fs') M'"
    "db_svc M' b' = svc_apply (env_sha E) (SvcRetryReady now) (db_svc M ?b)"
    "svc_steps (env_sha E) (db_svc M ?b) (db_svc M' b')"
    using step_implements[OF M _ room', of "DbRetryReady sio now"] app by auto
  obtain res m' where mem: "retry_ready now (bc_retry_policy (dbc_broker_config (db_config ?b))) (db_mem M ?b) = (res, m')"
    by (metis surj_pair)
  have "db_mem M' b' = svc_state (svc_apply (env_sha E) (SvcRetryReady now) (db_svc M ?b))" by (simp flip: M'(2))
  then have "db_mem M' b' = m'" using mem by (simp add: svc_apply_def svc_retry_ready_def svc_lift_def)
  with retry_ready_available_kept[OF inv mem] steps_message_at[OF M, of M' "(b', fs')"] M'(1,3) run(2)
    retry_ready_topics[of E sio now ?b ?fs] run(1) show ?thesis
    by (intro that[of M']) simp_all
qed

section \<open>From a publish to a complete delivery\<close>

definition at_location :: "publish_response \<Rightarrow> proto_consumed_message \<Rightarrow> bool" where
  "at_location resp m \<longleftrightarrow>
     (cms_topic m, cms_partition m, cms_offset m) = (prs_topic resp, prs_partition resp, prs_offset resp)"

text \<open>The published message waits for the group that asks: no delivery, retry or settlement of it is recorded.\<close>

definition awaits :: "durable_broker \<Rightarrow> consume_request \<Rightarrow> publish_response \<Rightarrow> bool" where
  "awaits b c resp \<longleftrightarrow>
     (case (TopicName_new (crq_topic c), ConsumerGroupId_new (crq_consumer_group c)) of
        (Ok t, Ok g) \<Rightarrow> tn_str t = prs_topic resp \<and>
          (case dds_partition_state (db_state b) g t (PartitionId (prs_partition resp)) of
             None \<Rightarrow> True | Some ps \<Rightarrow> gp_is_available ps (Offset (prs_offset resp)))
      | _ \<Rightarrow> False)"

definition delivers ::
  "durable_broker \<Rightarrow> consume_request \<Rightarrow> publish_request \<Rightarrow> publish_response \<Rightarrow> consume_response \<Rightarrow> bool" where
  "delivers b c q resp received \<longleftrightarrow>
     (\<forall>m\<in>set (crs_messages received). at_location resp m \<longrightarrow> carries m q) \<and>
     (awaits b c resp \<and> length (crs_messages received) < unat (crq_max_messages c) \<longrightarrow>
        length (filter (at_location resp) (crs_messages received)) = 1)"

lemma awaits_status:
  assumes "awaits b c resp" "TopicName_new (crq_topic c) = Ok t" "ConsumerGroupId_new (crq_consumer_group c) = Ok g"
  shows "prs_topic resp = tn_str t"
    "status (db_mem M b) g t (PartitionId (prs_partition resp)) (Offset (prs_offset resp)) = Available"
  using assms by (simp_all add: awaits_def mem_partition_state[of _ _ _ _ _ "bs_topics (db_mem M b)" "db_idempotency_index b"]
      db_mem_eq[symmetric] offset_available_iff)

text \<open>The answer to a consume from a broker that holds the message.\<close>

lemma consume_delivers:
  assumes room: "proc_room s" and con: "rpc_consume E sio_retry sio_consume c s = (Ok received, s')"
    and M: "implements E config (proc_state s) M"
    and at: "message_at (db_mem M (proc_broker s)) (location t p off) = Some e"
    and loc: "prs_topic resp = tn_str t" "prs_partition resp = pid_value p" "prs_offset resp = offset_value off"
    and e: "publish_envelope q = Ok e"
  shows "delivers (proc_broker s) c q resp received"
proof -
  from con obtain command summary s1 ms s2 where
    ret: "broker_retry_ready E sio_retry (MessageTimestamp (crq_now_unix_ms c)) s = (Ok summary, s1)"
    and bc: "broker_consume E sio_consume command s1 = (Ok ms, s2)"
    and rec: "crs_messages received = map consumed_message ms"
    and tg: "TopicName_new (crq_topic c) = Ok (cc_topic command)"
      "ConsumerGroupId_new (crq_consumer_group c) = Ok (cc_consumer_group_id command)"
    and max: "cc_max_messages command = unat (crq_max_messages c)"
    and known: "bt_get (db_topics (proc_broker s)) (cc_topic command) \<noteq> None" by (rule rpc_consume_Ok) blast
  obtain M1 where M1: "implements E config (proc_state s1) M1"
    "available_kept (db_mem M (proc_broker s)) (db_mem M1 (proc_broker s1))"
    "message_at (db_mem M1 (proc_broker s1)) (location t p off) = Some e"
    "db_topics (proc_broker s1) = db_topics (proc_broker s)"
    using broker_retry_ready_keeps[OF M room ret] at by metis
  have here: "at_location resp (consumed_message k) \<longleftrightarrow>
      cm_topic k = t \<and> (cm_partition_id k, cm_offset k) = (p, off)" for k
    using loc by (auto simp: at_location_def consumed_message_def Let_def intro: topic_name.expand partition_id.expand offset.expand)
  have "carries (consumed_message k) q" if "k \<in> set ms" "at_location resp (consumed_message k)" for k
  proof -
    from that(2) here have "location (cm_topic k) (cm_partition_id k) (cm_offset k) = location t p off" by simp
    with broker_consume_stored[OF M1(1) bc that(1)] M1(3) have "cm_envelope k = e" by simp
    with publish_envelope_fields[OF e] show ?thesis by simp
  qed
  moreover have "length (filter (at_location resp) (crs_messages received)) = 1"
    if aw: "awaits (proc_broker s) c resp" and part: "length (crs_messages received) < unat (crq_max_messages c)"
  proof -
    note w = awaits_status[OF aw tg]
    from w(1) loc(1) have t: "cc_topic command = t" by (auto intro: topic_name.expand)
    from w(2)[of M] have av: "status (db_mem M (proc_broker s)) (cc_consumer_group_id command) t p off = Available"
      by (simp add: loc t)
    have ref: "ref_of command (p, off) = location t p off" by (simp add: ref_of_def location_def t)
    have "status_of_ref (db_mem M1 (proc_broker s1)) (cc_consumer_group_id command) (ref_of command (p, off)) = Available"
      using M1(2)[unfolded available_kept_def, rule_format, of "cc_consumer_group_id command" "location t p off"] av
      unfolding ref by (simp add: status_of_ref_def location_def)
    with broker_consume_complete[OF M1(1) bc _ _ M1(3)[folded ref]] known part rec max M1(4)
    have "length (filter (\<lambda>k. cm_topic k = cc_topic command \<and> (cm_partition_id k, cm_offset k) = (p, off)) ms) = 1"
      by simp
    then show ?thesis by (simp add: rec filter_map comp_def here t)
  qed
  ultimately show ?thesis by (auto simp: delivers_def rec)
qed

lemma published_then_delivered:
  assumes env: "env_ok E config" and good: "proc_good E config any_step s" and room: "proc_room s" and io: "io_recovers io"
    and pub: "rpc_publish E io q s = (Ok resp, s1)" "\<not> prs_deduplicated resp"
    and later: "proc_follows E s1 s2" "proc_room s2"
    and con: "rpc_consume E sio_retry sio_consume c s2 = (Ok received, s3)"
  shows "delivers (proc_broker s2) c q resp received"
proof -
  from pub(1) obtain t e pm s1' where e: "publish_envelope q = Ok e"
    and bp: "broker_publish E io \<lparr>pc_topic = t, pc_envelope = e\<rparr> s = (Ok pm, s1')"
    and st: "proc_state s1 = proc_state s1'" and resp: "prs_topic resp = tn_str (pm_topic pm)"
      "prs_partition resp = pid_value (pm_partition_id pm)" "prs_offset resp = offset_value (pm_offset pm)"
      "prs_deduplicated resp = pm_deduplicated pm"
    by (rule rpc_publish_Ok) simp
  obtain M1 where M1: "implements E config (proc_state s1) M1"
    "message_at (db_mem M1 (proc_broker s1)) (location (pm_topic pm) (pm_partition_id pm) (pm_offset pm)) = Some e"
    using broker_publish_stored[OF good env room io bp] pub(2) st resp(4) by auto
  from follows_stored[OF M1(1) later(1) M1(2)] obtain M2 where M2: "implements E config (proc_state s2) M2"
    "message_at (db_mem M2 (proc_broker s2)) (location (pm_topic pm) (pm_partition_id pm) (pm_offset pm)) = Some e" .
  show ?thesis by (rule consume_delivers[OF later(2) con M2 resp(1-3) e])
qed

end
