(* ===== verification/Server_Ack.thy ===== *)
theory Server_Ack
  imports Server_Delivery
begin

text \<open>
  From a delivery over gRPC to its acknowledgement: the delivery a consumer gets is pending under its id,
  acknowledging it settles the message for the group, and a settled message is not handed out again.
\<close>

definition delivery_of :: "durable_broker \<Rightarrow> rstring \<Rightarrow> pending_delivery option" where
  "delivery_of b v = bt_get (dds_pending (db_state b)) (DeliveryId (trim v))"

section \<open>A delivery is pending\<close>

lemma consumed_is_pending:
  assumes M: "implements E config (proc_state s) M" and con: "broker_consume E sio c s = (Ok ms, s')" and m: "k \<in> set ms"
  shows "\<exists>pd. delivery_of (proc_broker s') (did_str (cm_delivery_id k)) = Some pd \<and>
    pd_message_ref pd = location (cm_topic k) (cm_partition_id k) (cm_offset k) \<and>
    pd_consumer_group_id pd = cc_consumer_group_id c"
proof -
  let ?b = "proc_broker s" and ?fs = "proc_fs s" and ?m = "db_mem M (proc_broker s)"
  have inv: "broker_inv ?m" "logs_fit ?m" "db_wf E ?b ?fs M"
    using implements_inv[OF M] implements_fit[OF M] M by (simp_all add: implements_def)
  obtain b' fs' where run: "db_consume E sio c ?b ?fs = (Ok ms, b', fs')" "proc_broker s' = b'"
    using con by (auto simp: broker_consume_def counted_def split: prod.splits)
  from db_consume_cases[OF inv(3,1,2) run(1)] have mem:
    "consume c (fst (consume_lease ?b c)) (snd (consume_lease ?b c)) ?m = (Ok ms, db_mem M b')" by blast
  have "\<exists>st expires. ms = map (consumed_at ?m c expires) (selection ?m c st) \<and>
      consumed_all ?m c expires (selection ?m c st) (db_mem M b')"
    by (rule consume_cases[OF inv(1,2), of c "fst (consume_lease ?b c)" "snd (consume_lease ?b c)"])
      (use mem m in auto)
  then obtain st expires x where x: "x \<in> set (selection ?m c st)" "k = consumed_at ?m c expires x"
    and all: "consumed_all ?m c expires (selection ?m c st) (db_mem M b')" using m by auto
  from all x(1) have "bt_get (dds_pending (db_state b')) (delivery_id_at ?m c x) = Some (pending_at ?m c expires x)"
    unfolding consumed_all_def by simp
  moreover have "DeliveryId (trim (did_str (delivery_id_at ?m c x))) = delivery_id_at ?m c x"
    by (simp add: delivery_id_at_def trim_of_trimmed delivery_id_text_trimmed)
  ultimately show ?thesis
    using run(2) by (simp add: delivery_of_def x(2) consumed_at_def pending_at_def ref_of_def location_def)
qed

section \<open>An acknowledgement settles\<close>

lemma rpc_ack_Ok:
  assumes "rpc_ack E sio clock q s = (Ok u, s')"
  obtains k s1 where "DeliveryId_new (arq_delivery_id q) = Ok (DeliveryId (trim (arq_delivery_id q)))"
    "broker_ack E sio \<lparr>ac_delivery_id = DeliveryId (trim (arq_delivery_id q)), ac_consumer_id = k,
       ac_timestamp = current_unix_millis clock\<rparr> s = (Ok (), s1)" "proc_state s' = proc_state s1"
proof -
  from observed_Ok[OF assms[unfolded rpc_ack_def]] obtain s1 where
    s1: "ack_inner E sio clock q s = (Ok u, s1)" "proc_state s' = proc_state s1" by blast
  from s1(1) obtain d k where d: "DeliveryId_new (arq_delivery_id q) = Ok d" and
    a: "broker_ack E sio \<lparr>ac_delivery_id = d, ac_consumer_id = k, ac_timestamp = current_unix_millis clock\<rparr> s = (Ok u, s1)"
    unfolding ack_inner_def checked_Ok rpc_with_broker_Ok by (auto simp: rpc_delivery_id_def)
  have "d = DeliveryId (trim (arq_delivery_id q))" using d by (simp add: DeliveryId_new_def bt_text.new_Ok_iff)
  with d a s1(2) that show ?thesis by simp
qed

lemma broker_ack_settles:
  assumes M: "implements E config (proc_state s) M" and room: "proc_room s"
    and run: "broker_ack E sio c s = (Ok (), s')"
    and pd: "bt_get (dds_pending (db_state (proc_broker s))) (ac_delivery_id c) = Some pd"
  obtains M' where "implements E config (proc_state s') M'"
    "status_of_ref (db_mem M' (proc_broker s')) (pd_consumer_group_id pd) (pd_message_ref pd) = Done"
proof -
  let ?b = "proc_broker s" and ?fs = "proc_fs s"
  have inv: "broker_inv (db_mem M ?b)" "db_wf E ?b ?fs M"
    using implements_inv[OF M] M by (simp_all add: implements_def)
  have room': "db_has_room (fst (proc_state s))" using room by (simp add: proc_room_def)
  obtain b' fs' where a: "db_ack E sio c ?b ?fs = (Ok (), b', fs')" "proc_state s' = (b', fs')"
    using run by (auto simp: broker_ack_def counted_def split: prod.splits)
  have app: "db_apply E (DbAck sio c) (proc_state s) = (b', fs')" "db_outcome E (DbAck sio c) (proc_state s) = Ok ()"
    using a(1) by simp_all
  obtain M' where M': "implements E config (b', fs') M'"
    "db_svc M' b' = svc_apply (env_sha E) (SvcAck c) (db_svc M ?b)"
    using step_implements[OF M _ room', of "DbAck sio c"] app by auto
  from db_ack_cases[OF inv(2) a(1)] have ok: "ack c (db_mem M ?b) = (Ok (), db_mem M b')" by blast
  have "db_mem M' b' = svc_state (svc_apply (env_sha E) (SvcAck c) (db_svc M ?b))" by (simp flip: M'(2))
  then have mem: "db_mem M' b' = db_mem M b'" using ok by (simp add: svc_apply_def svc_ack_def svc_lift_def)
  have pd': "bt_get (bs_pending (db_mem M ?b)) (ac_delivery_id c) = Some pd" using pd by simp
  have "db_mem M b' = settle (ack_update (pd_offset pd)) (ac_delivery_id c) pd (db_mem M ?b)"
    using ok pd' by (auto simp: ack_eq pending_for_command_cases split: if_splits)
  with settle_done(2)[OF inv(1) pd'] mem have
    "status_of_ref (db_mem M' b') (pd_consumer_group_id pd) (pd_message_ref pd) = Done"
    by (simp add: settled_status_def pd_loc_def)
  with M'(1) a(2) that show ?thesis by simp
qed

section \<open>A settled message stays settled\<close>

lemma follows_settled:
  assumes "implements E config (proc_state s) M" "proc_follows E s s'" "status_of_ref (db_mem M (proc_broker s)) g r = Done"
  obtains M' where "implements E config (proc_state s') M'" "status_of_ref (db_mem M' (proc_broker s')) g r = Done"
proof -
  obtain M' where M': "implements E config (proc_state s') M'"
    "svc_steps (env_sha E) (db_svc M (fst (proc_state s))) (db_svc M' (fst (proc_state s')))"
    using steps_implements[OF assms(2)[unfolded proc_follows_def] assms(1)] .
  have "svc_reachable (env_sha E) (dbc_broker_config config) (db_svc M (proc_broker s))"
    using assms(1) by (simp add: implements_def)
  from svc_steps_inv[OF M'(2)] svc_reachable_inv[OF this] have
    "evolves (db_mem M (proc_broker s)) (db_mem M' (proc_broker s'))" by auto
  with assms(3) status_steps_final(1) have "status_of_ref (db_mem M' (proc_broker s')) g r = Done"
    unfolding evolves_def by metis
  with M'(1) that show ?thesis by blast
qed

lemma consume_skips_settled:
  assumes M: "implements E config (proc_state s) M" and con: "broker_consume E sio c s = (Ok ms, s')" and k: "k \<in> set ms"
    and settled: "status_of_ref (db_mem M (proc_broker s)) (cc_consumer_group_id c) r = Done"
  shows "location (cm_topic k) (cm_partition_id k) (cm_offset k) \<noteq> r"
proof -
  let ?b = "proc_broker s" and ?fs = "proc_fs s" and ?m = "db_mem M (proc_broker s)"
  have inv: "broker_inv ?m" "logs_fit ?m" "db_wf E ?b ?fs M"
    using implements_inv[OF M] implements_fit[OF M] M by (simp_all add: implements_def)
  obtain b' fs' where run: "db_consume E sio c ?b ?fs = (Ok ms, b', fs')"
    using con by (auto simp: broker_consume_def counted_def split: prod.splits)
  from db_consume_cases[OF inv(3,1,2) run] k obtain expires dt where
    dt: "bt_get (db_topics ?b) (cc_topic c) = Some dt" and
    ms: "ms = map (consumed_at ?m c expires) (selection ?m c (mem_topic (M (cc_topic c)) dt))" by auto
  have st: "bt_get (bs_topics ?m) (cc_topic c) = Some (mem_topic (M (cc_topic c)) dt)" using dt by simp
  from k ms selection_selection_ok[OF inv(1,2) st] obtain x where
    "k = consumed_at ?m c expires x" "status_of_ref ?m (cc_consumer_group_id c) (ref_of c x) = Available"
    unfolding selection_ok_def by auto
  with settled show ?thesis by (auto simp: consumed_at_def location_def ref_of_def)
qed

section \<open>From a delivery to the batches after its acknowledgement\<close>

lemma proto_location:
  "(cms_topic (consumed_message k), cms_partition (consumed_message k), cms_offset (consumed_message k)) =
     (cms_topic (consumed_message j), cms_partition (consumed_message j), cms_offset (consumed_message j)) \<longleftrightarrow>
   location (cm_topic k) (cm_partition_id k) (cm_offset k) = location (cm_topic j) (cm_partition_id j) (cm_offset j)"
  by (auto simp: consumed_message_def Let_def location_def intro: topic_name.expand partition_id.expand offset.expand)

lemma acknowledged_then_skipped:
  assumes env: "env_ok E config" and good: "proc_good E config any_step s" and room: "proc_room s"
    and con: "rpc_consume E sio_retry sio_consume c s = (Ok received, s1)" "m \<in> set (crs_messages received)"
    and acker: "proc_good E config any_step s2" "proc_room s2"
      "delivery_of (proc_broker s2) (cms_delivery_id m) = delivery_of (proc_broker s1) (cms_delivery_id m)"
    and ack: "rpc_ack E sio_ack clock q s2 = (Ok u, s3)" "trim (arq_delivery_id q) = trim (cms_delivery_id m)"
    and later: "proc_good E config any_step s4" "proc_follows E s3 s4" "proc_room s4"
    and again: "rpc_consume E sio_retry' sio_consume' c' s4 = (Ok received', s5)"
      "trim (crq_consumer_group c') = trim (crq_consumer_group c)" "m' \<in> set (crs_messages received')"
  shows "(cms_topic m', cms_partition m', cms_offset m') \<noteq> (cms_topic m, cms_partition m, cms_offset m)"
proof -
  from con(1) obtain command summary sa ms sb where
    ret: "broker_retry_ready E sio_retry (MessageTimestamp (crq_now_unix_ms c)) s = (Ok summary, sa)"
    and bc: "broker_consume E sio_consume command sa = (Ok ms, sb)"
    and rec: "crs_messages received = map consumed_message ms"
    and g: "ConsumerGroupId_new (crq_consumer_group c) = Ok (cc_consumer_group_id command)"
    and st1: "proc_state s1 = proc_state sb" by (rule rpc_consume_Ok) blast
  obtain Ma where Ma: "implements E config (proc_state sa) Ma"
    using proc.orderlyD[OF broker_orderly(6)[OF env] good room ret] good_implements[OF _ env] by simp blast
  from con(2) rec obtain k where k: "k \<in> set ms" "m = consumed_message k" by auto
  from consumed_is_pending[OF Ma bc k(1)] obtain pd where
    pd: "delivery_of (proc_broker s1) (cms_delivery_id m) = Some pd"
      "pd_message_ref pd = location (cm_topic k) (cm_partition_id k) (cm_offset k)"
      "pd_consumer_group_id pd = cc_consumer_group_id command"
    using st1 k(2) by (auto simp: consumed_message_def Let_def)
  from ack(1) obtain kc s3' where
    ba: "broker_ack E sio_ack \<lparr>ac_delivery_id = DeliveryId (trim (arq_delivery_id q)), ac_consumer_id = kc,
       ac_timestamp = current_unix_millis clock\<rparr> s2 = (Ok (), s3')" and st3: "proc_state s3 = proc_state s3'"
    by (rule rpc_ack_Ok) blast
  obtain M2 where M2: "implements E config (proc_state s2) M2" using good_implements[OF acker(1) env] .
  have "bt_get (dds_pending (db_state (proc_broker s2))) (DeliveryId (trim (arq_delivery_id q))) = Some pd"
    using acker(3) pd(1) ack(2) by (simp add: delivery_of_def)
  with broker_ack_settles[OF M2 acker(2) ba] obtain M3 where M3: "implements E config (proc_state s3) M3"
    "status_of_ref (db_mem M3 (proc_broker s3)) (pd_consumer_group_id pd) (pd_message_ref pd) = Done"
    using st3 by auto
  from again(1) obtain command' summary' sc ms' sd where
    ret': "broker_retry_ready E sio_retry' (MessageTimestamp (crq_now_unix_ms c')) s4 = (Ok summary', sc)"
    and bc': "broker_consume E sio_consume' command' sc = (Ok ms', sd)"
    and rec': "crs_messages received' = map consumed_message ms'"
    and g': "ConsumerGroupId_new (crq_consumer_group c') = Ok (cc_consumer_group_id command')"
    by (rule rpc_consume_Ok) blast
  have "proc_follows E s4 sc"
    using proc.orderlyD[OF broker_orderly(6)[OF env] later(1,3) ret'] by simp
  with later(2) have "proc_follows E s3 sc" by (blast intro: proc.follows_trans)
  from follows_settled[OF M3(1) this M3(2)] obtain M4 where M4: "implements E config (proc_state sc) M4"
    "status_of_ref (db_mem M4 (proc_broker sc)) (pd_consumer_group_id pd) (pd_message_ref pd) = Done" .
  from again(3) rec' obtain k' where k': "k' \<in> set ms'" "m' = consumed_message k'" by auto
  have "cc_consumer_group_id command' = pd_consumer_group_id pd"
    using g g' again(2) pd(3) by (simp add: ConsumerGroupId_new_def cg_text.new_Ok_iff)
  with consume_skips_settled[OF M4(1) bc' k'(1)] M4(2) pd(2) show ?thesis
    unfolding k(2) k'(2) proto_location by simp
qed

end
