(* ===== verification/Server_Scenario.thy ===== *)
theory Server_Scenario
  imports Server_Restart Server_Ack Durable_Scenario
begin

text \<open>
  The scenario of \<^verbatim>\<open>Durable_Scenario\<close> through the two servers: the process is started on an empty
  directory, the topic is created over HTTP, the message published, consumed and acknowledged over gRPC.
\<close>

definition acked_event :: broker_state_event where
  "acked_event = MessageAcked (dur_id 1) demo_consumer demo_topic (PartitionId 0) (Offset 0) demo_group (MessageTimestamp 150)"

definition srv_env :: durable_env where
  "srv_env = \<lparr>env_sha = demo_sha, env_records = table_codec dur_records,
     env_events = table_events (dur_events @
       [(RetryMaintenanceApplied (MessageTimestamp 100) [] [], [4]), (acked_event, [5])])\<rparr>"

definition srv_search :: search_env where
  "srv_search = \<lparr>se_alphanumeric = is_ascii_alphanumeric, se_backend = None\<rparr>"

definition srv_started :: process where
  "srv_started = (case fst (broker_open srv_env dur_config []) of
     Ok s \<Rightarrow> s | _ \<Rightarrow> \<lparr>proc_broker = fst dur_opened, proc_fs = [], proc_poisoned = True, proc_metrics = []\<rparr>)"

definition srv_topic_request :: create_topic_request where
  "srv_topic_request = \<lparr>ctr_name = str '' orders '', ctr_partitions = 1\<rparr>"

definition srv_create :: server_request where
  "srv_create = Http state_io_ok (PostTopics (Inr srv_topic_request))"

definition srv_created :: process where
  "srv_created = snd (serve srv_env srv_search srv_create srv_started)"

definition srv_publish_request :: publish_request where
  "srv_publish_request =
     \<lparr>prq_topic = str ''orders'', prq_message_id = str '' m1 '', prq_key = str ''  '', prq_payload = [1, 2, 3],
      prq_content_type = str ''text/plain'', prq_type = str ''created'', prq_source = str ''shop'',
      prq_subject = [], prq_idempotency_key = str ''k1'', prq_time_unix_ms = 5\<rparr>"

definition srv_published :: process where
  "srv_published = snd (rpc_publish srv_env io_all_ok srv_publish_request srv_created)"

definition srv_consume_request :: consume_request where
  "srv_consume_request =
     \<lparr>crq_topic = str ''orders'', crq_consumer_group = str ''billing'', crq_consumer_id = str ''worker'',
      crq_max_messages = 10, crq_lease_ms = 30000, crq_now_unix_ms = 100\<rparr>"

lemma srv_env_ok: "env_ok srv_env dur_config"
  using dur_env_ok(1) by (simp add: env_ok_def dur_env_def srv_env_def)

lemma srv_started_ok: "fst (broker_open srv_env dur_config []) = Ok srv_started"
  by code_simp

lemma srv_started_room: "proc_room srv_started"
  by code_simp

lemma srv_created_state:
  "proc_broker srv_created = fst dur_created" "proc_fs srv_created = snd dur_created" "\<not> proc_poisoned srv_created"
  by code_simp+

lemma srv_created_room: "proc_room srv_created"
  unfolding proc_room_def srv_created_state by code_simp

lemma srv_started_run: "server_run srv_env srv_search dur_config srv_started"
proof -
  have "fresh_fs dur_config []" by (simp add: fresh_fs_def log_files_def)
  then show ?thesis using srv_started_ok server_steps.idle unfolding server_run_def by blast
qed

lemma server_run_step:
  assumes "server_run E S config s" "request_ok q" "proc_room s"
  shows "server_run E S config (snd (serve E S q s))"
  using assms server_steps.served unfolding server_run_def by blast

lemma srv_created_run: "server_run srv_env srv_search dur_config srv_created"
  unfolding srv_created_def
  by (rule server_run_step[OF srv_started_run _ srv_started_room]) (simp add: srv_create_def)

lemma srv_created_producing: "producer_run srv_env srv_search dur_config srv_created"
proof -
  have "producer_steps srv_env srv_search dur_config srv_started srv_created"
    unfolding srv_created_def
    by (rule producer_steps.served[OF producer_steps.idle]) (simp_all add: srv_create_def state_io_ok_def srv_started_room)
  moreover have "fresh_fs dur_config []" by (simp add: fresh_fs_def log_files_def)
  ultimately show ?thesis using srv_started_ok unfolding producer_run_def by blast
qed

lemma srv_events_ok: "event_codec_ok (env_events srv_env)"
  unfolding srv_env_def durable_env.simps by (rule table_events_ok) (simp_all add: dur_events_def)

lemma srv_created_answer:
  "fst (http_serve srv_env srv_search state_io_ok (PostTopics (Inr srv_topic_request)) srv_started) =
     Some \<lparr>hr_status = 201, hr_body = TopicBody \<lparr>trs_name = str ''orders'', trs_partitions = 1\<rparr>\<rparr>"
  by code_simp

lemma srv_publish_answer:
  "fst (rpc_publish srv_env io_all_ok srv_publish_request srv_created) =
     Ok \<lparr>prs_topic = str ''orders'', prs_partition = 0, prs_offset = 0, prs_message_id = str ''m1'', prs_deduplicated = False\<rparr>"
  by code_simp

definition srv_publish_response :: publish_response where
  "srv_publish_response =
     \<lparr>prs_topic = str ''orders'', prs_partition = 0, prs_offset = 0, prs_message_id = str ''m1'', prs_deduplicated = False\<rparr>"

lemma srv_publish_step: "rpc_publish srv_env io_all_ok srv_publish_request srv_created = (Ok srv_publish_response, srv_published)"
  unfolding srv_published_def srv_publish_response_def srv_publish_answer[symmetric] by simp

lemma srv_publish_fresh: "\<not> prs_deduplicated srv_publish_response"
  by (simp add: srv_publish_response_def)

lemma srv_published_state:
  "proc_broker srv_published = fst dur_published" "proc_fs srv_published = snd dur_published" "\<not> proc_poisoned srv_published"
  by code_simp+

lemma srv_published_room: "proc_room srv_published"
  unfolding proc_room_def srv_published_state by code_simp

lemma srv_published_awaits: "awaits (proc_broker srv_published) srv_consume_request srv_publish_response"
  unfolding srv_published_state by code_simp

definition dur_settled :: durable_delivery_state where
  "dur_settled =
     \<lparr>dds_groups = [(demo_group, \<lparr>gs_partitions = [((demo_topic, PartitionId 0),
        \<lparr>gp_cursor = 1, gp_acked_offsets = [Offset 0], gp_pending_by_offset = [], gp_retry_by_offset = [],
         gp_dead_lettered_offsets = [], gp_attempt_counts = []\<rparr>)]\<rparr>)],
      dds_pending = [], dds_dead_letters = []\<rparr>"

definition srv_command :: consume_command where
  "srv_command = \<lparr>cc_topic = demo_topic, cc_consumer_group_id = demo_group, cc_consumer_id = demo_consumer,
     cc_max_messages = 10, cc_timestamp = MessageTimestamp 100, cc_delivery_lease_millis = Some 30000\<rparr>"

lemma srv_consume_command:
  "rpc_topic_name (crq_topic srv_consume_request) = Ok demo_topic"
  "rpc_consumer_group_id (crq_consumer_group srv_consume_request) = Ok demo_group"
  "rpc_consumer_id (crq_consumer_id srv_consume_request) = Ok demo_consumer"
  "max_messages (crq_max_messages srv_consume_request) = Ok 10"
  "lease_ms (crq_lease_ms srv_consume_request) = Ok 30000"
  "ConsumeCommand_with_lease_millis demo_topic demo_group demo_consumer 10
     (MessageTimestamp 100) 30000 = Ok srv_command"
  "crq_now_unix_ms srv_consume_request = 100"
  by code_simp+

definition no_maintenance :: retry_summary where
  "no_maintenance = \<lparr>rs_retry_scheduled = 0, rs_lease_expired = 0, rs_made_available = 0, rs_dead_lettered = 0\<rparr>"

definition srv_ack_request :: ack_request where
  "srv_ack_request = \<lparr>arq_delivery_id = did_str (dur_id 1), arq_consumer_id = str '' worker''\<rparr>"

definition srv_ack_command :: ack_command where
  "srv_ack_command = \<lparr>ac_delivery_id = dur_id 1, ac_consumer_id = demo_consumer, ac_timestamp = MessageTimestamp 150\<rparr>"

lemma srv_retry_ready:
  "db_retry_ready srv_env state_io_ok (MessageTimestamp 100) (fst dur_published) (snd dur_published) =
     (Ok no_maintenance, fst dur_published, dur_files [1, 10, 4, 10])"
  by code_simp

lemma srv_retry_ready_settled:
  "db_retry_ready srv_env state_io_ok (MessageTimestamp 100) (dur_broker dur_log dur_index dur_settled)
     (dur_files [1, 10, 4, 10, 2, 10, 5, 10]) =
     (Ok no_maintenance, dur_broker dur_log dur_index dur_settled, dur_files [1, 10, 4, 10, 2, 10, 5, 10, 4, 10])"
  by code_simp

lemma srv_consume:
  "db_consume srv_env state_io_ok srv_command (fst dur_published) (dur_files [1, 10, 4, 10]) =
     (Ok [dur_message 1], fst dur_consumed, dur_files [1, 10, 4, 10, 2, 10])"
  by code_simp

lemma srv_ack:
  "db_ack srv_env state_io_ok srv_ack_command (fst dur_consumed) (dur_files [1, 10, 4, 10, 2, 10]) =
     (Ok (), dur_broker dur_log dur_index dur_settled, dur_files [1, 10, 4, 10, 2, 10, 5, 10])"
  by code_simp

lemma srv_consume_settled:
  "db_consume srv_env state_io_ok srv_command (dur_broker dur_log dur_index dur_settled)
     (dur_files [1, 10, 4, 10, 2, 10, 5, 10, 4, 10]) =
     (Ok [], dur_broker dur_log dur_index dur_settled, dur_files [1, 10, 4, 10, 2, 10, 5, 10, 4, 10])"
  by code_simp

lemma srv_get_topic: "is_ok (db_get_topic (cc_topic srv_command) (dur_broker l i s))"
  by (simp add: db_get_topic_def dur_broker_def srv_command_def bt_get_def)

text \<open>What a request answers depends on the broker and its files only.\<close>

lemma srv_rpc_consume:
  assumes state: "proc_broker s = b" "proc_fs s = fs" "\<not> proc_poisoned s"
    and topic: "is_ok (db_get_topic (cc_topic srv_command) b)"
    and ret: "db_retry_ready srv_env state_io_ok (MessageTimestamp 100) b fs = (Ok summary, b1, fs1)"
    and con: "db_consume srv_env state_io_ok srv_command b1 fs1 = (Ok ms, b2, fs2)"
  shows "\<exists>s'. rpc_consume srv_env state_io_ok state_io_ok srv_consume_request s =
     (Ok \<lparr>crs_messages = map consumed_message ms\<rparr>, s') \<and> proc_state s' = (b2, fs2) \<and> \<not> proc_poisoned s'"
proof -
  obtain topic where g: "db_get_topic (cc_topic srv_command) (proc_broker s) = Ok topic"
    using topic by (auto simp: is_ok_iff state)
  obtain r where r: "broker_retry_ready srv_env state_io_ok (MessageTimestamp 100) s =
      (Ok summary, s\<lparr>proc_broker := b1, proc_fs := fs1, proc_metrics := r\<rparr>)"
    by (simp add: broker_retry_ready_def counted_def state ret)
  obtain r' where c: "broker_consume srv_env state_io_ok srv_command (s\<lparr>proc_broker := b1, proc_fs := fs1, proc_metrics := r\<rparr>) =
      (Ok ms, s\<lparr>proc_broker := b2, proc_fs := fs2, proc_metrics := r'\<rparr>)"
    using con by (simp add: broker_consume_def counted_def)
  have step: "rpc_with_broker (and_then (pure_action (db_get_topic (cc_topic srv_command))) (\<lambda>_.
      and_then (broker_retry_ready srv_env state_io_ok (MessageTimestamp 100)) (\<lambda>_.
      broker_consume srv_env state_io_ok srv_command))) s = (Ok ms, s\<lparr>proc_broker := b2, proc_fs := fs2, proc_metrics := r'\<rparr>)"
    unfolding rpc_with_broker_Ok using state(3) g r c by (simp add: and_then_def pure_action_def)
  have ok: "checked (Ok a) f = f a" for a and f :: "_ \<Rightarrow> (status, consume_response) action" by (simp add: checked_def)
  have "consume_inner srv_env state_io_ok state_io_ok srv_consume_request s =
      (Ok \<lparr>crs_messages = map consumed_message ms\<rparr>, s\<lparr>proc_broker := b2, proc_fs := fs2, proc_metrics := r'\<rparr>)"
    unfolding consume_inner_def Let_def srv_consume_command map_err.simps ok
    unfolding and_then_def[of "rpc_with_broker _"] step prod.case rres.case by (rule refl)
  then show ?thesis using state(3) by (simp add: rpc_consume_def observed_def)
qed

lemma srv_rpc_ack:
  assumes state: "proc_broker s = b" "proc_fs s = fs" "\<not> proc_poisoned s"
    and ack: "db_ack srv_env state_io_ok srv_ack_command b fs = (Ok (), b1, fs1)"
  shows "\<exists>s'. rpc_ack srv_env state_io_ok (Some 150) srv_ack_request s = (Ok (), s') \<and> proc_state s' = (b1, fs1) \<and> \<not> proc_poisoned s'"
proof -
  have q: "rpc_delivery_id (arq_delivery_id srv_ack_request) = Ok (dur_id 1)"
    "rpc_consumer_id (arq_consumer_id srv_ack_request) = Ok demo_consumer"
    "\<lparr>ac_delivery_id = dur_id 1, ac_consumer_id = demo_consumer, ac_timestamp = current_unix_millis (Some 150)\<rparr> = srv_ack_command"
    by code_simp+
  have ok: "checked (Ok a) f = f a" for a and f :: "_ \<Rightarrow> (status, unit) action" by (simp add: checked_def)
  obtain r where r: "broker_ack srv_env state_io_ok srv_ack_command s = (Ok (), s\<lparr>proc_broker := b1, proc_fs := fs1, proc_metrics := r\<rparr>)"
    using ack by (simp add: broker_ack_def counted_def state)
  have "ack_inner srv_env state_io_ok (Some 150) srv_ack_request s = (Ok (), s\<lparr>proc_broker := b1, proc_fs := fs1, proc_metrics := r\<rparr>)"
    unfolding ack_inner_def q(1,2) ok q(3) rpc_with_broker_Ok using state(3) r by simp
  then show ?thesis using state(3) by (simp add: rpc_ack_def observed_def)
qed

text \<open>The answers of the scenario.\<close>

lemma srv_consume_answer:
  assumes state: "proc_broker s = fst dur_published" "proc_fs s = snd dur_published" "\<not> proc_poisoned s"
  obtains s' where "rpc_consume srv_env state_io_ok state_io_ok srv_consume_request s =
      (Ok \<lparr>crs_messages = [consumed_message (dur_message 1)]\<rparr>, s')"
    "proc_broker s' = fst dur_consumed" "proc_fs s' = dur_files [1, 10, 4, 10, 2, 10]" "\<not> proc_poisoned s'"
  using srv_rpc_consume[OF state _ srv_retry_ready srv_consume] srv_get_topic by (auto simp: dur_published_def)

lemma srv_ack_answer:
  assumes state: "proc_broker s = fst dur_consumed" "proc_fs s = dur_files [1, 10, 4, 10, 2, 10]" "\<not> proc_poisoned s"
  obtains s' where "rpc_ack srv_env state_io_ok (Some 150) srv_ack_request s = (Ok (), s')"
    "proc_broker s' = dur_broker dur_log dur_index dur_settled"
    "proc_fs s' = dur_files [1, 10, 4, 10, 2, 10, 5, 10]" "\<not> proc_poisoned s'"
  using srv_rpc_ack[OF state srv_ack] by auto

lemma srv_settled_answer:
  assumes state: "proc_broker s = dur_broker dur_log dur_index dur_settled"
    "proc_fs s = dur_files [1, 10, 4, 10, 2, 10, 5, 10]" "\<not> proc_poisoned s"
  obtains s' where "rpc_consume srv_env state_io_ok state_io_ok srv_consume_request s = (Ok \<lparr>crs_messages = []\<rparr>, s')"
  using srv_rpc_consume[OF state srv_get_topic srv_retry_ready_settled srv_consume_settled] by auto

end
