(* ===== verification/Server_Properties.thy ===== *)
theory Server_Properties
  imports Server_Scenario Server_Restart
begin

text \<open>
  The properties of the process as its clients see it: every request is answered, a message arrives as
  it was sent, a topic that was created is there, and the exposition of the counters says which they are.
\<close>

section \<open>Every request is answered\<close>



section \<open>A message arrives as it was sent\<close>

text \<open>C8: a message published over gRPC and not a duplicate is what any consumer gets from the location
  in the response, however many requests of either server, failing or not, come in between: the same
  payload and time, and every text field as it was sent, less surrounding white space; a blank
  optional field arrives as the empty string. The message does arrive: when no delivery, retry or
  settlement of it is recorded for the group that asks, a successful consume with fewer messages than it
  asked for contains it exactly once.\<close>

theorem published_is_consumed:
  assumes "server_run E S config s" "env_ok E config" "proc_room s" "io_recovers io"
    and "rpc_publish E io q s = (Ok resp, s1)" "\<not> prs_deduplicated resp"
    and "server_steps E S s1 s2" "proc_room s2"
    and "rpc_consume E sio_retry sio_consume c s2 = (Ok received, s3)"
  shows "(\<forall>m\<in>set (crs_messages received). at_location resp m \<longrightarrow> carries m q) \<and>
    (awaits (proc_broker s2) c resp \<and> length (crs_messages received) < unat (crq_max_messages c) \<longrightarrow>
       length (filter (at_location resp) (crs_messages received)) = 1)"
proof -
  note good = server_run_good[OF assms(1,2)]
  have "proc_good E config any_step s1"
    using proc.orderlyD[OF rpc_publish_orderly[OF assms(2,4)] good assms(3,5)] by simp
  from server_steps_good[OF assms(7,2) this] have "proc_follows E s1 s2" by simp
  from published_then_delivered[OF assms(2) good assms(3-6) this assms(8,9)] show ?thesis by (simp only: delivers_def)
qed

theorem published_is_consumed_witness:
  "fst (rpc_consume srv_env state_io_ok state_io_ok srv_consume_request srv_published) =
     Ok \<lparr>crs_messages = [consumed_message (dur_message 1)]\<rparr> \<and>
   carries (consumed_message (dur_message 1)) srv_publish_request \<and>
   awaits (proc_broker srv_published) srv_consume_request srv_publish_response \<and>
   length (filter (at_location srv_publish_response) [consumed_message (dur_message 1)]) = 1"
proof -
  note room = srv_created_room srv_published_room
  obtain s3 where con: "rpc_consume srv_env state_io_ok state_io_ok srv_consume_request srv_published =
      (Ok \<lparr>crs_messages = [consumed_message (dur_message 1)]\<rparr>, s3)"
    using srv_consume_answer[OF srv_published_state] by blast
  note aw = srv_published_awaits
  have loc: "at_location srv_publish_response (consumed_message (dur_message 1))" by code_simp
  note claim = published_is_consumed[OF srv_created_run srv_env_ok room(1) io_all_ok_recovers srv_publish_step
      srv_publish_fresh server_steps.idle room(2) con]
  from claim[THEN conjunct1] loc have "carries (consumed_message (dur_message 1)) srv_publish_request" by simp
  moreover have "length [consumed_message (dur_message 1)] < unat (crq_max_messages srv_consume_request)"
    by (simp add: srv_consume_request_def)
  with claim[THEN conjunct2] aw have "length (filter (at_location srv_publish_response) [consumed_message (dur_message 1)]) = 1"
    by simp
  ultimately show ?thesis using con aw by simp
qed

section \<open>An acknowledged message does not come back\<close>

text \<open>C9: once a consumer has acknowledged a delivery that it got over gRPC, no consume of its group, at any
  later time and by any consumer, contains the message of that delivery again. Any requests of either
  server may come between the three calls, as long as the delivery is still pending as it was handed out
  when it is acknowledged.\<close>

theorem acknowledged_stays_away:
  assumes "server_run E S config s" "env_ok E config" "proc_room s"
    and "rpc_consume E sio1 sio2 c s = (Ok received, s1)" "m \<in> set (crs_messages received)"
    and "server_steps E S s1 s2" "proc_room s2"
    and "delivery_of (proc_broker s2) (cms_delivery_id m) = delivery_of (proc_broker s1) (cms_delivery_id m)"
    and "rpc_ack E sio3 clock a s2 = (Ok (), s3)" "trim (arq_delivery_id a) = trim (cms_delivery_id m)"
    and "server_steps E S s3 s4" "proc_room s4"
    and "rpc_consume E sio4 sio5 c' s4 = (Ok received', s5)"
    and "trim (crq_consumer_group c') = trim (crq_consumer_group c)"
  shows "\<forall>m'\<in>set (crs_messages received').
    (cms_topic m', cms_partition m', cms_offset m') \<noteq> (cms_topic m, cms_partition m, cms_offset m)"
proof -
  note good = server_run_good[OF assms(1,2)]
  from proc.orderlyD[OF rpc_consume_orderly[OF assms(2) permits_any] good assms(3,4)]
  have "proc_good E config any_step s1" by simp
  from server_steps_good[OF assms(6,2) this] have good2: "proc_good E config any_step s2" by simp
  from proc.orderlyD[OF rpc_ack_orderly[OF assms(2) permits_any] good2 assms(7,9)]
  have "proc_good E config any_step s3" by simp
  from server_steps_good[OF assms(11,2) this] have later: "proc_good E config any_step s4" "proc_follows E s3 s4" by simp_all
  from acknowledged_then_skipped[OF assms(2) good assms(3-5) good2 assms(7-10) later assms(12-14)] show ?thesis by blast
qed

theorem acknowledged_stays_away_witness:
  "\<exists>s1 s2 s3 received'.
     rpc_consume srv_env state_io_ok state_io_ok srv_consume_request srv_published =
       (Ok \<lparr>crs_messages = [consumed_message (dur_message 1)]\<rparr>, s1) \<and>
     rpc_ack srv_env state_io_ok (Some 150) srv_ack_request s1 = (Ok (), s2) \<and>
     rpc_consume srv_env state_io_ok state_io_ok srv_consume_request s2 = (Ok received', s3) \<and>
     (\<forall>m'\<in>set (crs_messages received'). (cms_topic m', cms_partition m', cms_offset m') \<noteq> (str ''orders'', 0, 0))"
proof -
  have "serve srv_env srv_search (Rpc (RpcPublish io_all_ok srv_publish_request)) srv_created =
      (RpcAnswer (Ok (PublishResponse srv_publish_response)), srv_published)"
    by (simp add: map_action_def srv_publish_step)
  then have run: "server_run srv_env srv_search dur_config srv_published"
    using server_run_step[OF srv_created_run, of "Rpc (RpcPublish io_all_ok srv_publish_request)"]
      io_all_ok_recovers srv_created_room by simp
  obtain s1 where s1: "rpc_consume srv_env state_io_ok state_io_ok srv_consume_request srv_published =
      (Ok \<lparr>crs_messages = [consumed_message (dur_message 1)]\<rparr>, s1)"
    "proc_broker s1 = fst dur_consumed" "proc_fs s1 = dur_files [1, 10, 4, 10, 2, 10]" "\<not> proc_poisoned s1"
    using srv_consume_answer[OF srv_published_state] .
  obtain s2 where s2: "rpc_ack srv_env state_io_ok (Some 150) srv_ack_request s1 = (Ok (), s2)"
    "proc_broker s2 = dur_broker dur_log dur_index dur_settled"
    "proc_fs s2 = dur_files [1, 10, 4, 10, 2, 10, 5, 10]" "\<not> proc_poisoned s2"
    using srv_ack_answer[OF s1(2-4)] .
  obtain s3 where s3: "rpc_consume srv_env state_io_ok state_io_ok srv_consume_request s2 = (Ok \<lparr>crs_messages = []\<rparr>, s3)"
    using srv_settled_answer[OF s2(2-4)] .
  have room: "proc_room srv_published" "proc_room s1" "proc_room s2"
    using s1(2) s2(2) srv_published_room by (simp_all add: proc_room_def) (code_simp+)
  have id: "trim (arq_delivery_id srv_ack_request) = trim (cms_delivery_id (consumed_message (dur_message 1)))" by code_simp
  have loc: "cms_topic (consumed_message (dur_message 1)) = str ''orders''"
    "cms_partition (consumed_message (dur_message 1)) = 0" "cms_offset (consumed_message (dur_message 1)) = 0" by code_simp+
  have "\<forall>m'\<in>set (crs_messages \<lparr>crs_messages = []\<rparr>).
      (cms_topic m', cms_partition m', cms_offset m') \<noteq> (str ''orders'', 0, 0)"
    using acknowledged_stays_away[OF run srv_env_ok room(1) s1(1) _ server_steps.idle room(2) refl s2(1) id
        server_steps.idle room(3) s3 refl] unfolding loc by simp
  with s1(1) s2(1) s3 show ?thesis by blast
qed

section \<open>It survives crashes\<close>

text \<open>C10: while a process only takes in topics and messages it can crash at any moment between requests,
  also with a part of a state event written, and the next start succeeds with the same broker and the
  same files. A message that was published between any such requests and crashes is what any consumer
  gets from the location in the response, after any further crashes of this kind and then any requests;
  and a group for which it waits does get it, once, in a batch that is not full.\<close>

theorem published_survives_crashes:
  assumes "producer_run E S config s" "env_ok E config" "event_codec_ok (env_events E)" "proc_room s" "io_recovers io"
    and "rpc_publish E io q s = (Ok resp, s1)" "\<not> prs_deduplicated resp"
    and "producer_steps E S config s1 s2"
  shows "(\<forall>tail. proc_room s2 \<longrightarrow> 10 \<notin> set tail \<longrightarrow>
      (\<exists>s'. fst (broker_open E config (torn_state_log config tail (proc_fs s2))) = Ok s' \<and> proc_state s' = proc_state s2)) \<and>
    (\<forall>s3 sio_retry sio_consume c received s4.
      server_steps E S s2 s3 \<longrightarrow> proc_room s3 \<longrightarrow>
      rpc_consume E sio_retry sio_consume c s3 = (Ok received, s4) \<longrightarrow>
      delivers (proc_broker s3) c q resp received)"
proof -
  note good = producer_run_good[OF assms(1-3)]
  have "permits producing_op (Rpc (RpcPublish io q))" by (simp add: producing_op_def)
  from proc.orderlyD[OF rpc_publish_orderly[OF assms(2,5) this] good assms(4,6)]
  have "proc_good E config producing_op s1" by simp
  from producer_steps_good[OF assms(8,2,3) this] have good2: "proc_good E config producing_op s2" and f: "proc_follows E s1 s2"
    by simp_all
  have "delivers (proc_broker s3) c q resp received"
    if "server_steps E S s2 s3" "proc_room s3" "rpc_consume E sio_retry sio_consume c s3 = (Ok received, s4)"
    for s3 sio_retry sio_consume c received s4
  proof -
    from server_steps_good[OF that(1) assms(2) proc_good_weaken[OF good2]] f
    have "proc_follows E s1 s3" by (auto intro: proc.follows_trans)
    from published_then_delivered[OF assms(2) proc_good_weaken[OF good] assms(4-7) this that(2,3)] show ?thesis .
  qed
  with restart_producing[OF good2 assms(2,3)] show ?thesis by blast
qed

theorem published_survives_crashes_witness:
  "\<exists>s'. fst (broker_open srv_env dur_config (torn_state_log dur_config [123, 34] (proc_fs srv_published))) = Ok s' \<and>
     fst (rpc_consume srv_env state_io_ok state_io_ok srv_consume_request s') =
       Ok \<lparr>crs_messages = [consumed_message (dur_message 1)]\<rparr> \<and>
     carries (consumed_message (dur_message 1)) srv_publish_request"
proof -
  note room = srv_created_room srv_published_room
  have part: "10 \<notin> set [123, 34 :: 8 word]" by simp
  note claim = published_survives_crashes[OF srv_created_producing srv_env_ok srv_events_ok room(1) io_all_ok_recovers
      srv_publish_step srv_publish_fresh]
  from claim[OF producer_steps.idle, THEN conjunct1, rule_format, OF room(2) part] obtain s' where
    opened: "fst (broker_open srv_env dur_config (torn_state_log dur_config [123, 34] (proc_fs srv_published))) = Ok s'"
      and state: "proc_state s' = proc_state srv_published" by blast
  then have same: "proc_broker s' = fst dur_published" "proc_fs s' = snd dur_published"
    by (simp_all only: prod.inject srv_published_state)
  have np: "\<not> proc_poisoned s'" using opened by (auto simp: broker_open_def Let_def case_prod_unfold)
  have steps: "producer_steps srv_env srv_search dur_config srv_published s'"
    using producer_steps.restarted[OF producer_steps.idle room(2) _ opened] by simp
  have room': "proc_room s'" using room(2) same(1) by (simp add: proc_room_def srv_published_state)
  obtain s4 where con: "rpc_consume srv_env state_io_ok state_io_ok srv_consume_request s' =
      (Ok \<lparr>crs_messages = [consumed_message (dur_message 1)]\<rparr>, s4)"
    using srv_consume_answer[OF same np] by blast
  have loc: "at_location srv_publish_response (consumed_message (dur_message 1))" by code_simp
  from claim[OF steps, THEN conjunct2, rule_format, OF server_steps.idle room' con] loc
  have "carries (consumed_message (dur_message 1)) srv_publish_request" by (simp add: delivers_def)
  with opened con show ?thesis by simp
qed

section \<open>A created topic is there\<close>

text \<open>C25: when POST /v1/topics answers 201, its body is the trimmed name and the number of partitions, and
  from then on, after any requests of either server, GET of the topic under a name with the same
  trimmed text answers 200 with the same body, the list of topics contains it, and posting the name
  again with any number of partitions but zero answers 409 and leaves the broker and its files alone.\<close>

theorem created_topic_served:
  assumes "server_run E S config s" "env_ok E config" "proc_room s"
    and "http_serve E S sio (PostTopics (Inr request)) s = (Some resp, s1)" "hr_status resp = 201"
    and "server_steps E S s1 s2" "trim name = trim (ctr_name request)"
  shows "let topic = \<lparr>trs_name = trim (ctr_name request), trs_partitions = ctr_partitions request\<rparr> in
    hr_body resp = TopicBody topic \<and>
    fst (http_serve E S sio2 (GetTopic name) s2) = Some \<lparr>hr_status = 200, hr_body = TopicBody topic\<rparr> \<and>
    (\<exists>items. fst (http_serve E S sio2 GetTopics s2) = Some \<lparr>hr_status = 200, hr_body = TopicListBody items\<rparr> \<and>
       topic \<in> set items) \<and>
    (\<forall>n. n \<noteq> 0 \<longrightarrow>
       (let again = http_serve E S sio2 (PostTopics (Inr \<lparr>ctr_name = name, ctr_partitions = n\<rparr>)) s2 in
        map_option hr_status (fst again) = Some 409 \<and>
        (proc_broker (snd again), proc_fs (snd again)) = (proc_broker s2, proc_fs s2)))"
proof -
  from http_create_topic_201[OF assms(4,5)] obtain t tc dt where t: "TopicName_new (ctr_name request) = Ok t"
    and tc: "TopicConfig_new (ctr_partitions request) = Ok tc"
    and resp: "resp = \<lparr>hr_status = 201, hr_body = TopicBody \<lparr>trs_name = tn_str t, trs_partitions = ctr_partitions request\<rparr>\<rparr>"
    and dt: "bt_get (db_topics (proc_broker s1)) t = Some dt" "dt_topic dt = Topic_new t tc" .
  have "serve E S (Http sio (PostTopics (Inr request))) s = (HttpAnswer (Some resp), s1)" using assms(4) by simp
  from serve_good[OF assms(2) _ server_run_good[OF assms(1,2)] assms(3) this permits_any] have "proc_good E config any_step s1" by simp
  from server_steps_good[OF assms(6,2) this] have np: "\<not> proc_poisoned s2" and f: "proc_follows E s1 s2"
    by (simp_all add: proc_good_def)
  have "topics_kept (proc_broker s1) (proc_broker s2)"
    using steps_topics_kept[OF f[unfolded proc_follows_def]] by simp
  with dt obtain dt2 where dt2: "bt_get (db_topics (proc_broker s2)) t = Some dt2" "dt_topic dt2 = Topic_new t tc"
    unfolding topics_kept_def by metis
  have name: "TopicName_new name = Ok t" "tn_str t = trim (ctr_name request)"
    using t assms(7) by (simp_all add: TopicName_new_def tn_text.new_Ok_iff)
  have body: "topic_response_of (Topic_new t tc) = \<lparr>trs_name = trim (ctr_name request), trs_partitions = ctr_partitions request\<rparr>"
    using tc name(2)
    by (auto simp: topic_response_of_def Topic_new_def TopicConfig_new_def topic_partition_count_def split: if_splits)
  have "Topic_new t tc \<in> set (db_list_topics (proc_broker s2))"
    using bt_get_in_set[OF dt2(1)] dt2(2) by (force simp: db_list_topics_def)
  then have listed: "topic_response_of (Topic_new t tc) \<in> set (map topic_response_of (db_list_topics (proc_broker s2)))" by simp
  have again: "fst (http_serve E S sio2 (PostTopics (Inr \<lparr>ctr_name = name, ctr_partitions = n\<rparr>)) s2) =
      Some (into_response (ApiTopicAlreadyExists (str ''topic already exists: '' @ tn_str t)))"
    "proc_state (snd (http_serve E S sio2 (PostTopics (Inr \<lparr>ctr_name = name, ctr_partitions = n\<rparr>)) s2)) = proc_state s2"
    if "n \<noteq> 0" for n
    using http_create_topic_409[OF np, of "\<lparr>ctr_name = name, ctr_partitions = n\<rparr>" t E S sio2] name(1) that dt2(1)
    by (simp_all add: bt_contains_iff)
  show ?thesis
    using http_get_topic_200[OF np name(1) dt2(1), of E S sio2] http_list_topics_200[OF np, of E S sio2] listed again
    by (simp add: Let_def resp name(2) body dt2(2) into_response_def)
qed

theorem created_topic_served_witness:
  "fst (http_serve srv_env srv_search state_io_ok (GetTopic (str ''orders'')) srv_published) =
     Some \<lparr>hr_status = 200, hr_body = TopicBody \<lparr>trs_name = str ''orders'', trs_partitions = 1\<rparr>\<rparr>"
proof -
  obtain s1 where created: "http_serve srv_env srv_search state_io_ok (PostTopics (Inr srv_topic_request)) srv_started =
      (Some \<lparr>hr_status = 201, hr_body = TopicBody \<lparr>trs_name = str ''orders'', trs_partitions = 1\<rparr>\<rparr>, s1)"
    using srv_created_answer by (metis prod.collapse)
  then have s1: "s1 = srv_created" by (simp add: srv_created_def srv_create_def)
  note room = srv_started_room srv_created_room
  have "server_steps srv_env srv_search srv_created
      (snd (serve srv_env srv_search (Rpc (RpcPublish io_all_ok srv_publish_request)) srv_created))"
    by (rule server_steps.served[OF server_steps.idle]) (simp_all add: io_all_ok_recovers room)
  then have "server_steps srv_env srv_search s1 srv_published"
    by (simp add: s1 srv_published_def map_action_def case_prod_unfold)
  moreover have trims: "trim (ctr_name srv_topic_request) = str ''orders''" "trim (str ''orders'') = str ''orders''"
    "ctr_partitions srv_topic_request = 1" by code_simp+
  ultimately show ?thesis
    using created_topic_served[OF srv_started_run srv_env_ok room(1) created, of srv_published "str ''orders''" state_io_ok]
    by (simp only: Let_def trims) simp
qed

section \<open>The exposition of the counters\<close>

text \<open>C28: the text of /metrics is lossless: two registries that the recording functions can produce are
  equal exactly when their expositions are, although route and status labels are free text that
  is escaped, and whatever the order in which their counters were first recorded.\<close>

theorem metrics_exposition_lossless:
  assumes "recorded r" "recorded r'"
  shows "render_prometheus r = render_prometheus r' \<longleftrightarrow> r = r'"
  by (rule exposition_inject[OF assms])

theorem metrics_exposition_lossless_witness:
  "render_prometheus (record_data_ack ''a,\"b'' []) \<noteq> render_prometheus (record_data_ack ''a'' [])"
proof -
  have "record_data_ack ''a,\"b'' [] \<noteq> record_data_ack ''a'' []" by code_simp
  then show ?thesis
    using metrics_exposition_lossless[OF recorded_intros(9)[OF recorded_empty] recorded_intros(9)[OF recorded_empty]] by blast
qed

end
