(* ===== verification/Postgres_Projection.thy ===== *)
theory Postgres_Projection
  imports Postgres_Models Durable_Recovery
begin

text \<open>
  \<^verbatim>\<open>msg-postgres\<close>, second part: the statements of the repository (\<^verbatim>\<open>repository.rs\<close>) and the rebuild of the
  projection from the broker's directory (\<^verbatim>\<open>projection.rs\<close>).

  The database is a parameter: \<^verbatim>\<open>pg_store\<close> holds what executing each SQL statement answers and does to
  the world \<^verbatim>\<open>'w\<close>, which is the database and the clock. The listing of the directory \<^verbatim>\<open>messages/topics\<close> is an
  argument. \<^verbatim>\<open>usize\<close> has 64 bits.
\<close>

section \<open>The repository\<close>

datatype sqlx_error =
    SqlxDatabase "rstring option" rstring
  | SqlxOther rstring

fun sqlx_text :: "sqlx_error \<Rightarrow> rstring" where
  "sqlx_text (SqlxDatabase constraint message) = message"
| "sqlx_text (SqlxOther message) = message"

record 'w pg_store =
  sql_now :: "'w \<Rightarrow> int"
  sql_topic_upsert :: "topic_row \<Rightarrow> 'w \<Rightarrow> (sqlx_error + unit) \<times> 'w"
  sql_empty_topic_upsert :: "rstring \<Rightarrow> int \<Rightarrow> int \<Rightarrow> 'w \<Rightarrow> (sqlx_error + unit) \<times> 'w"
  sql_message_insert :: "message_row \<Rightarrow> rstring \<Rightarrow> 'w \<Rightarrow> (sqlx_error + unit) \<times> 'w"
  sql_message_search :: "rstring \<Rightarrow> rstring option \<Rightarrow> int \<Rightarrow> 'w \<Rightarrow> (sqlx_error + search_result list) \<times> 'w"
  sql_run_insert :: "'w \<Rightarrow> (sqlx_error + int) \<times> 'w"
  sql_run_success :: "int \<Rightarrow> int \<Rightarrow> int \<Rightarrow> 'w \<Rightarrow> (sqlx_error + nat) \<times> 'w"
  sql_run_error :: "rstring \<Rightarrow> int \<Rightarrow> 'w \<Rightarrow> (sqlx_error + nat) \<times> 'w"

definition query_result :: "string \<Rightarrow> (sqlx_error + 'a) \<times> 'w \<Rightarrow> 'a pg_result \<times> 'w" where
  "query_result operation answer =
     (case answer of
        (Inr a, w) \<Rightarrow> (Ok a, w)
      | (Inl source, w) \<Rightarrow> (Err (QueryFailed operation (sqlx_text source)), w))"

definition upsert_topic :: "'w pg_store \<Rightarrow> topic_row \<Rightarrow> 'w \<Rightarrow> unit pg_result \<times> 'w" where
  "upsert_topic S row w = query_result ''topic upsert'' (sql_topic_upsert S row w)"

definition upsert_empty_topic :: "'w pg_store \<Rightarrow> rstring \<Rightarrow> int \<Rightarrow> 'w \<Rightarrow> unit pg_result \<times> 'w" where
  "upsert_empty_topic S name partitions w =
     query_result ''empty topic upsert'' (sql_empty_topic_upsert S name partitions (sql_now S w) w)"

definition message_id_constraint :: rstring where
  "message_id_constraint = str ''ferrumq_messages_topic_message_id_key''"

definition upsert_message :: "'w pg_store \<Rightarrow> message_row \<Rightarrow> 'w \<Rightarrow> unit pg_result \<times> 'w" where
  "upsert_message S row w =
     (case sql_message_insert S row (compute_search_text row) w of
        (Inr u, w1) \<Rightarrow> (Ok (), w1)
      | (Inl (SqlxDatabase constraint message), w1) \<Rightarrow>
          (if constraint = Some message_id_constraint then (Err (MessageIdConflict (mrow_topic row)), w1)
           else (Err (QueryFailed ''message upsert'' message), w1))
      | (Inl source, w1) \<Rightarrow> (Err (QueryFailed ''message upsert'' (sqlx_text source)), w1))"

definition search_messages :: "'w pg_store \<Rightarrow> search_query \<Rightarrow> 'w \<Rightarrow> search_result list pg_result \<times> 'w" where
  "search_messages S q w =
     query_result ''message search'' (sql_message_search S (sq_query q) (sq_topic q) (int (unat (sq_limit q))) w)"

definition start_projection_run :: "'w pg_store \<Rightarrow> 'w \<Rightarrow> int pg_result \<times> 'w" where
  "start_projection_run S w = query_result ''projection run start'' (sql_run_insert S w)"

definition ensure_one_run_updated :: "int \<Rightarrow> nat \<Rightarrow> unit pg_result" where
  "ensure_one_run_updated run_id rows_affected =
     (if rows_affected = 1 then Ok () else Err (ProjectionRunNotFound run_id))"

definition complete_projection_run ::
  "'w pg_store \<Rightarrow> int \<Rightarrow> projection_result \<Rightarrow> 'w \<Rightarrow> unit pg_result \<times> 'w" where
  "complete_projection_run S run_id result w =
     (case i32_try_from (prj_topics_count result) of
        None \<Rightarrow> (Err (ProjectionValueOutOfRange ''topics_count''), w)
      | Some topics_count \<Rightarrow>
     (case i32_try_from (prj_messages_count result) of
        None \<Rightarrow> (Err (ProjectionValueOutOfRange ''messages_count''), w)
      | Some messages_count \<Rightarrow>
     (case query_result ''projection run completion'' (sql_run_success S topics_count messages_count run_id w) of
        (res, w1) \<Rightarrow> (rbind res (ensure_one_run_updated run_id), w1))))"

definition fail_projection_run :: "'w pg_store \<Rightarrow> int \<Rightarrow> rstring \<Rightarrow> 'w \<Rightarrow> unit pg_result \<times> 'w" where
  "fail_projection_run S run_id error_message w =
     (case query_result ''projection run failure'' (sql_run_error S error_message run_id w) of
        (res, w1) \<Rightarrow> (rbind res (ensure_one_run_updated run_id), w1))"

section \<open>The layout of the message directory\<close>

record dir_entry =
  ent_error :: "rstring option"
  ent_is_dir :: bool
  ent_name :: "rstring option"

datatype 'e listing = NotThere | ListError rstring | Listed "'e list"

record topic_entry = dir_entry +
  te_partitions :: "dir_entry listing"

text \<open>The start of both loops: the entry is readable, is a directory and has a UTF-8 name.\<close>

definition entry_name :: "'a dir_entry_scheme \<Rightarrow> rstring pg_result" where
  "entry_name entry =
     (case ent_error entry of
        Some source \<Rightarrow> Err (PgIo source)
      | None \<Rightarrow>
          (if \<not> ent_is_dir entry then Err InvalidProjectionSource
           else ok_or (ent_name entry) InvalidProjectionSource))"

text \<open>\<^verbatim>\<open>u32::from_str\<close>: an optional plus sign and decimal digits.\<close>

definition parse_u32 :: "rstring \<Rightarrow> u32 option" where
  "parse_u32 s =
     (let digits = (case s of [] \<Rightarrow> [] | c # rest \<Rightarrow> if c = 43 then rest else s) in
      if digits = [] \<or> \<not> list_all is_ascii_digit digits \<or> 2 ^ 32 \<le> undec digits then None
      else Some (of_nat (undec digits)))"

fun collect_partition_ids :: "u32 btree_set \<Rightarrow> dir_entry list \<Rightarrow> u32 btree_set \<Rightarrow> u32 btree_set pg_result" where
  "collect_partition_ids expected [] actual = Ok actual"
| "collect_partition_ids expected (entry # entries) actual =
     rbind (entry_name entry) (\<lambda>name.
     rbind (ok_or (parse_u32 name) InvalidProjectionSource) (\<lambda>partition_id.
     if name \<noteq> dec (unat partition_id) \<or> \<not> bs_contains expected partition_id \<or> bs_contains actual partition_id
     then Err InvalidProjectionSource
     else collect_partition_ids expected entries (bs_insert partition_id actual)))"

definition validate_partition_layout :: "dir_entry listing \<Rightarrow> topic \<Rightarrow> unit pg_result" where
  "validate_partition_layout partitions_dir topic =
     (case partitions_dir of
        NotThere \<Rightarrow> Ok ()
      | ListError source \<Rightarrow> Err (PgIo source)
      | Listed entries \<Rightarrow>
          (let expected = fold bs_insert (map pid_value (topic_partition_ids topic)) [] in
           rbind (collect_partition_ids expected entries []) (\<lambda>actual.
             if actual \<noteq> expected then Err InvalidProjectionSource else Ok ())))"

fun validate_topic_entries :: "(rstring, topic) btree_map \<Rightarrow> topic_entry list \<Rightarrow> unit pg_result" where
  "validate_topic_entries authoritative [] = Ok ()"
| "validate_topic_entries authoritative (entry # entries) =
     rbind (entry_name entry) (\<lambda>name.
     rbind (map_err (\<lambda>_. InvalidProjectionSource) (TopicName_new name)) (\<lambda>_.
     rbind (ok_or (bt_get authoritative name) InvalidProjectionSource) (\<lambda>topic.
     rbind (validate_partition_layout (te_partitions entry) topic) (\<lambda>_.
     validate_topic_entries authoritative entries))))"

definition validate_message_layout :: "topic_entry listing \<Rightarrow> topic list \<Rightarrow> unit pg_result" where
  "validate_message_layout messages_dir topics =
     (case messages_dir of
        NotThere \<Rightarrow> Ok ()
      | ListError source \<Rightarrow> Err (PgIo source)
      | Listed entries \<Rightarrow>
          validate_topic_entries (fold (\<lambda>t. bt_insert (tn_str (topic_name t)) t) topics []) entries)"

section \<open>The rebuild\<close>

definition read_partition_records ::
  "record_codec \<Rightarrow> log_config \<Rightarrow> topic_name \<Rightarrow> partition_id \<Rightarrow> fs \<Rightarrow> stored_message_record list pg_result \<times> fs" where
  "read_partition_records c config topic partition_id fs =
     (case StorageLog_open c config topic partition_id fs of
        (Ok log, fs1) \<Rightarrow>
          (map_err PgStorage
             (StorageLog_read_from c (Offset 0) (unat (offset_value (sl_next_offset log))) log fs1), fs1)
      | (Err e, fs1) \<Rightarrow> (Err (PgStorage e), fs1)
      | (Panicked, fs1) \<Rightarrow> (Panicked, fs1))"

text \<open>The variables of the loops: \<^verbatim>\<open>first_seen_at\<close> and \<^verbatim>\<open>last_seen_at\<close> of the topic, \<^verbatim>\<open>messages_count\<close> of the run.\<close>

record seen =
  first_seen :: "int option"
  last_seen :: "int option"
  messages_count :: nat

definition saw :: "int \<Rightarrow> seen \<Rightarrow> seen" where
  "saw timestamp s =
     \<lparr>first_seen = Some (case first_seen s of None \<Rightarrow> timestamp | Some old \<Rightarrow> min old timestamp),
      last_seen = Some (case last_seen s of None \<Rightarrow> timestamp | Some old \<Rightarrow> max old timestamp),
      messages_count = messages_count s + 1\<rparr>"

fun project_records ::
  "pg_env \<Rightarrow> 'w pg_store \<Rightarrow> stored_message_record list \<Rightarrow> seen \<Rightarrow> 'w \<Rightarrow> seen pg_result \<times> 'w" where
  "project_records P S [] s w = (Ok s, w)"
| "project_records P S (record # records) s w =
     (case record_to_message_row P record of
        Err e \<Rightarrow> (Err e, w)
      | Panicked \<Rightarrow> (Panicked, w)
      | Ok row \<Rightarrow>
          (if \<not> pg_datetime_ok P (mrow_time_unix_ms row) then (Err (ProjectionValueOutOfRange ''time_unix_ms''), w)
           else
             (case upsert_message S row w of
                (Ok u, w1) \<Rightarrow> project_records P S records (saw (mrow_time_unix_ms row) s) w1
              | (Err e, w1) \<Rightarrow> (Err e, w1)
              | (Panicked, w1) \<Rightarrow> (Panicked, w1))))"

fun project_partitions ::
  "record_codec \<Rightarrow> pg_env \<Rightarrow> 'w pg_store \<Rightarrow> log_config \<Rightarrow> topic_name \<Rightarrow> partition_id list \<Rightarrow> seen \<Rightarrow> fs \<Rightarrow> 'w
     \<Rightarrow> seen pg_result \<times> fs \<times> 'w" where
  "project_partitions c P S config t [] s fs w = (Ok s, fs, w)"
| "project_partitions c P S config t (p # ps) s fs w =
     (case read_partition_records c config t p fs of
        (Err e, fs1) \<Rightarrow> (Err e, fs1, w)
      | (Panicked, fs1) \<Rightarrow> (Panicked, fs1, w)
      | (Ok records, fs1) \<Rightarrow>
          (case project_records P S records s w of
             (Ok s1, w1) \<Rightarrow> project_partitions c P S config t ps s1 fs1 w1
           | (Err e, w1) \<Rightarrow> (Err e, fs1, w1)
           | (Panicked, w1) \<Rightarrow> (Panicked, fs1, w1)))"

text \<open>The row of the topic, once its messages are done.\<close>

definition project_topic_row :: "'w pg_store \<Rightarrow> topic \<Rightarrow> seen \<Rightarrow> 'w \<Rightarrow> unit pg_result \<times> 'w" where
  "project_topic_row S topic s w =
     (case i32_try_from (unat (topic_partition_count topic)) of
        None \<Rightarrow> (Err (ProjectionValueOutOfRange ''partitions''), w)
      | Some partitions \<Rightarrow>
          (case (first_seen s, last_seen s) of
             (Some oldest, Some newest) \<Rightarrow>
               upsert_topic S
                 \<lparr>tr_name = tn_str (topic_name topic), tr_partitions = partitions,
                  tr_first_seen_at = oldest, tr_last_seen_at = newest\<rparr> w
           | (None, None) \<Rightarrow> upsert_empty_topic S (tn_str (topic_name topic)) partitions w
           | _ \<Rightarrow> (Err InvalidProjectionSource, w)))"

fun project_topics ::
  "record_codec \<Rightarrow> pg_env \<Rightarrow> 'w pg_store \<Rightarrow> log_config \<Rightarrow> topic list \<Rightarrow> nat \<Rightarrow> fs \<Rightarrow> 'w
     \<Rightarrow> nat pg_result \<times> fs \<times> 'w" where
  "project_topics c P S config [] n fs w = (Ok n, fs, w)"
| "project_topics c P S config (topic # topics) n fs w =
     (case project_partitions c P S config (topic_name topic) (topic_partition_ids topic)
             \<lparr>first_seen = None, last_seen = None, messages_count = n\<rparr> fs w of
        (Err e, fs1, w1) \<Rightarrow> (Err e, fs1, w1)
      | (Panicked, fs1, w1) \<Rightarrow> (Panicked, fs1, w1)
      | (Ok s, fs1, w1) \<Rightarrow>
          (case project_topic_row S topic s w1 of
             (Ok u, w2) \<Rightarrow> project_topics c P S config topics (messages_count s) fs1 w2
           | (Err e, w2) \<Rightarrow> (Err e, fs1, w2)
           | (Panicked, w2) \<Rightarrow> (Panicked, fs1, w2)))"

definition projection_max_segment_bytes :: u64 where
  "projection_max_segment_bytes = 64 * 1024 * 1024"

definition rebuild_inner ::
  "durable_env \<Rightarrow> pg_env \<Rightarrow> 'w pg_store \<Rightarrow> topic_entry listing \<Rightarrow> path \<Rightarrow> fs \<Rightarrow> 'w
     \<Rightarrow> projection_result pg_result \<times> fs \<times> 'w" where
  "rebuild_inner E P S messages_dir data_dir fs w =
     (case BrokerConfig_default of
        Ok broker_config \<Rightarrow>
          (case DurableBroker_open E
                  \<lparr>dbc_root_dir = data_dir, dbc_broker_config = broker_config,
                   dbc_max_segment_bytes = projection_max_segment_bytes\<rparr> fs of
             (Err e, fs1) \<Rightarrow> (Err (BrokerRecovery e), fs1, w)
           | (Panicked, fs1) \<Rightarrow> (Panicked, fs1, w)
           | (Ok broker, fs1) \<Rightarrow>
               (case validate_message_layout messages_dir (db_list_topics broker) of
                  Err e \<Rightarrow> (Err e, fs1, w)
                | Panicked \<Rightarrow> (Panicked, fs1, w)
                | Ok u \<Rightarrow>
                    (case project_topics (env_records E) P S
                            \<lparr>lc_root_dir = data_dir @ [str ''messages''],
                             lc_max_segment_bytes = projection_max_segment_bytes\<rparr>
                            (db_list_topics broker) 0 fs1 w of
                       (res, fs2, w1) \<Rightarrow>
                         (map_ok (\<lambda>n. \<lparr>prj_topics_count = length (db_list_topics broker), prj_messages_count = n\<rparr>) res,
                          fs2, w1))))
      | _ \<Rightarrow> (Panicked, fs, w))"

fun sanitize_error :: "postgres_error \<Rightarrow> rstring" where
  "sanitize_error (MessageIdConflict topic) = str ''message_id conflict for topic '' @ [39] @ topic @ [39]"
| "sanitize_error (BrokerRecovery source) = str ''broker recovery failed''"
| "sanitize_error (PgStorage source) = str ''storage recovery failed''"
| "sanitize_error (PgIo source) = str ''projection source I/O failed''"
| "sanitize_error InvalidProjectionSource = str ''projection source layout is invalid''"
| "sanitize_error (ConnectionFailed source) = str ''database connection failed''"
| "sanitize_error (MigrationFailed operation source) = str ''database migration failed''"
| "sanitize_error (QueryFailed operation source) = str ''database query failed during '' @ str operation"
| "sanitize_error other = postgres_error_to_string other"

definition rebuild_projection ::
  "durable_env \<Rightarrow> pg_env \<Rightarrow> 'w pg_store \<Rightarrow> topic_entry listing \<Rightarrow> path \<Rightarrow> fs \<Rightarrow> 'w
     \<Rightarrow> projection_result pg_result \<times> fs \<times> 'w" where
  "rebuild_projection E P S messages_dir data_dir fs w =
     (case start_projection_run S w of
        (Err e, w1) \<Rightarrow> (Err e, fs, w1)
      | (Panicked, w1) \<Rightarrow> (Panicked, fs, w1)
      | (Ok run_id, w1) \<Rightarrow>
          (case rebuild_inner E P S messages_dir data_dir fs w1 of
             (Panicked, fs1, w2) \<Rightarrow> (Panicked, fs1, w2)
           | (Ok result, fs1, w2) \<Rightarrow>
               (case complete_projection_run S run_id result w2 of
                  (res, w3) \<Rightarrow> (map_ok (\<lambda>_. result) res, fs1, w3))
           | (Err error, fs1, w2) \<Rightarrow>
               (case fail_projection_run S run_id (sanitize_error error) w2 of
                  (res, w3) \<Rightarrow> (Err (ProjectionFailed (sanitize_error error)), fs1, w3))))"

end
