(* ===== verification/Postgres_Rebuild.thy ===== *)
theory Postgres_Rebuild
  imports Postgres_Projection Durable_Release
begin

text \<open>
  What a rebuild of the projection does to the tables, given what the statements of the repository
  are documented to do (\<^verbatim>\<open>store_ok\<close>): the rows of a prefix of the logged messages are added where
  their location is free; when the rebuild succeeds the prefix is all of them, and every topic has
  its row.
\<close>

section \<open>The tables\<close>

type_synonym message_table = "rstring \<times> int \<times> int \<Rightarrow> message_row option"

definition row_key :: "message_row \<Rightarrow> rstring \<times> int \<times> int" where
  "row_key row = (mrow_topic row, mrow_partition_id row, mrow_offset row)"

text \<open>\<^verbatim>\<open>INSERT ... ON CONFLICT (topic, partition_id, message_offset) DO NOTHING\<close>.\<close>

definition insert_row :: "message_row \<Rightarrow> message_table \<Rightarrow> message_table" where
  "insert_row row R = (if R (row_key row) = None then R(row_key row \<mapsto> row) else R)"

text \<open>
  The statements as PostgreSQL documents them: one that fails changes nothing, one that succeeds does
  what its text says. \<^verbatim>\<open>rows\<close> and \<^verbatim>\<open>topics\<close> read the two tables off the world. Which insertions are
  refused, by a constraint or a lost connection, is left open.
\<close>

definition store_ok ::
  "'w pg_store \<Rightarrow> ('w \<Rightarrow> message_table) \<Rightarrow> ('w \<Rightarrow> rstring \<Rightarrow> topic_row option) \<Rightarrow> bool" where
  "store_ok S rows topics \<longleftrightarrow>
     (\<forall>row text w r w'. sql_message_insert S row text w = (r, w') \<longrightarrow>
        rows w' = (if isl r then rows w else insert_row row (rows w)) \<and> topics w' = topics w) \<and>
     (\<forall>row w r w'. sql_topic_upsert S row w = (r, w') \<longrightarrow>
        rows w' = rows w \<and> topics w' = (if isl r then topics w else (topics w)(tr_name row \<mapsto> row))) \<and>
     (\<forall>name n now w r w'. sql_empty_topic_upsert S name n now w = (r, w') \<longrightarrow>
        rows w' = rows w \<and>
        topics w' = (if isl r then topics w else (topics w)(name \<mapsto>
          (case topics w name of
             None \<Rightarrow> \<lparr>tr_name = name, tr_partitions = n, tr_first_seen_at = now, tr_last_seen_at = now\<rparr>
           | Some old \<Rightarrow> old\<lparr>tr_partitions := n\<rparr>)))) \<and>
     (\<forall>w r w'. sql_run_insert S w = (r, w') \<longrightarrow> rows w' = rows w \<and> topics w' = topics w) \<and>
     (\<forall>t m i w r w'. sql_run_success S t m i w = (r, w') \<longrightarrow> rows w' = rows w \<and> topics w' = topics w) \<and>
     (\<forall>e i w r w'. sql_run_error S e i w = (r, w') \<longrightarrow> rows w' = rows w \<and> topics w' = topics w)"

lemma store_okD:
  assumes "store_ok S rows topics"
  shows "sql_message_insert S row text w = (r1, w') \<Longrightarrow>
      rows w' = (if isl r1 then rows w else insert_row row (rows w)) \<and> topics w' = topics w"
    "sql_topic_upsert S trow w = (r1, w') \<Longrightarrow>
      rows w' = rows w \<and> topics w' = (if isl r1 then topics w else (topics w)(tr_name trow \<mapsto> trow))"
    "sql_empty_topic_upsert S name n now w = (r1, w') \<Longrightarrow>
      rows w' = rows w \<and> topics w' = (if isl r1 then topics w else (topics w)(name \<mapsto>
        (case topics w name of
           None \<Rightarrow> \<lparr>tr_name = name, tr_partitions = n, tr_first_seen_at = now, tr_last_seen_at = now\<rparr>
         | Some old \<Rightarrow> old\<lparr>tr_partitions := n\<rparr>)))"
    "sql_run_insert S w = (r2, w') \<Longrightarrow> rows w' = rows w \<and> topics w' = topics w"
    "sql_run_success S t m i w = (r3, w') \<Longrightarrow> rows w' = rows w \<and> topics w' = topics w"
    "sql_run_error S e i w = (r3, w') \<Longrightarrow> rows w' = rows w \<and> topics w' = topics w"
  using assms unfolding store_ok_def by (elim conjE; simp (no_asm_simp))+

section \<open>What there is to project\<close>

definition topic_records :: "contents \<Rightarrow> topic \<Rightarrow> stored_message_record list" where
  "topic_records M t =
     concat (map (\<lambda>p. stored_records (topic_name t) p 0 (M (topic_name t) p)) (topic_partition_ids t))"

definition logged_records :: "contents \<Rightarrow> topic list \<Rightarrow> stored_message_record list" where
  "logged_records M ts = concat (map (topic_records M) ts)"

definition record_time :: "stored_message_record \<Rightarrow> int" where
  "record_time r = int (unat (as_unix_millis (env_timestamp (smr_envelope r))))"

text \<open>The row a topic has after a rebuild, given the one before.\<close>

definition topic_shown :: "contents \<Rightarrow> topic \<Rightarrow> topic_row option \<Rightarrow> topic_row option \<Rightarrow> bool" where
  "topic_shown M t before after \<longleftrightarrow>
     (let times = map record_time (topic_records M t); n = int (unat (topic_partition_count t)) in
      if times = []
      then \<exists>row. after = Some row \<and> tr_partitions row = n \<and> (\<forall>old. before = Some old \<longrightarrow> row = old\<lparr>tr_partitions := n\<rparr>)
      else after = Some \<lparr>tr_name = tn_str (topic_name t), tr_partitions = n,
        tr_first_seen_at = Min (set times), tr_last_seen_at = Max (set times)\<rparr>)"

lemma topic_shown_again: "topic_shown M t before after \<Longrightarrow> topic_shown M t after after"
  by (auto simp: topic_shown_def Let_def)

lemma topic_shown_fixed: "topic_shown M t x x \<Longrightarrow> topic_shown M t x y \<Longrightarrow> y = x"
  by (auto simp: topic_shown_def Let_def split: if_splits)

lemma insert_row_present: "insert_row row R (row_key row) \<noteq> None" "R k \<noteq> None \<Longrightarrow> insert_row row R k = R k"
  by (auto simp: insert_row_def)

lemma fold_insert_kept: "R k \<noteq> None \<Longrightarrow> fold insert_row rws R k = R k"
  by (induction rws arbitrary: R) (simp_all add: insert_row_present)

lemma fold_insert_present: "row \<in> set rws \<Longrightarrow> fold insert_row rws R (row_key row) \<noteq> None"
proof (induction rws arbitrary: R)
  case (Cons a rws)
  then show ?case using fold_insert_kept[of "insert_row a R" "row_key a" rws] insert_row_present(1)[of a R] by auto
qed simp

lemma fold_insert_idle:
  "(\<And>row. row \<in> set rws \<Longrightarrow> R (row_key row) \<noteq> None) \<Longrightarrow> fold insert_row rws R = R"
  by (induction rws) (fastforce simp: insert_row_def)+

lemma rmap_append: "rmap f (xs @ ys) = rbind (rmap f xs) (\<lambda>as. rbind (rmap f ys) (\<lambda>bs. Ok (as @ bs)))"
proof (induction xs)
  case Nil
  then show ?case by (cases "rmap f ys") auto
next
  case (Cons x xs)
  then show ?case by (cases "f x"; cases "rmap f xs"; cases "rmap f ys") auto
qed

lemma rmap_take: "rmap f xs = Ok ys \<Longrightarrow> rmap f (take k xs) = Ok (take k ys)"
  by (induction xs arbitrary: ys k) (auto simp: take_Cons' split: nat.split)

section \<open>Records\<close>

lemma record_row_time: "record_to_message_row P r = Ok row \<Longrightarrow> mrow_time_unix_ms row = record_time r"
  by (auto simp: record_to_message_row_def Let_def record_time_def i64_try_from_def i32_try_from_def
      split: option.splits if_splits)

lemma record_row_total: "record_to_message_row P r \<noteq> Panicked"
  by (auto simp: record_to_message_row_def Let_def rbind_eq_Panicked split: option.splits)

lemma upsert_message_effect:
  assumes "store_ok S rows topics" "upsert_message S row w = (res, w')"
  shows "res \<noteq> Panicked" "topics w' = topics w" "rows w' = (if res = Ok () then insert_row row (rows w) else rows w)"
proof -
  obtain r v where s: "sql_message_insert S row (compute_search_text row) w = (r, v)" by (metis surj_pair)
  have v: "rows v = (if isl r then rows w else insert_row row (rows w))" "topics v = topics w"
    using store_okD(1)[OF assms(1) s] by simp_all
  show "res \<noteq> Panicked" "topics w' = topics w" "rows w' = (if res = Ok () then insert_row row (rows w) else rows w)"
    using assms(2) s v by (auto simp: upsert_message_def split: sum.splits sqlx_error.splits if_splits)
qed

lemma project_records_append:
  "project_records P S (xs @ ys) s w =
     (case project_records P S xs s w of
        (Ok s1, w1) \<Rightarrow> project_records P S ys s1 w1
      | (Err e, w1) \<Rightarrow> (Err e, w1)
      | (Panicked, w1) \<Rightarrow> (Panicked, w1))"
  by (induction P S xs s w rule: project_records.induct)
    (auto split: rres.splits prod.splits)

text \<open>The rows of the first \<^verbatim>\<open>k\<close> records have been inserted.\<close>

definition projected :: "pg_env \<Rightarrow> stored_message_record list \<Rightarrow> nat \<Rightarrow> message_table \<Rightarrow> message_table \<Rightarrow> bool" where
  "projected P records k R R' \<longleftrightarrow>
     k \<le> length records \<and> (\<exists>rws. rmap (record_to_message_row P) (take k records) = Ok rws \<and> R' = fold insert_row rws R)"

lemma projected_none: "projected P records 0 R R"
  by (simp add: projected_def)

lemma projected_append:
  assumes "projected P xs (length xs) R R1" "projected P ys k R1 R2"
  shows "projected P (xs @ ys) (length xs + k) R R2"
  using assms by (auto simp: projected_def rmap_append)

lemma projected_left: "projected P xs k R R1 \<Longrightarrow> projected P (xs @ ys) k R R1"
  by (auto simp: projected_def)

lemma project_records_effect:
  assumes "store_ok S rows topics" "project_records P S rs s w = (res, w')"
  shows "res \<noteq> Panicked \<and> topics w' = topics w \<and>
    (\<exists>k. projected P rs k (rows w) (rows w') \<and>
      (\<forall>s'. res = Ok s' \<longrightarrow> k = length rs \<and> s' = fold saw (map record_time rs) s))"
  using assms(2)
proof (induction rs arbitrary: s w)
  case Nil
  then show ?case using projected_none by auto
next
  case (Cons r rs)
  show ?case
  proof (cases "record_to_message_row P r")
    case (Ok row)
    show ?thesis
    proof (cases "pg_datetime_ok P (mrow_time_unix_ms row)")
      case True
      obtain r1 w1 where u: "upsert_message S row w = (r1, w1)" by (metis surj_pair)
      note e = upsert_message_effect[OF assms(1) u]
      show ?thesis
      proof (cases r1)
        case (Ok u')
        then have run: "project_records P S rs (saw (record_time r) s) w1 = (res, w')"
          using Cons.prems u True record_row_time[OF \<open>record_to_message_row P r = Ok row\<close>]
          by (simp add: \<open>record_to_message_row P r = Ok row\<close>)
        have one: "projected P [r] (length [r]) (rows w) (rows w1)"
          using e(3) Ok \<open>record_to_message_row P r = Ok row\<close> by (simp add: projected_def)
        from Cons.IH[OF run] obtain k where k: "res \<noteq> Panicked" "topics w' = topics w1"
          "projected P rs k (rows w1) (rows w')"
          "\<forall>s'. res = Ok s' \<longrightarrow> k = length rs \<and> s' = fold saw (map record_time rs) (saw (record_time r) s)" by blast
        have "projected P (r # rs) (Suc k) (rows w) (rows w')" using projected_append[OF one k(3)] by simp
        with k e(2) show ?thesis by auto
      qed (use Cons.prems u True e Ok projected_none in auto)
    qed (use Cons.prems Ok projected_none in auto)
  qed (use Cons.prems record_row_total[of P r] in \<open>auto intro!: exI[of _ 0] projected_none\<close>)
qed

section \<open>Partitions\<close>

definition held :: "durable_env \<Rightarrow> durable_broker_config \<Rightarrow> fs \<Rightarrow> contents \<Rightarrow> topic \<Rightarrow> bool" where
  "held E config fs M t \<longleftrightarrow>
     (\<forall>p\<in>set (topic_partition_ids t). \<exists>l. log_at E config fs (topic_name t) p l (M (topic_name t) p))"

lemma read_partition_held:
  assumes "codec_ok (env_records E)" "log_at E config fs t p l es"
  shows "read_partition_records (env_records E) (storage_log_config config) t p fs = (Ok (stored_records t p 0 es), fs)"
proof -
  have "unat (offset_value (sl_next_offset l)) = length es"
    using assms(2) by (simp add: log_at_def log_holds_def unat_of_nat_small)
  then have "StorageLog_read_from (env_records E) (Offset 0) (unat (offset_value (sl_next_offset l))) l fs =
      Ok (stored_records t p 0 es)"
    using read_all_held[OF assms] by (simp add: read_all_records_def)
  then show ?thesis by (simp add: read_partition_records_def open_at[OF assms])
qed

lemma project_partitions_held:
  assumes "codec_ok (env_records E)" "\<forall>p\<in>set ps. \<exists>l. log_at E config fs t p l (M t p)"
  shows "project_partitions (env_records E) P S (storage_log_config config) t ps s fs w =
    (case project_records P S (concat (map (\<lambda>p. stored_records t p 0 (M t p)) ps)) s w of (res, w') \<Rightarrow> (res, fs, w'))"
  using assms(2)
proof (induction ps arbitrary: s w)
  case (Cons p ps)
  then obtain l where "log_at E config fs t p l (M t p)" by auto
  note read = read_partition_held[OF assms(1) this]
  show ?case using Cons by (auto simp: read project_records_append split: rres.split prod.split)
qed simp

section \<open>Topics\<close>

lemma saw_fold:
  "messages_count (fold saw ts s) = messages_count s + length ts"
  "ts \<noteq> [] \<Longrightarrow> first_seen s = None \<Longrightarrow> first_seen (fold saw ts s) = Some (Min (set ts))"
  "ts \<noteq> [] \<Longrightarrow> last_seen s = None \<Longrightarrow> last_seen (fold saw ts s) = Some (Max (set ts))"
proof -
  show "messages_count (fold saw ts s) = messages_count s + length ts"
    by (induction ts arbitrary: s) (simp_all add: saw_def)
  have first: "first_seen s = Some a \<Longrightarrow> first_seen (fold saw ts s) = Some (fold min ts a)" for a s ts
    by (induction ts arbitrary: a s) (simp_all add: saw_def min.commute)
  have last: "last_seen s = Some a \<Longrightarrow> last_seen (fold saw ts s) = Some (fold max ts a)" for a s ts
    by (induction ts arbitrary: a s) (simp_all add: saw_def max.commute)
  assume "ts \<noteq> []"
  then obtain a as where ts: "ts = a # as" by (cases ts) auto
  show "first_seen (fold saw ts s) = Some (Min (set ts))" if "first_seen s = None"
    using first[of "saw a s" a as] that by (simp only: ts Min.set_eq_fold) (simp add: saw_def)
  show "last_seen (fold saw ts s) = Some (Max (set ts))" if "last_seen s = None"
    using last[of "saw a s" a as] that by (simp only: ts Max.set_eq_fold) (simp add: saw_def)
qed

lemma project_topic_row_effect:
  assumes "store_ok S rows topics" "project_topic_row S t (fold saw (map record_time (topic_records M t))
      \<lparr>first_seen = None, last_seen = None, messages_count = n\<rparr>) w = (res, w')"
  shows "res \<noteq> Panicked \<and> rows w' = rows w \<and>
    (if res = Ok () then \<exists>row. topics w' = (topics w)(tn_str (topic_name t) \<mapsto> row) \<and>
        topic_shown M t (topics w (tn_str (topic_name t))) (Some row)
     else topics w' = topics w)"
proof (cases "i32_try_from (unat (topic_partition_count t))")
  case (Some k)
  then have k: "k = int (unat (topic_partition_count t))" by (simp add: i32_try_from_def split: if_splits)
  let ?ts = "map record_time (topic_records M t)" and ?name = "tn_str (topic_name t)"
  show ?thesis
  proof (cases "?ts = []")
    case True
    then have run: "upsert_empty_topic S ?name k w = (res, w')" using assms(2) Some by (simp add: project_topic_row_def)
    obtain r v where s: "sql_empty_topic_upsert S ?name k (sql_now S w) w = (r, v)" by (metis surj_pair)
    show ?thesis using store_okD(3)[OF assms(1) s] run s True
      by (auto simp: upsert_empty_topic_def query_result_def topic_shown_def k split: sum.splits option.splits)
  next
    case False
    let ?row = "\<lparr>tr_name = ?name, tr_partitions = k, tr_first_seen_at = Min (set ?ts), tr_last_seen_at = Max (set ?ts)\<rparr>"
    have run: "upsert_topic S ?row w = (res, w')"
      using assms(2) saw_fold(2,3)[OF False] by (simp add: project_topic_row_def Some)
    obtain r v where s: "sql_topic_upsert S ?row w = (r, v)" by (metis surj_pair)
    show ?thesis using store_okD(2)[OF assms(1) s] run s False
      by (auto simp: upsert_topic_def query_result_def topic_shown_def k split: sum.splits)
  qed
qed (use assms(2) in \<open>auto simp: project_topic_row_def\<close>)

lemma project_partitions_effect:
  assumes "store_ok S rows topics" "codec_ok (env_records E)" "held E config fs M t"
    and "project_partitions (env_records E) P S (storage_log_config config) (topic_name t) (topic_partition_ids t) s fs w =
      (res, fs', w')"
  shows "res \<noteq> Panicked \<and> fs' = fs \<and> topics w' = topics w \<and>
    (\<exists>k. projected P (topic_records M t) k (rows w) (rows w') \<and>
      (\<forall>s'. res = Ok s' \<longrightarrow> k = length (topic_records M t) \<and> s' = fold saw (map record_time (topic_records M t)) s))"
proof -
  have "project_partitions (env_records E) P S (storage_log_config config) (topic_name t) (topic_partition_ids t) s fs w =
      (case project_records P S (topic_records M t) s w of (res, w') \<Rightarrow> (res, fs, w'))"
    using project_partitions_held[OF assms(2)] assms(3) by (simp add: held_def topic_records_def)
  with assms(4) have run: "project_records P S (topic_records M t) s w = (res, w')" and "fs' = fs"
    by (simp_all split: prod.splits)
  with project_records_effect[OF assms(1) run] show ?thesis by simp
qed

abbreviation table_name :: "topic \<Rightarrow> rstring" where
  "table_name t \<equiv> tn_str (topic_name t)"

definition tables_after ::
  "contents \<Rightarrow> topic list \<Rightarrow> (rstring \<Rightarrow> topic_row option) \<Rightarrow> (rstring \<Rightarrow> topic_row option) \<Rightarrow> bool \<Rightarrow> bool" where
  "tables_after M ts T T' complete \<longleftrightarrow>
     (\<forall>name. name \<notin> table_name ` set ts \<longrightarrow> T' name = T name) \<and>
     (\<forall>t\<in>set ts. topic_shown M t (T (table_name t)) (T' (table_name t)) \<or>
        \<not> complete \<and> T' (table_name t) = T (table_name t))"

lemma tables_after_step:
  assumes "tables_after M ts (T(table_name t \<mapsto> row)) T' complete" "topic_shown M t (T (table_name t)) (Some row)"
    "table_name t \<notin> table_name ` set ts"
  shows "tables_after M (t # ts) T T' complete"
proof -
  have "table_name u \<noteq> table_name t" if "u \<in> set ts" for u
    using imageI[OF that, of table_name] assms(3) by metis
  then show ?thesis using assms by (auto simp: tables_after_def)
qed

lemma project_topics_effect:
  assumes "store_ok S rows topics" "codec_ok (env_records E)"
    and "\<forall>t\<in>set ts. held E config fs M t" "distinct (map table_name ts)"
    and "project_topics (env_records E) P S (storage_log_config config) ts n fs w = (res, fs', w')"
  shows "res \<noteq> Panicked \<and> fs' = fs \<and> tables_after M ts (topics w) (topics w') (is_ok res) \<and>
    (\<exists>k. projected P (logged_records M ts) k (rows w) (rows w') \<and>
      (\<forall>m. res = Ok m \<longrightarrow> k = length (logged_records M ts) \<and> m = n + k))"
  using assms(3-5)
proof (induction ts arbitrary: n w)
  case Nil
  then show ?case using projected_none by (auto simp: logged_records_def tables_after_def)
next
  case (Cons t ts)
  let ?s = "\<lparr>first_seen = None, last_seen = None, messages_count = n\<rparr>"
  have recs: "logged_records M (t # ts) = topic_records M t @ logged_records M ts" by (simp add: logged_records_def)
  have same: "tables_after M (t # ts) T T False" for T by (simp add: tables_after_def)
  obtain r1 fs1 w1 where part: "project_partitions (env_records E) P S (storage_log_config config) (topic_name t)
      (topic_partition_ids t) ?s fs w = (r1, fs1, w1)" by (metis surj_pair)
  from project_partitions_effect[OF assms(1,2) _ part] Cons.prems(1) obtain k where
    k: "r1 \<noteq> Panicked" "fs1 = fs" "topics w1 = topics w" "projected P (topic_records M t) k (rows w) (rows w1)"
      "\<forall>s'. r1 = Ok s' \<longrightarrow> k = length (topic_records M t) \<and> s' = fold saw (map record_time (topic_records M t)) ?s" by auto
  show ?case
  proof (cases r1)
    case (Ok s')
    with k(5) have k_all: "k = length (topic_records M t)" and s': "s' = fold saw (map record_time (topic_records M t)) ?s" by auto
    obtain r2 w2 where row: "project_topic_row S t s' w1 = (r2, w2)" by (metis surj_pair)
    from project_topic_row_effect[OF assms(1) row[unfolded s']] have e: "r2 \<noteq> Panicked" "rows w2 = rows w1"
      "if r2 = Ok () then \<exists>row. topics w2 = (topics w1)(table_name t \<mapsto> row) \<and>
         topic_shown M t (topics w1 (table_name t)) (Some row) else topics w2 = topics w1" by auto
    show ?thesis
    proof (cases r2)
      case [simp]: (Ok u)
      have run: "project_topics (env_records E) P S (storage_log_config config) ts (messages_count s') fs w2 = (res, fs', w')"
        using Cons.prems(3) part row \<open>r1 = Ok s'\<close> k(2) by simp
      from Cons.IH[OF _ _ run] Cons.prems(1,2) obtain j where
        j: "res \<noteq> Panicked" "fs' = fs" "tables_after M ts (topics w2) (topics w') (is_ok res)"
          "projected P (logged_records M ts) j (rows w2) (rows w')"
          "\<forall>m. res = Ok m \<longrightarrow> j = length (logged_records M ts) \<and> m = messages_count s' + j" by auto
      from e(3) k(3) obtain row where "topics w2 = (topics w)(table_name t \<mapsto> row)"
        "topic_shown M t (topics w (table_name t)) (Some row)" by auto
      with j(3) Cons.prems(2) have "tables_after M (t # ts) (topics w) (topics w') (is_ok res)"
        by (intro tables_after_step) auto
      moreover have "projected P (logged_records M (t # ts)) (length (topic_records M t) + j) (rows w) (rows w')"
        unfolding recs using k(4) j(4) e(2) k_all by (intro projected_append) auto
      ultimately show ?thesis using j(1,2,5) by (auto simp: recs s' saw_fold(1))
    qed (use Cons.prems(3) part row Ok k e projected_left[OF k(4)] same in \<open>auto simp: recs\<close>)
  qed (use Cons.prems(3) part k projected_left[OF k(4)] same in \<open>auto simp: recs\<close>)
qed

text \<open>After a complete rebuild there is nothing left to change.\<close>

lemma projected_again:
  assumes "projected P records (length records) R R1" "projected P records k R1 R2"
  shows "R2 = R1"
proof -
  from assms(1) obtain rws where rws: "rmap (record_to_message_row P) records = Ok rws" "R1 = fold insert_row rws R"
    by (auto simp: projected_def)
  with assms(2) have "R2 = fold insert_row (take k rws) R1" by (auto simp: projected_def rmap_take)
  also have "\<dots> = R1" unfolding rws(2) by (intro fold_insert_idle fold_insert_present) (rule in_set_takeD)
  finally show ?thesis .
qed

lemma tables_after_again:
  assumes "tables_after M ts T T1 True" "tables_after M ts T1 T2 c"
  shows "T2 = T1"
proof
  fix name
  show "T2 name = T1 name"
  proof (cases "name \<in> table_name ` set ts")
    case True
    then obtain t where t: "t \<in> set ts" "name = table_name t" by blast
    with assms(1) have "topic_shown M t (T1 name) (T1 name)" by (auto simp: tables_after_def intro: topic_shown_again)
    with assms(2) t show ?thesis by (auto simp: tables_after_def dest: topic_shown_fixed)
  qed (use assms in \<open>simp add: tables_after_def\<close>)
qed

section \<open>The rebuild of a broker's directory\<close>

definition projection_config :: "path \<Rightarrow> durable_broker_config" where
  "projection_config data_dir =
     \<lparr>dbc_root_dir = data_dir,
      dbc_broker_config = \<lparr>bc_retry_policy = \<lparr>rp_max_attempts = 3, rp_backoff_millis = Some 1000\<rparr>, bc_delivery_lease_millis = 30000\<rparr>,
      dbc_max_segment_bytes = projection_max_segment_bytes\<rparr>"

lemma broker_topics_held:
  assumes "db_wf E b fs M" "broker_inv (db_mem M b)"
  shows "\<forall>t\<in>set (db_list_topics b). held E (db_config b) fs M t" "distinct (map table_name (db_list_topics b))"
proof -
  have srt: "bt_sorted (db_topics b)" using assms(1) by (simp add: db_wf_def)
  have ok: "stored_topic_ok n (mem_topic (M n) dt)" "topic_name (dt_topic dt) = n" if "(n, dt) \<in> set (db_topics b)" for n dt
  proof -
    have "bt_get (db_topics b) n = Some dt" using bt_mem_iff[OF srt] that by simp
    from db_mem_sorted(3)[OF assms(2) this] show st: "stored_topic_ok n (mem_topic (M n) dt)" .
    then have "dt_topic dt = Topic_new n (topic_config (dt_topic dt))" by (simp add: stored_topic_ok_def)
    then show "topic_name (dt_topic dt) = n" by (metis Topic_new_def topic.select_convs(1))
  qed
  show "\<forall>t\<in>set (db_list_topics b). held E (db_config b) fs M t"
  proof
    fix t assume "t \<in> set (db_list_topics b)"
    then obtain n dt where dt: "(n, dt) \<in> set (db_topics b)" "t = dt_topic dt" by (auto simp: db_list_topics_def)
    have get: "bt_get (db_topics b) n = Some dt" using bt_mem_iff[OF srt] dt(1) by simp
    have "topic_partition_ids t = dt_partition_ids dt"
      using stored_topic_ok_ids[OF ok(1)[OF dt(1)]] by (simp add: dt(2) st_partition_ids_def dt_partition_ids_def mem_topic_def)
    then show "held E (db_config b) fs M t"
      using db_wf_log[OF assms(1) get] ok(2)[OF dt(1)] by (simp add: held_def dt(2)) (metis dt_partition_ids_iff)
  qed
  have "map topic_name (db_list_topics b) = map fst (db_topics b)"
    using ok(2) by (auto simp: db_list_topics_def)
  then have "distinct (map topic_name (db_list_topics b))" using bt_sorted_distinct[OF srt] by simp
  then show "distinct (map table_name (db_list_topics b))"
    by (auto simp: distinct_map inj_on_def intro: topic_name.expand)
qed

lemma tables_after_incomplete: "tables_after M ts T T' complete \<Longrightarrow> tables_after M ts T T' False"
  by (auto simp: tables_after_def)

lemma entry_name_total: "entry_name x \<noteq> Panicked"
  by (auto simp: entry_name_def split: option.splits)

lemma validate_message_layout_total: "validate_message_layout messages_dir ts \<noteq> Panicked"
proof -
  have ids: "collect_partition_ids expected es actual \<noteq> Panicked" for expected es actual
    by (induction expected es actual rule: collect_partition_ids.induct) (auto simp: rbind_eq_Panicked entry_name_total)
  have part: "validate_partition_layout l t \<noteq> Panicked" for l t
    by (auto simp: validate_partition_layout_def Let_def rbind_eq_Panicked ids split: listing.splits)
  have "validate_topic_entries m es \<noteq> Panicked" for m es
    by (induction m es rule: validate_topic_entries.induct) (auto simp: rbind_eq_Panicked entry_name_total part TopicName_new_def tn_text.new_no_panic)
  then show ?thesis by (auto simp: validate_message_layout_def split: listing.splits)
qed

lemma rebuild_inner_effect:
  assumes st: "store_ok S rows topics" and ok: "codec_ok (env_records E)"
    and opened: "DurableBroker_open E (projection_config data_dir) fs = (Ok b, fs)"
    and held: "\<forall>t\<in>set (db_list_topics b). held E (projection_config data_dir) fs M t"
    and dist: "distinct (map table_name (db_list_topics b))"
    and run: "rebuild_inner E P S messages_dir data_dir fs w = (res, fs', w')"
  shows "res \<noteq> Panicked \<and> fs' = fs \<and> tables_after M (db_list_topics b) (topics w) (topics w') (is_ok res) \<and>
    (\<exists>k. projected P (logged_records M (db_list_topics b)) k (rows w) (rows w') \<and>
      (\<forall>r. res = Ok r \<longrightarrow> k = length (logged_records M (db_list_topics b)) \<and>
        r = \<lparr>prj_topics_count = length (db_list_topics b), prj_messages_count = k\<rparr>))"
proof -
  let ?ts = "db_list_topics b"
  have stop: "tables_after M ?ts (topics w) (topics w) False" by (simp add: tables_after_def)
  note open_eq = opened[unfolded projection_config_def]
  note layout = validate_message_layout_total
  show ?thesis
  proof (cases "validate_message_layout messages_dir ?ts")
    case (Ok u)
    obtain r1 fs1 w1 where t: "project_topics (env_records E) P S (storage_log_config (projection_config data_dir)) ?ts 0 fs w =
        (r1, fs1, w1)" by (metis surj_pair)
    note e = project_topics_effect[OF st ok held dist t]
    have "storage_log_config (projection_config data_dir) =
        \<lparr>lc_root_dir = data_dir @ [str ''messages''], lc_max_segment_bytes = projection_max_segment_bytes\<rparr>"
      by (simp add: storage_log_config_def projection_config_def)
    with run t have "res = map_ok (\<lambda>n. \<lparr>prj_topics_count = length ?ts, prj_messages_count = n\<rparr>) r1" "fs' = fs1" "w' = w1"
      by (simp_all add: rebuild_inner_def BrokerConfig_default_Ok open_eq Ok)
    then show ?thesis using e by (cases r1) auto
  qed (use run stop layout projected_none in \<open>auto simp: rebuild_inner_def BrokerConfig_default_Ok open_eq intro!: exI[of _ 0]\<close>)
qed

lemma rebuild_effect:
  assumes st: "store_ok S rows topics" and ok: "codec_ok (env_records E)"
    and opened: "DurableBroker_open E (projection_config data_dir) fs = (Ok b, fs)"
    and held: "\<forall>t\<in>set (db_list_topics b). held E (projection_config data_dir) fs M t"
    and dist: "distinct (map table_name (db_list_topics b))"
    and run: "rebuild_projection E P S messages_dir data_dir fs w = (res, fs', w')"
  shows "res \<noteq> Panicked \<and> fs' = fs \<and> tables_after M (db_list_topics b) (topics w) (topics w') (is_ok res) \<and>
    (\<exists>k. projected P (logged_records M (db_list_topics b)) k (rows w) (rows w') \<and>
      (\<forall>r. res = Ok r \<longrightarrow> k = length (logged_records M (db_list_topics b)) \<and>
        r = \<lparr>prj_topics_count = length (db_list_topics b), prj_messages_count = k\<rparr>))"
proof -
  let ?ts = "db_list_topics b"
  obtain r0 w0 where start: "sql_run_insert S w = (r0, w0)" by (metis surj_pair)
  note w0 = store_okD(4)[OF st start]
  show ?thesis
  proof (cases r0)
    case (Inl e)
    then show ?thesis using run start w0 projected_none
      by (auto simp: rebuild_projection_def start_projection_run_def query_result_def tables_after_def intro!: exI[of _ 0])
  next
    case (Inr run_id)
    obtain r1 fs1 w1 where inner: "rebuild_inner E P S messages_dir data_dir fs w0 = (r1, fs1, w1)" by (metis surj_pair)
    note e = rebuild_inner_effect[OF st ok opened held dist inner]
    have same: "rows w' = rows w1 \<and> topics w' = topics w1 \<and> fs' = fs1 \<and> res \<noteq> Panicked \<and>
        (\<forall>r. res = Ok r \<longrightarrow> r1 = Ok r)"
    proof (cases r1)
      case (Ok r)
      have "rows v = rows w1 \<and> topics v = topics w1 \<and> x \<noteq> Panicked"
        if "complete_projection_run S run_id r w1 = (x, v)" for x v
        using that store_okD(5)[OF st] 
        by (auto simp: complete_projection_run_def query_result_def ensure_one_run_updated_def
            split: option.splits prod.splits sum.splits if_splits)
      then show ?thesis using run start Inr inner Ok
        by (auto simp: rebuild_projection_def start_projection_run_def query_result_def split: prod.splits)
    next
      case (Err x)
      have "rows v = rows w1 \<and> topics v = topics w1"
        if "fail_projection_run S run_id (sanitize_error x) w1 = (y, v)" for y v
        using that store_okD(6)[OF st]
        by (auto simp: fail_projection_run_def query_result_def split: prod.splits sum.splits)
      then show ?thesis using run start Inr inner Err
        by (auto simp: rebuild_projection_def start_projection_run_def query_result_def split: prod.splits)
    qed (use e in simp)
    have "tables_after M ?ts (topics w) (topics w') (is_ok res)"
      using e w0 same tables_after_incomplete by (cases res) auto
    with e w0 same show ?thesis by auto
  qed
qed

end
