(* ===== verification/Postgres_Properties.thy ===== *)
theory Postgres_Properties
  imports Postgres_Rebuild Durable_Scenario
begin

text \<open>
  The property of the projection, and a store of two tables in memory on which its witness runs.
\<close>

section \<open>A store to run\<close>

record tables =
  tb_messages :: "message_row list"
  tb_topics :: "(rstring \<times> topic_row) list"
  tb_runs :: nat

definition tb_rows :: "tables \<Rightarrow> message_table" where
  "tb_rows w key = find (\<lambda>row. row_key row = key) (tb_messages w)"

definition table_insert :: "message_row \<Rightarrow> tables \<Rightarrow> (sqlx_error + unit) \<times> tables" where
  "table_insert row w =
     (if list_ex (\<lambda>old. row_key old = row_key row) (tb_messages w) then (Inr (), w)
      else if list_ex (\<lambda>old. mrow_topic old = mrow_topic row \<and> mrow_message_id old = mrow_message_id row) (tb_messages w)
      then (Inl (SqlxDatabase (Some message_id_constraint) (str ''duplicate key'')), w)
      else (Inr (), w\<lparr>tb_messages := row # tb_messages w\<rparr>))"

definition table_store :: "tables pg_store" where
  "table_store =
     \<lparr>sql_now = (\<lambda>w. 77),
      sql_topic_upsert = (\<lambda>row w. (Inr (), w\<lparr>tb_topics := (tr_name row, row) # tb_topics w\<rparr>)),
      sql_empty_topic_upsert = (\<lambda>name n now w. (Inr (), w\<lparr>tb_topics := (name,
        case map_of (tb_topics w) name of
          None \<Rightarrow> \<lparr>tr_name = name, tr_partitions = n, tr_first_seen_at = now, tr_last_seen_at = now\<rparr>
        | Some old \<Rightarrow> old\<lparr>tr_partitions := n\<rparr>) # tb_topics w\<rparr>)),
      sql_message_insert = (\<lambda>row search_text w. table_insert row w),
      sql_message_search = (\<lambda>query topic limit w. (Inr [], w)),
      sql_run_insert = (\<lambda>w. (Inr (int (tb_runs w)), w\<lparr>tb_runs := tb_runs w + 1\<rparr>)),
      sql_run_success = (\<lambda>t m i w. (Inr 1, w)), sql_run_error = (\<lambda>e i w. (Inr 1, w))\<rparr>"

lemma table_insert_rows:
  "tb_rows (snd (table_insert row w)) = (if isl (fst (table_insert row w)) then tb_rows w else insert_row row (tb_rows w))"
  "tb_topics (snd (table_insert row w)) = tb_topics w"
proof -
  have "tb_rows w (row_key row) \<noteq> None \<longleftrightarrow> list_ex (\<lambda>old. row_key old = row_key row) (tb_messages w)"
    by (auto simp: tb_rows_def find_None_iff list_ex_iff)
  then show "tb_rows (snd (table_insert row w)) =
      (if isl (fst (table_insert row w)) then tb_rows w else insert_row row (tb_rows w))"
    by (auto simp: table_insert_def insert_row_def tb_rows_def fun_eq_iff)
  show "tb_topics (snd (table_insert row w)) = tb_topics w" by (simp add: table_insert_def)
qed

lemma table_store_ok: "store_ok table_store tb_rows (\<lambda>w. map_of (tb_topics w))"
proof -
  have ins: "table_insert row w = (r, w') \<Longrightarrow> tb_rows w' = (if isl r then tb_rows w else insert_row row (tb_rows w)) \<and>
      map_of (tb_topics w') = map_of (tb_topics w)" for row w r w'
    using table_insert_rows[of row w] by simp
  have rows: "tb_rows (w\<lparr>tb_topics := x\<rparr>) = tb_rows w" "tb_rows (w\<lparr>tb_runs := n\<rparr>) = tb_rows w" for w x n
    by (simp_all add: tb_rows_def fun_eq_iff)
  show ?thesis using ins by (auto simp: store_ok_def table_store_def rows)
qed

section \<open>A directory to project\<close>

definition prj_env :: pg_env where
  "prj_env = \<lparr>pg_sha = demo_sha, pg_hex = map unat, pg_datetime_ok = (\<lambda>t. t < 2 ^ 43)\<rparr>"

definition prj_config :: durable_broker_config where
  "prj_config = projection_config [str ''data'']"

definition prj_opened :: "durable_broker \<times> fs" where
  "prj_opened = (DurableBroker_new prj_config (state_path prj_config), [(state_path prj_config, [])])"

definition prj_published :: "durable_broker \<times> fs" where
  "prj_published = db_apply dur_env (DbPublish io_all_ok demo_publish)
     (db_apply dur_env (DbCreateTopic state_io_ok demo_create) prj_opened)"

definition prj_listing :: "topic_entry listing" where
  "prj_listing = Listed [\<lparr>ent_error = None, ent_is_dir = True, ent_name = Some (str ''orders''),
     te_partitions = Listed [\<lparr>ent_error = None, ent_is_dir = True, ent_name = Some (str ''0'')\<rparr>]\<rparr>]"

definition prj_empty :: tables where
  "prj_empty = \<lparr>tb_messages = [], tb_topics = [], tb_runs = 0\<rparr>"

lemma prj_env_ok: "env_ok dur_env prj_config"
  using dur_env_ok(1) by (simp add: env_ok_def prj_config_def projection_config_def projection_max_segment_bytes_def)

lemma prj_opened_run: "db_run dur_env prj_config P prj_opened"
proof -
  have f: "fresh_fs prj_config []" by (simp add: fresh_fs_def log_files_def)
  have "DurableBroker_open dur_env prj_config [] = (Ok (fst prj_opened), snd prj_opened)"
    using open_fresh(1)[OF f, of dur_env] prj_env_ok by (simp add: env_ok_def prj_opened_def)
  from db_run.opened[OF f this] show ?thesis by simp
qed

lemma prj_published_run: "db_run dur_env prj_config (clean_step dur_env) prj_published"
proof -
  have "db_run dur_env prj_config (clean_step dur_env) (db_apply dur_env (DbCreateTopic state_io_ok demo_create) prj_opened)"
    by (rule db_run.operation[OF prj_opened_run]) code_simp+
  then show ?thesis unfolding prj_published_def
    by (rule db_run.operation) (simp add: io_all_ok_recovers, code_simp+)
qed

lemma prj_rebuild:
  "fst (rebuild_projection dur_env prj_env table_store prj_listing [str ''data''] (snd prj_published) prj_empty) =
     Ok \<lparr>prj_topics_count = 1, prj_messages_count = 1\<rparr>"
  by code_simp

section \<open>The projection is that of the log\<close>

text \<open>C26: a rebuild over the directory a broker has left, whatever the database refuses, leaves the files
  alone and adds to the table of messages only the rows of logged messages, the first \<^verbatim>\<open>k\<close> of them in
  topic, partition and offset order, at locations that were free. When it answers with success these
  are all the logged messages and its counts say so, every topic has a row with its number of
  partitions and the range of its messages' times, topics of other names keep theirs, and another
  rebuild, whatever becomes of it, changes neither table.\<close>

theorem projection_faithful:
  assumes "db_run E (projection_config data_dir) (clean_step E) (b, fs)" "env_ok E (projection_config data_dir)"
    and "event_codec_ok (env_events E)" "db_has_room b" "store_ok S rows topics"
    and "rebuild_projection E P S messages_dir data_dir fs w = (res, fs', w')"
  shows "\<exists>M k. db_wf E b fs M \<and> res \<noteq> Panicked \<and> fs' = fs \<and>
    projected P (logged_records M (db_list_topics b)) k (rows w) (rows w') \<and>
    tables_after M (db_list_topics b) (topics w) (topics w') (is_ok res) \<and>
    (\<forall>r. res = Ok r \<longrightarrow>
       k = length (logged_records M (db_list_topics b)) \<and>
       r = \<lparr>prj_topics_count = length (db_list_topics b), prj_messages_count = k\<rparr> \<and>
       (\<forall>messages_dir2 res2 fs2 w2. rebuild_projection E P S messages_dir2 data_dir fs w' = (res2, fs2, w2) \<longrightarrow>
          rows w2 = rows w' \<and> topics w2 = topics w'))"
proof -
  from run_released[OF assms(1-4)] obtain M where wf: "db_wf E b fs M" and inv: "broker_inv (db_mem M b)"
    and opened: "DurableBroker_open E (projection_config data_dir) fs = (Ok (release_recovered_pending b), fs)" by blast
  have config: "db_config b = projection_config data_dir" using run_state[OF assms(1,2)] by blast
  have ts: "db_list_topics (release_recovered_pending b) = db_list_topics b" by (simp add: db_list_topics_def)
  have codec: "codec_ok (env_records E)" using assms(2) by (simp add: env_ok_def)
  note effect = rebuild_effect[OF assms(5) codec opened, unfolded ts,
      OF broker_topics_held(1)[OF wf inv, unfolded config] broker_topics_held(2)[OF wf inv]]
  from effect[OF assms(6)] obtain k where k: "res \<noteq> Panicked" "fs' = fs"
    "projected P (logged_records M (db_list_topics b)) k (rows w) (rows w')"
    "tables_after M (db_list_topics b) (topics w) (topics w') (is_ok res)"
    "\<forall>r. res = Ok r \<longrightarrow> k = length (logged_records M (db_list_topics b)) \<and>
      r = \<lparr>prj_topics_count = length (db_list_topics b), prj_messages_count = k\<rparr>" by blast
  have "rows w2 = rows w' \<and> topics w2 = topics w'"
    if "res = Ok r" "rebuild_projection E P S messages_dir2 data_dir fs w' = (res2, fs2, w2)" for r messages_dir2 res2 fs2 w2
  proof -
    have all: "projected P (logged_records M (db_list_topics b)) (length (logged_records M (db_list_topics b))) (rows w) (rows w')"
      and shown: "tables_after M (db_list_topics b) (topics w) (topics w') True"
      using k that(1) by auto
    from effect[OF that(2)] obtain j where "projected P (logged_records M (db_list_topics b)) j (rows w') (rows w2)"
      "tables_after M (db_list_topics b) (topics w') (topics w2) (is_ok res2)" by blast
    with projected_again[OF all] tables_after_again[OF shown] show ?thesis by blast
  qed
  with wf k show ?thesis by blast
qed

theorem projection_faithful_witness:
  "\<exists>w'. rebuild_projection dur_env prj_env table_store prj_listing [str ''data''] (snd prj_published) prj_empty =
       (Ok \<lparr>prj_topics_count = 1, prj_messages_count = 1\<rparr>, snd prj_published, w') \<and>
     tb_rows (snd (snd (rebuild_projection dur_env prj_env table_store NotThere [str ''data''] (snd prj_published) w'))) =
       tb_rows w'"
proof -
  obtain fs' w' where r: "rebuild_projection dur_env prj_env table_store prj_listing [str ''data''] (snd prj_published) prj_empty =
      (Ok \<lparr>prj_topics_count = 1, prj_messages_count = 1\<rparr>, fs', w')" using prj_rebuild by (metis prod.collapse)
  have run: "db_run dur_env (projection_config [str ''data'']) (clean_step dur_env) (fst prj_published, snd prj_published)"
    using prj_published_run by (simp add: prj_config_def)
  have room: "db_has_room (fst prj_published)" by code_simp
  from projection_faithful[OF run prj_env_ok[unfolded prj_config_def] dur_env_ok(2) room table_store_ok r]
  have "fs' = snd prj_published" and again: "\<And>l2 r2 f2 w2. rebuild_projection dur_env prj_env table_store l2 [str ''data'']
      (snd prj_published) w' = (r2, f2, w2) \<Longrightarrow> tb_rows w2 = tb_rows w'" by blast+
  moreover obtain r2 f2 w2 where "rebuild_projection dur_env prj_env table_store NotThere [str ''data'']
      (snd prj_published) w' = (r2, f2, w2)" by (metis surj_pair)
  ultimately show ?thesis using r again by fastforce
qed

end
