(* ===== verification/Runtime.thy ===== *)
theory Runtime
  imports Servers Postgres_Projection
begin

text \<open>
  \<^verbatim>\<open>msg-runtime\<close>: starting the process that serves HTTP and gRPC (\<^verbatim>\<open>lib.rs\<close>), and the commands of
  \<^verbatim>\<open>brokerd\<close> on the projection (\<^verbatim>\<open>bin/brokerd.rs\<close>), in the build with the feature \<^verbatim>\<open>postgres\<close>.

  What is outside the repository is the record \<^verbatim>\<open>runtime_env\<close>: binding a socket, the environment
  variable, parsing a URL, connecting to the database, running the script of a migration, and the
  renderings that \<^verbatim>\<open>serde_json\<close> and the formatting of an \<^verbatim>\<open>f32\<close> give. A socket address is its text. The
  world of the database is the rows of its migration table and whatever else it holds.
\<close>

type_synonym 's world = "migration_row list \<times> 's"

record 's runtime_env =
  re_bind :: "rstring \<Rightarrow> rstring option"
  re_database_url_var :: "rstring option"
  re_parse_url :: "rstring \<Rightarrow> parsed_url option"
  re_connect :: "rstring \<Rightarrow> u32 \<Rightarrow> 's world \<Rightarrow> rstring option"
  re_run_script :: "rstring \<Rightarrow> 's \<Rightarrow> rstring + 's"
  re_alphanumeric :: "nat \<Rightarrow> bool"
  re_json_pretty :: "search_result list \<Rightarrow> (rstring, rstring) rres"
  re_rank_text :: "u32 \<Rightarrow> rstring"

section \<open>Starting the servers\<close>

record serve_all_config =
  sac_data_dir :: path
  sac_http_listen :: rstring
  sac_grpc_listen :: rstring
  sac_postgres_database_url :: "rstring option"

definition ServeAllConfig_new :: "path \<Rightarrow> rstring \<Rightarrow> rstring \<Rightarrow> serve_all_config" where
  "ServeAllConfig_new data_dir http_listen grpc_listen =
     \<lparr>sac_data_dir = data_dir, sac_http_listen = http_listen, sac_grpc_listen = grpc_listen,
      sac_postgres_database_url = None\<rparr>"

definition with_postgres_database_url :: "rstring option \<Rightarrow> serve_all_config \<Rightarrow> serve_all_config" where
  "with_postgres_database_url url config = config\<lparr>sac_postgres_database_url := url\<rparr>"

datatype runtime_error =
    BindHttp rstring rstring
  | BindGrpc rstring rstring
  | RuntimeOpenState control_api_error
  | HttpFailed rstring
  | GrpcFailed rstring
  | PostgresSetup rstring

fun runtime_error_to_string :: "runtime_error \<Rightarrow> rstring" where
  "runtime_error_to_string (BindHttp addr source) = str ''failed to bind HTTP listener at '' @ addr"
| "runtime_error_to_string (BindGrpc addr source) = str ''failed to bind gRPC listener at '' @ addr"
| "runtime_error_to_string (RuntimeOpenState error) = str ''failed to open shared durable broker state''"
| "runtime_error_to_string (HttpFailed source) = str ''HTTP server failed''"
| "runtime_error_to_string (GrpcFailed source) = str ''gRPC server failed''"
| "runtime_error_to_string (PostgresSetup reason) = str ''PostgreSQL setup failed: '' @ reason"

definition SEARCH_POOL_SIZE :: u32 where
  "SEARCH_POOL_SIZE = 4"

definition sanitize_pg_error :: "postgres_error \<Rightarrow> rstring" where
  "sanitize_pg_error error =
     (let message = postgres_error_to_string error in
      if message = [] then str ''search backend is unavailable'' else message)"

definition connect_with_pool_size :: "'s runtime_env \<Rightarrow> rstring \<Rightarrow> u32 \<Rightarrow> 's world \<Rightarrow> unit pg_result" where
  "connect_with_pool_size R url max_connections w =
     (case re_connect R url max_connections w of
        None \<Rightarrow> Ok ()
      | Some source \<Rightarrow> Err (ConnectionFailed source))"

definition connect :: "'s runtime_env \<Rightarrow> rstring \<Rightarrow> 's world \<Rightarrow> unit pg_result" where
  "connect R url w = connect_with_pool_size R url 1 w"

text \<open>Whether search is enabled; the backend is then the connected repository.\<close>

definition build_search :: "'s runtime_env \<Rightarrow> rstring option \<Rightarrow> 's world \<Rightarrow> (runtime_error, bool) rres \<times> 's world" where
  "build_search R url w =
     (case PostgresConfig_from_env_or_flag (re_parse_url R) (re_database_url_var R) url of
        Panicked \<Rightarrow> (Panicked, w)
      | Err error \<Rightarrow>
          (if error = MissingDatabaseUrl then (Ok False, w) else (Err (PostgresSetup (sanitize_pg_error error)), w))
      | Ok config \<Rightarrow>
          (case connect_with_pool_size R config SEARCH_POOL_SIZE w of
             Panicked \<Rightarrow> (Panicked, w)
           | Err error \<Rightarrow> (Err (PostgresSetup (sanitize_pg_error error)), w)
           | Ok u \<Rightarrow>
               (case run_migrations (re_run_script R) w of
                  (Panicked, w1) \<Rightarrow> (Panicked, w1)
                | (Err error, w1) \<Rightarrow> (Err (PostgresSetup (sanitize_pg_error error)), w1)
                | (Ok v, w1) \<Rightarrow> (Ok True, w1))))"

text \<open>Both servers work on the process that is opened, which is what \<^verbatim>\<open>serve\<close> takes.\<close>

definition serve_all_with_listeners ::
  "durable_env \<Rightarrow> 's runtime_env \<Rightarrow> path \<Rightarrow> rstring option \<Rightarrow> fs \<Rightarrow> 's world
     \<Rightarrow> (runtime_error, process \<times> bool) rres \<times> 's world" where
  "serve_all_with_listeners E R data_dir postgres_database_url fs w =
     (case build_search R postgres_database_url w of
        (Panicked, w1) \<Rightarrow> (Panicked, w1)
      | (Err error, w1) \<Rightarrow> (Err error, w1)
      | (Ok search, w1) \<Rightarrow>
          (map_ok (\<lambda>state. (state, search)) (map_err RuntimeOpenState (open_state E data_dir fs)), w1))"

definition serve_all ::
  "durable_env \<Rightarrow> 's runtime_env \<Rightarrow> serve_all_config \<Rightarrow> fs \<Rightarrow> 's world
     \<Rightarrow> (runtime_error, process \<times> bool) rres \<times> 's world" where
  "serve_all E R config fs w =
     (case re_bind R (sac_http_listen config) of
        Some source \<Rightarrow> (Err (BindHttp (sac_http_listen config) source), w)
      | None \<Rightarrow>
     (case re_bind R (sac_grpc_listen config) of
        Some source \<Rightarrow> (Err (BindGrpc (sac_grpc_listen config) source), w)
      | None \<Rightarrow> serve_all_with_listeners E R (sac_data_dir config) (sac_postgres_database_url config) fs w))"

section \<open>The commands on the projection\<close>

datatype postgres_subcommand =
    Migrate "rstring option"
  | Rebuild path "rstring option"
  | Search "rstring option" rstring "rstring option" u32 bool

text \<open>The lines that are printed.\<close>

definition print_row :: "'s runtime_env \<Rightarrow> nat \<Rightarrow> search_result \<Rightarrow> rstring list" where
  "print_row R index row =
     [[], dec (index + 1) @ str ''. topic='' @ sr_topic row,
      str ''   partition_id='' @ dec_int (sr_partition_id row),
      str ''   message_offset='' @ dec_int (sr_offset row),
      str ''   message_id='' @ sr_message_id row,
      str ''   event_type='' @ sr_event_type row,
      str ''   source='' @ sr_source row,
      (case sr_subject row of
         Some subject \<Rightarrow> str ''   subject='' @ subject
       | None \<Rightarrow> str ''   subject=<none>''),
      str ''   content_type='' @ sr_content_type row,
      str ''   time_unix_ms='' @ dec_int (sr_time_unix_ms row),
      str ''   payload_len='' @ dec_int (sr_payload_len row),
      str ''   payload_sha256='' @ sr_payload_sha256 row,
      str ''   rank='' @ re_rank_text R (sr_rank row)]"

definition print_search_results :: "'s runtime_env \<Rightarrow> search_result list \<Rightarrow> bool \<Rightarrow> rstring list pg_result" where
  "print_search_results R results json =
     (if json then map_ok (\<lambda>text. [text]) (serialize_search_results_json (re_json_pretty R) results)
      else if results = [] then Ok [str ''No results.'']
      else Ok ((str ''Found '' @ dec (length results) @ str '' result(s):'') #
        concat (map (\<lambda>(index, row). print_row R index row) (enumerate 0 results))))"

text \<open>The start that the three commands have in common.\<close>

definition migrated_database :: "'s runtime_env \<Rightarrow> rstring option \<Rightarrow> 's world \<Rightarrow> unit pg_result \<times> 's world" where
  "migrated_database R database_url w =
     (case rbind (PostgresConfig_from_env_or_flag (re_parse_url R) (re_database_url_var R) database_url)
             (\<lambda>config. connect R config w) of
        Panicked \<Rightarrow> (Panicked, w)
      | Err error \<Rightarrow> (Err error, w)
      | Ok u \<Rightarrow> run_migrations (re_run_script R) w)"

fun handle_postgres ::
  "durable_env \<Rightarrow> pg_env \<Rightarrow> 's world pg_store \<Rightarrow> 's runtime_env \<Rightarrow> topic_entry listing \<Rightarrow> postgres_subcommand
     \<Rightarrow> fs \<Rightarrow> 's world \<Rightarrow> rstring list pg_result \<times> fs \<times> 's world" where
  "handle_postgres E P S R messages_dir (Migrate database_url) fs w =
     (case migrated_database R database_url w of
        (res, w1) \<Rightarrow> (map_ok (\<lambda>u. [str ''PostgreSQL migrations complete'']) res, fs, w1))"
| "handle_postgres E P S R messages_dir (Rebuild data_dir database_url) fs w =
     (case migrated_database R database_url w of
        (Panicked, w1) \<Rightarrow> (Panicked, fs, w1)
      | (Err error, w1) \<Rightarrow> (Err error, fs, w1)
      | (Ok u, w1) \<Rightarrow>
          (case rebuild_projection E P S messages_dir data_dir fs w1 of
             (res, fs1, w2) \<Rightarrow>
               (map_ok (\<lambda>result. [str ''Projection rebuild complete: '' @ dec (prj_topics_count result) @
                  str '' topics, '' @ dec (prj_messages_count result) @ str '' messages'']) res, fs1, w2)))"
| "handle_postgres E P S R messages_dir (Search database_url query topic limit json) fs w =
     (case SearchQuery_new (re_alphanumeric R) query topic limit of
        Panicked \<Rightarrow> (Panicked, fs, w)
      | Err error \<Rightarrow> (Err error, fs, w)
      | Ok search_query \<Rightarrow>
          (case migrated_database R database_url w of
             (Panicked, w1) \<Rightarrow> (Panicked, fs, w1)
           | (Err error, w1) \<Rightarrow> (Err error, fs, w1)
           | (Ok u, w1) \<Rightarrow>
               (case search_messages S search_query w1 of
                  (res, w2) \<Rightarrow> (rbind res (\<lambda>results. print_search_results R results json), fs, w2))))"

section \<open>Lemmas\<close>

text \<open>A process that starts on a fresh directory is one of the runs of \<^verbatim>\<open>Servers\<close>.\<close>

definition control_config :: "path \<Rightarrow> durable_broker_config" where
  "control_config data_dir =
     \<lparr>dbc_root_dir = data_dir,
      dbc_broker_config = \<lparr>bc_retry_policy = \<lparr>rp_max_attempts = 3, rp_backoff_millis = Some 1000\<rparr>, bc_delivery_lease_millis = 30000\<rparr>,
      dbc_max_segment_bytes = control_max_segment_bytes\<rparr>"

lemma started_runs:
  assumes "fst (serve_all E R config fs w) = Ok (s, search)" "fresh_fs (control_config (sac_data_dir config)) fs"
  shows "server_run E S (control_config (sac_data_dir config)) s"
proof -
  from assms(1) have "open_state E (sac_data_dir config) fs = Ok s"
    by (cases "open_state E (sac_data_dir config) fs")
      (auto simp: serve_all_def serve_all_with_listeners_def split: option.splits prod.splits rres.splits)
  then have "fst (broker_open E (control_config (sac_data_dir config)) fs) = Ok s"
    by (cases "fst (broker_open E (control_config (sac_data_dir config)) fs)")
      (simp_all add: open_state_def BrokerConfig_default_Ok control_config_def)
  with assms(2) show ?thesis using server_steps.idle unfolding server_run_def by blast
qed

text \<open>Starting and the commands leave the migrations applied, or nothing of them.\<close>

lemma run_migrations_all_or_nothing:
  "run_migrations f w = (r, w') \<Longrightarrow> if r = Ok () then fst w' = migrated else w' = w"
proof -
  assume run: "run_migrations f w = (r, w')"
  then have "r \<noteq> Ok () \<Longrightarrow> w' = w" by (auto simp: run_migrations_def split: rres.splits)
  then show ?thesis using run run_migrations_rows[of f "fst w" "snd w" "fst w'" "snd w'"] by auto
qed

lemma build_search_migrates:
  assumes "build_search R url w = (r, w')"
  shows "if r = Ok True then fst w' = migrated else w' = w"
proof -
  obtain x v where m: "run_migrations (re_run_script R) w = (x, v)" by (metis surj_pair)
  show ?thesis using assms m run_migrations_all_or_nothing[OF m]
    by (auto simp: build_search_def split: rres.splits if_splits)
qed

end
