(* ===== verification/Server_Room.thy ===== *)
theory Server_Room
  imports Server_Messages
begin

text \<open>
  How full the partitions of a process can be: a request appends at most one message, so that a process
  from a fresh directory has room for as many requests as an offset can count.
\<close>

section \<open>Appending moves one offset by one\<close>

lemma create_segment_offset: "create_active_segment io l fs = (r, l', fs') \<Longrightarrow> sl_next_offset l' = sl_next_offset l"
  by (auto simp: create_active_segment_def Let_def split: if_splits)

lemma roll_offset: "roll_if_needed io n l fs = (r, l', fs') \<Longrightarrow> sl_next_offset l' = sl_next_offset l"
  by (auto simp: roll_if_needed_def Let_def dest: create_segment_offset split: if_splits)

lemma ensure_offset: "ensure_active_segment io l fs = (r, l', fs') \<Longrightarrow> sl_next_offset l' = sl_next_offset l"
  by (auto simp: ensure_active_segment_def dest: create_segment_offset split: if_splits prod.splits rres.splits)

abbreviation log_end :: "storage_log \<Rightarrow> nat" where
  "log_end l \<equiv> unat (offset_value (sl_next_offset l))"

lemma increment_offset_unat: "increment_offset off d = Ok off' \<Longrightarrow> unat (offset_value off') = unat (offset_value off) + 1"
  by (auto simp: increment_offset_def dest: checked_add_Some_unat split: option.splits)

lemma append_log_end: "StorageLog_append c io e l fs = (r, l', fs') \<Longrightarrow> log_end l' \<le> log_end l + 1"
  by (auto simp: StorageLog_append_def Let_def dest!: roll_offset ensure_offset increment_offset_unat
      split: rres.splits option.splits prod.splits if_splits)

section \<open>The messages of a topic\<close>

definition topic_appends :: "durable_topic \<Rightarrow> nat" where
  "topic_appends dt = sum_list (map (\<lambda>(p, l). log_end l) (dt_partitions dt))"

definition within :: "nat \<Rightarrow> process \<Rightarrow> bool" where
  "within n s \<longleftrightarrow> (\<forall>(t, dt)\<in>set (db_topics (proc_broker s)). topic_appends dt \<le> n)"

lemma within_room: "within n s \<Longrightarrow> n + 1 < 2 ^ 64 \<Longrightarrow> proc_room s"
  by (fastforce simp: within_def proc_room_def db_has_room_def topic_appends_def list_all_iff)

lemma within_same: "db_topics (proc_broker s') = db_topics (proc_broker s) \<Longrightarrow> within n s' = within n s"
  by (simp add: within_def)

lemma within_mono: "within n s \<Longrightarrow> n \<le> m \<Longrightarrow> within m s"
  by (auto simp: within_def intro: order_trans)

lemma set_bt_insert_subset: "set (bt_insert k v m) \<subseteq> insert (k, v) (set m)"
  by (induction k v m rule: bt_insert.induct) auto

lemma within_insert:
  assumes "within n s" "topic_appends d \<le> n" "db_topics (proc_broker s') = bt_insert t d (db_topics (proc_broker s))"
  shows "within n s'"
  using assms set_bt_insert_subset[of t d "db_topics (proc_broker s)"] by (force simp: within_def)

lemma sum_bt_insert:
  "bt_sorted m \<Longrightarrow> bt_get m k = Some v0 \<Longrightarrow>
   sum_list (map (\<lambda>(k, v). f v) (bt_insert k v m)) + f v0 = sum_list (map (\<lambda>(k, v). f v) m) + (f v :: nat)"
  by (induction k v m rule: bt_insert.induct) (auto simp: bt_get_def bt_sorted_def, fastforce dest: map_of_SomeD less_asym)

lemma fresh_topic_appends:
  "topic_appends \<lparr>dt_topic = topic, dt_partitions = fold (\<lambda>p. bt_insert p (fresh_log config t p)) ps [],
     dt_next_round_robin_partition = i\<rparr> = 0"
proof -
  have "\<forall>(p, l)\<in>set (fold (\<lambda>p. bt_insert p (fresh_log config t p)) ps m). log_end l = 0"
    if "\<forall>(p, l)\<in>set m. log_end l = 0" for m
    using that
  proof (induction ps arbitrary: m)
    case (Cons p ps)
    have "\<forall>(p, l)\<in>set (bt_insert p (fresh_log config t p) m). log_end l = 0"
      using Cons.prems set_bt_insert_subset[of p "fresh_log config t p" m] by (fastforce simp: fresh_log_def)
    with Cons.IH show ?case by simp
  qed simp
  from this[of "[]"] show ?thesis by (fastforce simp: topic_appends_def)
qed

lemma append_appends:
  assumes "db_append_to_topic E io t e b fs = (r, b', fs')" "\<forall>dt. bt_get (db_topics b) t = Some dt \<longrightarrow> bt_sorted (dt_partitions dt)"
  shows "db_topics b' = db_topics b \<or>
    (\<exists>dt d. bt_get (db_topics b) t = Some dt \<and> db_topics b' = bt_insert t d (db_topics b) \<and> topic_appends d \<le> topic_appends dt + 1)"
proof (cases "bt_get (db_topics b) t")
  case (Some dt)
  show ?thesis
  proof (cases "dt_partition_log dt (select_durable_partition dt e)")
    case log: (Some l)
    obtain r1 l1 fs1 where ap: "StorageLog_append (env_records E) io e l fs = (r1, l1, fs1)" by (metis surj_pair)
    let ?d = "dt\<lparr>dt_partitions := bt_insert (select_durable_partition dt e) l1 (dt_partitions dt)\<rparr>"
    have "topic_appends ?d \<le> topic_appends dt + 1"
      using sum_bt_insert[of "dt_partitions dt" "select_durable_partition dt e" l log_end l1] append_log_end[OF ap] assms(2)
        Some log by (simp add: topic_appends_def dt_partition_log_def)
    moreover have "topic_appends (dt_advance_round_robin_partition ?d) = topic_appends ?d"
      by (simp add: topic_appends_def dt_advance_round_robin_partition_def)
    ultimately show ?thesis
      using assms(1) Some log ap by (auto simp: db_append_to_topic_def Let_def split: rres.splits if_splits)
  qed (use assms(1) Some in \<open>simp add: db_append_to_topic_def Let_def\<close>)
qed (use assms(1) in \<open>simp add: db_append_to_topic_def\<close>)

lemma publish_appends:
  assumes "db_publish E io c b fs = (r, b', fs')"
    and "\<forall>t dt. bt_get (db_topics b) t = Some dt \<longrightarrow> bt_sorted (dt_partitions dt)"
  shows "db_topics b' = db_topics b \<or>
    (\<exists>t dt d. bt_get (db_topics b) t = Some dt \<and> db_topics b' = bt_insert t d (db_topics b) \<and> topic_appends d \<le> topic_appends dt + 1)"
proof -
  obtain ra ba fsa where ap: "db_append_to_topic E io (pc_topic c) (pc_envelope c) b fs = (ra, ba, fsa)" by (metis surj_pair)
  have "db_topics b' = db_topics b \<or> db_topics b' = db_topics ba"
    using assms(1) ap by (auto simp: db_publish_def Let_def split: if_splits rres.splits idempotency_check.splits)
  with append_appends[OF ap] assms(2) show ?thesis by metis
qed


section \<open>What a request adds\<close>

text \<open>From processes in \<^verbatim>\<open>G\<close> and within \<^verbatim>\<open>n\<close> the action leads to processes within \<^verbatim>\<open>k\<close>.\<close>

definition moves :: "(process \<Rightarrow> bool) \<Rightarrow> nat \<Rightarrow> nat \<Rightarrow> ('e, 'a) action \<Rightarrow> bool" where
  "moves G n k m \<longleftrightarrow> (\<forall>s r s'. G s \<longrightarrow> within n s \<longrightarrow> m s = (r, s') \<longrightarrow> within k s')"

lemma within_metrics [simp]: "within n (s\<lparr>proc_metrics := r\<rparr>) = within n s" "within n (s\<lparr>proc_poisoned := b\<rparr>) = within n s"
  by (simp_all add: within_def)

lemma moves_still: "n \<le> k \<Longrightarrow> moves G n k (\<lambda>s. (f s, s))" "n \<le> k \<Longrightarrow> moves G n k (pure_action g)"
  by (auto simp: moves_def pure_action_def intro: within_mono)

lemma moves_recorded: "n \<le> k \<Longrightarrow> moves G n k (\<lambda>s. (f s, s\<lparr>proc_metrics := g s\<rparr>))"
  by (auto simp: moves_def intro: within_mono)

lemma moves_mono: "moves G n j m \<Longrightarrow> j \<le> k \<Longrightarrow> moves G n k m"
  unfolding moves_def using within_mono by blast

lemma moves_locked: "moves G n k m \<Longrightarrow> n \<le> k \<Longrightarrow> moves G n k (locked e m)"
  by (fastforce simp: moves_def locked_def split: if_splits prod.splits rres.splits intro: within_mono)

lemma moves_map: "moves G n k m \<Longrightarrow> moves G n k (map_action f m)"
  by (auto simp: moves_def map_action_def split: prod.splits)

lemma moves_observed: "moves G n k m \<Longrightarrow> moves G n k (observed f m)"
  by (auto simp: moves_def observed_def split: prod.splits)

lemma moves_checked: "(\<And>a. moves G n k (f a)) \<Longrightarrow> n \<le> k \<Longrightarrow> moves G n k (checked r f)"
  by (cases r) (auto simp: checked_def moves_still)

lemma moves_and_then: "moves G n j m \<Longrightarrow> (\<And>a. moves (\<lambda>_. True) j k (f a)) \<Longrightarrow> j \<le> k \<Longrightarrow> moves G n k (and_then m f)"
  unfolding moves_def and_then_def by (fastforce split: prod.splits rres.splits intro: within_mono)

lemma moves_counted:
  assumes "\<And>b fs. db_topics (fst (snd (operation b fs))) = db_topics b" "n \<le> k"
  shows "moves G n k (counted f operation)"
  unfolding moves_def
proof (intro allI impI)
  fix s r s' assume "within n s" and run: "counted f operation s = (r, s')"
  moreover have "db_topics (proc_broker s') = db_topics (proc_broker s)"
    using run assms(1)[of "proc_broker s" "proc_fs s"] by (auto simp: counted_def split: prod.splits)
  ultimately show "within k s'" using within_same[of s' s n] within_mono[OF _ assms(2)] by blast
qed

lemma steady_operations:
  assumes "n \<le> k"
  shows "moves G n k (broker_consume E sio c1)" "moves G n k (broker_ack E sio c2)" "moves G n k (broker_nack E sio c3)"
    "moves G n k (broker_retry_ready E sio now)"
proof -
  have nack: "moves G n k (counted f (db_nack E sio c3))" for f
    by (rule moves_counted[OF _ assms]) (simp add: nack_topics)
  show "moves G n k (broker_nack E sio c3)" using nack by (fastforce simp: moves_def broker_nack_def)
qed (use assms in \<open>auto simp: broker_consume_def broker_ack_def broker_retry_ready_def consume_topics ack_topics
    retry_ready_topics intro!: moves_counted\<close>)

lemma good_topics_sorted:
  assumes "proc_good E config any_step s" "env_ok E config"
  shows "\<forall>t dt. bt_get (db_topics (proc_broker s)) t = Some dt \<longrightarrow> bt_sorted (dt_partitions dt)"
proof -
  obtain M where M: "implements E config (proc_state s) M" using good_implements[OF assms] .
  show ?thesis using db_mem_sorted(1)[of M "proc_broker s"] implements_inv[OF M] by auto
qed

lemma broker_publish_moves:
  assumes env: "env_ok E config"
  shows "moves (proc_good E config any_step) n (n + 1) (broker_publish E io c)"
  unfolding moves_def
proof (intro allI impI)
  fix s r s' assume g: "proc_good E config any_step s" and n: "within n s" and run: "broker_publish E io c s = (r, s')"
  obtain b' fs' where p: "db_publish E io c (proc_broker s) (proc_fs s) = (r, b', fs')" "proc_broker s' = b'"
    using run by (auto simp: broker_publish_def counted_def split: prod.splits)
  from publish_appends[OF p(1) good_topics_sorted[OF g env]] show "within (n + 1) s'"
  proof (elim disjE exE conjE)
    assume "db_topics b' = db_topics (proc_broker s)"
    then show ?thesis using n p(2) within_same[of s' s n] within_mono[of n s' "n + 1"] by simp
  next
    fix t dt d assume dt: "bt_get (db_topics (proc_broker s)) t = Some dt"
      and b': "db_topics b' = bt_insert t d (db_topics (proc_broker s))" and le: "topic_appends d \<le> topic_appends dt + 1"
    have "topic_appends dt \<le> n" using n bt_get_in_set[OF dt] by (auto simp: within_def)
    with le b' p(2) show ?thesis by (intro within_insert[OF within_mono[OF n], of "n + 1" d s' t]) simp_all
  qed
qed

lemma broker_create_topic_moves:
  assumes env: "env_ok E config"
  shows "moves (proc_good E config any_step) n n (broker_create_topic E sio c)"
  unfolding moves_def
proof (intro allI impI)
  fix s r s' assume g: "proc_good E config any_step s" and n: "within n s" and run: "broker_create_topic E sio c s = (r, s')"
  obtain b' fs' where p: "db_create_topic E sio c (proc_broker s) (proc_fs s) = (r, b', fs')" "proc_broker s' = b'"
    using run by (auto simp: broker_create_topic_def counted_def split: prod.splits)
  obtain M where M: "implements E config (proc_state s) M" using good_implements[OF g env] .
  then have wf: "db_wf E (proc_broker s) (proc_fs s) M" by (simp add: implements_def)
  note c = db_create_topic_cases[OF wf p(1)]
  show "within n s'"
  proof (cases r)
    case (Ok topic)
    let ?d = "\<lparr>dt_topic = topic, dt_partitions = fold (\<lambda>p. bt_insert p (fresh_log (db_config (proc_broker s)) (topic_name topic) p))
        (topic_partition_ids topic) [], dt_next_round_robin_partition = 0\<rparr>"
    from c Ok have "db_topics b' = bt_insert (topic_name topic) ?d (db_topics (proc_broker s))" by auto
    with p(2) show ?thesis by (intro within_insert[OF n, of ?d s' "topic_name topic"]) (simp_all add: fresh_topic_appends)
  next
    case (Err e)
    with c n p(2) within_same[of s' s n] show ?thesis by simp
  qed (use c in simp)
qed

lemmas moves_intros = moves_locked moves_map moves_observed moves_checked moves_still moves_and_then steady_operations

lemma rpc_serve_moves:
  assumes env: "env_ok E config"
  shows "moves (proc_good E config any_step) n (n + 1) (rpc_serve E q)"
proof (cases q)
  case (RpcPublish io request)
  then show ?thesis
    by (auto simp: rpc_publish_def publish_inner_def rpc_with_broker_def
        intro!: moves_intros(1-5) moves_and_then[where j = "n + 1"] broker_publish_moves[OF env])
next
  case (RpcConsume sio_retry sio_consume request)
  have "moves (proc_good E config any_step) n n (rpc_consume E sio_retry sio_consume request)"
    unfolding rpc_consume_def consume_inner_def rpc_with_broker_def Let_def
    by (intro moves_intros moves_and_then[where j = n]; simp)
  then show ?thesis using RpcConsume by (auto intro!: moves_map intro: moves_mono)
next
  case (RpcAck sio clock request)
  then show ?thesis by (auto simp: rpc_ack_def ack_inner_def rpc_with_broker_def intro!: moves_intros)
next
  case (RpcNack sio clock request)
  then show ?thesis by (auto simp: rpc_nack_def nack_inner_def rpc_with_broker_def Let_def intro!: moves_intros)
qed

lemma http_handler_moves:
  assumes env: "env_ok E config"
  shows "moves (proc_good E config any_step) n n (http_handler E S sio q)"
proof (cases q)
  case (PostTopics request)
  then show ?thesis
    by (cases request)
      (auto simp: http_create_topic_def create_topic_inner_def http_with_broker_def
        intro!: moves_intros(1-5) broker_create_topic_moves[OF env])
qed (auto simp: http_health_def[abs_def] http_metrics_def[abs_def] http_ready_def http_status_def http_list_topics_def
    http_get_topic_def get_topic_inner_def http_list_dlq_def list_dlq_inner_def http_search_messages_def
    http_not_found_def[abs_def] http_method_not_allowed_def[abs_def] http_with_broker_def Let_def
    split: option.split intro!: moves_intros(1-6) moves_recorded)

lemma serve_within:
  assumes "env_ok E config" "proc_good E config any_step s" "within n s" "serve E S q s = (a, s')"
  shows "within (n + 1) s'"
proof (cases q)
  case (Rpc x)
  with assms show ?thesis using rpc_serve_moves[OF assms(1), of n x] by (auto simp: moves_def split: prod.splits)
next
  case (Http sio x)
  obtain r s1 where h: "http_handler E S sio x s = (r, s1)" by (metis surj_pair)
  then have "within n s1" using http_handler_moves[OF assms(1), of n S sio x] assms(2,3) by (auto simp: moves_def)
  moreover have "s' = s1" using assms(4) Http h by (cases r) (auto simp: http_serve_def)
  ultimately show ?thesis by (auto intro: within_mono)
qed

lemma started_within:
  assumes "fresh_fs config fs" "env_ok E config" "fst (broker_open E config fs) = Ok s"
  shows "within 0 s"
proof -
  have "DurableBroker_open E config fs = (Ok (DurableBroker_new config (state_path config)), bt_insert (state_path config) [] fs)"
    using open_fresh(1)[OF assms(1)] assms(2) by (simp add: env_ok_def)
  with assms(3) show ?thesis by (auto simp: broker_open_def Let_def within_def DurableBroker_new_def)
qed

end
