(* ===== verification/Daemon.thy ===== *)
theory Daemon
  imports Runtime Server_Room
begin

text \<open>
  \<^verbatim>\<open>brokerd\<close> from its command line to its exit: the start of the logs (\<^verbatim>\<open>init_tracing_from_env\<close> of
  \<^verbatim>\<open>msg-observability\<close>), the servers with the requests they get, the shutdown signal of \<^verbatim>\<open>msg-runtime\<close>,
  and the dispatch of \<^verbatim>\<open>main\<close>. The parsed command is the input.

  The sockets are outside the repository. What they do in one run is the record \<^verbatim>\<open>serving\<close>: the requests
  that arrive, in the order in which they are served, and the error each server ends with, if any; a
  server that is cancelled because the other one failed has none.
\<close>

section \<open>Starting the logs\<close>

datatype env_var = EnvUnset | EnvNotUnicode | EnvValue rstring

datatype log_format = Compact | Json

datatype tracing_error = InvalidLogFormat rstring | LogFormatNotUnicode | SubscriberNotSet rstring

definition init_tracing_from_env :: "env_var \<Rightarrow> (log_format \<Rightarrow> rstring option) \<Rightarrow> (tracing_error, unit) rres" where
  "init_tracing_from_env log_format_var try_init =
     (let init = (\<lambda>format. case try_init format of None \<Rightarrow> Ok () | Some source \<Rightarrow> Err (SubscriberNotSet source)) in
      case log_format_var of
        EnvValue v \<Rightarrow>
          (if v = str ''compact'' then init Compact
           else if v = str ''json'' then init Json
           else Err (InvalidLogFormat v))
      | EnvUnset \<Rightarrow> init Compact
      | EnvNotUnicode \<Rightarrow> Err LogFormatNotUnicode)"

section \<open>Requests one after the other\<close>

fun serve_requests ::
  "durable_env \<Rightarrow> search_env \<Rightarrow> server_request list \<Rightarrow> process \<Rightarrow> server_answer list \<times> process" where
  "serve_requests E S [] s = ([], s)"
| "serve_requests E S (q # qs) s =
     (let (a, s1) = serve E S q s; (answers, s2) = serve_requests E S qs s1 in (a # answers, s2))"

fun is_http :: "server_request \<Rightarrow> bool" where
  "is_http (Http sio request) \<longleftrightarrow> True"
| "is_http (Rpc request) \<longleftrightarrow> False"

record serving =
  sv_requests :: "server_request list"
  sv_http_end :: "rstring option"
  sv_grpc_end :: "rstring option"
  sv_http_first :: bool

definition end_of :: "(rstring \<Rightarrow> 'e) \<Rightarrow> rstring option \<Rightarrow> ('e, unit) rres" where
  "end_of f error = (case error of None \<Rightarrow> Ok () | Some source \<Rightarrow> Err (f source))"

section \<open>The shutdown signal\<close>

text \<open>
  What a receiver of the watch channel finds when it waits: a value that was sent, or that the sender is
  gone. \<^verbatim>\<open>None\<close> is a wait that has not ended.
\<close>

datatype watch_event = Sent bool | SenderDropped

fun wait_for_shutdown :: "bool \<Rightarrow> watch_event list \<Rightarrow> unit option" where
  "wait_for_shutdown True events = Some ()"
| "wait_for_shutdown False [] = None"
| "wait_for_shutdown False (Sent v # events) = wait_for_shutdown v events"
| "wait_for_shutdown False (SenderDropped # events) = Some ()"

text \<open>The task that sends: its future completes, is still pending, or the task is aborted.\<close>

datatype shutdown_future = Completed | StillPending | TaskAborted

fun spawn_shutdown_signal :: "shutdown_future \<Rightarrow> watch_event list" where
  "spawn_shutdown_signal Completed = [Sent True, SenderDropped]"
| "spawn_shutdown_signal StillPending = []"
| "spawn_shutdown_signal TaskAborted = [SenderDropped]"

text \<open>Both servers wait on the same channel; \<^verbatim>\<open>serve_all\<close> passes a future that never completes.\<close>

lemma shutdown_iff: "wait_for_shutdown False (spawn_shutdown_signal f) = Some () \<longleftrightarrow> f \<noteq> StillPending"
  by (cases f) simp_all

lemma wait_for_shutdown_iff:
  "wait_for_shutdown v events = Some () \<longleftrightarrow> v \<or> Sent True \<in> set events \<or> SenderDropped \<in> set events"
proof (induction v events rule: wait_for_shutdown.induct)
  case (3 v events)
  then show ?case by (cases v) auto
qed simp_all

section \<open>Both servers\<close>

text \<open>\<^verbatim>\<open>try_join!\<close>: the first error, and success when both servers end well.\<close>

definition join_servers :: "serving \<Rightarrow> (runtime_error, unit) rres" where
  "join_servers v =
     (let http = end_of HttpFailed (sv_http_end v); grpc = end_of GrpcFailed (sv_grpc_end v) in
      if is_ok http then grpc
      else if is_ok grpc then http
      else if sv_http_first v then http else grpc)"

record 's daemon_env =
  de_runtime :: "'s runtime_env"
  de_log_format_var :: env_var
  de_try_init :: "log_format \<Rightarrow> rstring option"
  de_search_backend :: "search_query \<Rightarrow> rstring + search_result list"

definition search_of :: "'s daemon_env \<Rightarrow> bool \<Rightarrow> search_env" where
  "search_of D search =
     \<lparr>se_alphanumeric = re_alphanumeric (de_runtime D), se_backend = (if search then Some (de_search_backend D) else None)\<rparr>"

section \<open>The process from its start to its exit\<close>

datatype main_error =
    MainTracing tracing_error
  | MainOpenState control_api_error
  | MainOpenService data_plane_error
  | MainIo rstring
  | MainTransport rstring
  | MainRuntime runtime_error
  | MainOther rstring

text \<open>\<^verbatim>\<open>oc_process\<close> is the process at the end of its requests, when there was one.\<close>

record 's outcome =
  oc_exit :: "(main_error, unit) rres"
  oc_process :: "process option"
  oc_answers :: "server_answer list"
  oc_printed :: "rstring list"
  oc_files :: fs
  oc_database :: "'s world"

definition ended :: "(main_error, unit) rres \<Rightarrow> rstring list \<Rightarrow> fs \<Rightarrow> 's world \<Rightarrow> 's outcome" where
  "ended result lines fs w =
     \<lparr>oc_exit = result, oc_process = None, oc_answers = [], oc_printed = lines, oc_files = fs, oc_database = w\<rparr>"

definition served :: "(main_error, unit) rres \<Rightarrow> server_answer list \<times> process \<Rightarrow> 's world \<Rightarrow> 's outcome" where
  "served result run w =
     (case run of (answers, s) \<Rightarrow>
        \<lparr>oc_exit = result, oc_process = Some s, oc_answers = answers, oc_printed = [], oc_files = proc_fs s,
         oc_database = w\<rparr>)"

text \<open>What an attempt to open the directory leaves of its files: recovery repairs before it can fail.\<close>

definition files_after_open :: "durable_env \<Rightarrow> path \<Rightarrow> fs \<Rightarrow> fs" where
  "files_after_open E data_dir fs = snd (DurableBroker_open E (control_config data_dir) fs)"

datatype brokerd_command =
    Serve path rstring
  | ServeGrpc path rstring
  | ServeAll path rstring rstring "rstring option"
  | Postgres postgres_subcommand

definition run_serve ::
  "durable_env \<Rightarrow> 's daemon_env \<Rightarrow> path \<Rightarrow> rstring \<Rightarrow> serving \<Rightarrow> fs \<Rightarrow> 's world \<Rightarrow> 's outcome" where
  "run_serve E D data_dir listen v fs w =
     (case open_state E data_dir fs of
        Err e \<Rightarrow> ended (Err (MainOpenState e)) [] (files_after_open E data_dir fs) w
      | Panicked \<Rightarrow> ended Panicked [] (files_after_open E data_dir fs) w
      | Ok s \<Rightarrow>
          (case re_bind (de_runtime D) listen of
             Some source \<Rightarrow> ended (Err (MainIo source)) [] (proc_fs s) w
           | None \<Rightarrow>
               served (end_of MainIo (sv_http_end v))
                 (serve_requests E (search_of D False) (filter is_http (sv_requests v)) s) w))"

definition run_serve_grpc ::
  "durable_env \<Rightarrow> 's daemon_env \<Rightarrow> path \<Rightarrow> rstring \<Rightarrow> serving \<Rightarrow> fs \<Rightarrow> 's world \<Rightarrow> 's outcome" where
  "run_serve_grpc E D data_dir listen v fs w =
     (case open_service E data_dir fs of
        Err e \<Rightarrow> ended (Err (MainOpenService e)) [] (files_after_open E data_dir fs) w
      | Panicked \<Rightarrow> ended Panicked [] (files_after_open E data_dir fs) w
      | Ok s \<Rightarrow>
          (case re_bind (de_runtime D) listen of
             Some source \<Rightarrow> ended (Err (MainTransport source)) [] (proc_fs s) w
           | None \<Rightarrow>
               served (end_of MainTransport (sv_grpc_end v))
                 (serve_requests E (search_of D False) (filter (Not \<circ> is_http) (sv_requests v)) s) w))"

text \<open>An error before the directory is opened leaves the files alone.\<close>

definition run_serve_all ::
  "durable_env \<Rightarrow> 's daemon_env \<Rightarrow> serve_all_config \<Rightarrow> serving \<Rightarrow> fs \<Rightarrow> 's world \<Rightarrow> 's outcome" where
  "run_serve_all E D config v fs w =
     (case serve_all E (de_runtime D) config fs w of
        (Err (RuntimeOpenState e), w1) \<Rightarrow>
          ended (Err (MainRuntime (RuntimeOpenState e))) [] (files_after_open E (sac_data_dir config) fs) w1
      | (Err e, w1) \<Rightarrow> ended (Err (MainRuntime e)) [] fs w1
      | (Panicked, w1) \<Rightarrow>
          ended Panicked []
            (if is_ok (fst (build_search (de_runtime D) (sac_postgres_database_url config) w))
             then files_after_open E (sac_data_dir config) fs else fs) w1
      | (Ok (s, search), w1) \<Rightarrow>
          served (map_err MainRuntime (join_servers v)) (serve_requests E (search_of D search) (sv_requests v) s) w1)"

definition brokerd_main ::
  "durable_env \<Rightarrow> pg_env \<Rightarrow> 's world pg_store \<Rightarrow> 's daemon_env \<Rightarrow> topic_entry listing \<Rightarrow> brokerd_command option
     \<Rightarrow> serving \<Rightarrow> fs \<Rightarrow> 's world \<Rightarrow> 's outcome" where
  "brokerd_main E P ST D messages_dir command v fs w =
     (case command of
        None \<Rightarrow> ended (Ok ()) [] fs w
      | Some command \<Rightarrow>
          (case init_tracing_from_env (de_log_format_var D) (de_try_init D) of
             Err e \<Rightarrow> ended (Err (MainTracing e)) [] fs w
           | Panicked \<Rightarrow> ended Panicked [] fs w
           | Ok u \<Rightarrow>
               (case command of
                  Serve data_dir listen \<Rightarrow> run_serve E D data_dir listen v fs w
                | ServeGrpc data_dir listen \<Rightarrow> run_serve_grpc E D data_dir listen v fs w
                | ServeAll data_dir http_listen grpc_listen url \<Rightarrow>
                    run_serve_all E D
                      (with_postgres_database_url url (ServeAllConfig_new data_dir http_listen grpc_listen)) v fs w
                | Postgres sub \<Rightarrow>
                    (case handle_postgres E P ST (de_runtime D) messages_dir sub fs w of
                       (Ok lines, fs1, w1) \<Rightarrow> ended (Ok ()) lines fs1 w1
                     | (Err error, fs1, w1) \<Rightarrow> ended (Err (MainOther (postgres_error_to_string error))) [] fs1 w1
                     | (Panicked, fs1, w1) \<Rightarrow> ended Panicked [] fs1 w1))))"

section \<open>Every request is answered\<close>

text \<open>Which commands serve, on which directory, and which requests reach them.\<close>

fun serves_from :: "brokerd_command \<Rightarrow> path option" where
  "serves_from (Serve data_dir listen) = Some data_dir"
| "serves_from (ServeGrpc data_dir listen) = Some data_dir"
| "serves_from (ServeAll data_dir http_listen grpc_listen url) = Some data_dir"
| "serves_from (Postgres sub) = None"

fun accepted :: "brokerd_command \<Rightarrow> server_request list \<Rightarrow> server_request list" where
  "accepted (Serve data_dir listen) qs = filter is_http qs"
| "accepted (ServeGrpc data_dir listen) qs = filter (Not \<circ> is_http) qs"
| "accepted (ServeAll data_dir http_listen grpc_listen url) qs = qs"
| "accepted (Postgres sub) qs = []"

text \<open>What has to succeed outside the broker before the servers run.\<close>

definition can_start :: "'s daemon_env \<Rightarrow> brokerd_command \<Rightarrow> 's world \<Rightarrow> bool" where
  "can_start D command w \<longleftrightarrow>
     is_ok (init_tracing_from_env (de_log_format_var D) (de_try_init D)) \<and>
     (case command of
        Serve data_dir listen \<Rightarrow> re_bind (de_runtime D) listen = None
      | ServeGrpc data_dir listen \<Rightarrow> re_bind (de_runtime D) listen = None
      | ServeAll data_dir http_listen grpc_listen url \<Rightarrow>
          re_bind (de_runtime D) http_listen = None \<and> re_bind (de_runtime D) grpc_listen = None \<and>
          is_ok (fst (build_search (de_runtime D) url w))
      | Postgres sub \<Rightarrow> False)"

lemma serve_requests_good:
  assumes "env_ok E config" "proc_good E config any_step s" "within n s" "n + length qs < 2 ^ 64"
    and "list_all request_ok qs" "server_steps E S s0 s" "serve_requests E S qs s = (answers, s')"
  shows "list_all answered answers \<and> length answers = length qs \<and> server_steps E S s0 s'"
  using assms(2-7)
proof (induction qs arbitrary: n s answers)
  case Nil
  then show ?case by simp
next
  case (Cons q qs)
  obtain a s1 where q: "serve E S q s = (a, s1)" by (metis surj_pair)
  obtain as where qs: "serve_requests E S qs s1 = (as, s')" and answers: "answers = a # as"
    using Cons.prems(6) q by (auto simp: Let_def split: prod.splits)
  have room: "proc_room s" using within_room[OF Cons.prems(2)] Cons.prems(3) by simp
  have ok: "request_ok q" "list_all request_ok qs" using Cons.prems(4) by simp_all
  note g = serve_good[OF assms(1) ok(1) Cons.prems(1) room q permits_any]
  have w: "within (n + 1) s1" by (rule serve_within[OF assms(1) Cons.prems(1,2) q])
  have st: "server_steps E S s0 s1" using server_steps.served[OF Cons.prems(5) ok(1) room] q by simp
  have len: "n + 1 + length qs < 2 ^ 64" using Cons.prems(3) by simp
  have good: "proc_good E config any_step s1" using g by simp
  from Cons.IH[OF good w len ok(2) st qs] g answers show ?case by auto
qed

lemma open_state_fresh:
  assumes "fresh_fs (control_config data_dir) fs" "env_ok E (control_config data_dir)"
  obtains s where "open_state E data_dir fs = Ok s" "open_service E data_dir fs = Ok s"
    "fst (broker_open E (control_config data_dir) fs) = Ok s"
proof -
  have "DurableBroker_open E (control_config data_dir) fs =
      (Ok (DurableBroker_new (control_config data_dir) (state_path (control_config data_dir))),
       bt_insert (state_path (control_config data_dir)) [] fs)"
    using open_fresh(1)[OF assms(1)] assms(2) by (simp add: env_ok_def)
  then obtain s where s: "fst (broker_open E (control_config data_dir) fs) = Ok s"
    by (simp add: broker_open_def Let_def)
  moreover have "control_max_segment_bytes = DEFAULT_MAX_SEGMENT_BYTES"
    by (simp add: control_max_segment_bytes_def DEFAULT_MAX_SEGMENT_BYTES_def)
  ultimately have "open_state E data_dir fs = Ok s" "open_service E data_dir fs = Ok s"
    by (simp_all add: open_state_def open_service_def BrokerConfig_default_Ok control_config_def)
  with s that show ?thesis by blast
qed

lemma served_fields:
  "oc_process (served result run w) = Some (snd run)" "oc_answers (served result run w) = fst run"
  "oc_files (served result run w) = proc_fs (snd run)" "oc_exit (served result run w) = result"
  "oc_database (served result run w) = w"
  by (simp_all add: served_def split: prod.split)

lemma ended_fields:
  "oc_process (ended result lines fs w) = None" "oc_answers (ended result lines fs w) = []"
  "oc_files (ended result lines fs w) = fs" "oc_exit (ended result lines fs w) = result"
  "oc_database (ended result lines fs w) = w"
  by (simp_all add: ended_def)

lemma validate_rows_no_panic: "validate_rows_from i rows \<noteq> Panicked"
  by (induction i rows rule: validate_rows_from.induct) (auto split: option.split)

lemma apply_migrations_no_panic: "apply_migrations f i names db \<noteq> Panicked"
  by (induction f i names db rule: apply_migrations.induct) (auto split: option.split sum.split)

lemma run_migrations_no_panic: "fst (run_migrations f db) \<noteq> Panicked"
  using validate_rows_no_panic[of 0 "fst db"] apply_migrations_no_panic[of f "length (fst db)" _ db]
  by (simp add: run_migrations_def rbind_eq_Panicked validate_applied_migrations_def split: rres.split)

lemma build_search_no_panic: "fst (build_search R url w) \<noteq> Panicked"
proof -
  have "PostgresConfig_from_env_or_flag parse var url \<noteq> Panicked" for parse var
    by (auto simp: PostgresConfig_from_env_or_flag_def PostgresConfig_from_url_def split: option.split)
  moreover have "connect_with_pool_size R config k w \<noteq> Panicked" for config k
    by (simp add: connect_with_pool_size_def split: option.split)
  moreover obtain r w' where m: "run_migrations (re_run_script R) w = (r, w')" by (metis surj_pair)
  then have "r \<noteq> Panicked" using run_migrations_no_panic[of "re_run_script R" w] by simp
  ultimately show ?thesis by (simp add: build_search_def m split: rres.split)
qed

text \<open>What the servers do with their requests, from a fresh directory.\<close>

definition served_well ::
  "durable_env \<Rightarrow> durable_broker_config \<Rightarrow> nat \<Rightarrow> 's outcome \<Rightarrow> bool" where
  "served_well E config n out \<longleftrightarrow>
     (\<exists>S s. oc_process out = Some s \<and> server_run E S config s \<and> oc_files out = proc_fs s) \<and>
     list_all answered (oc_answers out) \<and> length (oc_answers out) = n \<and> oc_exit out \<noteq> Panicked"

lemma served_served_well:
  assumes fresh: "fresh_fs config fs" and env: "env_ok E config" and s: "fst (broker_open E config fs) = Ok s"
    and qs: "list_all request_ok qs" "length qs < 2 ^ 64" and r: "result \<noteq> Panicked"
  shows "served_well E config (length qs) (served result (serve_requests E S qs s) w)"
proof -
  obtain answers s' where run: "serve_requests E S qs s = (answers, s')" by (metis surj_pair)
  from serve_requests_good[OF env started_good[OF fresh s] started_within[OF fresh env s] _ qs(1) server_steps.idle run] qs(2)
  have "list_all answered answers" "length answers = length qs" "server_steps E S s s'" by auto
  moreover from this(3) fresh s have "server_run E S config s'" unfolding server_run_def by blast
  ultimately show ?thesis using r by (auto simp: served_well_def served_fields run)
qed

text \<open>The start of both servers, from a fresh directory.\<close>

lemma serve_all_fresh:
  assumes fresh: "fresh_fs (control_config (sac_data_dir config)) fs" and env: "env_ok E (control_config (sac_data_dir config))"
    and bound: "re_bind R (sac_http_listen config) = None" "re_bind R (sac_grpc_listen config) = None"
    and search: "build_search R (sac_postgres_database_url config) w = (Ok search, w1)"
  obtains s where "serve_all E R config fs w = (Ok (s, search), w1)"
    "fst (broker_open E (control_config (sac_data_dir config)) fs) = Ok s"
proof -
  obtain s where s: "open_state E (sac_data_dir config) fs = Ok s"
    "fst (broker_open E (control_config (sac_data_dir config)) fs) = Ok s"
    using open_state_fresh[OF fresh env] by blast
  with that bound search show ?thesis by (simp add: serve_all_def serve_all_with_listeners_def)
qed

lemma serve_all_fails:
  assumes "\<not> (re_bind R (sac_http_listen config) = None \<and> re_bind R (sac_grpc_listen config) = None \<and>
      is_ok (fst (build_search R (sac_postgres_database_url config) w)))"
  obtains e where "serve_all E R config fs w = (Err e, w)" "\<And>c. e \<noteq> RuntimeOpenState c"
proof -
  obtain r w1 where b: "build_search R (sac_postgres_database_url config) w = (r, w1)" by (metis surj_pair)
  have same: "w1 = w" if "\<And>x. r \<noteq> Ok x" using build_search_migrates[OF b] that by (auto split: if_splits)
  have kind: "e \<noteq> RuntimeOpenState c" if "r = Err e" for e c
    using b that by (auto simp: build_search_def split: rres.splits prod.splits if_splits)
  consider (http) x where "re_bind R (sac_http_listen config) = Some x"
    | (grpc) x where "re_bind R (sac_http_listen config) = None" "re_bind R (sac_grpc_listen config) = Some x"
    | (db) e where "re_bind R (sac_http_listen config) = None" "re_bind R (sac_grpc_listen config) = None" "r = Err e"
    using assms b build_search_no_panic[of R "sac_postgres_database_url config" w]
    by (cases r; cases "re_bind R (sac_http_listen config)"; cases "re_bind R (sac_grpc_listen config)") auto
  then show ?thesis
  proof cases
    case http
    then show ?thesis using that[of "BindHttp (sac_http_listen config) x"] by (simp add: serve_all_def)
  next
    case grpc
    then show ?thesis using that[of "BindGrpc (sac_grpc_listen config) x"] by (simp add: serve_all_def)
  next
    case db
    with same have "w1 = w" by simp
    with db b kind that[of e] show ?thesis by (simp add: serve_all_def serve_all_with_listeners_def)
  qed
qed

lemma run_serve_all_cases:
  fixes D :: "'s daemon_env" and w :: "'s world"
  assumes fresh: "fresh_fs (control_config (sac_data_dir config)) fs" and env: "env_ok E (control_config (sac_data_dir config))"
    and s: "fst (broker_open E (control_config (sac_data_dir config)) fs) = Ok s"
  defines "starts \<equiv> re_bind (de_runtime D) (sac_http_listen config) = None \<and>
      re_bind (de_runtime D) (sac_grpc_listen config) = None \<and>
      is_ok (fst (build_search (de_runtime D) (sac_postgres_database_url config) w))"
  shows "starts \<Longrightarrow> \<exists>S w1. run_serve_all E D config v fs w =
      served (map_err MainRuntime (join_servers v)) (serve_requests E S (sv_requests v) s) w1"
    and "\<not> starts \<Longrightarrow> \<exists>e. run_serve_all E D config v fs w = ended (Err e) [] fs w"
proof -
  assume starts
  then obtain search w1 where b: "build_search (de_runtime D) (sac_postgres_database_url config) w = (Ok search, w1)"
    unfolding starts_def by (metis is_ok_iff prod.collapse)
  from \<open>starts\<close> serve_all_fresh[OF fresh env _ _ b] s have "serve_all E (de_runtime D) config fs w = (Ok (s, search), w1)"
    unfolding starts_def by (metis rres.inject(1))
  then have "run_serve_all E D config v fs w =
      served (map_err MainRuntime (join_servers v)) (serve_requests E (search_of D search) (sv_requests v) s) w1"
    by (simp add: run_serve_all_def)
  then show "\<exists>S w1. run_serve_all E D config v fs w =
      served (map_err MainRuntime (join_servers v)) (serve_requests E S (sv_requests v) s) w1" by blast
next
  assume "\<not> starts"
  with serve_all_fails[of "de_runtime D" config w E fs] obtain e where
    "serve_all E (de_runtime D) config fs w = (Err e, w)" "\<forall>c. e \<noteq> RuntimeOpenState c" unfolding starts_def by blast
  then show "\<exists>e. run_serve_all E D config v fs w = ended (Err e) [] fs w"
    by (cases e) (auto simp: run_serve_all_def)
qed

lemma ends_no_panic: "end_of f error \<noteq> Panicked" "map_err g (join_servers v) \<noteq> Panicked"
proof -
  show no: "end_of f error \<noteq> Panicked" for f :: "rstring \<Rightarrow> 'x" and error by (simp add: end_of_def split: option.split)
  show "map_err g (join_servers v) \<noteq> Panicked"
    using no[of HttpFailed "sv_http_end v"] no[of GrpcFailed "sv_grpc_end v"] by (simp add: join_servers_def Let_def)
qed

end
