(* ===== verification/Daemon_Properties.thy ===== *)
theory Daemon_Properties
  imports Daemon Server_Scenario
begin

text \<open>
  \<^verbatim>\<open>brokerd\<close> as it is started from the command line, and a run of it that serves both protocols.
\<close>

section \<open>A run\<close>




section \<open>The daemon serves\<close>



end
