(* ===== verification/Spec2Isabelle.thy ===== *)
theory Spec2Isabelle
  imports Domain_Properties Memory_Properties Storage_Properties Durable_Properties Server_Properties
    Postgres_Properties Daemon_Properties
begin

text \<open>
  FerrumQ, a message broker with topics, partitions and consumer groups: a verification library of
  its Rust crates under \<^verbatim>\<open>src/crates\<close>. This theory only collects the library; the properties C1 to C40
  stand in the theories whose names end in \<^verbatim>\<open>_Properties\<close>.

  \<^bold>\<open>The program.\<close> A producer publishes an envelope (\<^verbatim>\<open>msg-core\<close>) to a topic. The broker (\<^verbatim>\<open>msg-broker\<close>)
  picks a partition by key hash or round robin and appends the message to the log of that partition.
  A consumer group reads with leases: a delivered message is in flight until it is acknowledged,
  rejected, or its lease expires; it is then retried after a backoff, and given up into a dead-letter
  queue at the last permitted attempt. A publish with an idempotency key is stored once. There are two
  brokers: one in memory (\<^verbatim>\<open>memory.rs\<close>, \<^verbatim>\<open>state.rs\<close>) and the durable one (\<^verbatim>\<open>durable.rs\<close>), which keeps the
  messages in segment files (\<^verbatim>\<open>msg-storage\<close>) and every other change as a line of \<^verbatim>\<open>events.jsonl\<close>, and is
  rebuilt from these when it is opened. A process puts the durable broker behind a mutex and serves it
  over gRPC (\<^verbatim>\<open>msg-data-plane\<close>) and HTTP (\<^verbatim>\<open>msg-control-api\<close>), counting what it does (\<^verbatim>\<open>msg-observability\<close>);
  \<^verbatim>\<open>msg-runtime\<close> starts it. Offline, \<^verbatim>\<open>msg-postgres\<close> reads the same directory and projects it into tables.

  \<^bold>\<open>How Rust is read.\<close> A struct is a record and its getters are the selectors; an enum is a datatype; a
  newtype is a datatype of its own with the derived order. A function that can fail returns
  \<^verbatim>\<open>('e, 'a) rres\<close>: \<^verbatim>\<open>Ok\<close>, \<^verbatim>\<open>Err\<close>, or \<^verbatim>\<open>Panicked\<close> where an \<^verbatim>\<open>expect\<close> fails. A function with \<^verbatim>\<open>&mut self\<close>
  returns its result and the state it leaves, after an error too. Integers are words of their width: \<^verbatim>\<open>+\<close>
  wraps as in a release build and \<^verbatim>\<open>checked_add\<close> is written out. \<^verbatim>\<open>usize\<close> has 64 bits; lengths are natural
  numbers. A string is the list of its code points. \<^verbatim>\<open>BTreeMap\<close> is a sorted association list.

  \<^bold>\<open>Theories and what they model.\<close>
  \<^item> \<^verbatim>\<open>Prelude\<close>, \<^verbatim>\<open>Text\<close>, \<^verbatim>\<open>BTree\<close>: results, little-endian bytes, the string functions of the standard
    library, tree maps. \<^verbatim>\<open>BTree\<close> has the locale \<^verbatim>\<open>key_value_map\<close> (interpretation \<^verbatim>\<open>bt\<close>), \<^verbatim>\<open>Text\<close> the locale
    \<^verbatim>\<open>prefix_code\<close> of encodings that can be followed by anything and still be read.
  \<^item> \<^verbatim>\<open>Domain\<close>, \<^verbatim>\<open>Message\<close>, \<^verbatim>\<open>Delivery\<close>: \<^verbatim>\<open>msg-core\<close>. \<^verbatim>\<open>Domain\<close> has the locale \<^verbatim>\<open>text_validator\<close>, interpreted
    for the three families of validated strings.
  \<^item> \<^verbatim>\<open>Commands\<close>, \<^verbatim>\<open>Helpers\<close>, \<^verbatim>\<open>Idempotency\<close>, \<^verbatim>\<open>GroupState\<close>, \<^verbatim>\<open>Memory_Broker\<close>: \<^verbatim>\<open>commands.rs\<close>, \<^verbatim>\<open>delivery.rs\<close>,
    \<^verbatim>\<open>errors.rs\<close>, \<^verbatim>\<open>helpers.rs\<close>, \<^verbatim>\<open>idempotency.rs\<close>, \<^verbatim>\<open>state.rs\<close>, \<^verbatim>\<open>memory.rs\<close>, \<^verbatim>\<open>broker.rs\<close> of \<^verbatim>\<open>msg-broker\<close>.
  \<^item> \<^verbatim>\<open>Storage\<close>: \<^verbatim>\<open>msg-storage\<close>; frames, segments, the scan and repair of recovery, the append with its
    rollback. \<^verbatim>\<open>fs\<close> maps paths to contents. \<^verbatim>\<open>Storage_Sessions\<close> has the locale \<^verbatim>\<open>append_log\<close> (interpretation
    \<^verbatim>\<open>plog\<close>): a store whose failed append may or may not have happened and that keeps the rest.
  \<^item> \<^verbatim>\<open>Durable_State\<close>, \<^verbatim>\<open>Durable_Broker\<close>, \<^verbatim>\<open>Durable_Recovery\<close>: \<^verbatim>\<open>durable.rs\<close>; events and state log, the
    operations, the replay.
  \<^item> \<^verbatim>\<open>Observability\<close>, \<^verbatim>\<open>Broker_Process\<close>, \<^verbatim>\<open>Data_Plane\<close>, \<^verbatim>\<open>Control_Api\<close>, \<^verbatim>\<open>Servers\<close>, \<^verbatim>\<open>Runtime\<close>, \<^verbatim>\<open>Daemon\<close>:
    the counters and their exposition, the broker behind its mutex, the gRPC handlers, the HTTP routes, a
    server process and its requests, its start and the commands on the projection, and \<^verbatim>\<open>brokerd\<close> from its
    command line to its exit. \<^verbatim>\<open>Broker_Process\<close> has the locale
    \<^verbatim>\<open>process_order\<close> of actions that never panic and only move forward (interpretation \<^verbatim>\<open>proc\<close> in
    \<^verbatim>\<open>Broker_Runs\<close>), with which handlers are composed.
  \<^item> \<^verbatim>\<open>Postgres_Models\<close>, \<^verbatim>\<open>Postgres_Projection\<close>: \<^verbatim>\<open>msg-postgres\<close>; rows, configuration and migrations, the
    repository and the rebuild.

  \<^bold>\<open>What the lemmas show.\<close>
  \<^item> In memory: \<^verbatim>\<open>Memory_Invariants\<close> states the invariant and that each operation keeps it; \<^verbatim>\<open>Memory_Ops\<close>,
    \<^verbatim>\<open>_Retry\<close>, \<^verbatim>\<open>_Publish\<close>, \<^verbatim>\<open>_Consume\<close>, \<^verbatim>\<open>_DeadLetters\<close> say what each operation does on every branch;
    \<^verbatim>\<open>Memory_Reachable\<close> is the runs, \<^verbatim>\<open>Memory_PublishState\<close> what the logs determine of the state.
  \<^item> Storage: \<^verbatim>\<open>Storage_Scan\<close> (what a scan accepts), \<^verbatim>\<open>_Paths\<close> (file names), \<^verbatim>\<open>_Log\<close> (the relation between
    files and messages), \<^verbatim>\<open>_Append\<close>, \<^verbatim>\<open>_Recovery\<close> and \<^verbatim>\<open>_Sessions\<close> (any appends, faults and restarts).
  \<^item> Durable: \<^verbatim>\<open>Durable_Abs\<close> relates broker and files to an in-memory state; \<^verbatim>\<open>_Consume\<close>, \<^verbatim>\<open>_Settle\<close>,
    \<^verbatim>\<open>_Retry\<close>, \<^verbatim>\<open>_Maintenance\<close>, \<^verbatim>\<open>_Publish\<close> simulate one operation each and \<^verbatim>\<open>_Sessions\<close> a run; \<^verbatim>\<open>_StateLog\<close>,
    \<^verbatim>\<open>_Replay\<close>, \<^verbatim>\<open>_Rebuild\<close>, \<^verbatim>\<open>_Restart\<close>, \<^verbatim>\<open>_Release\<close> show that opening the directory gives the broker back.
  \<^item> Servers: \<^verbatim>\<open>Broker_Runs\<close>, \<^verbatim>\<open>Servers\<close> and \<^verbatim>\<open>Server_Messages\<close> carry this to requests: each is answered,
    and what was published or created is served later. \<^verbatim>\<open>Server_Delivery\<close> shows that a message that waits
    for a group reaches it, once; \<^verbatim>\<open>Server_Ack\<close> that an acknowledged one does not come back; \<^verbatim>\<open>Server_Restart\<close> that a process which takes in topics and messages can
    crash between any requests, with a line of the state log written in part, and starts again the same;
    \<^verbatim>\<open>Server_Room\<close> that a request adds at most one message, so that \<^verbatim>\<open>brokerd\<close> answers up to \<^verbatim>\<open>2^64 - 1\<close>
    requests without a hypothesis on the room left.
  \<^item> Projection: \<^verbatim>\<open>Postgres_Rebuild\<close> shows that the tables become those of the logs and stay so.
  \<^item> \<^verbatim>\<open>Memory_Properties\<close>, \<^verbatim>\<open>Durable_Scenario\<close>, \<^verbatim>\<open>Server_Scenario\<close> and \<^verbatim>\<open>Postgres_Properties\<close> hold the concrete
    runs on which the witnesses are evaluated.

  \<^bold>\<open>Parameters and hypotheses.\<close> SHA-256, CRC-32, \<^verbatim>\<open>serde_json\<close>, \<^verbatim>\<open>hex\<close>, URL parsing, the clock, the SQL
  statements and directory listings are arguments. \<^verbatim>\<open>codec_ok\<close> and \<^verbatim>\<open>event_codec_ok\<close> say that what was
  encoded decodes to itself and that a line of JSON has no newline and is not empty; \<^verbatim>\<open>store_ok\<close> that a
  failed statement changes nothing and a successful one does what its SQL says. Write calls fail as
  \<^verbatim>\<open>io_outcome\<close> and \<^verbatim>\<open>state_io\<close> tell, after any number of bytes; \<^verbatim>\<open>io_recovers\<close> says that the rollback of a
  failed append succeeds. \<^verbatim>\<open>clean_step\<close> asks that a state event is written in full or not at all and that a
  new delivery id, which is a hash, is not that of a pending delivery. \<^verbatim>\<open>logs_fit\<close>, \<^verbatim>\<open>db_has_room\<close> and
  \<^verbatim>\<open>proc_room\<close> keep the number of messages below \<^verbatim>\<open>2^64\<close>.

  \<^bold>\<open>Bounds and fuel.\<close> \<^verbatim>\<open>advance_cursor_loop\<close> runs with one step more than there are acknowledged offsets,
  which \<^verbatim>\<open>mark_acked_terminates\<close> shows is enough. The scan of a segment recurses on the remaining bytes.
  Every other loop is structural.

  \<^bold>\<open>Not modelled.\<close> Logging and tracing; the counters of \<^verbatim>\<open>msg-storage\<close>; the text of JSON; failing reads,
  failing directory calls and a failing truncation during repair; the sockets and protocols of
  \<^verbatim>\<open>tokio\<close>, \<^verbatim>\<open>axum\<close> and \<^verbatim>\<open>tonic\<close> (which requests arrive, and how a server ends, are inputs of \<^verbatim>\<open>Daemon\<close>) and the
  parsing of the command line (\<^verbatim>\<open>clap\<close>); the build without the feature \<^verbatim>\<open>postgres\<close>; the SQL engine; code generated
  from the proto file; the test harness; the TypeScript packages. Requests are served one at a time: a
  handler holds the lock for the whole of its use of the broker.
\<close>

end
